(* ===== verification/Prelude.thy ===== *)
theory Prelude
  imports Main "HOL-Library.Word" "HOL-Library.Monad_Syntax"
begin

text \<open>
  Shared vocabulary of the development: the C integer types of
  \<^verbatim>\<open>src/src/freelib/kstdint.h\<close> as words, C strings as byte lists without their
  terminator, the \<^verbatim>\<open>for\<close> loops that search a table, little-endian decoding of byte
  buffers (the \<^verbatim>\<open>le16\<close>, \<^verbatim>\<open>le32\<close>, \<^verbatim>\<open>le64\<close> helpers every
  file-system source repeats), and the log of port writes.
\<close>

unbundle bit_operations_syntax

named_theorems kernel_defs \<open>definitions unfolded together in operation proofs\<close>
named_theorems frame_simps \<open>what an operation leaves unchanged\<close>

type_synonym u8 = "8 word"
type_synonym u16 = "16 word"
type_synonym u32 = "32 word"
type_synonym u64 = "64 word"

type_synonym bytes = "u8 list"

section \<open>Searching a table with a counting loop\<close>

text \<open>\<open>first_index P xs\<close> is the loop
  \<^verbatim>\<open>for (i = 0; i < n; i++) if (P(xs[i])) return i;\<close>, None when it falls through.\<close>

fun first_index :: "('a \<Rightarrow> bool) \<Rightarrow> 'a list \<Rightarrow> nat option" where
  "first_index P [] = None"
| "first_index P (x # xs) = (if P x then Some 0 else map_option Suc (first_index P xs))"

lemma first_index_None: "first_index P xs = None \<longleftrightarrow> (\<forall>x \<in> set xs. \<not> P x)"
  by (induction xs) auto

lemma first_index_Some:
  "first_index P xs = Some i \<longleftrightarrow> i < length xs \<and> P (xs ! i) \<and> (\<forall>j < i. \<not> P (xs ! j))"
proof (induction xs arbitrary: i)
  case Nil
  then show ?case by simp
next
  case (Cons x xs)
  show ?case
    using Cons.IH by (cases i) (auto simp: less_Suc_eq_0_disj)
qed

lemma first_index_bound: "first_index P xs = Some i \<Longrightarrow> i < length xs"
  by (simp add: first_index_Some)

lemma first_index_holds: "first_index P xs = Some i \<Longrightarrow> P (xs ! i)"
  by (simp add: first_index_Some)

text \<open>An update that keeps a field of the replaced element keeps it at every index.\<close>

lemma nth_list_update_field:
  "i < length xs \<Longrightarrow> f v = f (xs ! c) \<Longrightarrow> f (xs[c := v] ! i) = f (xs ! i)"
  by (cases "i = c") auto

section \<open>C strings\<close>

text \<open>The string stored in a character array: the bytes before the first zero.\<close>

definition cstr :: "bytes \<Rightarrow> bytes" where
  "cstr a = takeWhile (\<lambda>b. b \<noteq> 0) a"

text \<open>The comparison loop many source files repeat, on strings without their terminators.\<close>

fun streq :: "bytes \<Rightarrow> bytes \<Rightarrow> bool" where
  "streq (a # as) (b # bs) \<longleftrightarrow> a = b \<and> streq as bs"
| "streq [] [] \<longleftrightarrow> True"
| "streq _ _ \<longleftrightarrow> False"

lemma streq_eq: "streq a b \<longleftrightarrow> a = b"
  by (induction a b rule: streq.induct) auto

section \<open>Little-endian decoding\<close>

text \<open>The byte pointer \<^verbatim>\<open>p + off\<close> of the source is the pair of a buffer and an
  offset.\<close>

definition le16 :: "bytes \<Rightarrow> nat \<Rightarrow> u16" where
  "le16 p off = ucast (p ! off) OR push_bit 8 (ucast (p ! (off + 1)))"

definition le32 :: "bytes \<Rightarrow> nat \<Rightarrow> u32" where
  "le32 p off = ucast (p ! off) OR push_bit 8 (ucast (p ! (off + 1)))
     OR push_bit 16 (ucast (p ! (off + 2))) OR push_bit 24 (ucast (p ! (off + 3)))"

definition le64 :: "bytes \<Rightarrow> nat \<Rightarrow> u64" where
  "le64 p off = ucast (le32 p off) OR push_bit 32 (ucast (le32 p (off + 4)))"

lemma unat_u32: "unat (x :: u32) < 2 ^ 32"
  using unsigned_less [of x] by simp

lemma unat_u16: "unat (x :: u16) < 2 ^ 16"
  using unsigned_less [of x] by simp

lemma unat_u8: "unat (x :: u8) < 2 ^ 8"
  using unsigned_less [of x] by simp

lemma unat_u64: "unat (x :: u64) < 2 ^ 64"
  using unsigned_less [of x] by simp

lemma unat_offset:
  "unat (b - a) + i < 2 ^ 64 \<Longrightarrow> unat (b + of_nat i - (a :: u64)) = unat (b - a) + i"
proof -
  assume "unat (b - a) + i < 2 ^ 64"
  moreover have "b + of_nat i - a = of_nat (unat (b - a) + i)" by (simp add: algebra_simps)
  ultimately show ?thesis by (simp only: unat_of_nat) simp
qed

lemma unat_between:
  "unat (x - a :: u64) < n \<Longrightarrow> unat a + n \<le> 2 ^ 64 \<Longrightarrow> unat x \<in> {unat a ..< unat a + n}"
proof -
  assume "unat (x - a) < n" "unat a + n \<le> 2 ^ 64"
  then have "unat (a + of_nat (unat (x - a))) = unat a + unat (x - a)"
    using unat_offset [of a 0 "unat (x - a)"] by simp
  then show ?thesis using \<open>unat (x - a) < n\<close> by simp
qed

text \<open>Clearing the low bits of a value rounds it down.\<close>

lemma mask_clear: "(of_nat (unat v div 2 ^ n * 2 ^ n) :: 'a::len word) = v AND NOT (mask n)"
proof -
  have "unat (drop_bit n v) = unat v div 2 ^ n" by (subst unat_drop_bit_eq) (rule drop_bit_eq_div)
  then have "drop_bit n v = of_nat (unat v div 2 ^ n)" by (metis of_nat_unat ucast_id)
  then have "of_nat (unat v div 2 ^ n * 2 ^ n) = push_bit n (drop_bit n v)"
    by (simp add: push_bit_eq_mult)
  also have "\<dots> = v AND NOT (mask n)" by (simp add: bit_eq_iff bit_simps) auto
  finally show ?thesis .
qed

section \<open>Port output\<close>

text \<open>\<^verbatim>\<open>outb\<close> of \<^verbatim>\<open>src/src/drivers/bus/io.h\<close>: the value reaches the device, which
  the model sees as a log of port writes, oldest first.\<close>

type_synonym port_log = "(u16 \<times> u8) list"

definition outb :: "u16 \<Rightarrow> u8 \<Rightarrow> port_log \<Rightarrow> port_log" where
  "outb port value log = log @ [(port, value)]"

end
