(* ===== verification/Pic.thy ===== *)
theory Pic
  imports Prelude
begin

text \<open>
  The interrupt controller and the timer: \<^verbatim>\<open>src/src/cpu/pic.c\<close> and
  \<^verbatim>\<open>src/src/cpu/pit.c\<close>. Both only write ports; a call is modelled by the port writes
  it appends to the log.
\<close>

definition pic_init :: "port_log \<Rightarrow> port_log" where
  "pic_init log =
     (let log = outb 0x20 (0x10 OR 0x01) log;
          log = outb 0xA0 (0x10 OR 0x01) log;
          log = outb 0x21 32 log;
          log = outb 0xA1 40 log;
          log = outb 0x21 4 log;
          log = outb 0xA1 2 log;
          log = outb 0x21 0x01 log;
          log = outb 0xA1 0x01 log;
          log = outb 0x21 0xFE log;
          log = outb 0xA1 0xFF log
      in log)"

definition pic_master_eoi :: "port_log \<Rightarrow> port_log" where
  "pic_master_eoi log = outb 0x20 0x20 log"

definition pit_divisor :: "u32 \<Rightarrow> u32" where
  "pit_divisor hz =
     (let hz = (if hz = 0 then 100 else hz);
          divisor = 1193182 div hz;
          divisor = (if divisor > 0xFFFF then 0xFFFF else divisor)
      in if divisor < 2 then 2 else divisor)"

definition pit_init_hz :: "u32 \<Rightarrow> port_log \<Rightarrow> port_log" where
  "pit_init_hz hz log =
     (let divisor = pit_divisor hz;
          log = outb 0x43 0x36 log;
          log = outb 0x40 (ucast (divisor AND 0xFF)) log
      in outb 0x40 (ucast (drop_bit 8 divisor AND 0xFF)) log)"

lemma pit_divisor_range: "2 \<le> pit_divisor hz \<and> pit_divisor hz \<le> 0xFFFF"
  by (auto simp: pit_divisor_def Let_def not_less)

end
