(* ===== verification/Sched.thy ===== *)
theory Sched
  imports Pic
begin

text \<open>
  The process table and the timer-driven scheduler of \<^verbatim>\<open>src/src/cpu/sched.c\<close>.
  The static variables of the file are the fields of the record \<open>sched\<close>; every function of
  the file is a function on it. C \<^verbatim>\<open>int\<close> values (slots, pids, signals) are \<open>int\<close>:
  the invariant \<open>sched_inv\<close> bounds every one the code computes, so none overflows.
\<close>

section \<open>State\<close>

definition FRAME_QWORDS :: nat where "FRAME_QWORDS = 20"

definition PROC_MAX :: nat where "PROC_MAX = 2000"

datatype proc_state = PROC_UNUSED | PROC_RUNNABLE | PROC_ZOMBIE

definition SIGINT :: int where "SIGINT = 2"

definition SIGKILL :: int where "SIGKILL = 9"

definition SIGSEGV :: int where "SIGSEGV = 11"

record Process =
  pstate :: proc_state
  pid :: int
  signal :: int
  vruntime :: u64
  frame :: "u64 list"

record sched =
  user_preempt_armed :: bool
  procs :: "Process list"
  current_proc :: int
  next_pid :: int
  sched_in_idle :: bool
  sched_jiffies :: u64
  ports :: port_log

section \<open>Operations\<close>

definition memcpy64 :: "u64 list \<Rightarrow> u64 list \<Rightarrow> nat \<Rightarrow> u64 list" where
  "memcpy64 d s n = fold (\<lambda>i d. d[i := s ! i]) [0..<n] d"

definition unused_process :: Process where
  "unused_process = \<lparr>pstate = PROC_UNUSED, pid = 0, signal = 0, vruntime = 0,
     frame = replicate FRAME_QWORDS 0\<rparr>"

definition sched_init :: "sched \<Rightarrow> sched" where
  "sched_init s = s\<lparr>user_preempt_armed := False, sched_in_idle := False,
     current_proc := -1, next_pid := 1, procs := replicate PROC_MAX unused_process\<rparr>"

definition sched_arm_user_preempt :: "sched \<Rightarrow> sched" where
  "sched_arm_user_preempt s = s\<lparr>user_preempt_armed := True\<rparr>"

definition sched_disarm_user_preempt :: "sched \<Rightarrow> sched" where
  "sched_disarm_user_preempt s = s\<lparr>user_preempt_armed := False, sched_in_idle := False\<rparr>"

definition sched_mark_user_live :: "sched \<Rightarrow> sched" where
  "sched_mark_user_live s = s\<lparr>sched_in_idle := False\<rparr>"

definition alloc_proc :: "sched \<Rightarrow> int" where
  "alloc_proc s = (case first_index (\<lambda>p. pstate p = PROC_UNUSED) (procs s) of
     None \<Rightarrow> -1 | Some i \<Rightarrow> int i)"

definition user_frame :: "u64 \<Rightarrow> u64 \<Rightarrow> u64 \<Rightarrow> u64 list" where
  "user_frame rip flags rsp =
     (replicate FRAME_QWORDS 0)[15 := rip, 16 := 0x23, 17 := flags, 18 := rsp, 19 := 0x1B]"

definition new_user_process :: "sched \<Rightarrow> u64 \<Rightarrow> u64 \<Rightarrow> Process" where
  "new_user_process s entry user_rsp =
     \<lparr>pstate = PROC_RUNNABLE, pid = next_pid s, signal = 0, vruntime = 0,
      frame = user_frame entry 0x202 user_rsp\<rparr>"

definition sched_create_user :: "sched \<Rightarrow> u64 \<Rightarrow> u64 \<Rightarrow> int \<times> sched" where
  "sched_create_user s entry user_rsp =
     (let slot = alloc_proc s
      in if slot < 0 then (-1, s)
         else let p = new_user_process s entry user_rsp;
                  s = s\<lparr>procs := (procs s)[nat slot := p], next_pid := next_pid s + 1\<rparr>;
                  s = (if current_proc s < 0 then s\<lparr>current_proc := slot\<rparr> else s)
              in (pid p, s))"

definition fork_child :: "sched \<Rightarrow> u64 \<Rightarrow> u64 \<Rightarrow> u64 \<Rightarrow> Process" where
  "fork_child s user_rip user_rsp user_flags =
     \<lparr>pstate = PROC_RUNNABLE, pid = next_pid s, signal = 0,
      vruntime = vruntime (procs s ! nat (current_proc s)),
      frame = (user_frame user_rip (if user_flags \<noteq> 0 then user_flags else 0x202) user_rsp)
        [14 := 0]\<rparr>"

definition sched_fork_current :: "sched \<Rightarrow> u64 \<Rightarrow> u64 \<Rightarrow> u64 \<Rightarrow> int \<times> sched" where
  "sched_fork_current s user_rip user_rsp user_flags =
     (if current_proc s < 0 \<or> pstate (procs s ! nat (current_proc s)) \<noteq> PROC_RUNNABLE
      then (-1, s)
      else let slot = alloc_proc s
           in if slot < 0 then (-1, s)
              else let child = fork_child s user_rip user_rsp user_flags
                   in (pid child,
                       s\<lparr>procs := (procs s)[nat slot := child], next_pid := next_pid s + 1\<rparr>))"

definition fatal_signal :: "int \<Rightarrow> bool" where
  "fatal_signal sig \<longleftrightarrow> sig = SIGKILL \<or> sig = SIGSEGV \<or> sig = SIGINT"

definition sched_kill :: "sched \<Rightarrow> int \<Rightarrow> int \<Rightarrow> int \<times> sched" where
  "sched_kill s target sig =
     (case first_index (\<lambda>p. pstate p = PROC_RUNNABLE \<and> pid p = target) (procs s) of
        None \<Rightarrow> (-1, s)
      | Some i \<Rightarrow>
          let p = (procs s ! i)\<lparr>signal := sig\<rparr>;
              p = (if fatal_signal sig then p\<lparr>pstate := PROC_ZOMBIE\<rparr> else p);
              s = s\<lparr>procs := (procs s)[i := p]\<rparr>;
              s = (if int i = current_proc s then s\<lparr>current_proc := -1\<rparr> else s)
          in (0, s))"

definition sched_current_pid :: "sched \<Rightarrow> int" where
  "sched_current_pid s =
     (if current_proc s < 0 \<or> pstate (procs s ! nat (current_proc s)) \<noteq> PROC_RUNNABLE then -1
      else pid (procs s ! nat (current_proc s)))"

definition sched_runnable_count :: "sched \<Rightarrow> int" where
  "sched_runnable_count s =
     fold (\<lambda>p n. if pstate p = PROC_RUNNABLE then n + 1 else n) (procs s) 0"

definition rr_start :: "sched \<Rightarrow> nat" where
  "rr_start s = (if current_proc s < 0 then 0 else nat (current_proc s + 1))"

definition choose_rr :: "sched \<Rightarrow> int" where
  "choose_rr s =
     (case List.find (\<lambda>idx. pstate (procs s ! idx) = PROC_RUNNABLE)
             (map (\<lambda>n. (rr_start s + n) mod PROC_MAX) [0..<PROC_MAX]) of
        None \<Rightarrow> -1 | Some idx \<Rightarrow> int idx)"

definition cfs_better :: "Process list \<Rightarrow> nat \<Rightarrow> int \<Rightarrow> int" where
  "cfs_better ps i best =
     (if pstate (ps ! i) \<noteq> PROC_RUNNABLE then best
      else if best < 0 \<or> vruntime (ps ! i) < vruntime (ps ! nat best) then int i else best)"

definition choose_cfs :: "sched \<Rightarrow> int" where
  "choose_cfs s = fold (cfs_better (procs s)) [0..<PROC_MAX] (-1)"

text \<open>\<^verbatim>\<open>CONFIG_SCHED_CFS\<close> is not defined in \<^verbatim>\<open>config.h\<close>, so \<^verbatim>\<open>choose_next\<close>
  compiles to \<^verbatim>\<open>choose_rr\<close>.\<close>

definition choose_next :: "sched \<Rightarrow> int" where
  "choose_next s = choose_rr s"

text \<open>The interrupt returns through the frame it was entered with, or through the saved frame
  of a slot.\<close>

datatype iret_frame = Interrupted | Saved nat

definition save_current :: "sched \<Rightarrow> u64 list \<Rightarrow> sched" where
  "save_current s sp =
     (if current_proc s \<ge> 0 \<and> pstate (procs s ! nat (current_proc s)) = PROC_RUNNABLE
      then let c = nat (current_proc s); p = procs s ! c
           in s\<lparr>procs := (procs s)[c := p\<lparr>frame := memcpy64 (frame p) sp FRAME_QWORDS,
                                       vruntime := vruntime p + 1\<rparr>]\<rparr>
      else s)"

definition irq_timer_dispatch :: "sched \<Rightarrow> u64 list \<Rightarrow> iret_frame \<times> sched" where
  "irq_timer_dispatch s sp =
     (let s = s\<lparr>ports := pic_master_eoi (ports s)\<rparr>;
          s = s\<lparr>sched_jiffies := sched_jiffies s + 1\<rparr>
      in if \<not> user_preempt_armed s then (Interrupted, s)
         else let cs = sp ! 16; from_user = (cs AND 3 = 3)
         in if \<not> from_user then (Interrupted, s)
         else let s = save_current s sp;
                  nxt = choose_next s
         in if nxt < 0 then (Interrupted, s)
         else (Saved (nat nxt), s\<lparr>current_proc := nxt\<rparr>))"

section \<open>The table invariant\<close>

text \<open>Slots are handed out in order and never given back: the slots below
  \<open>next_pid - 1\<close> are in use, slot \<open>i\<close> by the process with pid \<open>i + 1\<close>, and the slots
  above are unused. Hence every pid is unique and \<open>next_pid\<close> stays below
  \<open>PROC_MAX + 2\<close>.\<close>

definition slot_ok :: "int \<Rightarrow> nat \<Rightarrow> Process \<Rightarrow> bool" where
  "slot_ok np i p \<longleftrightarrow> length (frame p) = FRAME_QWORDS \<and>
     (if int i < np - 1 then pstate p \<noteq> PROC_UNUSED \<and> pid p = int i + 1
      else pstate p = PROC_UNUSED)"

definition sched_inv :: "sched \<Rightarrow> bool" where
  "sched_inv s \<longleftrightarrow> length (procs s) = PROC_MAX \<and>
     1 \<le> next_pid s \<and> next_pid s \<le> int PROC_MAX + 1 \<and>
     -1 \<le> current_proc s \<and> current_proc s < next_pid s - 1 \<and>
     (\<forall>i < PROC_MAX. slot_ok (next_pid s) i (procs s ! i))"

lemma sched_invD:
  assumes "sched_inv s"
  shows "length (procs s) = PROC_MAX" and "1 \<le> next_pid s" and "next_pid s \<le> int PROC_MAX + 1"
    and "-1 \<le> current_proc s" and "current_proc s < next_pid s - 1"
    and "i < PROC_MAX \<Longrightarrow> slot_ok (next_pid s) i (procs s ! i)"
  using assms by (auto simp: sched_inv_def)

lemma length_memcpy64 [simp]: "length (memcpy64 d s n) = length d"
  unfolding memcpy64_def by (induction n) auto

lemma memcpy64_nth:
  "n \<le> length d \<Longrightarrow> i < length d \<Longrightarrow> memcpy64 d s n ! i = (if i < n then s ! i else d ! i)"
proof (induction n)
  case 0
  then show ?case by (simp add: memcpy64_def)
next
  case (Suc n)
  have "memcpy64 d s (Suc n) = (memcpy64 d s n)[n := s ! n]"
    by (simp add: memcpy64_def)
  with Suc show ?case by (auto simp: nth_list_update less_Suc_eq)
qed

lemma memcpy64_all: "length d = n \<Longrightarrow> length s = n \<Longrightarrow> memcpy64 d s n = s"
  by (rule nth_equalityI) (simp_all add: memcpy64_nth)

lemma length_user_frame [simp]: "length (user_frame rip flags rsp) = FRAME_QWORDS"
  by (simp add: user_frame_def)

lemma new_process_fields [simp]:
  "pid (new_user_process s entry rsp) = next_pid s"
  "pstate (new_user_process s entry rsp) = PROC_RUNNABLE"
  "length (frame (new_user_process s entry rsp)) = FRAME_QWORDS"
  "pid (fork_child s rip rsp flags) = next_pid s"
  "pstate (fork_child s rip rsp flags) = PROC_RUNNABLE"
  "length (frame (fork_child s rip rsp flags)) = FRAME_QWORDS"
  by (simp_all add: new_user_process_def fork_child_def)

lemma alloc_proc_inv:
  assumes inv: "sched_inv s"
  shows "alloc_proc s = (if next_pid s \<le> int PROC_MAX then next_pid s - 1 else -1)"
proof (cases "next_pid s \<le> int PROC_MAX")
  case True
  define k where "k = nat (next_pid s - 1)"
  have k: "int k = next_pid s - 1" "k < PROC_MAX"
    using True sched_invD(2) [OF inv] by (auto simp: k_def)
  have "first_index (\<lambda>p. pstate p = PROC_UNUSED) (procs s) = Some k"
    unfolding first_index_Some
  proof (intro conjI allI impI)
    show "k < length (procs s)" using k sched_invD(1) [OF inv] by simp
    show "pstate (procs s ! k) = PROC_UNUSED"
      using sched_invD(6) [OF inv k(2)] k(1) by (simp add: slot_ok_def)
    show "pstate (procs s ! j) \<noteq> PROC_UNUSED" if "j < k" for j
      using sched_invD(6) [OF inv, of j] that k by (simp add: slot_ok_def)
  qed
  with True k show ?thesis by (simp add: alloc_proc_def)
next
  case False
  then have np: "next_pid s - 1 = int PROC_MAX" using sched_invD(3) [OF inv] by simp
  have "first_index (\<lambda>p. pstate p = PROC_UNUSED) (procs s) = None"
    unfolding first_index_None
  proof
    fix p assume "p \<in> set (procs s)"
    then obtain i where i: "i < PROC_MAX" "p = procs s ! i"
      using sched_invD(1) [OF inv] by (auto simp: in_set_conv_nth)
    then show "pstate p \<noteq> PROC_UNUSED"
      using sched_invD(6) [OF inv i(1)] np by (simp add: slot_ok_def)
  qed
  with False show ?thesis by (simp add: alloc_proc_def)
qed

text \<open>Writing an in-use process into slot \<open>next_pid - 1\<close> is how the table grows.\<close>

lemma sched_inv_grow:
  assumes inv: "sched_inv s" and room: "next_pid s \<le> int PROC_MAX"
    and p: "pid p = next_pid s" "pstate p \<noteq> PROC_UNUSED" "length (frame p) = FRAME_QWORDS"
    and cur: "-1 \<le> c" "c < next_pid s"
  shows "sched_inv (s\<lparr>procs := (procs s)[nat (next_pid s - 1) := p],
           next_pid := next_pid s + 1, current_proc := c\<rparr>)"
  unfolding sched_inv_def
proof (intro conjI allI impI)
  fix i assume i: "i < PROC_MAX"
  show "slot_ok (next_pid (s\<lparr>procs := (procs s)[nat (next_pid s - 1) := p],
           next_pid := next_pid s + 1, current_proc := c\<rparr>)) i
         (procs (s\<lparr>procs := (procs s)[nat (next_pid s - 1) := p],
           next_pid := next_pid s + 1, current_proc := c\<rparr>) ! i)"
    using sched_invD(1,2) [OF inv] sched_invD(6) [OF inv i] p i
    by (cases "int i = next_pid s - 1") (auto simp: slot_ok_def nth_list_update)
qed (use sched_invD [OF inv] room cur in auto)

text \<open>Replacing a process in place keeps the table as long as its pid, its use and the length
  of its frame stay.\<close>

lemma sched_inv_update:
  assumes inv: "sched_inv s" and i: "i < PROC_MAX"
    and p: "pid p = pid (procs s ! i)" "length (frame p) = FRAME_QWORDS"
      "pstate p = PROC_UNUSED \<longleftrightarrow> pstate (procs s ! i) = PROC_UNUSED"
  shows "sched_inv (s\<lparr>procs := (procs s)[i := p]\<rparr>)"
proof -
  have "slot_ok (next_pid s) i p"
    using sched_invD(6) [OF inv i] p by (simp add: slot_ok_def)
  then show ?thesis
    using inv i by (simp add: sched_inv_def nth_list_update)
qed

lemma sched_inv_other_fields [simp]:
  "sched_inv (s\<lparr>user_preempt_armed := a\<rparr>) = sched_inv s"
  "sched_inv (s\<lparr>sched_in_idle := b\<rparr>) = sched_inv s"
  "sched_inv (s\<lparr>sched_jiffies := j\<rparr>) = sched_inv s"
  "sched_inv (s\<lparr>ports := q\<rparr>) = sched_inv s"
  by (simp_all add: sched_inv_def)

lemma sched_inv_current:
  "sched_inv s \<Longrightarrow> -1 \<le> c \<Longrightarrow> c < next_pid s - 1 \<Longrightarrow> sched_inv (s\<lparr>current_proc := c\<rparr>)"
  by (simp add: sched_inv_def)

section \<open>Every operation keeps the invariant\<close>

lemma sched_init_inv: "sched_inv (sched_init s)"
  by (simp add: sched_inv_def sched_init_def slot_ok_def unused_process_def)

lemma sched_create_user_inv:
  assumes inv: "sched_inv s"
  shows "sched_inv (snd (sched_create_user s entry rsp))"
proof (cases "next_pid s \<le> int PROC_MAX")
  case True
  have "sched_inv (s\<lparr>procs := (procs s)[nat (next_pid s - 1) := p], next_pid := next_pid s + 1,
          current_proc := if current_proc s < 0 then next_pid s - 1 else current_proc s\<rparr>)"
    if "pid p = next_pid s" "pstate p \<noteq> PROC_UNUSED" "length (frame p) = FRAME_QWORDS" for p
    by (rule sched_inv_grow [OF inv True that]) (use sched_invD [OF inv] in auto)
  moreover have "\<not> next_pid s - 1 < 0" using sched_invD(2) [OF inv] by simp
  ultimately show ?thesis
    using True by (cases "current_proc s < 0")
      (simp_all add: sched_create_user_def alloc_proc_inv [OF inv] Let_def)
next
  case False
  with inv show ?thesis by (simp add: sched_create_user_def alloc_proc_inv [OF inv])
qed

lemma sched_fork_current_inv:
  assumes inv: "sched_inv s"
  shows "sched_inv (snd (sched_fork_current s rip rsp flags))"
proof (cases "next_pid s \<le> int PROC_MAX")
  case True
  have "sched_inv (s\<lparr>procs := (procs s)[nat (next_pid s - 1) := p], next_pid := next_pid s + 1,
          current_proc := current_proc s\<rparr>)"
    if "pid p = next_pid s" "pstate p \<noteq> PROC_UNUSED" "length (frame p) = FRAME_QWORDS" for p
    by (rule sched_inv_grow [OF inv True that]) (use sched_invD [OF inv] in auto)
  then show ?thesis
    using inv True by (simp add: sched_fork_current_def alloc_proc_inv [OF inv] Let_def)
next
  case False
  with inv show ?thesis by (simp add: sched_fork_current_def alloc_proc_inv [OF inv])
qed

lemma sched_kill_inv:
  assumes inv: "sched_inv s"
  shows "sched_inv (snd (sched_kill s target sig))"
proof (cases "first_index (\<lambda>p. pstate p = PROC_RUNNABLE \<and> pid p = target) (procs s)")
  case None
  with inv show ?thesis by (simp add: sched_kill_def)
next
  case (Some i)
  then have i: "i < PROC_MAX" and run: "pstate (procs s ! i) = PROC_RUNNABLE"
    using sched_invD(1) [OF inv] by (auto simp: first_index_Some)
  have upd: "sched_inv (s\<lparr>procs := (procs s)[i := p]\<rparr>)"
    if "pid p = pid (procs s ! i)" "frame p = frame (procs s ! i)" "pstate p \<noteq> PROC_UNUSED" for p
    by (rule sched_inv_update [OF inv i])
       (use that run sched_invD(6) [OF inv i] in \<open>auto simp: slot_ok_def\<close>)
  show ?thesis
    using Some run by (auto simp: sched_kill_def Let_def intro!: upd sched_inv_current)
      (use sched_invD [OF inv] in auto)
qed

lemma choose_rr_runnable:
  assumes "length (procs s) = PROC_MAX" and "choose_rr s = c" and "0 \<le> c"
  shows "nat c < PROC_MAX" and "pstate (procs s ! nat c) = PROC_RUNNABLE"
  using assms
  by (auto simp: choose_rr_def find_Some_iff PROC_MAX_def split: option.splits)

lemma save_current_inv:
  assumes inv: "sched_inv s"
  shows "sched_inv (save_current s sp)"
proof -
  have c: "nat (current_proc s) < PROC_MAX" using sched_invD(2-5) [OF inv] PROC_MAX_def by auto
  show ?thesis
    using inv sched_invD(6) [OF inv c]
    by (auto simp: save_current_def Let_def slot_ok_def intro!: sched_inv_update [OF inv c])
qed

lemma save_current_fields [simp]:
  "current_proc (save_current s sp) = current_proc s"
  "next_pid (save_current s sp) = next_pid s"
  "user_preempt_armed (save_current s sp) = user_preempt_armed s"
  "length (procs (save_current s sp)) = length (procs s)"
  by (simp_all add: save_current_def Let_def)

lemma save_current_pstate [simp]:
  "i < length (procs s) \<Longrightarrow> pstate (procs (save_current s sp) ! i) = pstate (procs s ! i)"
  by (simp add: save_current_def Let_def nth_list_update_field)

lemma runnable_below_next_pid:
  "sched_inv s \<Longrightarrow> i < PROC_MAX \<Longrightarrow> pstate (procs s ! i) \<noteq> PROC_UNUSED \<Longrightarrow> int i < next_pid s - 1"
  using sched_invD(6) [of s i] by (auto simp: slot_ok_def split: if_splits)

lemma irq_timer_dispatch_inv:
  assumes inv: "sched_inv s"
  shows "sched_inv (snd (irq_timer_dispatch s sp))"
proof -
  define s1 where "s1 = save_current (s\<lparr>ports := pic_master_eoi (ports s),
     sched_jiffies := sched_jiffies s + 1\<rparr>) sp"
  have inv1: "sched_inv s1" unfolding s1_def by (rule save_current_inv) (simp add: inv)
  have "sched_inv (s1\<lparr>current_proc := choose_next s1\<rparr>)" if "0 \<le> choose_next s1"
    using choose_rr_runnable [OF sched_invD(1) [OF inv1], of "choose_rr s1"] that
      runnable_below_next_pid [OF inv1, of "nat (choose_rr s1)"]
    by (intro sched_inv_current [OF inv1]) (auto simp: choose_next_def)
  with inv1 inv show ?thesis
    by (auto simp: irq_timer_dispatch_def Let_def s1_def)
qed

lemma sched_flag_ops_inv:
  assumes "sched_inv s"
  shows "sched_inv (sched_arm_user_preempt s)" and "sched_inv (sched_disarm_user_preempt s)"
    and "sched_inv (sched_mark_user_live s)"
  using assms
  by (simp_all add: sched_arm_user_preempt_def sched_disarm_user_preempt_def
      sched_mark_user_live_def)

lemmas sched_ops_inv = sched_create_user_inv sched_fork_current_inv sched_kill_inv
  irq_timer_dispatch_inv sched_flag_ops_inv

section \<open>The scheduler as a state machine\<close>

inductive sched_step :: "sched \<Rightarrow> sched \<Rightarrow> bool" where
  create: "sched_step s (snd (sched_create_user s entry rsp))"
| fork: "sched_step s (snd (sched_fork_current s rip rsp flags))"
| kill: "sched_step s (snd (sched_kill s target sig))"
| tick: "sched_step s (snd (irq_timer_dispatch s sp))"
| arm: "sched_step s (sched_arm_user_preempt s)"
| disarm: "sched_step s (sched_disarm_user_preempt s)"
| live: "sched_step s (sched_mark_user_live s)"

inductive sched_reachable :: "sched \<Rightarrow> bool" where
  boot: "sched_reachable (sched_init s)"
| step: "sched_reachable s \<Longrightarrow> sched_step s t \<Longrightarrow> sched_reachable t"

lemma sched_step_inv: "sched_step s t \<Longrightarrow> sched_inv s \<Longrightarrow> sched_inv t"
  by (induction rule: sched_step.induct) (simp_all add: sched_ops_inv)

lemma sched_reachable_inv: "sched_reachable s \<Longrightarrow> sched_inv s"
  by (induction rule: sched_reachable.induct) (auto simp: sched_init_inv intro: sched_step_inv)

section \<open>What one timer interrupt does\<close>

definition user_tick :: "sched \<Rightarrow> u64 list \<Rightarrow> bool" where
  "user_tick s sp \<longleftrightarrow> user_preempt_armed s \<and> length sp = FRAME_QWORDS \<and> sp ! 16 AND 3 = 3"

definition acked :: "sched \<Rightarrow> sched" where
  "acked s = s\<lparr>ports := pic_master_eoi (ports s), sched_jiffies := sched_jiffies s + 1\<rparr>"

lemma acked_fields [simp]:
  "procs (acked s) = procs s" "current_proc (acked s) = current_proc s"
  "next_pid (acked s) = next_pid s" "user_preempt_armed (acked s) = user_preempt_armed s"
  "sched_inv (acked s) = sched_inv s"
  by (simp_all add: acked_def)

lemma irq_timer_dispatch_kernel:
  "\<not> (user_preempt_armed s \<and> sp ! 16 AND 3 = 3) \<Longrightarrow>
     irq_timer_dispatch s sp = (Interrupted, acked s)"
  by (auto simp: irq_timer_dispatch_def acked_def Let_def)

lemma irq_timer_dispatch_user:
  "user_tick s sp \<Longrightarrow> irq_timer_dispatch s sp =
     (let s1 = save_current (acked s) sp; nxt = choose_rr s1
      in if nxt < 0 then (Interrupted, s1) else (Saved (nat nxt), s1\<lparr>current_proc := nxt\<rparr>))"
  by (simp add: irq_timer_dispatch_def acked_def Let_def user_tick_def choose_next_def)

lemma irq_timer_dispatch_pstate:
  "i < length (procs s) \<Longrightarrow>
     pstate (procs (snd (irq_timer_dispatch s sp)) ! i) = pstate (procs s ! i)"
  by (simp add: irq_timer_dispatch_def Let_def)

lemma irq_timer_dispatch_armed:
  "user_preempt_armed (snd (irq_timer_dispatch s sp)) = user_preempt_armed s"
  by (simp add: irq_timer_dispatch_def Let_def)

text \<open>A saved frame changes only for the process that was interrupted.\<close>

lemma irq_timer_dispatch_frame_other:
  "int i \<noteq> current_proc s \<Longrightarrow>
     frame (procs (snd (irq_timer_dispatch s sp)) ! i) = frame (procs s ! i)"
  by (auto simp: irq_timer_dispatch_def Let_def save_current_def)

lemma irq_timer_dispatch_frame_current:
  assumes "sched_inv s" and "user_tick s sp" and "current_proc s = int c"
    and "pstate (procs s ! c) = PROC_RUNNABLE"
  shows "frame (procs (snd (irq_timer_dispatch s sp)) ! c) = sp"
proof -
  have c: "c < PROC_MAX" using sched_invD(3,5) [OF assms(1)] assms(3) by simp
  have "length (frame (procs s ! c)) = FRAME_QWORDS"
    using sched_invD(6) [OF assms(1) c] by (simp add: slot_ok_def)
  with assms c sched_invD(1) [OF assms(1)] show ?thesis
    by (simp add: irq_timer_dispatch_user Let_def save_current_def memcpy64_all user_tick_def)
qed

text \<open>The round-robin scan: from \<open>rr_start\<close>, the first runnable slot in cyclic order.\<close>

lemma choose_rr_first:
  assumes "length (procs s) = PROC_MAX" and "d < PROC_MAX"
    and "pstate (procs s ! ((rr_start s + d) mod PROC_MAX)) = PROC_RUNNABLE"
  obtains n where "n \<le> d" and "choose_rr s = int ((rr_start s + n) mod PROC_MAX)"
    and "pstate (procs s ! ((rr_start s + n) mod PROC_MAX)) = PROC_RUNNABLE"
    and "\<And>m. m < n \<Longrightarrow> pstate (procs s ! ((rr_start s + m) mod PROC_MAX)) \<noteq> PROC_RUNNABLE"
proof -
  let ?xs = "map (\<lambda>n. (rr_start s + n) mod PROC_MAX) [0..<PROC_MAX]"
  let ?P = "\<lambda>idx. pstate (procs s ! idx) = PROC_RUNNABLE"
  have "List.find ?P ?xs \<noteq> None"
    using assms(2,3) by (auto simp: find_None_iff)
  then obtain k where k: "List.find ?P ?xs = Some k" by auto
  then obtain n where n: "n < PROC_MAX" "?P (?xs ! n)" "k = ?xs ! n" "\<forall>m < n. \<not> ?P (?xs ! m)"
    by (auto simp: find_Some_iff)
  have "n \<le> d"
  proof (rule ccontr)
    assume "\<not> n \<le> d"
    with n(4) assms(2,3) show False by (auto dest!: spec [of _ d])
  qed
  with n k that show ?thesis by (auto simp: choose_rr_def)
qed

lemma cyclic_dist:
  assumes "j < PROC_MAX"
  shows "\<exists>d < PROC_MAX. j = (r + d) mod PROC_MAX"
proof -
  let ?d = "(j + PROC_MAX - r mod PROC_MAX) mod PROC_MAX"
  have "(r + ?d) mod PROC_MAX = (r mod PROC_MAX + (j + PROC_MAX - r mod PROC_MAX)) mod PROC_MAX"
    by (simp add: mod_simps)
  also have "\<dots> = j"
    using assms mod_less_divisor [of PROC_MAX r] by (simp add: PROC_MAX_def)
  finally show ?thesis by (intro exI [of _ ?d]) (simp add: PROC_MAX_def)
qed

lemma choose_rr_range: "choose_rr s = -1 \<or> 0 \<le> choose_rr s"
  by (auto simp: choose_rr_def split: option.splits)

lemma choose_rr_none:
  assumes "length (procs s) = PROC_MAX"
  shows "choose_rr s = -1 \<longleftrightarrow> (\<forall>i < PROC_MAX. pstate (procs s ! i) \<noteq> PROC_RUNNABLE)"
proof
  assume none: "choose_rr s = -1"
  show "\<forall>i < PROC_MAX. pstate (procs s ! i) \<noteq> PROC_RUNNABLE"
  proof (intro allI impI notI)
    fix i assume i: "i < PROC_MAX" "pstate (procs s ! i) = PROC_RUNNABLE"
    then obtain d where "d < PROC_MAX" "i = (rr_start s + d) mod PROC_MAX"
      using cyclic_dist by blast
    with i obtain n where "choose_rr s = int ((rr_start s + n) mod PROC_MAX)"
      using choose_rr_first [OF assms] by blast
    with none show False by simp
  qed
next
  assume "\<forall>i < PROC_MAX. pstate (procs s ! i) \<noteq> PROC_RUNNABLE"
  then show "choose_rr s = -1"
    using choose_rr_runnable [OF assms refl] choose_rr_range [of s] by auto
qed

section \<open>Round robin is fair\<close>

text \<open>\<open>d\<close> is the distance from \<open>rr_start\<close> to slot \<open>j\<close> in cyclic order. A user tick either
  dispatches \<open>j\<close> or brings the scan strictly closer to it.\<close>

lemma tick_closer:
  assumes inv: "sched_inv s" and tick: "user_tick s sp" and d: "d < PROC_MAX"
    and j: "j = (rr_start s + d) mod PROC_MAX" and run: "pstate (procs s ! j) = PROC_RUNNABLE"
  shows "fst (irq_timer_dispatch s sp) = Saved j \<or>
    (\<exists>d' < d. j = (rr_start (snd (irq_timer_dispatch s sp)) + d') mod PROC_MAX)"
proof -
  define s1 where "s1 = save_current (acked s) sp"
  have st: "rr_start s1 = rr_start s" by (simp add: s1_def rr_start_def)
  have jM: "j < PROC_MAX" by (simp add: j PROC_MAX_def)
  have len: "length (procs s1) = PROC_MAX" using sched_invD(1) [OF inv] by (simp add: s1_def)
  have run1: "pstate (procs s1 ! ((rr_start s1 + d) mod PROC_MAX)) = PROC_RUNNABLE"
    using run j jM sched_invD(1) [OF inv] by (simp add: s1_def st [unfolded s1_def])
  obtain n where n: "n \<le> d" "choose_rr s1 = int ((rr_start s + n) mod PROC_MAX)"
    using choose_rr_first [OF len d run1] st by metis
  have disp: "irq_timer_dispatch s sp = (Saved ((rr_start s + n) mod PROC_MAX),
      s1\<lparr>current_proc := int ((rr_start s + n) mod PROC_MAX)\<rparr>)"
    using irq_timer_dispatch_user [OF tick] n(2) by (simp add: s1_def Let_def)
  show ?thesis
  proof (cases "n = d")
    case True
    with disp j show ?thesis by simp
  next
    case False
    let ?s' = "snd (irq_timer_dispatch s sp)"
    have "rr_start ?s' = (rr_start s + n) mod PROC_MAX + 1"
      using disp by (simp add: rr_start_def nat_add_distrib)
    then have "(rr_start ?s' + (d - n - 1)) mod PROC_MAX
        = ((rr_start s + n) mod PROC_MAX + (d - n)) mod PROC_MAX"
      using n(1) False by (intro arg_cong [of _ _ "\<lambda>x. x mod PROC_MAX"]) simp
    also have "\<dots> = (rr_start s + n + (d - n)) mod PROC_MAX" by (rule mod_add_left_eq)
    also have "\<dots> = j" using n(1) j by simp
    finally have "j = (rr_start ?s' + (d - n - 1)) mod PROC_MAX" by simp
    moreover have "d - n - 1 < d" using n(1) False by simp
    ultimately show ?thesis by blast
  qed
qed

section \<open>The process-table interface\<close>

text \<open>What the system-call layer relies on: fork adds one fresh live pid or fails and changes
  nothing, a fatal signal removes exactly its target, and a failing kill changes nothing.\<close>

locale process_table =
  fixes invar :: "'s \<Rightarrow> bool"
    and live :: "'s \<Rightarrow> int set"
    and fork :: "'s \<Rightarrow> u64 \<Rightarrow> u64 \<Rightarrow> u64 \<Rightarrow> int \<times> 's"
    and kill :: "'s \<Rightarrow> int \<Rightarrow> int \<Rightarrow> int \<times> 's"
  assumes fork_invar: "invar s \<Longrightarrow> invar (snd (fork s rip rsp flags))"
    and kill_invar: "invar s \<Longrightarrow> invar (snd (kill s p sig))"
    and fork_live: "invar s \<Longrightarrow> fork s rip rsp flags = (p, t) \<Longrightarrow>
       (p = -1 \<and> t = s) \<or> (0 < p \<and> p \<notin> live s \<and> live t = insert p (live s))"
    and kill_live: "invar s \<Longrightarrow> kill s p sig = (r, t) \<Longrightarrow>
       (if p \<in> live s then r = 0 \<and> live t = (if fatal_signal sig then live s - {p} else live s)
        else r = -1 \<and> t = s)"
begin

text \<open>Forking and then killing the child leaves the live set as it was.\<close>

lemma fork_then_kill:
  assumes "invar s" and "fork s rip rsp flags = (p, t)" and "p \<noteq> -1" and "fatal_signal sig"
  shows "fst (kill t p sig) = 0 \<and> live (snd (kill t p sig)) = live s"
proof -
  have p: "p \<notin> live s" "live t = insert p (live s)"
    using fork_live [OF assms(1,2)] assms(3) by auto
  have "invar t" using fork_invar [OF assms(1), of rip rsp flags] assms(2) by simp
  with p assms(4) kill_live [of t p sig "fst (kill t p sig)" "snd (kill t p sig)"]
  show ?thesis by simp
qed

text \<open>A second fatal signal to the same pid finds nobody.\<close>

lemma kill_twice:
  assumes "invar s" and "kill s p sig = (0, t)" and "fatal_signal sig"
  shows "kill t p sig' = (-1, t)"
proof -
  have "p \<in> live s" "live t = live s - {p}"
    using kill_live [OF assms(1,2)] assms(3) by (auto split: if_splits)
  moreover have "invar t" using kill_invar [OF assms(1), of p sig] assms(2) by simp
  ultimately show ?thesis
    using kill_live [of t p sig' "fst (kill t p sig')" "snd (kill t p sig')"]
    by (cases "kill t p sig'") simp
qed

end

definition live_pids :: "sched \<Rightarrow> int set" where
  "live_pids s = {pid (procs s ! i) | i. i < PROC_MAX \<and> pstate (procs s ! i) = PROC_RUNNABLE}"

lemma used_pid:
  "sched_inv s \<Longrightarrow> i < PROC_MAX \<Longrightarrow> pstate (procs s ! i) \<noteq> PROC_UNUSED \<Longrightarrow>
     pid (procs s ! i) = int i + 1"
  using sched_invD(6) [of s i] by (auto simp: slot_ok_def split: if_splits)

lemma live_pids_iff:
  assumes "sched_inv s"
  shows "p \<in> live_pids s \<longleftrightarrow>
    (\<exists>i < PROC_MAX. p = int i + 1 \<and> pstate (procs s ! i) = PROC_RUNNABLE)"
proof -
  have "pid (procs s ! i) = int i + 1" if "i < PROC_MAX" "pstate (procs s ! i) = PROC_RUNNABLE" for i
    using used_pid [OF assms that(1)] that(2) by simp
  then show ?thesis unfolding live_pids_def mem_Collect_eq by metis
qed

lemma kill_index:
  assumes "sched_inv s"
  shows "first_index (\<lambda>p. pstate p = PROC_RUNNABLE \<and> pid p = target) (procs s) =
    (if target \<in> live_pids s then Some (nat (target - 1)) else None)"
proof (cases "target \<in> live_pids s")
  case True
  then obtain i where i: "i < PROC_MAX" "target = int i + 1" "pstate (procs s ! i) = PROC_RUNNABLE"
    using live_pids_iff [OF assms] by auto
  then have "first_index (\<lambda>p. pstate p = PROC_RUNNABLE \<and> pid p = target) (procs s) = Some i"
    using sched_invD(1) [OF assms] used_pid [OF assms] by (auto simp: first_index_Some)
  with True i show ?thesis by simp
next
  case False
  have "first_index (\<lambda>p. pstate p = PROC_RUNNABLE \<and> pid p = target) (procs s) = None"
    using False sched_invD(1) [OF assms]
    by (auto simp: first_index_None in_set_conv_nth live_pids_def)
  with False show ?thesis by simp
qed

lemma live_pids_grow:
  assumes "sched_inv s" and "next_pid s \<le> int PROC_MAX" and "pid p = next_pid s"
    and "pstate p = PROC_RUNNABLE" and "procs t = (procs s)[nat (next_pid s - 1) := p]"
  shows "live_pids t = insert (next_pid s) (live_pids s)" and "next_pid s \<notin> live_pids s"
proof -
  define k where "k = nat (next_pid s - 1)"
  have k: "k < PROC_MAX" "int k + 1 = next_pid s"
    using assms(2) sched_invD(2) [OF assms(1)] by (auto simp: k_def)
  have unused: "pstate (procs s ! k) = PROC_UNUSED"
    using sched_invD(6) [OF assms(1) k(1)] k(2) by (auto simp: slot_ok_def)
  have pt: "procs t = (procs s)[k := p]" using assms(5) by (simp add: k_def)
  show "live_pids t = insert (next_pid s) (live_pids s)"
    using k(1) unused assms(3,4) sched_invD(1) [OF assms(1)]
    by (auto simp: live_pids_def pt nth_list_update) (metis proc_state.distinct(1))+
  show "next_pid s \<notin> live_pids s"
    using live_pids_iff [OF assms(1), of "next_pid s"] unused k by auto
qed

lemma sched_fork_current_eq:
  assumes inv: "sched_inv s"
  shows "sched_fork_current s rip rsp flags =
    (if sched_current_pid s = -1 \<or> next_pid s > int PROC_MAX then (-1, s)
     else (next_pid s, s\<lparr>procs := (procs s)[nat (next_pid s - 1) := fork_child s rip rsp flags],
                         next_pid := next_pid s + 1\<rparr>))"
proof (cases "current_proc s < 0")
  case True
  then show ?thesis by (simp add: sched_fork_current_def sched_current_pid_def)
next
  case False
  have c: "nat (current_proc s) < PROC_MAX" using False sched_invD(3,5) [OF inv] by linarith
  have "sched_current_pid s = -1 \<longleftrightarrow> pstate (procs s ! nat (current_proc s)) \<noteq> PROC_RUNNABLE"
    using False used_pid [OF inv c] by (auto simp: sched_current_pid_def)
  then show ?thesis
    using False sched_invD(2) [OF inv]
    by (simp add: sched_fork_current_def Let_def alloc_proc_inv [OF inv])
qed

lemma sched_fork_live:
  assumes inv: "sched_inv s" and f: "sched_fork_current s rip rsp flags = (p, t)"
  shows "(p = -1 \<and> t = s) \<or> (0 < p \<and> p \<notin> live_pids s \<and> live_pids t = insert p (live_pids s))"
proof (cases "sched_current_pid s = -1 \<or> next_pid s > int PROC_MAX")
  case True
  with f show ?thesis by (simp add: sched_fork_current_eq [OF inv])
next
  case False
  then have t: "p = next_pid s" and pt: "procs t = (procs s)[nat (next_pid s - 1) := fork_child s rip rsp flags]"
    using f by (auto simp: sched_fork_current_eq [OF inv])
  have room: "next_pid s \<le> int PROC_MAX" using False by simp
  show ?thesis
    using live_pids_grow [OF inv room _ _ pt] t sched_invD(2) [OF inv] by simp
qed

lemma sched_kill_live:
  assumes inv: "sched_inv s" and k: "sched_kill s p sig = (r, t)"
  shows "if p \<in> live_pids s then r = 0 \<and>
           live_pids t = (if fatal_signal sig then live_pids s - {p} else live_pids s)
         else r = -1 \<and> t = s"
proof (cases "p \<in> live_pids s")
  case False
  with k show ?thesis by (auto simp: sched_kill_def kill_index [OF inv])
next
  case True
  then obtain i where i: "i < PROC_MAX" "p = int i + 1" "pstate (procs s ! i) = PROC_RUNNABLE"
    using live_pids_iff [OF inv] by auto
  define q where "q = (let q = (procs s ! i)\<lparr>signal := sig\<rparr>
    in if fatal_signal sig then q\<lparr>pstate := PROC_ZOMBIE\<rparr> else q)"
  have t: "procs t = (procs s)[i := q]" and r: "r = 0"
    using k True i by (auto simp: sched_kill_def kill_index [OF inv] Let_def q_def)
  have inv': "sched_inv t" using sched_kill_inv [OF inv, of p sig] k by simp
  have q: "pstate q = (if fatal_signal sig then PROC_ZOMBIE else PROC_RUNNABLE)"
    using i by (simp add: q_def Let_def)
  have "x \<in> live_pids t \<longleftrightarrow> x \<in> (if fatal_signal sig then live_pids s - {p} else live_pids s)" for x
    unfolding live_pids_iff [OF inv'] t
    using i q sched_invD(1) [OF inv] live_pids_iff [OF inv, of x]
    by (auto simp: nth_list_update)
  with True r show ?thesis by (simp add: set_eq_iff)
qed

interpretation ptable: process_table sched_inv live_pids sched_fork_current sched_kill
  by unfold_locales
    (rule sched_fork_current_inv sched_kill_inv sched_fork_live sched_kill_live; assumption)+

section \<open>Dead processes stay dead\<close>

lemma zombie_step:
  assumes inv: "sched_inv s" and "sched_step s t" and i: "i < PROC_MAX"
    and z: "pstate (procs s ! i) = PROC_ZOMBIE"
  shows "pstate (procs t ! i) = PROC_ZOMBIE"
proof -
  have len: "length (procs s) = PROC_MAX" by (rule sched_invD(1) [OF inv])
  have used: "int i < next_pid s - 1" using runnable_below_next_pid [OF inv i] z by simp
  from assms(2) show ?thesis
  proof cases
    case (kill target sig)
    then show ?thesis
      using z i len
      by (auto simp: sched_kill_def Let_def nth_list_update first_index_Some split: option.splits)
  next
    case (tick sp)
    then show ?thesis using z i len by (simp add: irq_timer_dispatch_pstate)
  qed (use z i len used in \<open>auto simp: sched_create_user_def sched_fork_current_def Let_def
        alloc_proc_inv [OF inv] nth_list_update sched_arm_user_preempt_def
        sched_disarm_user_preempt_def sched_mark_user_live_def\<close>)
qed

lemma zombie_steps:
  assumes "sched_step\<^sup>*\<^sup>* s t" and "sched_inv s" and "i < PROC_MAX"
    and "pstate (procs s ! i) = PROC_ZOMBIE"
  shows "sched_inv t \<and> pstate (procs t ! i) = PROC_ZOMBIE"
  using assms by (induction rule: rtranclp_induct) (auto intro: zombie_step sched_step_inv)

lemma dispatched_runnable:
  assumes "sched_inv s" and "fst (irq_timer_dispatch s sp) = Saved i"
  shows "i < PROC_MAX \<and> pstate (procs s ! i) = PROC_RUNNABLE"
proof -
  have len: "length (procs s) = PROC_MAX" by (rule sched_invD(1) [OF assms(1)])
  define s1 where "s1 = save_current (acked s) sp"
  have "0 \<le> choose_rr s1" "i = nat (choose_rr s1)"
    using assms(2)
    by (auto simp: irq_timer_dispatch_def Let_def s1_def acked_def choose_next_def split: if_splits)
  with choose_rr_runnable [of s1 "choose_rr s1"] len show ?thesis by (auto simp: s1_def)
qed

section \<open>Histories of the scheduler\<close>

datatype sched_event =
    Create u64 u64 | Fork u64 u64 u64 | Kill int int | Tick "u64 list" | Arm | Disarm | Live

fun sched_exec :: "sched \<Rightarrow> sched_event \<Rightarrow> sched" where
  "sched_exec s (Create entry rsp) = snd (sched_create_user s entry rsp)"
| "sched_exec s (Fork rip rsp flags) = snd (sched_fork_current s rip rsp flags)"
| "sched_exec s (Kill target sig) = snd (sched_kill s target sig)"
| "sched_exec s (Tick sp) = snd (irq_timer_dispatch s sp)"
| "sched_exec s Arm = sched_arm_user_preempt s"
| "sched_exec s Disarm = sched_disarm_user_preempt s"
| "sched_exec s Live = sched_mark_user_live s"

definition sched_run :: "sched \<Rightarrow> sched_event list \<Rightarrow> sched" where
  "sched_run s es = foldl sched_exec s es"

lemma sched_run_simps [simp]:
  "sched_run s [] = s" "sched_run s (e # es) = sched_run (sched_exec s e) es"
  "sched_run s (es @ es') = sched_run (sched_run s es) es'"
  by (simp_all add: sched_run_def)

lemma sched_exec_step: "sched_step s (sched_exec s e)"
  by (cases e) (auto intro: sched_step.intros)

lemma sched_exec_inv: "sched_inv s \<Longrightarrow> sched_inv (sched_exec s e)"
  using sched_exec_step sched_step_inv by blast

text \<open>The interrupts taken from ring 3.\<close>

fun from_ring3 :: "sched_event \<Rightarrow> bool" where
  "from_ring3 (Tick sp) \<longleftrightarrow> sp ! 16 AND 3 = 3"
| "from_ring3 _ \<longleftrightarrow> False"

text \<open>What leaves slot \<open>j\<close> its turn: no fatal signal to it, no signal to the process that is
  current, which would make the scan start over at slot 0, and no disarming.\<close>

fun undisturbing :: "nat \<Rightarrow> sched \<Rightarrow> sched_event \<Rightarrow> bool" where
  "undisturbing j s (Kill target sig) \<longleftrightarrow>
     target \<noteq> sched_current_pid s \<and> (target = int j + 1 \<longrightarrow> \<not> fatal_signal sig)"
| "undisturbing j s (Tick sp) \<longleftrightarrow> length sp = FRAME_QWORDS"
| "undisturbing j s Disarm \<longleftrightarrow> False"
| "undisturbing j s _ \<longleftrightarrow> True"

fun undisturbed :: "nat \<Rightarrow> sched \<Rightarrow> sched_event list \<Rightarrow> bool" where
  "undisturbed j s [] \<longleftrightarrow> True"
| "undisturbed j s (e # es) \<longleftrightarrow> undisturbing j s e \<and> undisturbed j (sched_exec s e) es"

lemma sched_kill_eq:
  assumes inv: "sched_inv s"
  shows "snd (sched_kill s target sig) =
    (if target \<in> live_pids s then
       let i = nat (target - 1); p = (procs s ! i)\<lparr>signal := sig\<rparr>
       in s\<lparr>procs := (procs s)[i := if fatal_signal sig then p\<lparr>pstate := PROC_ZOMBIE\<rparr> else p],
            current_proc := if int i = current_proc s then -1 else current_proc s\<rparr>
     else s)"
  by (simp add: sched_kill_def kill_index [OF inv] Let_def)

lemma live_current_pid:
  assumes inv: "sched_inv s" and "target \<in> live_pids s" "int (nat (target - 1)) = current_proc s"
  shows "target = sched_current_pid s"
proof -
  obtain i where i: "i < PROC_MAX" "target = int i + 1" "pstate (procs s ! i) = PROC_RUNNABLE"
    using assms(2) live_pids_iff [OF inv] by auto
  then have "nat (current_proc s) = i" "0 \<le> current_proc s" using assms(3) by auto
  then show ?thesis using i used_pid [OF inv i(1)] by (simp add: sched_current_pid_def)
qed

text \<open>Between the interrupts from ring 3 the scan does not move.\<close>

lemma event_keeps:
  assumes inv: "sched_inv s" and j: "j < PROC_MAX" "pstate (procs s ! j) = PROC_RUNNABLE" and armed: "user_preempt_armed s"
    and cur: "0 \<le> current_proc s" and ok: "undisturbing j s e"
  shows "pstate (procs (sched_exec s e) ! j) = PROC_RUNNABLE \<and> user_preempt_armed (sched_exec s e) \<and>
    0 \<le> current_proc (sched_exec s e) \<and> (\<not> from_ring3 e \<longrightarrow> current_proc (sched_exec s e) = current_proc s)"
proof -
  have len: "length (procs s) = PROC_MAX" by (rule sched_invD(1) [OF inv])
  have used: "int j < next_pid s - 1" using runnable_below_next_pid [OF inv j(1)] j(2) by simp
  show ?thesis
  proof (cases e)
    case (Kill target sig)
    show ?thesis
    proof (cases "target \<in> live_pids s")
      case True
      then obtain i where i: "i < PROC_MAX" "target = int i + 1" using live_pids_iff [OF inv] by auto
      have "int i \<noteq> current_proc s" using live_current_pid [OF inv True] ok Kill i(2) by auto
      then show ?thesis
        using True i j len armed cur ok Kill by (auto simp: sched_kill_eq [OF inv] Let_def nth_list_update)
    qed (use j armed cur Kill in \<open>simp add: sched_kill_eq [OF inv]\<close>)
  next
    case (Tick sp)
    have "0 \<le> current_proc (snd (irq_timer_dispatch s sp))"
      using cur choose_rr_range by (auto simp: irq_timer_dispatch_def Let_def)
    moreover have "current_proc (snd (irq_timer_dispatch s sp)) = current_proc s" if "\<not> from_ring3 e"
      using that Tick by (simp add: irq_timer_dispatch_kernel)
    ultimately show ?thesis
      using j len armed Tick by (simp add: irq_timer_dispatch_pstate irq_timer_dispatch_armed)
  qed (use j len used armed cur ok in \<open>auto simp: sched_create_user_def sched_fork_current_def Let_def
        alloc_proc_inv [OF inv] nth_list_update sched_arm_user_preempt_def sched_mark_user_live_def\<close>)
qed

lemma rr_fair_run:
  assumes "sched_inv s" "user_preempt_armed s" "0 \<le> current_proc s" "j < PROC_MAX" "pstate (procs s ! j) = PROC_RUNNABLE"
    and "d < PROC_MAX" "j = (rr_start s + d) mod PROC_MAX"
    and "undisturbed j s es" "d < length (filter from_ring3 es)"
  shows "\<exists>es1 sp es2. es = es1 @ Tick sp # es2 \<and> length (filter from_ring3 es1) \<le> d \<and>
    fst (irq_timer_dispatch (sched_run s es1) sp) = Saved j"
  using assms
proof (induction es arbitrary: s d)
  case (Cons e es)
  let ?s = "sched_exec s e"
  have ok: "undisturbing j s e" "undisturbed j ?s es" using Cons.prems(8) by simp_all
  note keep = event_keeps [OF Cons.prems(1,4,5,2,3) ok(1)]
  note inv = sched_exec_inv [OF Cons.prems(1), of e]
  have step: ?case if d': "d' \<le> d" "j = (rr_start ?s + d') mod PROC_MAX" "d' < length (filter from_ring3 es)"
    "from_ring3 e \<longrightarrow> d' < d" for d'
  proof -
    obtain es1 sp es2 where "es = es1 @ Tick sp # es2" "length (filter from_ring3 es1) \<le> d'"
        "fst (irq_timer_dispatch (sched_run ?s es1) sp) = Saved j"
      using Cons.IH [OF inv _ _ Cons.prems(4) _ _ d'(2) ok(2) d'(3)] keep d'(1) Cons.prems(6) by auto
    then show ?thesis using d' by (intro exI [of _ "e # es1"] exI [of _ sp] exI [of _ es2]) auto
  qed
  show ?case
  proof (cases "from_ring3 e")
    case False
    then have "rr_start ?s = rr_start s" using keep by (simp add: rr_start_def)
    then show ?thesis using False Cons.prems(7,9) by (intro step [of d]) auto
  next
    case True
    then obtain sp where e: "e = Tick sp" by (cases e) auto
    have tick: "user_tick s sp" using True e ok(1) Cons.prems(2) by (simp add: user_tick_def)
    consider "fst (irq_timer_dispatch s sp) = Saved j" | d' where "d' < d" "j = (rr_start ?s + d') mod PROC_MAX"
      using tick_closer [OF Cons.prems(1) tick Cons.prems(6,7,5)] e by auto
    then show ?thesis
    proof cases
      case 1
      then show ?thesis using e by (intro exI [of _ "[]"] exI [of _ sp] exI [of _ es]) simp
    next
      case 2
      then show ?thesis using True Cons.prems(9) by (intro step [of d']) auto
    qed
  qed
qed simp

lemma undisturbed_all: "\<forall>e \<in> set es. \<forall>s. undisturbing j s e \<Longrightarrow> undisturbed j s es"
  by (induction es arbitrary: s) simp_all

text \<open>A saved frame changes only for the process that is current.\<close>

lemma event_frame_other:
  assumes inv: "sched_inv s" and c: "c < PROC_MAX" "pstate (procs s ! c) \<noteq> PROC_UNUSED" and cur: "int c \<noteq> current_proc s"
  shows "frame (procs (sched_exec s e) ! c) = frame (procs s ! c) \<and> pstate (procs (sched_exec s e) ! c) \<noteq> PROC_UNUSED"
proof -
  have len: "length (procs s) = PROC_MAX" by (rule sched_invD(1) [OF inv])
  have used: "int c < next_pid s - 1" by (rule runnable_below_next_pid [OF inv c])
  show ?thesis
  proof (cases e)
    case (Tick sp)
    then show ?thesis using irq_timer_dispatch_frame_other [OF cur, of sp] c len by (simp add: irq_timer_dispatch_pstate)
  next
    case (Kill target sig)
    have "nat (target - 1) < PROC_MAX" if "target \<in> live_pids s" using that live_pids_iff [OF inv] by auto
    then show ?thesis using Kill c len by (auto simp: sched_kill_eq [OF inv] Let_def nth_list_update)
  qed (use c len used in \<open>auto simp: sched_create_user_def sched_fork_current_def Let_def alloc_proc_inv [OF inv] nth_list_update
        sched_arm_user_preempt_def sched_disarm_user_preempt_def sched_mark_user_live_def\<close>)
qed

lemma run_frame_other:
  assumes "sched_inv s" "c < PROC_MAX" "pstate (procs s ! c) \<noteq> PROC_UNUSED"
    and "\<forall>k \<le> length es. current_proc (sched_run s (take k es)) \<noteq> int c"
  shows "frame (procs (sched_run s es) ! c) = frame (procs s ! c)"
  using assms
proof (induction es arbitrary: s)
  case (Cons e es)
  have cur: "int c \<noteq> current_proc s" using Cons.prems(4) by (auto dest: spec [of _ 0])
  note f = event_frame_other [OF Cons.prems(1-3) cur, of e]
  have "\<forall>k \<le> length es. current_proc (sched_run (sched_exec s e) (take k es)) \<noteq> int c"
    using Cons.prems(4) by (auto dest: spec [of _ "Suc _"])
  then show ?case using Cons.IH [OF sched_exec_inv [OF Cons.prems(1)] Cons.prems(2)] f by simp
qed simp

lemma dispatch_none:
  assumes inv: "sched_inv s" and tick: "user_tick s sp" and "fst (irq_timer_dispatch s sp) = Interrupted"
  shows "\<forall>j < PROC_MAX. pstate (procs s ! j) \<noteq> PROC_RUNNABLE"
proof -
  let ?s1 = "save_current (acked s) sp"
  have len: "length (procs s) = PROC_MAX" by (rule sched_invD(1) [OF inv])
  have "choose_rr ?s1 = -1"
    using assms(3) choose_rr_range [of ?s1] by (auto simp: irq_timer_dispatch_user [OF tick] Let_def split: if_splits)
  then show ?thesis using choose_rr_none [of ?s1] len by simp
qed

text \<open>The process in slot 0 that signals itself between the interrupts is dispatched every time.\<close>

lemma self_signal_round:
  assumes inv: "sched_inv s" and s: "current_proc s = 0" "pstate (procs s ! 0) = PROC_RUNNABLE" "user_preempt_armed s"
    and sig: "\<not> fatal_signal sig" and sp: "length sp = FRAME_QWORDS" "sp ! 16 AND 3 = 3"
  shows "fst (irq_timer_dispatch (sched_exec s (Kill 1 sig)) sp) = Saved 0"
    and "current_proc (sched_run s [Kill 1 sig, Tick sp]) = 0" "pstate (procs (sched_run s [Kill 1 sig, Tick sp]) ! 0) = PROC_RUNNABLE"
    and "user_preempt_armed (sched_run s [Kill 1 sig, Tick sp])" "sched_inv (sched_run s [Kill 1 sig, Tick sp])"
proof -
  define t where "t = sched_exec s (Kill 1 sig)"
  have len: "length (procs s) = PROC_MAX" "0 < PROC_MAX" using sched_invD(1) [OF inv] by (simp_all add: PROC_MAX_def)
  have "1 \<in> live_pids s" using live_pids_iff [OF inv, of 1] s(2) len(2) by auto
  then have t: "t = s\<lparr>procs := (procs s)[0 := (procs s ! 0)\<lparr>signal := sig\<rparr>], current_proc := -1\<rparr>"
    using s(1) sig by (simp add: sched_kill_eq [OF inv] t_def)
  have tick: "user_tick t sp" using s(3) sp by (simp add: t user_tick_def)
  let ?u = "save_current (acked t) sp"
  have st: "rr_start ?u = 0" by (simp add: rr_start_def t)
  have run: "pstate (procs ?u ! ((rr_start ?u + 0) mod PROC_MAX)) = PROC_RUNNABLE" unfolding st using s(2) len by (simp add: t)
  have "choose_rr ?u = 0" by (rule choose_rr_first [OF _ len(2) run]) (use len st in \<open>simp_all add: t\<close>)
  then have d: "irq_timer_dispatch t sp = (Saved 0, ?u\<lparr>current_proc := 0\<rparr>)"
    by (simp add: irq_timer_dispatch_user [OF tick] Let_def)
  have r: "sched_run s [Kill 1 sig, Tick sp] = snd (irq_timer_dispatch t sp)" by (simp add: t_def)
  show "fst (irq_timer_dispatch (sched_exec s (Kill 1 sig)) sp) = Saved 0" "current_proc (sched_run s [Kill 1 sig, Tick sp]) = 0"
    unfolding r using d by (simp_all add: t_def)
  show "pstate (procs (sched_run s [Kill 1 sig, Tick sp]) ! 0) = PROC_RUNNABLE" "user_preempt_armed (sched_run s [Kill 1 sig, Tick sp])"
    unfolding r using d s(2,3) len by (simp_all add: t)
  show "sched_inv (sched_run s [Kill 1 sig, Tick sp])" using sched_exec_inv [OF sched_exec_inv [OF inv, of "Kill 1 sig"], of "Tick sp"] by simp
qed

lemma self_signal_rounds:
  assumes "sched_inv s" "current_proc s = 0" "pstate (procs s ! 0) = PROC_RUNNABLE" "user_preempt_armed s"
    and "\<not> fatal_signal sig" "length sp = FRAME_QWORDS" "sp ! 16 AND 3 = 3"
  defines "t \<equiv> \<lambda>n. sched_run s (concat (replicate n [Kill 1 sig, Tick sp]))"
  shows "sched_inv (t n) \<and> current_proc (t n) = 0 \<and> pstate (procs (t n) ! 0) = PROC_RUNNABLE \<and> user_preempt_armed (t n)"
proof (induction n)
  case (Suc n)
  have "concat (replicate (Suc n) [Kill 1 sig, Tick sp]) = concat (replicate n [Kill 1 sig, Tick sp]) @ [Kill 1 sig, Tick sp]"
    by (induction n) simp_all
  then have "t (Suc n) = sched_run (t n) [Kill 1 sig, Tick sp]" unfolding t_def by (simp only: sched_run_simps)
  then show ?case using self_signal_round [of "t n" sig sp] Suc assms(5-7) by (simp del: sched_run_simps)
qed (use assms in simp)

section \<open>The virtual-runtime policy\<close>

text \<open>After the scan of the first \<open>n\<close> slots, \<open>best\<close> is the first runnable slot among them of
  least virtual runtime.\<close>

definition cfs_best :: "Process list \<Rightarrow> nat \<Rightarrow> int \<Rightarrow> bool" where
  "cfs_best ps n best \<longleftrightarrow>
     (if best < 0 then best = -1 \<and> (\<forall>i < n. pstate (ps ! i) \<noteq> PROC_RUNNABLE)
      else nat best < n \<and> pstate (ps ! nat best) = PROC_RUNNABLE \<and>
        (\<forall>i < n. pstate (ps ! i) = PROC_RUNNABLE \<longrightarrow>
           vruntime (ps ! nat best) \<le> vruntime (ps ! i) \<and>
           (i < nat best \<longrightarrow> vruntime (ps ! nat best) < vruntime (ps ! i))))"

lemma cfs_best_step: "cfs_best ps n best \<Longrightarrow> cfs_best ps (Suc n) (cfs_better ps n best)"
  by (auto simp: cfs_best_def cfs_better_def less_Suc_eq not_less intro: less_le_trans less_trans
      split: if_splits)

lemma choose_cfs_best: "cfs_best (procs s) PROC_MAX (choose_cfs s)"
proof -
  have "cfs_best (procs s) n (fold (cfs_better (procs s)) [0..<n] (-1))" for n
    by (induction n) (simp_all add: cfs_best_def [of _ 0] cfs_best_step)
  then show ?thesis by (simp add: choose_cfs_def)
qed

section \<open>A concrete run\<close>

text \<open>Two user processes created after boot, preemption armed: the state the witnesses use.\<close>

definition power_on :: sched where
  "power_on = \<lparr>user_preempt_armed = False, procs = [], current_proc = 0, next_pid = 0,
     sched_in_idle = False, sched_jiffies = 0, ports = []\<rparr>"

definition two_procs :: sched where
  "two_procs = sched_arm_user_preempt (snd (sched_create_user
     (snd (sched_create_user (sched_init power_on) 0x400000 0x8000)) 0x500000 0x9000))"

definition ring3_frame :: "u64 list" where
  "ring3_frame = user_frame 0x400123 0x202 0x7FF0"

lemma ring3_frame_simps [simp]:
  "length ring3_frame = FRAME_QWORDS" "ring3_frame ! 16 AND 3 = 3"
  by (simp_all add: ring3_frame_def user_frame_def FRAME_QWORDS_def)

lemma two_procs_reachable: "sched_reachable two_procs"
  unfolding two_procs_def
  by (intro sched_reachable.step [OF _ sched_step.arm] sched_reachable.step [OF _ sched_step.create]
      sched_reachable.boot)

lemma two_procs_inv: "sched_inv two_procs"
  by (rule sched_reachable_inv [OF two_procs_reachable])

lemma two_procs_eq: "two_procs =
  (sched_init power_on)\<lparr>user_preempt_armed := True, current_proc := 0, next_pid := 3,
     procs := (replicate PROC_MAX unused_process)
       [0 := new_user_process (sched_init power_on) 0x400000 0x8000,
        1 := (new_user_process (sched_init power_on) 0x500000 0x9000)\<lparr>pid := 2\<rparr>]\<rparr>"
proof -
  let ?s1 = "snd (sched_create_user (sched_init power_on) 0x400000 0x8000)"
  have s1: "?s1 = (sched_init power_on)\<lparr>current_proc := 0, next_pid := 2,
     procs := (replicate PROC_MAX unused_process)
       [0 := new_user_process (sched_init power_on) 0x400000 0x8000]\<rparr>"
    using alloc_proc_inv [OF sched_init_inv, of power_on]
    by (simp add: sched_create_user_def Let_def) (simp add: sched_init_def PROC_MAX_def)
  have inv1: "sched_inv ?s1" by (rule sched_create_user_inv [OF sched_init_inv])
  have "alloc_proc ?s1 = 1"
    using alloc_proc_inv [OF inv1] by (simp add: s1 PROC_MAX_def)
  then show ?thesis
    unfolding two_procs_def sched_create_user_def [of ?s1]
    by (simp add: Let_def s1 sched_arm_user_preempt_def new_user_process_def)
qed

lemma two_procs_simps [simp]:
  "current_proc two_procs = 0" "user_preempt_armed two_procs" "next_pid two_procs = 3"
  "pstate (procs two_procs ! 0) = PROC_RUNNABLE"
  "pstate (procs two_procs ! Suc 0) = PROC_RUNNABLE"
  "pid (procs two_procs ! 0) = 1"
  by (simp_all add: two_procs_eq PROC_MAX_def new_user_process_def sched_init_def)

lemma two_procs_tick: "user_tick two_procs ring3_frame"
  by (simp add: user_tick_def)

lemma two_procs_switch:
  "irq_timer_dispatch two_procs ring3_frame =
     (Saved 1, (save_current (acked two_procs) ring3_frame)\<lparr>current_proc := 1\<rparr>)"
proof -
  let ?s1 = "save_current (acked two_procs) ring3_frame"
  have len: "length (procs two_procs) = PROC_MAX" by (rule sched_invD(1) [OF two_procs_inv])
  have start: "rr_start ?s1 = 1" by (simp add: rr_start_def)
  have run: "pstate (procs ?s1 ! ((rr_start ?s1 + 0) mod PROC_MAX)) = PROC_RUNNABLE"
    unfolding start using len by (simp add: PROC_MAX_def)
  have "choose_rr ?s1 = 1"
    by (rule choose_rr_first [OF _ _ run]) (use len start in \<open>auto simp: PROC_MAX_def\<close>)
  then show ?thesis by (simp add: irq_timer_dispatch_user [OF two_procs_tick] Let_def)
qed

lemma forking_ticks:
  fixes es defines "es \<equiv> concat (replicate PROC_MAX [Fork 0x400200 0x7F00 0, Tick ring3_frame])"
  shows "undisturbed 1 two_procs es" "length (filter from_ring3 es) = PROC_MAX"
proof -
  show "undisturbed 1 two_procs es" unfolding es_def by (rule undisturbed_all) auto
  have "length (filter from_ring3 (concat (replicate n [Fork 0x400200 0x7F00 0, Tick ring3_frame]))) = n" for n
    by (induction n) simp_all
  then show "length (filter from_ring3 es) = PROC_MAX" by (simp add: es_def)
qed

section \<open>Properties\<close>

text \<open>C8. In every state the scheduler can reach from \<^verbatim>\<open>sched_init\<close>, by any sequence of
  creations, forks, kills, timer interrupts and flag changes, the table is well formed: pids of
  slots in use are pairwise distinct, the current slot is \<open>-1\<close> or in use, and
  \<^verbatim>\<open>next_pid\<close> never exceeds 2001, so the pid counter cannot overflow.\<close>

theorem sched_table_invariant:
  assumes "sched_reachable s"
  shows "length (procs s) = 2000 \<and> 1 \<le> next_pid s \<and> next_pid s \<le> 2001 \<and>
    (current_proc s = -1 \<or> 0 \<le> current_proc s \<and> current_proc s < 2000 \<and>
       pstate (procs s ! nat (current_proc s)) \<noteq> PROC_UNUSED) \<and>
    (\<forall>i < 2000. \<forall>j < 2000. pstate (procs s ! i) \<noteq> PROC_UNUSED \<and>
       pstate (procs s ! j) \<noteq> PROC_UNUSED \<and> pid (procs s ! i) = pid (procs s ! j) \<longrightarrow> i = j)"
proof -
  have inv: "sched_inv s" by (rule sched_reachable_inv [OF assms])
  have M: "PROC_MAX = 2000" by (simp add: PROC_MAX_def)
  have "pstate (procs s ! nat (current_proc s)) \<noteq> PROC_UNUSED" if "0 \<le> current_proc s"
  proof -
    have "int (nat (current_proc s)) < next_pid s - 1" "nat (current_proc s) < PROC_MAX"
      using that sched_invD(3,5) [OF inv] by auto
    then show ?thesis using sched_invD(6) [OF inv] by (simp add: slot_ok_def)
  qed
  moreover have "i = j" if "i < 2000" "j < 2000" "pstate (procs s ! i) \<noteq> PROC_UNUSED"
    "pstate (procs s ! j) \<noteq> PROC_UNUSED" "pid (procs s ! i) = pid (procs s ! j)" for i j
    using that used_pid [OF inv, of i] used_pid [OF inv, of j] M by simp
  ultimately show ?thesis using sched_invD(1-5) [OF inv] M by auto
qed

theorem sched_table_invariant_witness:
  "sched_reachable two_procs \<and> length (procs two_procs) = 2000 \<and> next_pid two_procs \<le> 2001 \<and>
     pid (procs two_procs ! 0) \<noteq> pid (procs two_procs ! 1)"
proof -
  have "\<forall>i < 2000. \<forall>j < 2000. pstate (procs two_procs ! i) \<noteq> PROC_UNUSED \<and>
     pstate (procs two_procs ! j) \<noteq> PROC_UNUSED \<and>
     pid (procs two_procs ! i) = pid (procs two_procs ! j) \<longrightarrow> i = j"
    using sched_table_invariant [OF two_procs_reachable] by blast
  from this [rule_format, of 0 1] have "pid (procs two_procs ! 0) \<noteq> pid (procs two_procs ! 1)"
    by auto
  then show ?thesis
    using sched_table_invariant [OF two_procs_reachable] two_procs_reachable by blast
qed

text \<open>C7. Round robin is fair: with preemption armed and a process current, a runnable process is
  dispatched within \<^verbatim>\<open>PROC_MAX\<close> timer interrupts taken from ring 3, whatever else happens in
  between (interrupts taken from the kernel, processes created and forked, other processes
  killed), as long as preemption is not disarmed, the process gets no fatal signal, and no
  signal goes to the process that is current at that moment: that would make the scan start over
  at slot 0.\<close>

theorem round_robin_fair:
  assumes "sched_reachable s" and "user_preempt_armed s" and "0 \<le> current_proc s" and "j < PROC_MAX"
    and "pstate (procs s ! j) = PROC_RUNNABLE"
    and "undisturbed j s es" and "PROC_MAX \<le> length (filter from_ring3 es)"
  shows "\<exists>es1 sp es2. es = es1 @ Tick sp # es2 \<and> length (filter from_ring3 es1) < PROC_MAX \<and>
    fst (irq_timer_dispatch (sched_run s es1) sp) = Saved j"
proof -
  obtain d where d: "d < PROC_MAX" "j = (rr_start s + d) mod PROC_MAX" using cyclic_dist [OF assms(4)] by blast
  then obtain es1 sp es2 where "es = es1 @ Tick sp # es2" "length (filter from_ring3 es1) \<le> d"
      "fst (irq_timer_dispatch (sched_run s es1) sp) = Saved j"
    using rr_fair_run [OF sched_reachable_inv [OF assms(1)] assms(2-5) d assms(6)] assms(7) by auto
  then show ?thesis using d(1) by (intro exI [of _ es1] exI [of _ sp] exI [of _ es2]) simp
qed

theorem round_robin_fair_witness:
  "\<exists>es1 sp es2. concat (replicate PROC_MAX [Fork 0x400200 0x7F00 0, Tick ring3_frame]) = es1 @ Tick sp # es2 \<and>
     fst (irq_timer_dispatch (sched_run two_procs es1) sp) = Saved 1"
  using round_robin_fair [OF two_procs_reachable _ _ _ _ forking_ticks(1)] forking_ticks(2)
  by (auto simp: PROC_MAX_def)

text \<open>C9. A context switch is transparent: when a timer interrupt takes the scheduler's current,
  runnable process out of ring 3 with register frame \<open>sp\<close>, then the next time that process is
  dispatched it resumes with exactly \<open>sp\<close>, whatever sequence of interrupts, creations, forks,
  signals and arming came in between while it was not current. (That the interrupted process is
  the current one is a premise: after a signal to itself it is not, and its registers are lost,
  \<open>nonfatal_kill_drops_context\<close>.)\<close>

theorem context_restored:
  assumes "sched_reachable s" and "user_tick s sp" and "current_proc s = int c"
    and "pstate (procs s ! c) = PROC_RUNNABLE" and "irq_timer_dispatch s sp = (r, s')"
    and "\<forall>k \<le> length es. current_proc (sched_run s' (take k es)) \<noteq> int c"
    and "irq_timer_dispatch (sched_run s' es) sp' = (Saved c, t)"
  shows "frame (procs t ! c) = sp"
proof -
  have inv: "sched_inv s" by (rule sched_reachable_inv [OF assms(1)])
  have c: "c < PROC_MAX" using sched_invD(3,5) [OF inv] assms(3) by simp
  have "frame (procs s' ! c) = sp" using irq_timer_dispatch_frame_current [OF inv assms(2,3,4)] assms(5) by simp
  moreover have "pstate (procs s' ! c) \<noteq> PROC_UNUSED"
    using irq_timer_dispatch_pstate [of c s sp] c sched_invD(1) [OF inv] assms(4,5) by simp
  moreover have "sched_inv s'" using irq_timer_dispatch_inv [OF inv, of sp] assms(5) by simp
  ultimately have "frame (procs (sched_run s' es) ! c) = sp" using run_frame_other [OF _ c _ assms(6)] by simp
  moreover have "int c \<noteq> current_proc (sched_run s' es)" using assms(6) by (auto dest: spec [of _ "length es"])
  ultimately show ?thesis using irq_timer_dispatch_frame_other [of c "sched_run s' es" sp'] assms(7) by simp
qed

theorem context_restored_witness:
  "\<exists>s' t. irq_timer_dispatch two_procs ring3_frame = (Saved 1, s') \<and>
     irq_timer_dispatch s' (user_frame 0x500040 0x202 0x8FF0) = (Saved 0, t) \<and>
     frame (procs t ! 0) = ring3_frame"
proof -
  define s' where "s' = (save_current (acked two_procs) ring3_frame)\<lparr>current_proc := 1\<rparr>"
  let ?f = "user_frame 0x500040 0x202 0x8FF0"
  have first: "irq_timer_dispatch two_procs ring3_frame = (Saved 1, s')"
    by (simp add: two_procs_switch s'_def)
  have inv: "sched_inv s'" using irq_timer_dispatch_inv [OF two_procs_inv, of ring3_frame] first by simp
  have tick: "user_tick s' ?f"
    by (simp add: user_tick_def s'_def user_frame_def FRAME_QWORDS_def)
  have len: "length (procs two_procs) = PROC_MAX" by (rule sched_invD(1) [OF two_procs_inv])
  let ?s1 = "save_current (acked s') ?f"
  have start: "rr_start ?s1 = 2" by (simp add: rr_start_def s'_def)
  have "irq_timer_dispatch s' ?f = (Saved 0, ?s1\<lparr>current_proc := 0\<rparr>)"
  proof -
    have run: "pstate (procs ?s1 ! ((rr_start ?s1 + 1998) mod PROC_MAX)) = PROC_RUNNABLE"
      unfolding start using len by (simp add: PROC_MAX_def s'_def)
    obtain n where n: "n \<le> 1998" "choose_rr ?s1 = int ((rr_start ?s1 + n) mod PROC_MAX)"
      "pstate (procs ?s1 ! ((rr_start ?s1 + n) mod PROC_MAX)) = PROC_RUNNABLE"
      by (rule choose_rr_first [OF _ _ run]) (use len in \<open>auto simp: PROC_MAX_def s'_def\<close>)
    have "int ((2 + n) mod PROC_MAX) < 2"
      using runnable_below_next_pid [OF inv, of "(2 + n) mod PROC_MAX"] n(3) start len
      by (simp add: s'_def PROC_MAX_def)
    with n(1) have "n = 1998" by (cases "n = 1998") (simp_all add: PROC_MAX_def)
    with n(2) start have "choose_rr ?s1 = 0" by (simp add: PROC_MAX_def)
    then show ?thesis by (simp add: irq_timer_dispatch_user [OF tick] Let_def)
  qed
  moreover have "frame (procs (?s1\<lparr>current_proc := 0\<rparr>) ! 0) = ring3_frame"
    by (rule context_restored [OF two_procs_reachable two_procs_tick _ _ first, where es = "[]"])
       (use calculation in \<open>simp_all add: s'_def\<close>)
  ultimately show ?thesis using first by blast
qed

text \<open>C12. The saved context of a process killed with a fatal signal is never resumed: its slot
  stays a zombie through any further operations, and every timer interrupt taken from ring 3
  dispatches another, runnable process, or, only when no process at all is runnable, returns to
  the code it interrupted. The last case is the one in which a process that has just killed
  itself goes on running.\<close>

theorem killed_never_dispatched:
  assumes "sched_reachable s" and "i < PROC_MAX" and "pstate (procs s ! i) = PROC_RUNNABLE"
    and "fatal_signal sig" and "sched_kill s (pid (procs s ! i)) sig = (r, s')"
    and "sched_step\<^sup>*\<^sup>* s' t" and "user_tick t sp"
  shows "r = 0 \<and> pstate (procs t ! i) = PROC_ZOMBIE \<and>
    (case fst (irq_timer_dispatch t sp) of
       Saved j \<Rightarrow> j \<noteq> i \<and> pstate (procs t ! j) = PROC_RUNNABLE
     | Interrupted \<Rightarrow> \<forall>j < PROC_MAX. pstate (procs t ! j) \<noteq> PROC_RUNNABLE)"
proof -
  have inv: "sched_inv s" by (rule sched_reachable_inv [OF assms(1)])
  have pid: "pid (procs s ! i) = int i + 1" using used_pid [OF inv assms(2)] assms(3) by simp
  then have "pid (procs s ! i) \<in> live_pids s" using live_pids_iff [OF inv] assms(2,3) by blast
  then have r: "r = 0" and z: "pstate (procs s' ! i) = PROC_ZOMBIE"
    using assms(2,4,5) pid sched_invD(1) [OF inv]
    by (auto simp: sched_kill_def kill_index [OF inv] Let_def)
  have inv': "sched_inv s'" using sched_kill_inv [OF inv] assms(5) by (metis snd_conv)
  have t: "sched_inv t" "pstate (procs t ! i) = PROC_ZOMBIE"
    using zombie_steps [OF assms(6) inv' assms(2) z] by simp_all
  have "\<forall>j < PROC_MAX. pstate (procs t ! j) \<noteq> PROC_RUNNABLE" if "fst (irq_timer_dispatch t sp) = Interrupted"
    by (rule dispatch_none [OF t(1) assms(7) that])
  then show ?thesis using r t dispatched_runnable [OF t(1), of sp] by (auto split: iret_frame.split)
qed

theorem killed_never_dispatched_witness:
  "let s' = snd (sched_kill two_procs 1 SIGKILL); t = snd (irq_timer_dispatch s' ring3_frame)
   in fst (sched_kill two_procs 1 SIGKILL) = 0 \<and> pstate (procs t ! 0) = PROC_ZOMBIE \<and>
      fst (irq_timer_dispatch t ring3_frame) \<noteq> Saved 0"
proof -
  let ?s' = "snd (sched_kill two_procs 1 SIGKILL)"
  have "user_preempt_armed ?s'" by (auto simp: sched_kill_def Let_def split: option.split)
  then have "user_tick (snd (irq_timer_dispatch ?s' ring3_frame)) ring3_frame" by (simp add: user_tick_def irq_timer_dispatch_armed)
  moreover have "sched_step\<^sup>*\<^sup>* ?s' (snd (irq_timer_dispatch ?s' ring3_frame))"
    by (intro r_into_rtranclp sched_step.tick)
  ultimately show ?thesis
    using killed_never_dispatched [OF two_procs_reachable, of 0 SIGKILL
        "fst (sched_kill two_procs 1 SIGKILL)" ?s'
        "snd (irq_timer_dispatch ?s' ring3_frame)" ring3_frame]
    by (auto simp: Let_def fatal_signal_def PROC_MAX_def split: iret_frame.splits)
qed

text \<open>C14. A process can keep all others from running: the process in slot 0 that sends itself a
  signal that is not fatal before each timer interrupt is dispatched at every one of them, for any
  number of rounds, whichever other processes are runnable: \<^verbatim>\<open>sched_kill\<close> forgets the current
  process and the scan starts at slot 0 again.\<close>

theorem self_signal_starves:
  assumes "sched_reachable s" "current_proc s = 0" "pstate (procs s ! 0) = PROC_RUNNABLE" "user_preempt_armed s"
    and "\<not> fatal_signal sig" "length sp = FRAME_QWORDS" "sp ! 16 AND 3 = 3"
  shows "fst (irq_timer_dispatch (sched_run s (concat (replicate n [Kill 1 sig, Tick sp]) @ [Kill 1 sig])) sp) = Saved 0"
  using self_signal_round(1) [of "sched_run s (concat (replicate n [Kill 1 sig, Tick sp]))" sig sp]
    self_signal_rounds [OF sched_reachable_inv [OF assms(1)] assms(2-7), of n] assms(5-7) by simp

theorem self_signal_starves_witness:
  "fst (irq_timer_dispatch (sched_run two_procs (concat (replicate 5000 [Kill 1 15, Tick ring3_frame]) @ [Kill 1 15])) ring3_frame) = Saved 0 \<and>
   pstate (procs two_procs ! 1) = PROC_RUNNABLE"
proof -
  have nf: "\<not> fatal_signal 15" by (simp add: fatal_signal_def SIGKILL_def SIGSEGV_def SIGINT_def)
  show ?thesis using self_signal_starves [OF two_procs_reachable _ _ _ nf, of ring3_frame 5000] by simp
qed

text \<open>C13. Fork: with a current process and a free slot, the parent gets the child's pid, the child
  starts at the saved user instruction pointer and stack with \<^verbatim>\<open>RAX\<close> (frame word 14) zero,
  user segments and the caller's flags (\<^verbatim>\<open>0x202\<close> if they were zero), and no other slot
  changes; otherwise fork returns \<open>-1\<close> and changes nothing.\<close>

theorem fork_child_frame:
  assumes "sched_reachable s" and "sched_fork_current s rip rsp flags = (p, t)"
  shows "if sched_current_pid s = -1 \<or> next_pid s > int PROC_MAX then p = -1 \<and> t = s
    else p = next_pid s \<and> pstate (procs t ! nat (p - 1)) = PROC_RUNNABLE \<and>
      pid (procs t ! nat (p - 1)) = p \<and>
      frame (procs t ! nat (p - 1)) =
        replicate 15 0 @ [rip, 0x23, if flags = 0 then 0x202 else flags, rsp, 0x1B] \<and>
      (\<forall>i < PROC_MAX. i \<noteq> nat (p - 1) \<longrightarrow> procs t ! i = procs s ! i) \<and>
      current_proc t = current_proc s"
proof -
  have inv: "sched_inv s" by (rule sched_reachable_inv [OF assms(1)])
  have f: "frame (fork_child s rip rsp flags) =
      replicate 15 0 @ [rip, 0x23, if flags = 0 then 0x202 else flags, rsp, 0x1B]"
    by (simp add: fork_child_def user_frame_def FRAME_QWORDS_def numeral_eq_Suc)
  show ?thesis
    using assms(2) sched_invD(1,2) [OF inv] f by (auto simp: sched_fork_current_eq [OF inv])
qed

theorem fork_child_frame_witness:
  "let (p, t) = sched_fork_current two_procs 0x400200 0x7F00 0
   in p = 3 \<and> frame (procs t ! 2) = replicate 15 0 @ [0x400200, 0x23, 0x202, 0x7F00, 0x1B] \<and>
      procs t ! 0 = procs two_procs ! 0"
  using fork_child_frame [OF two_procs_reachable, of "0x400200" "0x7F00" 0]
  by (cases "sched_fork_current two_procs 0x400200 0x7F00 0")
     (auto simp: sched_current_pid_def PROC_MAX_def)

text \<open>Fork and kill are inverse on the set of live pids: forking and then sending the child a
  fatal signal succeeds and leaves exactly the processes that were live before.\<close>

theorem fork_then_kill_live:
  assumes "sched_reachable s" and "sched_fork_current s rip rsp flags = (p, t)" and "p \<noteq> -1"
    and "fatal_signal sig"
  shows "fst (sched_kill t p sig) = 0 \<and> live_pids (snd (sched_kill t p sig)) = live_pids s"
  by (rule ptable.fork_then_kill [OF sched_reachable_inv [OF assms(1)] assms(2-4)])

theorem fork_then_kill_live_witness:
  "let (p, t) = sched_fork_current two_procs 0x400200 0x7F00 0
   in p = 3 \<and> fst (sched_kill t p SIGKILL) = 0 \<and>
      live_pids (snd (sched_kill t p SIGKILL)) = live_pids two_procs"
proof -
  obtain p t where pt: "sched_fork_current two_procs 0x400200 0x7F00 0 = (p, t)" by fastforce
  have p: "p = 3"
    using pt by (simp add: sched_fork_current_eq [OF two_procs_inv] sched_current_pid_def PROC_MAX_def)
  have "fatal_signal SIGKILL" by (simp add: fatal_signal_def)
  then show ?thesis using fork_then_kill_live [OF two_procs_reachable pt] pt p by simp
qed

text \<open>A signal that is not fatal, sent to the running process, makes the kernel forget that it
  is running: the process stays runnable, but its next timer interrupt does not save its
  registers, so it later resumes from the frame saved before.\<close>

theorem nonfatal_kill_drops_context:
  assumes "sched_reachable s" and "current_proc s = int c"
    and "pstate (procs s ! c) = PROC_RUNNABLE" and "\<not> fatal_signal sig"
    and "sched_kill s (pid (procs s ! c)) sig = (r, t)" and "user_tick t sp"
  shows "r = 0 \<and> pstate (procs t ! c) = PROC_RUNNABLE \<and> sched_current_pid t = -1 \<and>
    frame (procs (snd (irq_timer_dispatch t sp)) ! c) = frame (procs s ! c)"
proof -
  have inv: "sched_inv s" by (rule sched_reachable_inv [OF assms(1)])
  have c: "c < PROC_MAX" using sched_invD(3,5) [OF inv] assms(2) by simp
  have pid: "pid (procs s ! c) = int c + 1" using used_pid [OF inv c] assms(3) by simp
  then have "pid (procs s ! c) \<in> live_pids s" using live_pids_iff [OF inv] c assms(3) by blast
  then have t: "r = 0" "t = s\<lparr>procs := (procs s)[c := (procs s ! c)\<lparr>signal := sig\<rparr>], current_proc := -1\<rparr>"
    using assms(2,4,5) pid by (auto simp: sched_kill_def kill_index [OF inv] Let_def)
  have "int c \<noteq> current_proc t" by (simp add: t)
  from irq_timer_dispatch_frame_other [OF this, of sp] show ?thesis
    using t c assms(3) sched_invD(1) [OF inv] by (simp add: sched_current_pid_def)
qed

theorem nonfatal_kill_drops_context_witness:
  "let t = snd (sched_kill two_procs 1 15)
   in pstate (procs t ! 0) = PROC_RUNNABLE \<and> sched_current_pid t = -1 \<and>
      frame (procs (snd (irq_timer_dispatch t ring3_frame)) ! 0) = frame (procs two_procs ! 0) \<and>
      frame (procs two_procs ! 0) \<noteq> ring3_frame"
proof -
  let ?t = "snd (sched_kill two_procs 1 15)"
  have nf: "\<not> fatal_signal 15" by (simp add: fatal_signal_def SIGKILL_def SIGSEGV_def SIGINT_def)
  have idx: "first_index (\<lambda>p. pstate p = PROC_RUNNABLE \<and> pid p = 1) (procs two_procs) = Some 0"
    using sched_invD(1) [OF two_procs_inv] by (simp add: first_index_Some PROC_MAX_def)
  have tick: "user_tick ?t ring3_frame"
    using nf by (simp add: user_tick_def sched_kill_def idx Let_def)
  have "frame (procs two_procs ! 0) ! 15 \<noteq> ring3_frame ! 15"
    by (simp add: two_procs_eq new_user_process_def ring3_frame_def user_frame_def
        FRAME_QWORDS_def PROC_MAX_def)
  then have "frame (procs two_procs ! 0) \<noteq> ring3_frame" by auto
  then show ?thesis
    using nonfatal_kill_drops_context [OF two_procs_reachable _ _ nf _ tick, of 0
        "fst (sched_kill two_procs 1 15)"]
    by (simp add: Let_def)
qed

text \<open>The alternative policy \<^verbatim>\<open>choose_cfs\<close> returns \<open>-1\<close> exactly when nothing is runnable,
  and otherwise the lowest-numbered runnable slot among those of least virtual runtime.\<close>

theorem choose_cfs_least_vruntime:
  "if \<forall>i < PROC_MAX. pstate (procs s ! i) \<noteq> PROC_RUNNABLE then choose_cfs s = -1
   else \<exists>b < PROC_MAX. choose_cfs s = int b \<and> pstate (procs s ! b) = PROC_RUNNABLE \<and>
     (\<forall>i < PROC_MAX. pstate (procs s ! i) = PROC_RUNNABLE \<longrightarrow>
        vruntime (procs s ! b) \<le> vruntime (procs s ! i) \<and>
        (i < b \<longrightarrow> vruntime (procs s ! b) < vruntime (procs s ! i)))"
proof (cases "choose_cfs s < 0")
  case True
  with choose_cfs_best [of s] show ?thesis by (auto simp: cfs_best_def)
next
  case False
  with choose_cfs_best [of s] show ?thesis
    by (auto simp: cfs_best_def intro!: exI [of _ "nat (choose_cfs s)"])
qed

theorem choose_cfs_least_vruntime_witness:
  "\<exists>b < PROC_MAX. choose_cfs two_procs = int b \<and> pstate (procs two_procs ! b) = PROC_RUNNABLE"
proof -
  have "\<exists>i < PROC_MAX. pstate (procs two_procs ! i) = PROC_RUNNABLE"
    by (rule exI [of _ 0]) (simp add: PROC_MAX_def)
  then show ?thesis using choose_cfs_least_vruntime [of two_procs] by (metis (no_types, lifting))
qed

end
