(* ===== verification/Memory.thy ===== *)
theory Memory
  imports Prelude
begin

text \<open>
  The byte-addressed memory the kernel's allocators, page tables and loaders work on.
  Addresses are 64-bit words, and address arithmetic wraps as it does on the machine.
  \<open>load\<close> and \<open>store\<close> are the little-endian accesses through a typed C pointer;
  \<open>mem_fill\<close> and \<open>mem_copy_in\<close> are the byte loops that clear or fill a buffer.
\<close>

type_synonym mem = "u64 \<Rightarrow> u8"

fun word_of_bytes :: "bytes \<Rightarrow> 'a::len word" where
  "word_of_bytes [] = 0"
| "word_of_bytes (b # bs) = ucast b OR push_bit 8 (word_of_bytes bs)"

definition load :: "mem \<Rightarrow> u64 \<Rightarrow> 'a::len word" where
  "load m a = word_of_bytes (map (\<lambda>i. m (a + of_nat i)) [0..<LENGTH('a) div 8])"

definition store :: "mem \<Rightarrow> u64 \<Rightarrow> 'a::len word \<Rightarrow> mem" where
  "store m a v = (\<lambda>x. let i = unat (x - a)
     in if i < LENGTH('a) div 8 then ucast (drop_bit (8 * i) v) else m x)"

primrec mem_fill :: "mem \<Rightarrow> u64 \<Rightarrow> u8 \<Rightarrow> nat \<Rightarrow> mem" where
  "mem_fill m a v 0 = m"
| "mem_fill m a v (Suc n) = (mem_fill m a v n)(a + of_nat n := v)"

fun mem_copy_in :: "mem \<Rightarrow> u64 \<Rightarrow> bytes \<Rightarrow> mem" where
  "mem_copy_in m a [] = m"
| "mem_copy_in m a (b # bs) = mem_copy_in (m(a := b)) (a + 1) bs"

definition mem_read :: "mem \<Rightarrow> u64 \<Rightarrow> nat \<Rightarrow> bytes" where
  "mem_read m a n = map (\<lambda>i. m (a + of_nat i)) [0..<n]"

section \<open>Reading back what was written\<close>

lemma bit_word_of_bytes:
  "bit (word_of_bytes bs :: 'a::len word) n \<longleftrightarrow>
     n < LENGTH('a) \<and> n div 8 < length bs \<and> bit (bs ! (n div 8)) (n mod 8)"
proof (induction bs arbitrary: n)
  case Nil
  then show ?case by simp
next
  case (Cons b bs)
  show ?case
  proof (cases "n < 8")
    case True
    then show ?thesis by (auto simp: bit_simps)
  next
    case False
    then have n: "n div 8 = Suc ((n - 8) div 8)" "n mod 8 = (n - 8) mod 8"
      by (simp_all add: le_div_geq le_mod_geq)
    have "\<not> bit b n" using False bit_imp_le_length by fastforce
    with False Cons.IH [of "n - 8"] show ?thesis by (auto simp: bit_simps n)
  qed
qed

lemma bit_load:
  assumes "8 dvd LENGTH('a)"
  shows "bit (load m a :: 'a::len word) n \<longleftrightarrow>
    n < LENGTH('a) \<and> bit (m (a + of_nat (n div 8))) (n mod 8)"
proof -
  have "n div 8 < LENGTH('a) div 8" if "n < LENGTH('a)"
    using that assms by (metis less_mult_imp_div_less dvd_div_mult_self)
  then show ?thesis by (auto simp: load_def bit_word_of_bytes)
qed

lemma load_store_same:
  assumes "8 dvd LENGTH('a)" and "LENGTH('a) \<le> 2 ^ 64"
  shows "load (store m a v) a = (v :: 'a::len word)"
proof (rule bit_word_eqI)
  fix n assume n: "n < LENGTH('a)"
  have "n div 8 < LENGTH('a) div 8"
    using n assms(1) by (metis less_mult_imp_div_less dvd_div_mult_self)
  moreover have "unat (of_nat (n div 8) :: u64) = n div 8"
    using n assms(2) by (simp add: unat_of_nat)
  ultimately show "bit (load (store m a v) a :: 'a word) n = bit v n"
    using n by (simp add: bit_load [OF assms(1)]) (simp add: store_def Let_def bit_simps)
qed

text \<open>Two accesses are apart when each starts beyond the end of the other.\<close>

lemma load_cong:
  "(\<And>i. i < LENGTH('a) div 8 \<Longrightarrow> m (a + of_nat i) = m' (a + of_nat i)) \<Longrightarrow>
     load m a = (load m' a :: 'a::len word)"
  unfolding load_def by (rule arg_cong [of _ _ word_of_bytes]) simp

lemma load_store_apart:
  assumes "LENGTH('b) div 8 \<le> unat (b - a)" and "LENGTH('a) div 8 + unat (b - a) \<le> 2 ^ 64"
  shows "load (store m a (v :: 'b::len word)) b = (load m b :: 'a::len word)"
proof (rule load_cong)
  fix i assume i: "i < LENGTH('a) div 8"
  have "b + of_nat i - a = of_nat (unat (b - a) + i)" by (simp add: algebra_simps)
  then have "unat (b + of_nat i - a) = unat (b - a) + i"
    using i assms(2) by (simp only: unat_of_nat) simp
  then show "store m a v (b + of_nat i) = m (b + of_nat i)"
    using assms(1) by (simp add: store_def Let_def)
qed

lemma mem_fill_apply:
  "n \<le> 2 ^ 64 \<Longrightarrow> mem_fill m a v n x = (if unat (x - a) < n then v else m x)"
proof (induction n)
  case 0
  then show ?case by simp
next
  case (Suc n)
  have "x = a + of_nat n \<longleftrightarrow> unat (x - a) = n"
  proof
    assume "x = a + of_nat n"
    then show "unat (x - a) = n" using Suc.prems by (simp add: unat_of_nat)
  next
    assume "unat (x - a) = n"
    then have "x - a = of_nat n" by (metis of_nat_unat ucast_id)
    then show "x = a + of_nat n" by (simp add: algebra_simps)
  qed
  with Suc show ?case by auto
qed

lemma load_zero: "load (\<lambda>_. 0) a = (0 :: 'a::len word)"
proof -
  have "word_of_bytes (replicate k 0) = (0 :: 'a word)" for k by (induction k) simp_all
  then show ?thesis by (simp add: load_def map_replicate_const)
qed

lemma load_fill_inside:
  assumes "unat (a - p) + LENGTH('a) div 8 \<le> n" and "n \<le> 2 ^ 64"
  shows "load (mem_fill m p 0 n) a = (0 :: 'a::len word)"
proof -
  have "load (mem_fill m p 0 n) a = (load (\<lambda>_. 0) a :: 'a word)"
  proof (rule load_cong)
    fix i assume "i < LENGTH('a) div 8"
    then have "unat (a + of_nat i - p) < n" using assms by (simp add: unat_offset)
    then show "mem_fill m p 0 n (a + of_nat i) = 0" using assms(2) by (simp add: mem_fill_apply)
  qed
  then show ?thesis by (simp only: load_zero)
qed

lemma load_fill_outside:
  assumes "n \<le> unat (a - p)" and "unat (a - p) + LENGTH('a) div 8 \<le> 2 ^ 64"
  shows "load (mem_fill m p v n) a = (load m a :: 'a::len word)"
proof (rule load_cong)
  fix i assume "i < LENGTH('a) div 8"
  then have "unat (a + of_nat i - p) = unat (a - p) + i" using assms by (simp add: unat_offset)
  moreover have "n \<le> 2 ^ 64" using assms by simp
  ultimately show "mem_fill m p v n (a + of_nat i) = m (a + of_nat i)"
    using assms(1) by (simp add: mem_fill_apply)
qed

lemma div8_same: "x mod 8 + i < 8 \<Longrightarrow> (x + i) div 8 = x div (8 :: nat)"
proof -
  assume a: "x mod 8 + i < 8"
  have "(x + i) div 8 = ((x mod 8 + i) + x div 8 * 8) div 8"
    by (metis add.assoc add.commute div_mult_mod_eq)
  also have "\<dots> = x div 8 + (x mod 8 + i) div 8" by (rule div_mult_self1) simp
  finally show ?thesis using a by simp
qed

lemma block_end: "x mod 8 + i < 8 \<Longrightarrow> x < 2 ^ 64 \<Longrightarrow> x + i < (2 :: nat) ^ 64"
proof -
  assume a: "x mod 8 + i < 8" and b: "x < 2 ^ 64"
  have e: "n < 2 ^ 64 \<longleftrightarrow> n div 8 < 2 ^ 61" for n :: nat
    by (subst div_less_iff_less_mult) simp_all
  show ?thesis using b unfolding e div8_same [OF a] .
qed

text \<open>Accesses that stay inside different aligned 8-byte blocks do not meet.\<close>

lemma same_block:
  assumes "unat a mod 8 + i < 8"
  shows "unat (a + of_nat i :: u64) = unat a + i"
proof -
  have "unat a + i < 2 ^ 64"
    using assms unsigned_less [of a] by (intro block_end) simp_all
  then show ?thesis using unat_offset [of a 0 i] by simp
qed

lemma load_store_blocks:
  assumes "unat a div 8 \<noteq> unat b div 8"
    and "unat a mod 8 + LENGTH('b) div 8 \<le> 8" and "unat b mod 8 + LENGTH('a) div 8 \<le> 8"
  shows "load (store m a (v :: 'b::len word)) b = (load m b :: 'a::len word)"
proof (rule load_cong)
  fix i assume i: "i < LENGTH('a) div 8"
  let ?x = "b + of_nat i"
  have xb: "unat ?x = unat b + i" using i assms(3) by (intro same_block) simp
  have "\<not> unat (?x - a) < LENGTH('b) div 8"
  proof
    assume j: "unat (?x - a) < LENGTH('b) div 8"
    have "unat (a + of_nat (unat (?x - a))) = unat a + unat (?x - a)"
      using j assms(2) by (intro same_block) simp
    then have "unat ?x = unat a + unat (?x - a)" by simp
    then have "unat b + i = unat a + unat (?x - a)" using xb by simp
    moreover have "(unat b + i) div 8 = unat b div 8"
      using i assms(3) by (intro div8_same) simp
    moreover have "(unat a + unat (?x - a)) div 8 = unat a div 8"
      using j assms(2) by (intro div8_same) simp
    ultimately show False using assms(1) by simp
  qed
  then show "store m a v ?x = m ?x" by (simp add: store_def Let_def)
qed

lemma load_store_aligned:
  assumes "unat a mod 8 = 0" and "unat b mod 8 = 0" and "a \<noteq> b"
  shows "load (store m a (v :: u64)) b = (load m b :: u64)"
proof -
  have "unat a div 8 \<noteq> unat b div 8"
    using assms by (metis div_mult_mod_eq unsigned_word_eqI)
  then show ?thesis using assms by (intro load_store_blocks) simp_all
qed

lemma load_store_u64 [simp]: "load (store m a v) a = (v :: u64)"
  by (rule load_store_same) simp_all

lemma load_store_u32 [simp]: "load (store m a v) a = (v :: u32)"
  by (rule load_store_same) simp_all

lemma mem_copy_in_apply:
  "length bs \<le> 2 ^ 64 \<Longrightarrow>
     mem_copy_in m a bs x = (if unat (x - a) < length bs then bs ! unat (x - a) else m x)"
proof (induction bs arbitrary: m a)
  case Nil
  then show ?case by simp
next
  case (Cons b bs)
  show ?case
  proof (cases "x = a")
    case True
    have "length bs < 2 ^ 64" using Cons.prems by simp
    moreover have "unat (x - (a + 1)) = 2 ^ 64 - 1"
      by (simp add: True unsigned_minus_1_eq_mask mask_eq_exp_minus_1)
    ultimately have "mem_copy_in (m(a := b)) (a + 1) bs x = (m(a := b)) x"
      by (subst Cons.IH) simp_all
    then show ?thesis using True by simp
  next
    case False
    then have "unat (x - a) \<noteq> 0" by (simp add: unat_eq_zero)
    then obtain k where k: "unat (x - a) = Suc k" using not0_implies_Suc by blast
    have "x - (a + 1) = (x - a) - 1" by (rule diff_diff_eq [symmetric])
    moreover have "x - a \<noteq> 0" using False by simp
    then have "unat (x - a - 1) = unat (x - a) - 1" by (rule unat_minus_one)
    ultimately have "unat (x - (a + 1)) = k" using k by (simp only: diff_Suc_1)
    then have "mem_copy_in (m(a := b)) (a + 1) bs x = (if k < length bs then bs ! k else m x)"
      using Cons.prems False by (subst Cons.IH) simp_all
    with k show ?thesis by simp
  qed
qed

lemma length_mem_read [simp]: "length (mem_read m a n) = n"
  by (simp add: mem_read_def)

lemma mem_read_copy:
  assumes "length bs \<le> 2 ^ 64"
  shows "mem_read (mem_copy_in m a bs) a (length bs) = bs"
proof (rule nth_equalityI)
  fix i assume "i < length (mem_read (mem_copy_in m a bs) a (length bs))"
  then have i: "i < length bs" by simp
  then have "i < 2 ^ 64" using assms by simp
  then have "unat (a + of_nat i - a) = i" using unat_offset [of a a i] by simp
  then show "mem_read (mem_copy_in m a bs) a (length bs) ! i = bs ! i"
    using i mem_copy_in_apply [OF assms, of m a "a + of_nat i"] by (simp add: mem_read_def)
qed simp

section \<open>What an operation may change\<close>

text \<open>\<open>changes m m' A\<close>: the two memories agree outside the addresses in \<open>A\<close>.\<close>

definition changes :: "mem \<Rightarrow> mem \<Rightarrow> nat set \<Rightarrow> bool" where
  "changes m m' A \<longleftrightarrow> (\<forall>x. unat x \<notin> A \<longrightarrow> m' x = m x)"

lemma changes_refl [simp]: "changes m m A"
  by (simp add: changes_def)

lemma changes_mono: "changes m m' A \<Longrightarrow> A \<subseteq> B \<Longrightarrow> changes m m' B"
  by (auto simp: changes_def)

lemma changes_trans: "changes m m' A \<Longrightarrow> changes m' m'' A \<Longrightarrow> changes m m'' A"
  by (simp add: changes_def)

lemma changes_store:
  "unat a + LENGTH('a) div 8 \<le> 2 ^ 64 \<Longrightarrow>
     changes m (store m a (v :: 'a::len word)) {unat a ..< unat a + LENGTH('a) div 8}"
  unfolding changes_def store_def Let_def using unat_between by (metis (no_types, lifting))

lemma changes_fill:
  "unat a + n \<le> 2 ^ 64 \<Longrightarrow> changes m (mem_fill m a v n) {unat a ..< unat a + n}"
  unfolding changes_def using unat_between by (metis (no_types, lifting) add_leD2 mem_fill_apply)

lemma changes_load:
  assumes "changes m m' A" and "{unat a ..< unat a + LENGTH('a) div 8} \<inter> A = {}"
    and "unat a + LENGTH('a) div 8 \<le> 2 ^ 64"
  shows "load m' a = (load m a :: 'a::len word)"
proof (rule load_cong)
  fix i assume i: "i < LENGTH('a) div 8"
  then have "unat (a + of_nat i) = unat a + i" using unat_offset [of a 0 i] assms(3) by simp
  moreover have "unat a + i \<notin> A" using i assms(2) by (simp add: disjoint_iff)
  ultimately show "m' (a + of_nat i) = m (a + of_nat i)" using assms(1) by (simp add: changes_def)
qed

lemma changes_copy_in:
  "unat a + length bs \<le> 2 ^ 64 \<Longrightarrow> changes m (mem_copy_in m a bs) {unat a ..< unat a + length bs}"
  unfolding changes_def using unat_between by (metis (no_types, lifting) add_leD2 mem_copy_in_apply)

lemma changes_byte: "unat a \<in> A \<Longrightarrow> changes m (m(a := v)) A"
  by (auto simp: changes_def)

lemma changes_read:
  assumes "changes m m' A" "{unat a ..< unat a + n} \<inter> A = {}" "unat a + n \<le> 2 ^ 64"
  shows "mem_read m' a n = mem_read m a n"
proof (rule nth_equalityI)
  fix i assume "i < length (mem_read m' a n)"
  then have i: "i < n" by simp
  then have "unat (a + of_nat i) = unat a + i" using unat_offset [of a 0 i] assms(3) by simp
  moreover have "unat a + i \<notin> A" using i assms(2) by (simp add: disjoint_iff)
  ultimately show "mem_read m' a n ! i = mem_read m a n ! i" using assms(1) i by (simp add: changes_def mem_read_def)
qed simp

section \<open>Parts of what was read\<close>

lemma mem_read_sub:
  assumes "mem_read m a n = xs" "i + k \<le> n"
  shows "mem_read m (a + of_nat i) k = take k (drop i xs)"
proof (rule nth_equalityI)
  fix j assume "j < length (mem_read m (a + of_nat i) k)"
  then show "mem_read m (a + of_nat i) k ! j = take k (drop i xs) ! j"
    using assms by (auto simp: mem_read_def ac_simps)
qed (use assms in auto)

lemma mem_read_nth: "mem_read m a n = xs \<Longrightarrow> i < n \<Longrightarrow> m (a + of_nat i) = xs ! i"
  by (auto simp: mem_read_def)

lemma mem_read_add: "mem_read m a (i + j) = mem_read m a i @ mem_read m (a + of_nat i) j"
  by (rule nth_equalityI) (auto simp: mem_read_def nth_append add.assoc)

text \<open>A narrow load reads the low half of a wide one.\<close>

lemma load_low: "load m a = (ucast (load m a :: u64) :: u32)"
  by (rule bit_word_eqI) (simp add: bit_load bit_simps)

text \<open>Copying the next part of a list behind what a buffer already holds.\<close>

lemma buffer_append:
  assumes "mem_read m buf n = take n xs" "n + k \<le> length xs" "unat buf + n + k \<le> 2 ^ 64"
  shows "mem_read (mem_copy_in m (buf + of_nat n) (take k (drop n xs))) buf (n + k) = take (n + k) xs"
proof -
  let ?m = "mem_copy_in m (buf + of_nat n) (take k (drop n xs))"
  have len: "length (take k (drop n xs)) = k" using assms(2) by simp
  have "mem_read ?m (buf + of_nat n) k = take k (drop n xs)"
    using mem_read_copy [of "take k (drop n xs)" m "buf + of_nat n"] assms(3) len by simp
  moreover have "mem_read ?m buf n = mem_read m buf n"
  proof (cases "k = 0")
    case False
    then have u: "unat (buf + of_nat n) = unat buf + n" using unat_offset [of buf 0 n] assms(3) by simp
    show ?thesis
      by (rule changes_read [OF changes_copy_in]) (use assms(3) len in \<open>auto simp: u\<close>)
  qed simp
  ultimately show ?thesis using assms(1) by (simp add: mem_read_add take_add)
qed

end
