(* ===== verification/Vm.thy ===== *)
theory Vm
  imports Memory
begin

text \<open>
  \<^verbatim>\<open>src/src/mm/vm.c\<close>: the bump allocator of zeroed pages, the 2 MiB identity map made
  at boot, the four-level page-table insertion \<^verbatim>\<open>vm_map_page\<close> and the walk
  \<^verbatim>\<open>vm_virt_to_phys\<close>.  The kernel runs identity mapped, so a table pointer of the source
  is an address of the memory.  The addresses the linker gives to \<^verbatim>\<open>_kernel_end\<close> and to
  the static tables are the record \<open>vm_image\<close>; \<open>vm_image_ok\<close> is what the
  section layout guarantees of them.

  \<open>tree_ok\<close> is the invariant of the tables: a labelling of the pages in use by level
  and address prefix such that every present entry leads to the page of the next level for
  its own prefix.  Under it no two page tables share a slot, so an insertion changes the
  translation of one page only.
\<close>

definition VM_FLAG_PRESENT :: u64 where "VM_FLAG_PRESENT = 0x001"
definition VM_FLAG_WRITE :: u64 where "VM_FLAG_WRITE = 0x002"
definition VM_FLAG_USER :: u64 where "VM_FLAG_USER = 0x004"
definition VM_FLAG_HUGE :: u64 where "VM_FLAG_HUGE = 0x080"

lemmas vm_flags = VM_FLAG_PRESENT_def VM_FLAG_WRITE_def VM_FLAG_USER_def VM_FLAG_HUGE_def

record vm_image =
  kernel_end :: u64
  kernel_pml4 :: u64
  kernel_pdpt :: u64
  kernel_pd :: u64

record vm =
  vm_mem :: mem
  page_bump :: u64
  cr3 :: u64

definition align_up :: "u64 \<Rightarrow> u64 \<Rightarrow> u64" where
  "align_up v a = (v + a - 1) AND NOT (a - 1)"

definition vm_alloc_page :: "vm \<Rightarrow> vm \<times> u64" where
  "vm_alloc_page s = (let page = page_bump s
     in (s\<lparr>page_bump := page + 4096, vm_mem := mem_fill (vm_mem s) page 0 4096\<rparr>, page))"

definition vm_free_page :: "vm \<Rightarrow> u64 \<Rightarrow> vm" where
  "vm_free_page s page = s"

definition vm_kernel_cr3 :: "vm_image \<Rightarrow> u64" where
  "vm_kernel_cr3 k = kernel_pml4 k"

text \<open>Entry \<open>i\<close> of the table at \<open>t\<close>.\<close>

definition pt_get :: "mem \<Rightarrow> u64 \<Rightarrow> u64 \<Rightarrow> u64" where
  "pt_get m t i = load m (t + 8 * i)"

definition pt_set :: "mem \<Rightarrow> u64 \<Rightarrow> u64 \<Rightarrow> u64 \<Rightarrow> mem" where
  "pt_set m t i e = store m (t + 8 * i) e"

text \<open>The loop of \<^verbatim>\<open>vm_map_identity_2m\<close>; \<open>stop\<close> is the variable \<^verbatim>\<open>end\<close>.\<close>

function map_2m_loop :: "vm_image \<Rightarrow> u64 \<Rightarrow> u64 \<Rightarrow> u64 \<Rightarrow> mem \<Rightarrow> mem \<times> int" where
  "map_2m_loop k flags stop addr m =
     (if addr < stop then
        (let pdpt_i = drop_bit 30 addr AND 0x1ff; pd_i = drop_bit 21 addr AND 0x1ff
         in if 4 \<le> pdpt_i then (m, -1)
            else map_2m_loop k flags stop (addr + 0x200000)
                   (pt_set m (kernel_pd k + 4096 * pdpt_i) pd_i (addr OR flags OR VM_FLAG_HUGE)))
      else (m, 0))"
  by pat_completeness auto

definition vm_map_identity_2m :: "vm_image \<Rightarrow> vm \<Rightarrow> u64 \<Rightarrow> u64 \<Rightarrow> u64 \<Rightarrow> vm \<times> int" where
  "vm_map_identity_2m k s start bytes flags =
     (if start AND 0x1FFFFF \<noteq> 0 \<or> bytes AND 0x1FFFFF \<noteq> 0 then (s, -1)
      else
        let rw = VM_FLAG_PRESENT OR VM_FLAG_WRITE OR VM_FLAG_USER;
            m0 = pt_set (vm_mem s) (kernel_pml4 k) 0 (kernel_pdpt k OR rw);
            m1 = fold (\<lambda>i m. pt_set m (kernel_pdpt k) i ((kernel_pd k + 4096 * i) OR rw)) [0, 1, 2, 3] m0;
            (m2, r) = map_2m_loop k flags (start + bytes) start m1
        in (s\<lparr>vm_mem := m2\<rparr>, r))"

definition vm_init :: "vm_image \<Rightarrow> vm \<Rightarrow> vm" where
  "vm_init k s =
     (let s1 = s\<lparr>page_bump := align_up (kernel_end k) 4096\<rparr>;
          s2 = fst (vm_map_identity_2m k s1 0 (4 * 1024 * 1024 * 1024)
                      (VM_FLAG_PRESENT OR VM_FLAG_WRITE OR VM_FLAG_USER))
      in s2\<lparr>cr3 := kernel_pml4 k\<rparr>)"

text \<open>The pattern each level of \<^verbatim>\<open>vm_map_page\<close> repeats: take the table below slot
  \<open>i\<close> of \<open>t\<close>, allocating and linking an empty one when the slot is not present.\<close>

definition next_table :: "vm \<Rightarrow> u64 \<Rightarrow> u64 \<Rightarrow> vm \<times> u64" where
  "next_table s t i =
     (if pt_get (vm_mem s) t i AND VM_FLAG_PRESENT = 0 then
        let (s', page) = vm_alloc_page s
        in (s'\<lparr>vm_mem := pt_set (vm_mem s') t i
                 (page OR VM_FLAG_PRESENT OR VM_FLAG_WRITE OR VM_FLAG_USER)\<rparr>, page)
      else (s, pt_get (vm_mem s) t i AND NOT 0xfff))"

definition vm_map_page :: "vm_image \<Rightarrow> vm \<Rightarrow> u64 \<Rightarrow> u64 \<Rightarrow> u64 \<Rightarrow> vm \<times> int" where
  "vm_map_page k s virt phys flags =
     (if virt AND 0xfff \<noteq> 0 \<or> phys AND 0xfff \<noteq> 0 then (s, -1)
      else
        let pml4_i = drop_bit 39 virt AND 0x1ff;
            pdpt_i = drop_bit 30 virt AND 0x1ff;
            pd_i = drop_bit 21 virt AND 0x1ff;
            pt_i = drop_bit 12 virt AND 0x1ff;
            (s1, pdpt) = next_table s (kernel_pml4 k) pml4_i;
            (s2, pd) = next_table s1 pdpt pdpt_i
        in if pt_get (vm_mem s2) pd pd_i AND VM_FLAG_HUGE \<noteq> 0 then (s2, -1)
           else
             let (s3, pt) = next_table s2 pd pd_i
             in (s3\<lparr>vm_mem := pt_set (vm_mem s3) pt pt_i (phys OR flags OR VM_FLAG_PRESENT)\<rparr>, 0))"

definition vm_virt_to_phys :: "vm_image \<Rightarrow> vm \<Rightarrow> u64 \<Rightarrow> u64" where
  "vm_virt_to_phys k s virt =
     (let pml4_i = drop_bit 39 virt AND 0x1ff;
          pdpt_i = drop_bit 30 virt AND 0x1ff;
          pd_i = drop_bit 21 virt AND 0x1ff;
          pt_i = drop_bit 12 virt AND 0x1ff;
          pml4e = pt_get (vm_mem s) (kernel_pml4 k) pml4_i
      in if pml4e AND VM_FLAG_PRESENT = 0 then 0
         else let pdpte = pt_get (vm_mem s) (pml4e AND NOT 0xfff) pdpt_i
         in if pdpte AND VM_FLAG_PRESENT = 0 then 0
         else let pde = pt_get (vm_mem s) (pdpte AND NOT 0xfff) pd_i
         in if pde AND VM_FLAG_PRESENT = 0 then 0
         else if pde AND VM_FLAG_HUGE \<noteq> 0 then (pde AND NOT 0x1fffff) OR (virt AND 0x1fffff)
         else let pte = pt_get (vm_mem s) (pde AND NOT 0xfff) pt_i
         in if pte AND VM_FLAG_PRESENT = 0 then 0
         else (pte AND NOT 0xfff) OR (virt AND 0xfff))"

section \<open>Termination of the boot map\<close>

lemma unat_drop_mask: "unat (drop_bit n v AND 0x1ff :: u64) = unat v div 2 ^ n mod 512"
proof -
  have "drop_bit n v AND 0x1ff = take_bit 9 (drop_bit n v)"
    by (simp add: take_bit_eq_mask mask_eq_exp_minus_1)
  then show ?thesis
    by (simp only: unsigned_take_bit_eq unat_drop_bit_eq) (simp add: take_bit_eq_mod drop_bit_eq_div)
qed

lemma mod_mult_div: "0 < a \<Longrightarrow> n mod (a * b) div a = n div a mod (b :: nat)"
  by (simp add: mod_mult2_eq)

lemma next_2m: "unat (addr + 0x200000 :: u64) div 2 ^ 21 mod 2 ^ 18 = (unat addr div 2 ^ 21 + 1) mod 2 ^ 18"
proof -
  have "unat (addr + 0x200000) = (unat addr + 2 ^ 21) mod 2 ^ 64"
    by (simp add: unat_word_ariths)
  then have "unat (addr + 0x200000) div 2 ^ 21 mod 2 ^ 18 =
      (unat addr + 2 ^ 21) mod (2 ^ 21 * 2 ^ 43) div 2 ^ 21 mod 2 ^ 18" by simp
  also have "\<dots> = (unat addr + 2 ^ 21) div 2 ^ 21 mod 2 ^ 43 mod 2 ^ 18"
    by (subst mod_mult_div) simp_all
  also have "\<dots> = (unat addr + 2 ^ 21) div 2 ^ 21 mod 2 ^ 18"
    by (rule mod_mod_cancel) (simp add: le_imp_power_dvd)
  also have "(unat addr + 2 ^ 21) div 2 ^ 21 = unat addr div 2 ^ 21 + 1" by (rule div_add_self2) simp
  finally show ?thesis .
qed

termination map_2m_loop
proof (relation "measure (\<lambda>(k, flags, stop, addr, m). 2048 - unat addr div 2 ^ 21 mod 2 ^ 18)", goal_cases)
  case 1
  then show ?case by simp
next
  case (2 k flags stop addr m pdpt_i pd_i)
  let ?x = "unat addr div 2 ^ 21 mod 2 ^ 18"
  have "unat pdpt_i = unat addr div 2 ^ 30 mod 512" using 2 by (simp add: unat_drop_mask)
  also have "\<dots> = ?x div 512"
    using mod_mult2_eq [of "unat addr div 2 ^ 21" 512 512] div_mult2_eq [of "unat addr" "2 ^ 21" 512] by simp
  finally have "?x div 512 < 4" using 2 by (simp add: word_le_nat_alt)
  then have "?x < 2048" by simp
  then have "unat (addr + 0x200000) div 2 ^ 21 mod 2 ^ 18 = ?x + 1"
    unfolding next_2m by (subst mod_add_left_eq [symmetric]) simp
  then show ?case using \<open>?x < 2048\<close> by (simp only: in_measure prod.case diff_less_mono2 less_add_one)
qed

declare map_2m_loop.simps [simp del]

section \<open>Entries, flags and addresses\<close>

definition page_aligned :: "u64 \<Rightarrow> bool" where
  "page_aligned a \<longleftrightarrow> unat a mod 4096 = 0"

lemma and_fff: "v AND 0xfff = (take_bit 12 v :: u64)"
  by (simp add: take_bit_eq_mask mask_eq_exp_minus_1)

lemma page_aligned_and: "page_aligned a \<longleftrightarrow> a AND 0xfff = 0"
proof -
  have "unat (a AND 0xfff) = unat a mod 4096"
    unfolding and_fff by (simp only: unsigned_take_bit_eq) (simp add: take_bit_eq_mod)
  then show ?thesis unfolding page_aligned_def by (metis unat_0 unat_eq_zero)
qed

lemma and_not_split: "(v :: u64) = (v AND NOT b) OR (v AND b)"
  by (simp add: bit_eq_iff bit_simps) blast

lemma page_of_aligned: "page_aligned a \<Longrightarrow> a AND NOT 0xfff = a"
  using and_not_split [of a "0xfff"] by (simp add: page_aligned_and)

lemma page_aligned_mask: "page_aligned (e AND NOT 0xfff)"
  by (simp add: page_aligned_and ac_simps)

lemma page_of_entry:
  "page_aligned a \<Longrightarrow> f AND NOT 0xfff = 0 \<Longrightarrow> (a OR f) AND NOT 0xfff = a"
  using page_of_aligned [of a] by (simp add: bit.conj_disj_distrib2)

lemma page_room: "page_aligned a \<Longrightarrow> unat a + 4096 \<le> 2 ^ 64"
proof -
  assume "page_aligned a"
  then have "unat a = unat a div 4096 * 4096"
    unfolding page_aligned_def using div_mult_mod_eq [of "unat a" 4096] by simp
  moreover have "unat a div 4096 < 2 ^ 52"
    using unsigned_less [of a] by (subst div_less_iff_less_mult) simp_all
  ultimately have "unat a \<le> (2 ^ 52 - 1) * 4096" by (metis Suc_leI diff_Suc_1 diff_le_mono mult_le_mono1 One_nat_def)
  then show ?thesis by simp
qed

lemma entry_addr:
  assumes "page_aligned t" and "i < 512"
  shows "unat (t + 8 * i) = unat t + 8 * unat i"
proof -
  have i: "unat i < 512" using assms(2) by (simp add: word_less_nat_alt)
  then have "unat t + 8 * unat i < 2 ^ 64" using page_room [OF assms(1)] by simp
  moreover have "unat (8 * i) = 8 * unat i" using i by (simp add: unat_word_ariths)
  ultimately show ?thesis by (simp add: unat_word_ariths)
qed

lemma entry_inj:
  assumes "page_aligned t" "i < 512" "page_aligned t'" "i' < 512" and eq: "t + 8 * i = t' + 8 * i'"
  shows "t = t' \<and> i = i'"
proof -
  have e: "unat t + 8 * unat i = unat t' + 8 * unat i'"
    using entry_addr assms eq by metis
  have "unat i < 512" "unat i' < 512" using assms by (simp_all add: word_less_nat_alt)
  moreover have "unat t mod 4096 = 0" "unat t' mod 4096 = 0" using assms by (simp_all add: page_aligned_def)
  ultimately have "unat i = unat i'" using arg_cong [OF e, of "\<lambda>x. x mod 4096"]
    by (simp add: mod_add_left_eq [symmetric, of "unat t"] mod_add_left_eq [symmetric, of "unat t'"])
  then show ?thesis using e by (simp add: unsigned_word_eqI)
qed

lemma entry_mod8: "page_aligned t \<Longrightarrow> i < 512 \<Longrightarrow> unat (t + 8 * i) mod 8 = 0"
proof -
  assume a: "page_aligned t" "i < 512"
  then have "4096 dvd unat t" by (simp add: page_aligned_def mod_eq_0_iff_dvd)
  then have "8 dvd unat t" using dvd_trans [of 8 "4096 :: nat"] by simp
  then show ?thesis using a by (simp add: entry_addr mod_eq_0_iff_dvd)
qed

lemma pt_get_set_same [simp]: "pt_get (pt_set m t i e) t i = e"
  by (simp add: pt_get_def pt_set_def)

lemma pt_get_set_other:
  assumes "page_aligned t" "i < 512" "page_aligned t'" "i' < 512" and "(t, i) \<noteq> (t', i')"
  shows "pt_get (pt_set m t i e) t' i' = pt_get m t' i'"
proof -
  have "t + 8 * i \<noteq> t' + 8 * i'" using entry_inj assms by blast
  then show ?thesis unfolding pt_get_def pt_set_def
    using assms by (intro load_store_aligned entry_mod8)
qed

lemma pt_get_fresh: "i < 512 \<Longrightarrow> pt_get (mem_fill m p 0 4096) p i = 0"
proof -
  assume "i < 512"
  then have "unat (8 * i) \<le> 4088" by (simp add: unat_word_ariths word_less_nat_alt)
  then show ?thesis unfolding pt_get_def by (intro load_fill_inside) simp_all
qed

lemma pt_get_below:
  assumes "page_aligned t" "i < 512" "page_aligned p" and "unat t + 4096 \<le> unat p"
  shows "pt_get (mem_fill m p v 4096) t i = pt_get m t i"
proof -
  have i: "unat i < 512" using assms(2) by (simp add: word_less_nat_alt)
  have "unat (t + 8 * i - p) = unat (t + 8 * i) + 2 ^ 64 - unat p"
    using i assms by (simp add: unat_sub_if' entry_addr)
  then have "unat (t + 8 * i - p) = unat t + 8 * unat i + 2 ^ 64 - unat p"
    using assms by (simp add: entry_addr)
  then show ?thesis unfolding pt_get_def
    using i assms(4) page_room [OF assms(3)] by (intro load_fill_outside) simp_all
qed

section \<open>The table tree\<close>

text \<open>Level \<open>l\<close> index and the prefix of an address above level \<open>l\<close>; the prefix at
  level 0 is the 36-bit virtual page number.\<close>

definition idx :: "nat \<Rightarrow> u64 \<Rightarrow> u64" where
  "idx l v = drop_bit (3 + 9 * l) v AND 0x1ff"

definition vpref :: "nat \<Rightarrow> u64 \<Rightarrow> nat" where
  "vpref l v = unat v div 2 ^ (12 + 9 * l) mod 2 ^ (9 * (4 - l))"

abbreviation present :: "u64 \<Rightarrow> bool" where "present e \<equiv> e AND VM_FLAG_PRESENT \<noteq> 0"
abbreviation huge :: "u64 \<Rightarrow> bool" where "huge e \<equiv> e AND VM_FLAG_HUGE \<noteq> 0"

text \<open>The translation as a recursion over the levels, the reference for
  \<^verbatim>\<open>vm_virt_to_phys\<close>.\<close>

fun walk :: "mem \<Rightarrow> u64 \<Rightarrow> u64 \<Rightarrow> nat \<Rightarrow> u64 option" where
  "walk m t v 0 = Some (t OR (v AND 0xfff))"
| "walk m t v (Suc l) =
     (let e = pt_get m t (idx (Suc l) v)
      in if \<not> present e then None
         else if l = 1 \<and> huge e then Some ((e AND NOT 0x1fffff) OR (v AND 0x1fffff))
         else walk m (e AND NOT 0xfff) v l)"

definition tree_ok :: "(u64 \<rightharpoonup> nat \<times> nat) \<Rightarrow> u64 \<Rightarrow> mem \<Rightarrow> u64 \<Rightarrow> bool" where
  "tree_ok own root m bump \<longleftrightarrow>
     own root = Some (4, 0) \<and> page_aligned bump \<and>
     (\<forall>t l p. own t = Some (l, p) \<longrightarrow> page_aligned t \<and> unat t + 4096 \<le> unat bump \<and> l \<le> 4) \<and>
     (\<forall>t l p i. own t = Some (Suc l, p) \<longrightarrow> 0 < l \<longrightarrow> i < 512 \<longrightarrow> present (pt_get m t i) \<longrightarrow>
        \<not> (l = 1 \<and> huge (pt_get m t i)) \<longrightarrow>
        own (pt_get m t i AND NOT 0xfff) = Some (l, p * 512 + unat i))"

definition vm_inv :: "vm_image \<Rightarrow> vm \<Rightarrow> bool" where
  "vm_inv k s \<longleftrightarrow> (\<exists>own. tree_ok own (kernel_pml4 k) (vm_mem s) (page_bump s))"

lemma idx_less: "idx l v < 512"
  by (simp add: idx_def word_less_nat_alt unat_drop_mask)

lemma vpref_step:
  assumes "l \<le> 3"
  shows "vpref l v = vpref (Suc l) v * 512 + unat (idx (Suc l) v)"
proof -
  let ?n = "unat v div 2 ^ (12 + 9 * l)"
  have "9 * (4 - l) = 9 + 9 * (3 - l)" using assms by simp
  then have "vpref l v = ?n mod (512 * 2 ^ (9 * (3 - l)))"
    unfolding vpref_def by (simp add: power_add)
  also have "\<dots> = 512 * (?n div 512 mod 2 ^ (9 * (3 - l))) + ?n mod 512" by (rule mod_mult2_eq)
  also have "?n div 512 = unat v div 2 ^ (12 + 9 * Suc l)"
    by (simp add: div_mult2_eq [symmetric] power_add)
  finally show ?thesis by (simp add: vpref_def idx_def unat_drop_mask)
qed

lemma vpref_top: "vpref 4 v = 0"
  by (simp add: vpref_def)

lemma vm_virt_to_phys_walk:
  "vm_virt_to_phys k s v =
     (case walk (vm_mem s) (kernel_pml4 k) v 4 of None \<Rightarrow> 0 | Some p \<Rightarrow> p)"
  by (simp add: vm_virt_to_phys_def eval_nat_numeral idx_def Let_def)

lemma tree_ok_page:
  "tree_ok own root m bump \<Longrightarrow> own t = Some (l, p) \<Longrightarrow>
     page_aligned t \<and> unat t + 4096 \<le> unat bump \<and> l \<le> 4"
  unfolding tree_ok_def by blast

lemma tree_ok_child:
  "tree_ok own root m bump \<Longrightarrow> own t = Some (Suc l, p) \<Longrightarrow> 0 < l \<Longrightarrow> i < 512 \<Longrightarrow>
     present (pt_get m t i) \<Longrightarrow> \<not> (l = 1 \<and> huge (pt_get m t i)) \<Longrightarrow>
     own (pt_get m t i AND NOT 0xfff) = Some (l, p * 512 + unat i)"
  by (simp add: tree_ok_def)

text \<open>A change of memory keeps the translation of \<open>v\<close> when every slot on the path of
  \<open>v\<close> either keeps its entry or goes from absent to leading nowhere.\<close>

lemma walk_change:
  assumes tree: "tree_ok own root m bump" and own: "own t = Some (l, vpref l v)"
    and slot: "\<And>t j. own t = Some (Suc j, vpref (Suc j) v) \<Longrightarrow>
      pt_get m' t (idx (Suc j) v) = pt_get m t (idx (Suc j) v) \<or>
      \<not> present (pt_get m t (idx (Suc j) v)) \<and> walk m' t v (Suc j) = None"
  shows "walk m' t v l = walk m t v l"
  using own
proof (induction l arbitrary: t)
  case 0
  then show ?case by simp
next
  case (Suc l)
  let ?e = "pt_get m t (idx (Suc l) v)"
  have l: "l \<le> 3" using tree_ok_page [OF tree Suc.prems] by simp
  from slot [OF Suc.prems] show ?case
  proof
    assume same: "pt_get m' t (idx (Suc l) v) = ?e"
    have "walk m' (?e AND NOT 0xfff) v l = walk m (?e AND NOT 0xfff) v l"
      if "present ?e" and "\<not> (l = 1 \<and> huge ?e)"
    proof (cases l)
      case (Suc j)
      then have "own (?e AND NOT 0xfff) = Some (l, vpref l v)"
        using tree_ok_child [OF tree Suc.prems _ idx_less that] vpref_step [OF l] by simp
      then show ?thesis by (rule Suc.IH)
    qed simp
    with same show ?case by (simp only: walk.simps Let_def split: if_split) blast
  qed (simp add: Let_def)
qed

section \<open>Linking an empty table\<close>

abbreviation table_flags :: u64 where
  "table_flags \<equiv> VM_FLAG_PRESENT OR VM_FLAG_WRITE OR VM_FLAG_USER"

lemma table_entry:
  assumes "page_aligned a"
  shows "present (a OR table_flags)" and "(a OR table_flags) AND NOT 0xfff = a"
    and "\<not> huge (a OR table_flags)"
proof -
  show "(a OR table_flags) AND NOT 0xfff = a"
    using assms by (rule page_of_entry) (simp add: vm_flags)
  show "present (a OR table_flags)"
    by (simp add: vm_flags bit.conj_disj_distrib2 or_eq_0_iff)
  have "a AND 0x80 = (a AND 0xfff) AND 0x80" by (simp add: and.assoc)
  then show "\<not> huge (a OR table_flags)"
    using assms by (simp add: vm_flags bit.conj_disj_distrib2 page_aligned_and)
qed

text \<open>The memory after an empty page at \<open>bump\<close> is linked into slot \<open>i\<close> of
  \<open>t\<close>.\<close>

definition link_page :: "mem \<Rightarrow> u64 \<Rightarrow> u64 \<Rightarrow> u64 \<Rightarrow> mem" where
  "link_page m bump t i = pt_set (mem_fill m bump 0 4096) t i (bump OR table_flags)"

lemma next_table_alloc:
  "\<not> present (pt_get (vm_mem s) t i) \<Longrightarrow>
     next_table s t i =
       (s\<lparr>page_bump := page_bump s + 4096, vm_mem := link_page (vm_mem s) (page_bump s) t i\<rparr>, page_bump s)"
  by (simp add: next_table_def vm_alloc_page_def link_page_def Let_def or.assoc)

lemma link_page_entries:
  assumes "page_aligned bump" "page_aligned t" "unat t + 4096 \<le> unat bump" "i < 512"
  shows "pt_get (link_page m bump t i) t i = bump OR table_flags"
    and "j < 512 \<Longrightarrow> pt_get (link_page m bump t i) bump j = 0"
    and "j < 512 \<Longrightarrow> page_aligned t' \<Longrightarrow> unat t' + 4096 \<le> unat bump \<Longrightarrow> (t', j) \<noteq> (t, i) \<Longrightarrow>
      pt_get (link_page m bump t i) t' j = pt_get m t' j"
proof -
  have "t \<noteq> bump" using assms(3) by auto
  then show "pt_get (link_page m bump t i) bump j = 0" if "j < 512"
    using that assms by (simp add: link_page_def pt_get_set_other pt_get_fresh)
  show "pt_get (link_page m bump t i) t' j = pt_get m t' j"
    if "j < 512" "page_aligned t'" "unat t' + 4096 \<le> unat bump" "(t', j) \<noteq> (t, i)"
    using that assms by (subst link_page_def, subst pt_get_set_other) (auto simp: pt_get_below)
qed (simp add: link_page_def)

lemma link_page_tree:
  assumes tree: "tree_ok own root m bump" and own: "own t = Some (Suc l, p)" "0 < l" "i < 512"
    and absent: "\<not> present (pt_get m t i)" and room: "unat bump + 8192 \<le> 2 ^ 64"
  shows "tree_ok (own(bump \<mapsto> (l, p * 512 + unat i))) root (link_page m bump t i) (bump + 4096)"
    (is "tree_ok ?own root ?m ?bump")
proof -
  have b: "page_aligned bump" using tree by (simp add: tree_ok_def)
  have ub: "unat ?bump = unat bump + 4096" using room unat_offset [of bump 0 4096] by simp
  have t: "page_aligned t" "unat t + 4096 \<le> unat bump" "Suc l \<le> 4" using tree_ok_page [OF tree own(1)] by auto
  have fresh: "own bump = None" using tree_ok_page [OF tree, of bump] by (cases "own bump") fastforce+
  note entry = link_page_entries [OF b t(1,2) own(3), where m = m]
  have bump': "page_aligned ?bump" using b ub by (simp add: page_aligned_def)
  have pages: "page_aligned t' \<and> unat t' + 4096 \<le> unat ?bump \<and> l' \<le> 4"
    if "?own t' = Some (l', p')" for t' l' p'
    using that tree_ok_page [OF tree, of t' l' p'] b t(3) ub by (auto split: if_splits)
  have children: "?own (pt_get ?m t' j AND NOT 0xfff) = Some (l', p' * 512 + unat j)"
    if o: "?own t' = Some (Suc l', p')" and l': "0 < l'" and j: "j < 512"
      and e: "present (pt_get ?m t' j)" "\<not> (l' = 1 \<and> huge (pt_get ?m t' j))" for t' l' p' j
  proof (cases "t' = bump")
    case True
    then show ?thesis using e(1) entry(2) [OF j] by simp
  next
    case False
    then have o': "own t' = Some (Suc l', p')" using o by simp
    show ?thesis
    proof (cases "(t', j) = (t, i)")
      case True
      then show ?thesis using o' own(1) entry(1) table_entry(2) [OF b] by simp
    next
      case False
      then have same: "pt_get ?m t' j = pt_get m t' j" using tree_ok_page [OF tree o'] entry(3) [OF j] by blast
      have c: "own (pt_get ?m t' j AND NOT 0xfff) = Some (l', p' * 512 + unat j)"
        using tree_ok_child [OF tree o' l' j] e unfolding same by blast
      then have "pt_get ?m t' j AND NOT 0xfff \<noteq> bump" using fresh by (metis option.discI)
      with c show ?thesis by (subst fun_upd_other)
    qed
  qed
  have "?own root = Some (4, 0)" using tree fresh by (auto simp: tree_ok_def)
  then show ?thesis unfolding tree_ok_def using bump' pages children by blast
qed

lemma link_page_walk:
  assumes tree: "tree_ok own root m bump" and own: "own t = Some (Suc l, p)" "0 < l" "i < 512"
    and absent: "\<not> present (pt_get m t i)"
  shows "walk (link_page m bump t i) root v 4 = walk m root v 4"
proof (rule walk_change [OF tree])
  show "own root = Some (4, vpref 4 v)" using tree by (simp add: tree_ok_def vpref_top)
next
  let ?m = "link_page m bump t i"
  fix t' j assume o: "own t' = Some (Suc j, vpref (Suc j) v)"
  have b: "page_aligned bump" using tree by (simp add: tree_ok_def)
  have t: "page_aligned t" "unat t + 4096 \<le> unat bump" using tree_ok_page [OF tree own(1)] by auto
  note entry = link_page_entries [OF b t own(3), where m = m]
  show "pt_get ?m t' (idx (Suc j) v) = pt_get m t' (idx (Suc j) v) \<or>
      \<not> present (pt_get m t' (idx (Suc j) v)) \<and> walk ?m t' v (Suc j) = None"
  proof (cases "(t', idx (Suc j) v) = (t, i)")
    case True
    then have "j = l" using o own(1) by simp
    with own(2) obtain j' where j': "j = Suc j'" using not0_implies_Suc by blast
    have "walk ?m bump v j = None" unfolding j' using entry(2) [OF idx_less] by simp
    then have "walk ?m t' v (Suc j) = None"
      using True entry(1) table_entry [OF b] by (simp only: walk.simps Let_def) simp
    then show ?thesis using True absent by simp
  next
    case False
    then show ?thesis using entry(3) [OF idx_less] tree_ok_page [OF tree o] by blast
  qed
qed

section \<open>One level of the insertion\<close>

definition slot_to :: "mem \<Rightarrow> u64 \<Rightarrow> u64 \<Rightarrow> nat \<Rightarrow> u64 \<Rightarrow> bool" where
  "slot_to m t i l t' \<longleftrightarrow> present (pt_get m t i) \<and> pt_get m t i AND NOT 0xfff = t' \<and>
     \<not> (l = 1 \<and> huge (pt_get m t i))"

definition grown :: "u64 \<Rightarrow> (u64 \<rightharpoonup> nat \<times> nat) \<Rightarrow> vm \<Rightarrow> (u64 \<rightharpoonup> nat \<times> nat) \<Rightarrow> vm \<Rightarrow> bool" where
  "grown root own s own' s' \<longleftrightarrow>
     tree_ok own' root (vm_mem s') (page_bump s') \<and> own \<subseteq>\<^sub>m own' \<and>
     (\<forall>v. walk (vm_mem s') root v 4 = walk (vm_mem s) root v 4) \<and>
     (\<forall>t y i. own t = Some y \<longrightarrow> i < 512 \<longrightarrow> present (pt_get (vm_mem s) t i) \<longrightarrow>
        pt_get (vm_mem s') t i = pt_get (vm_mem s) t i)"

lemma grown_slot:
  "grown root own s own' s' \<Longrightarrow> own t = Some y \<Longrightarrow> i < 512 \<Longrightarrow>
     slot_to (vm_mem s) t i l t' \<Longrightarrow> slot_to (vm_mem s') t i l t'"
  by (simp add: grown_def slot_to_def)

lemma grown_own: "grown root own s own' s' \<Longrightarrow> own t = Some y \<Longrightarrow> own' t = Some y"
  unfolding grown_def map_le_def by (metis domI)

lemma grown_trans:
  assumes 1: "grown root own s own' s'" and 2: "grown root own' s' own'' s''"
  shows "grown root own s own'' s''"
proof -
  have "own \<subseteq>\<^sub>m own''" using 1 2 map_le_trans unfolding grown_def by blast
  then show ?thesis using 1 2 grown_own [OF 1] unfolding grown_def by metis
qed

lemma next_table_ok:
  assumes tree: "tree_ok own root (vm_mem s) (page_bump s)"
    and own: "own t = Some (Suc l, p)" "0 < l" "i < 512"
    and small: "\<not> (l = 1 \<and> huge (pt_get (vm_mem s) t i))"
    and room: "unat (page_bump s) + 8192 \<le> 2 ^ 64"
    and eq: "next_table s t i = (s', t')"
  shows "\<exists>own'. grown root own s own' s' \<and> own' t' = Some (l, p * 512 + unat i) \<and>
    slot_to (vm_mem s') t i l t' \<and> unat (page_bump s') \<le> unat (page_bump s) + 4096"
proof (cases "present (pt_get (vm_mem s) t i)")
  case True
  then have "s' = s" "t' = pt_get (vm_mem s) t i AND NOT 0xfff"
    using eq by (auto simp add: next_table_def)
  moreover have "own (pt_get (vm_mem s) t i AND NOT 0xfff) = Some (l, p * 512 + unat i)"
    using tree own True small by (rule tree_ok_child)
  ultimately show ?thesis
    using True small tree by (intro exI [of _ own]) (simp add: grown_def slot_to_def)
next
  case False
  let ?b = "page_bump s" and ?own = "own(page_bump s \<mapsto> (l, p * 512 + unat i))"
  have s': "page_bump s' = ?b + 4096" "vm_mem s' = link_page (vm_mem s) ?b t i" "t' = ?b"
    using eq False by (auto simp: next_table_alloc)
  have b: "page_aligned ?b" using tree by (simp add: tree_ok_def)
  have t: "page_aligned t" "unat t + 4096 \<le> unat ?b" using tree_ok_page [OF tree own(1)] by auto
  have fresh: "own ?b = None" using tree_ok_page [OF tree, of ?b] by (cases "own ?b") fastforce+
  note entry = link_page_entries [OF b t own(3)]
  have "pt_get (vm_mem s') x j = pt_get (vm_mem s) x j"
    if "own x = Some y" "j < 512" "present (pt_get (vm_mem s) x j)" for x y j
    using that False tree_ok_page [OF tree, of x] entry(3) [OF that(2)] s'(2) by (metis prod.collapse prod.inject)
  moreover have "own \<subseteq>\<^sub>m ?own" using fresh by (simp add: map_le_def dom_def)
  ultimately have "grown root own s ?own s'"
    using link_page_tree [OF tree own False room] link_page_walk [OF tree own False] s'
    by (simp add: grown_def)
  moreover have "slot_to (vm_mem s') t i l t'"
    using entry(1) table_entry [OF b] by (simp add: slot_to_def s')
  moreover have "unat (page_bump s') = unat ?b + 4096"
    using room unat_offset [of ?b 0 4096] by (simp add: s')
  ultimately show ?thesis using s'(3) by (intro exI [of _ ?own]) simp
qed

lemma vm_map_tables:
  assumes inv: "vm_inv k s" and room: "unat (page_bump s) + 4 * 4096 \<le> 2 ^ 64"
    and 1: "next_table s (kernel_pml4 k) (idx 4 v) = (s1, pdpt)" and 2: "next_table s1 pdpt (idx 3 v) = (s2, pd)"
  shows "\<exists>own own'. grown (kernel_pml4 k) own s own' s2 \<and> own' (kernel_pml4 k) = Some (4, 0) \<and>
    own' pdpt = Some (3, vpref 3 v) \<and> own' pd = Some (2, vpref 2 v) \<and>
    slot_to (vm_mem s2) (kernel_pml4 k) (idx 4 v) 3 pdpt \<and> slot_to (vm_mem s2) pdpt (idx 3 v) 2 pd \<and>
    unat (page_bump s2) \<le> unat (page_bump s) + 8192"
proof -
  let ?root = "kernel_pml4 k"
  obtain own where own: "tree_ok own ?root (vm_mem s) (page_bump s)"
    using inv by (auto simp: vm_inv_def)
  then have o4: "own ?root = Some (Suc 3, 0)" by (simp add: tree_ok_def)
  obtain o1 where o1: "grown ?root own s o1 s1" "o1 pdpt = Some (3, 0 * 512 + unat (idx 4 v))"
      "slot_to (vm_mem s1) ?root (idx 4 v) 3 pdpt" "unat (page_bump s1) \<le> unat (page_bump s) + 4096"
    using next_table_ok [OF own o4 _ idx_less _ _ 1] room by auto
  have p3: "o1 pdpt = Some (Suc 2, vpref 3 v)"
    using o1(2) vpref_step [of 3 v] vpref_top by simp
  have t1: "tree_ok o1 ?root (vm_mem s1) (page_bump s1)" using o1(1) by (simp add: grown_def)
  obtain o2 where o2: "grown ?root o1 s1 o2 s2" "o2 pd = Some (2, vpref 3 v * 512 + unat (idx 3 v))"
      "slot_to (vm_mem s2) pdpt (idx 3 v) 2 pd" "unat (page_bump s2) \<le> unat (page_bump s1) + 4096"
    using next_table_ok [OF t1 p3 _ idx_less _ _ 2] o1(4) room by auto
  have "o1 ?root = Some (4, 0)" "o2 ?root = Some (4, 0)" using o1(1) o2(1) by (simp_all add: grown_def tree_ok_def)
  moreover have "o2 pdpt = Some (3, vpref 3 v)"
    using o2(1) p3 grown_own by fastforce
  moreover have "o2 pd = Some (2, vpref 2 v)" using o2(2) vpref_step [of 2 v] by simp
  moreover have "slot_to (vm_mem s2) ?root (idx 4 v) 3 pdpt"
    using grown_slot [OF o2(1) \<open>o1 ?root = _\<close> idx_less o1(3)] .
  moreover have "unat (page_bump s2) \<le> unat (page_bump s) + 8192" using o1(4) o2(4) by linarith
  ultimately show ?thesis using grown_trans [OF o1(1) o2(1)] o2(3) by blast
qed

section \<open>The insertion\<close>

lemma map_leaf_tree:
  assumes tree: "tree_ok own root m bump" and own: "own pt = Some (1, q)" and i: "i < 512"
  shows "tree_ok own root (pt_set m pt i e) bump"
proof -
  have "pt_get (pt_set m pt i e) t j = pt_get m t j" if "own t = Some (Suc l, p)" "0 < l" "j < 512" for t l p j
  proof (rule pt_get_set_other)
    show "(pt, i) \<noteq> (t, j)" using that own by auto
  qed (use that tree_ok_page [OF tree] own i in blast)+
  then show ?thesis using tree unfolding tree_ok_def by (metis (no_types, lifting))
qed

lemma map_leaf_other:
  assumes tree: "tree_ok own root m bump" and own: "own pt = Some (1, vpref 1 v)"
    and other: "vpref 0 u \<noteq> vpref 0 v"
  shows "walk (pt_set m pt (idx 1 v) e) root u 4 = walk m root u 4"
proof (rule walk_change [OF tree])
  show "own root = Some (4, vpref 4 u)" using tree by (simp add: tree_ok_def vpref_top)
next
  fix t j assume o: "own t = Some (Suc j, vpref (Suc j) u)"
  have "(pt, idx 1 v) \<noteq> (t, idx (Suc j) u)"
  proof
    assume a: "(pt, idx 1 v) = (t, idx (Suc j) u)"
    then have "j = 0" "vpref 1 u = vpref 1 v" using o own by auto
    then show False using a other vpref_step [of 0 u] vpref_step [of 0 v] by simp
  qed
  then show "pt_get (pt_set m pt (idx 1 v) e) t (idx (Suc j) u) = pt_get m t (idx (Suc j) u) \<or>
      \<not> present (pt_get m t (idx (Suc j) u)) \<and> walk (pt_set m pt (idx 1 v) e) t u (Suc j) = None"
    using tree_ok_page [OF tree] own o by (intro disjI1 pt_get_set_other idx_less) blast+
qed

lemma idx_same_page: "vpref 0 u = vpref 0 v \<Longrightarrow> l < 4 \<Longrightarrow> idx (Suc l) u = idx (Suc l) v"
proof -
  assume 0: "vpref 0 u = vpref 0 v" and "l < 4"
  have p: "unat (idx (Suc l) x) = vpref 0 x div 2 ^ (9 * l) mod 512" for x
  proof -
    have "vpref 0 x div 2 ^ (9 * l) = unat x div 2 ^ 12 mod (2 ^ (9 * l) * 2 ^ (36 - 9 * l)) div 2 ^ (9 * l)"
      using \<open>l < 4\<close> by (simp add: vpref_def power_add [symmetric])
    also have "\<dots> = unat x div 2 ^ 12 div 2 ^ (9 * l) mod 2 ^ (36 - 9 * l)" by (rule mod_mult_div) simp
    also have "\<dots> mod 512 = unat x div 2 ^ 12 div 2 ^ (9 * l) mod 2 ^ 9"
      using \<open>l < 4\<close> le_imp_power_dvd [of 9 "36 - 9 * l" "2 :: nat"] by (subst mod_mod_cancel) simp_all
    finally show ?thesis
      by (simp add: idx_def unat_drop_mask div_mult2_eq [symmetric] power_add)
  qed
  show ?thesis using p [of u] p [of v] 0 by (simp add: word_unat_eq_iff)
qed

lemma walk_slot: "slot_to m t (idx (Suc l) u) l t' \<Longrightarrow> walk m t u (Suc l) = walk m t' u l"
  by (auto simp only: slot_to_def walk.simps Let_def if_False if_True simp_thms)

lemma walk_path:
  assumes "slot_to m root (idx 4 v) 3 pdpt" "slot_to m pdpt (idx 3 v) 2 pd"
    and "vpref 0 u = vpref 0 v"
  shows "walk m root u 4 = walk m pd u 2"
  using assms(1,2) idx_same_page [OF assms(3), of 3] idx_same_page [OF assms(3), of 2]
    walk_slot [of m root 3 u pdpt] walk_slot [of m pdpt 2 u pd] by simp

abbreviation page_number :: "u64 \<Rightarrow> nat" where "page_number \<equiv> vpref 0"

lemma vm_map_page_unfold:
  assumes "virt AND 0xfff = 0" "phys AND 0xfff = 0"
    and "next_table s (kernel_pml4 k) (idx 4 virt) = (s1, pdpt)" and "next_table s1 pdpt (idx 3 virt) = (s2, pd)"
  shows "vm_map_page k s virt phys flags =
    (if huge (pt_get (vm_mem s2) pd (idx 2 virt)) then (s2, -1)
     else let (s3, pt) = next_table s2 pd (idx 2 virt)
       in (s3\<lparr>vm_mem := pt_set (vm_mem s3) pt (idx 1 virt) (phys OR flags OR VM_FLAG_PRESENT)\<rparr>, 0))"
  using assms by (simp add: vm_map_page_def idx_def Let_def)

lemma map_leaf_same:
  assumes "slot_to m root (idx 4 v) 3 pdpt" "slot_to m pdpt (idx 3 v) 2 pd" "slot_to m pd (idx 2 v) 1 pt"
    and leaf: "pt_get m pt (idx 1 v) = phys OR flags OR VM_FLAG_PRESENT"
    and page: "page_aligned phys" "flags AND NOT 0xfff = 0" and u: "page_number u = page_number v"
  shows "walk m root u 4 = Some (phys OR (u AND 0xfff))"
proof -
  have "walk m root u 4 = walk m pd u 2" using assms(1,2) u by (rule walk_path)
  also have "\<dots> = walk m pt u 1"
    using assms(3) idx_same_page [OF u, of 1] walk_slot [of m pd 1 u pt] by (simp add: numeral_2_eq_2)
  finally have w: "walk m root u 4 = walk m pt u 1" .
  have "(phys OR flags OR VM_FLAG_PRESENT) AND NOT 0xfff = phys"
    using page(1) by (rule page_of_entry) (use page(2) in \<open>simp add: vm_flags bit.conj_disj_distrib2\<close>)
  moreover have "present (phys OR flags OR VM_FLAG_PRESENT)"
    by (simp add: vm_flags bit.conj_disj_distrib2 or_eq_0_iff)
  moreover have "pt_get m pt (idx 1 u) = phys OR flags OR VM_FLAG_PRESENT"
    using leaf idx_same_page [OF u, of 0] by simp
  ultimately show ?thesis using w by (simp only: One_nat_def walk.simps Let_def) simp
qed

lemma map_leaf_slot:
  assumes tree: "tree_ok own root m bump" and pt: "own pt = Some (1, q)"
    and t: "own t = Some (l, p)" "l \<noteq> 1" and i: "i < 512" "j < 512"
  shows "slot_to (pt_set m pt j e) t i n t' = slot_to m t i n t'"
proof -
  have "(pt, j) \<noteq> (t, i)" using pt t by auto
  then have "pt_get (pt_set m pt j e) t i = pt_get m t i"
    using tree_ok_page [OF tree] pt t(1) i by (intro pt_get_set_other) blast+
  then show ?thesis by (simp add: slot_to_def)
qed

lemma vm_map_page_ok:
  assumes inv: "vm_inv k s" and room: "unat (page_bump s) + 4 * 4096 \<le> 2 ^ 64"
    and al: "virt AND 0xfff = 0" "phys AND 0xfff = 0" and eq: "vm_map_page k s virt phys flags = (s', r)"
  shows "vm_inv k s' \<and> (r = 0 \<or> r = -1) \<and>
    (\<forall>u. page_number u \<noteq> page_number virt \<or> r = -1 \<longrightarrow>
       walk (vm_mem s') (kernel_pml4 k) u 4 = walk (vm_mem s) (kernel_pml4 k) u 4) \<and>
    (\<forall>u. r = 0 \<longrightarrow> flags AND NOT 0xfff = 0 \<longrightarrow> page_number u = page_number virt \<longrightarrow>
       walk (vm_mem s') (kernel_pml4 k) u 4 = Some (phys OR (u AND 0xfff)))"
proof -
  let ?root = "kernel_pml4 k"
  obtain s1 pdpt where 1: "next_table s ?root (idx 4 virt) = (s1, pdpt)" by fastforce
  obtain s2 pd where 2: "next_table s1 pdpt (idx 3 virt) = (s2, pd)" by fastforce
  obtain own o2 where o2: "grown ?root own s o2 s2" "o2 ?root = Some (4, 0)"
      "o2 pdpt = Some (3, vpref 3 virt)" "o2 pd = Some (2, vpref 2 virt)"
      "slot_to (vm_mem s2) ?root (idx 4 virt) 3 pdpt" "slot_to (vm_mem s2) pdpt (idx 3 virt) 2 pd"
      "unat (page_bump s2) \<le> unat (page_bump s) + 8192"
    using vm_map_tables [OF inv room 1 2] by blast
  have t2: "tree_ok o2 ?root (vm_mem s2) (page_bump s2)" using o2(1) by (simp add: grown_def)
  note unf = vm_map_page_unfold [OF al 1 2, of flags]
  show ?thesis
  proof (cases "huge (pt_get (vm_mem s2) pd (idx 2 virt))")
    case True
    then have "s' = s2" "r = -1" using eq unf by auto
    then show ?thesis using o2(1) t2 by (auto simp: vm_inv_def grown_def)
  next
    case False
    obtain s3 pt where 3: "next_table s2 pd (idx 2 virt) = (s3, pt)" by fastforce
    have s': "s' = s3\<lparr>vm_mem := pt_set (vm_mem s3) pt (idx 1 virt) (phys OR flags OR VM_FLAG_PRESENT)\<rparr>" "r = 0"
      using eq unf False 3 by auto
    have "o2 pd = Some (Suc 1, vpref 2 virt)" using o2(4) by simp
    then obtain o3 where o3: "grown ?root o2 s2 o3 s3" "o3 pt = Some (1, vpref 2 virt * 512 + unat (idx 2 virt))"
        "slot_to (vm_mem s3) pd (idx 2 virt) 1 pt"
      using next_table_ok [OF t2 _ _ idx_less _ _ 3] False o2(7) room by fastforce
    then have pt: "o3 pt = Some (1, vpref 1 virt)" using vpref_step [of 1 virt] by (simp add: numeral_2_eq_2)
    have t3: "tree_ok o3 ?root (vm_mem s3) (page_bump s3)" using o3(1) by (simp add: grown_def)
    note leaf = map_leaf_tree [OF t3 pt idx_less] map_leaf_other [OF t3 pt]
    have "walk (vm_mem s3) ?root u 4 = walk (vm_mem s) ?root u 4" for u
      using o2(1) o3(1) by (simp add: grown_def)
    then have "page_number u \<noteq> page_number virt \<Longrightarrow>
        walk (vm_mem s') ?root u 4 = walk (vm_mem s) ?root u 4" for u
      using leaf(2) s' by simp
    moreover have "walk (vm_mem s') ?root u 4 = Some (phys OR (u AND 0xfff))"
      if "flags AND NOT 0xfff = 0" "page_number u = page_number virt" for u
    proof (rule map_leaf_same)
      note keep = map_leaf_slot [OF t3 pt _ _ idx_less idx_less] and own3 = grown_own [OF o3(1)]
      show "slot_to (vm_mem s') ?root (idx 4 virt) 3 pdpt"
        using keep [OF own3, OF o2(2)] grown_slot [OF o3(1) o2(2) idx_less o2(5)] s'(1) by simp
      show "slot_to (vm_mem s') pdpt (idx 3 virt) 2 pd"
        using keep [OF own3, OF o2(3)] grown_slot [OF o3(1) o2(3) idx_less o2(6)] s'(1) by simp
      show "slot_to (vm_mem s') pd (idx 2 virt) 1 pt"
        using keep [OF own3, OF o2(4)] o3(3) s'(1) by simp
    qed (use that s'(1) al in \<open>simp_all add: page_aligned_and\<close>)
    moreover have "vm_inv k s'" using leaf(1) s' by (auto simp: vm_inv_def)
    ultimately show ?thesis using s'(2) by simp
  qed
qed

section \<open>The boot map\<close>

text \<open>What the linker guarantees of the static tables: page aligned, below
  \<^verbatim>\<open>_kernel_end\<close>, disjoint, and zero at boot.\<close>

definition boot_tables :: "vm_image \<Rightarrow> u64 list" where
  "boot_tables k = kernel_pml4 k # kernel_pdpt k # map (\<lambda>i. kernel_pd k + 4096 * i) [0, 1, 2, 3]"

definition vm_image_ok :: "vm_image \<Rightarrow> mem \<Rightarrow> bool" where
  "vm_image_ok k m \<longleftrightarrow> distinct (boot_tables k) \<and> unat (kernel_end k) + 8192 \<le> 2 ^ 64 \<and>
     unat (kernel_pd k) + 4 * 4096 \<le> unat (kernel_end k) \<and>
     (\<forall>t \<in> set (boot_tables k). page_aligned t \<and> unat t + 4096 \<le> unat (kernel_end k) \<and>
        (\<forall>i < 512. pt_get m t i = 0))"

lemma map_2m_step:
  assumes "j < 2048"
  shows "unat (of_nat (j * 2 ^ 21) :: u64) = j * 2 ^ 21"
    and "drop_bit 30 (of_nat (j * 2 ^ 21)) AND 0x1ff = (of_nat (j div 512) :: u64)"
    and "drop_bit 21 (of_nat (j * 2 ^ 21)) AND 0x1ff = (of_nat (j mod 512) :: u64)"
    and "p + 4096 * of_nat (j div 512) + 8 * of_nat (j mod 512) = p + 8 * (of_nat j :: u64)"
proof -
  show u: "unat (of_nat (j * 2 ^ 21) :: u64) = j * 2 ^ 21" using assms by (simp only: unat_of_nat) simp
  have "j * 2 ^ 21 div 2 ^ 30 = j div 512"
    using div_mult_mult2 [of "2 ^ 21 :: nat" j 512] by simp
  then show "drop_bit 30 (of_nat (j * 2 ^ 21)) AND 0x1ff = (of_nat (j div 512) :: u64)"
    using assms u by (simp only: word_unat_eq_iff unat_drop_mask) (simp add: unat_of_nat)
  show "drop_bit 21 (of_nat (j * 2 ^ 21)) AND 0x1ff = (of_nat (j mod 512) :: u64)"
    using assms u by (simp only: word_unat_eq_iff unat_drop_mask) (simp add: unat_of_nat)
  have "4096 * (j div 512) + 8 * (j mod 512) = 8 * j" using mult_div_mod_eq [of 512 j] by linarith
  then have "of_nat (4096 * (j div 512) + 8 * (j mod 512)) = (of_nat (8 * j) :: u64)" by (rule arg_cong)
  then show "p + 4096 * of_nat (j div 512) + 8 * of_nat (j mod 512) = p + 8 * (of_nat j :: u64)"
    by (simp add: add.assoc)
qed

lemma pd_slot_addr:
  "unat p + 4 * 4096 \<le> 2 ^ 64 \<Longrightarrow> q < 2048 \<Longrightarrow> unat (p + 8 * of_nat q :: u64) = unat p + 8 * q"
proof -
  assume a: "unat p + 4 * 4096 \<le> 2 ^ 64" "q < 2048"
  then have "unat (p + of_nat (8 * q)) = unat p + 8 * q" using unat_offset [of p 0 "8 * q"] by simp
  then show ?thesis by simp
qed

text \<open>Slots \<open>j\<close> to \<open>n - 1\<close> of the boot page directories hold their 2 MiB pages, and
  nothing else changed.\<close>

definition mapped_2m :: "u64 \<Rightarrow> u64 \<Rightarrow> nat \<Rightarrow> nat \<Rightarrow> mem \<Rightarrow> mem \<Rightarrow> bool" where
  "mapped_2m pd flags j n m m' \<longleftrightarrow>
     (\<forall>q < 2048. load m' (pd + 8 * of_nat q) =
        (if j \<le> q \<and> q < n then of_nat (q * 2 ^ 21) OR flags OR VM_FLAG_HUGE
         else (load m (pd + 8 * of_nat q) :: u64))) \<and>
     (\<forall>a. unat a mod 8 = 0 \<longrightarrow> (\<forall>q < 2048. a \<noteq> pd + 8 * of_nat q) \<longrightarrow> load m' a = (load m a :: u64))"

lemma mapped_2m_Suc:
  assumes pd: "page_aligned pd" "unat pd + 4 * 4096 \<le> 2 ^ 64" and j: "j < n" "j < 2048"
    and rest: "mapped_2m pd flags (Suc j) n
      (store m (pd + 8 * of_nat j) (of_nat (j * 2 ^ 21) OR flags OR VM_FLAG_HUGE)) m'"
  shows "mapped_2m pd flags j n m m'"
proof -
  let ?v = "of_nat (j * 2 ^ 21) OR flags OR VM_FLAG_HUGE"
  have al: "unat (pd + 8 * of_nat q) mod 8 = 0" if "q < 2048" for q
    using entry_mod8 [OF pd(1), of 0] pd_slot_addr [OF pd(2) that] by (simp add: mod_add_eq)
  have ne: "pd + 8 * of_nat j \<noteq> pd + 8 * of_nat q" if "q < 2048" "q \<noteq> j" for q
    using pd_slot_addr [OF pd(2) that(1)] pd_slot_addr [OF pd(2) j(2)] that(2) by auto
  have slots: "load m' (pd + 8 * of_nat q) =
      (if j \<le> q \<and> q < n then of_nat (q * 2 ^ 21) OR flags OR VM_FLAG_HUGE
       else (load m (pd + 8 * of_nat q) :: u64))" if q: "q < 2048" for q
  proof (cases "q = j")
    case True
    then show ?thesis using rest q j by (simp add: mapped_2m_def)
  next
    case False
    then show ?thesis
      using rest q load_store_aligned [OF al [OF j(2)] al [OF q] ne [OF q False], of m ?v]
      by (auto simp: mapped_2m_def)
  qed
  have "load m' a = (load m a :: u64)" if "unat a mod 8 = 0" "\<forall>q < 2048. a \<noteq> pd + 8 * of_nat q" for a
    using rest that load_store_aligned [OF al [OF j(2)] that(1), of m ?v] j(2)
    unfolding mapped_2m_def by metis
  with slots show ?thesis by (simp add: mapped_2m_def)
qed

lemma map_2m_loop_entries:
  assumes pd: "page_aligned (kernel_pd k)" "unat (kernel_pd k) + 4 * 4096 \<le> 2 ^ 64"
  shows "j \<le> n \<Longrightarrow> n \<le> 2048 \<Longrightarrow>
    \<exists>m'. map_2m_loop k flags (of_nat (n * 2 ^ 21)) (of_nat (j * 2 ^ 21)) m = (m', 0) \<and>
      mapped_2m (kernel_pd k) flags j n m m'"
proof (induction "n - j" arbitrary: j m)
  case 0
  then show ?case by (auto simp: mapped_2m_def map_2m_loop.simps)
next
  case (Suc d)
  let ?m = "store m (kernel_pd k + 8 * of_nat j) (of_nat (j * 2 ^ 21) OR flags OR VM_FLAG_HUGE)"
  have j: "j < n" "j < 2048" using Suc by auto
  have "unat (of_nat (n * 2 ^ 21) :: u64) = n * 2 ^ 21"
    using Suc.prems by (simp only: unat_of_nat) simp
  then have "(of_nat (j * 2 ^ 21) :: u64) < of_nat (n * 2 ^ 21)"
    using j map_2m_step(1) [OF j(2)] by (simp only: word_less_nat_alt) simp
  moreover have "\<not> 4 \<le> (of_nat (j div 512) :: u64)"
    using j by (simp add: word_le_nat_alt unat_of_nat)
  moreover have "(of_nat (j * 2 ^ 21) :: u64) + 0x200000 = of_nat (Suc j * 2 ^ 21)" by simp
  ultimately have step: "map_2m_loop k flags (of_nat (n * 2 ^ 21)) (of_nat (j * 2 ^ 21)) m =
      map_2m_loop k flags (of_nat (n * 2 ^ 21)) (of_nat (Suc j * 2 ^ 21)) ?m"
    by (subst map_2m_loop.simps) (simp only: Let_def map_2m_step [OF j(2)] pt_set_def if_True if_False)
  have "\<exists>m'. map_2m_loop k flags (of_nat (n * 2 ^ 21)) (of_nat (Suc j * 2 ^ 21)) ?m = (m', 0) \<and>
      mapped_2m (kernel_pd k) flags (Suc j) n ?m m'"
    using Suc j by (intro Suc.hyps(1)) auto
  then show ?case using step mapped_2m_Suc [OF pd j] by metis
qed

definition boot_links :: "vm_image \<Rightarrow> mem \<Rightarrow> mem" where
  "boot_links k m = fold (\<lambda>i m. pt_set m (kernel_pdpt k) i ((kernel_pd k + 4096 * i) OR table_flags)) [0, 1, 2, 3]
     (pt_set m (kernel_pml4 k) 0 (kernel_pdpt k OR table_flags))"

lemma pt_get_set:
  assumes "page_aligned t" "i < 512" "page_aligned t'" "j < 512"
  shows "pt_get (pt_set m t i e) t' j = (if t' = t \<and> j = i then e else pt_get m t' j)"
  using pt_get_set_other [OF assms] by auto

lemma image_tables:
  assumes "vm_image_ok k m"
  shows "page_aligned (kernel_pml4 k)" "page_aligned (kernel_pdpt k)" "page_aligned (kernel_pd k)"
    and "kernel_pml4 k \<noteq> kernel_pdpt k" "unat (kernel_pd k) + 4 * 4096 \<le> 2 ^ 64"
    and "q < 4 \<Longrightarrow> kernel_pd k + 4096 * of_nat q \<in> set (boot_tables k) - {kernel_pml4 k, kernel_pdpt k}"
proof -
  show "q < 4 \<Longrightarrow> kernel_pd k + 4096 * of_nat q \<in> set (boot_tables k) - {kernel_pml4 k, kernel_pdpt k}"
  proof -
    assume "q < 4"
    then have "q = 0 \<or> q = 1 \<or> q = 2 \<or> q = 3" by auto
    then show ?thesis using assms by (auto simp: vm_image_ok_def boot_tables_def)
  qed
  show "unat (kernel_pd k) + 4 * 4096 \<le> 2 ^ 64" using assms by (auto simp: vm_image_ok_def)
qed (use assms in \<open>simp_all add: vm_image_ok_def boot_tables_def\<close>)

lemma boot_links_entries:
  assumes ok: "vm_image_ok k m" and i: "i < 512"
  shows "pt_get (boot_links k m) (kernel_pml4 k) i = (if i = 0 then kernel_pdpt k OR table_flags else 0)"
    and "pt_get (boot_links k m) (kernel_pdpt k) i =
      (if i < 4 then (kernel_pd k + 4096 * i) OR table_flags else 0)"
proof -
  note img = image_tables [OF ok]
  have zero: "pt_get m (kernel_pml4 k) i = 0" "pt_get m (kernel_pdpt k) i = 0"
    using ok i by (simp_all add: vm_image_ok_def boot_tables_def)
  have four: "i < 4 \<longleftrightarrow> i = 0 \<or> i = 1 \<or> i = 2 \<or> i = 3"
  proof
    assume "i < 4"
    then have "unat i < 4" by (simp add: word_less_nat_alt)
    then have "unat i = 0 \<or> unat i = 1 \<or> unat i = 2 \<or> unat i = 3" by auto
    then show "i = 0 \<or> i = 1 \<or> i = 2 \<or> i = 3" by (simp add: word_unat_eq_iff)
  qed auto
  show "pt_get (boot_links k m) (kernel_pml4 k) i = (if i = 0 then kernel_pdpt k OR table_flags else 0)"
    using img i zero by (simp add: boot_links_def pt_get_set)
  show "pt_get (boot_links k m) (kernel_pdpt k) i =
      (if i < 4 then (kernel_pd k + 4096 * i) OR table_flags else 0)"
    unfolding four using img i zero by (auto simp: boot_links_def pt_get_set)
qed

lemma vm_init_mem:
  assumes ok: "vm_image_ok k (vm_mem s)"
  shows "mapped_2m (kernel_pd k) table_flags 0 2048 (boot_links k (vm_mem s)) (vm_mem (vm_init k s))"
    and "page_bump (vm_init k s) = align_up (kernel_end k) 4096"
proof -
  obtain m' where m': "map_2m_loop k table_flags (of_nat (2048 * 2 ^ 21)) (of_nat (0 * 2 ^ 21))
      (boot_links k (vm_mem s)) = (m', 0)"
    and mapped: "mapped_2m (kernel_pd k) table_flags 0 2048 (boot_links k (vm_mem s)) m'"
    using map_2m_loop_entries [OF image_tables(3,5) [OF ok], of 0 2048] by blast
  have "vm_init k s = s\<lparr>page_bump := align_up (kernel_end k) 4096, vm_mem := m', cr3 := kernel_pml4 k\<rparr>"
    using m' by (simp add: vm_init_def vm_map_identity_2m_def Let_def boot_links_def or.assoc)
  then show "mapped_2m (kernel_pd k) table_flags 0 2048 (boot_links k (vm_mem s)) (vm_mem (vm_init k s))"
    and "page_bump (vm_init k s) = align_up (kernel_end k) 4096" using mapped by simp_all
qed

lemma align_up_page:
  assumes "unat v + 8192 \<le> 2 ^ 64"
  shows "page_aligned (align_up v 4096)" and "unat v \<le> unat (align_up v 4096)"
    and "unat (align_up v 4096) < unat v + 4096"
proof -
  let ?x = "v + 4095"
  have e: "align_up v 4096 = ?x AND NOT 0xfff" by (simp add: align_up_def add.commute)
  then show "page_aligned (align_up v 4096)" by (simp only: page_aligned_mask)
  have x: "unat ?x = unat v + 4095" using assms unat_offset [of v 0 4095] by simp
  have "(?x AND NOT 0xfff) + (?x AND 0xfff) = (?x AND NOT 0xfff) OR (?x AND 0xfff)"
    by (rule disjunctive_add) (simp add: bit_simps)
  then have sum: "?x - (?x AND NOT 0xfff) = ?x AND 0xfff"
    using and_not_split [of ?x "0xfff"] by (simp add: algebra_simps)
  have le: "?x AND NOT 0xfff \<le> ?x" by (rule word_and_le2)
  have "unat (?x AND 0xfff) < 4096"
    using word_and_le1 [of ?x "0xfff"] by (simp add: word_le_nat_alt)
  then have "unat ?x - unat (?x AND NOT 0xfff) < 4096"
    unfolding sum [symmetric] using le by (simp only: unat_sub_if' word_le_nat_alt if_True)
  moreover have "unat (?x AND NOT 0xfff) \<le> unat ?x" using le by (simp only: word_le_nat_alt)
  ultimately show "unat v \<le> unat (align_up v 4096)" "unat (align_up v 4096) < unat v + 4096"
    unfolding e x by linarith+
qed

lemma boot_entries:
  assumes ok: "vm_image_ok k (vm_mem s)" and i: "i < 512"
  shows "pt_get (vm_mem (vm_init k s)) (kernel_pml4 k) i = (if i = 0 then kernel_pdpt k OR table_flags else 0)"
    and "pt_get (vm_mem (vm_init k s)) (kernel_pdpt k) i =
      (if i < 4 then (kernel_pd k + 4096 * i) OR table_flags else 0)"
    and "q < 4 \<Longrightarrow> pt_get (vm_mem (vm_init k s)) (kernel_pd k + 4096 * of_nat q) i =
      of_nat ((q * 512 + unat i) * 2 ^ 21) OR table_flags OR VM_FLAG_HUGE"
proof -
  note img = image_tables [OF ok]
  have slot: "kernel_pd k + 8 * of_nat j = (kernel_pd k + 4096 * of_nat (j div 512)) + 8 * of_nat (j mod 512)"
    if "j < 2048" for j using map_2m_step(4) [OF that, of "kernel_pd k"] by simp
  have keep: "pt_get (vm_mem (vm_init k s)) t i = pt_get (boot_links k (vm_mem s)) t i"
    if t: "t = kernel_pml4 k \<or> t = kernel_pdpt k" for t
  proof -
    have al: "page_aligned t" using t img by auto
    have "t + 8 * i \<noteq> kernel_pd k + 8 * of_nat j" if j: "j < 2048" for j
    proof
      let ?pd = "kernel_pd k + 4096 * of_nat (j div 512)"
      assume e: "t + 8 * i = kernel_pd k + 8 * of_nat j"
      have pd: "?pd \<in> set (boot_tables k) - {kernel_pml4 k, kernel_pdpt k}"
        using j by (intro img(6)) simp
      then have "page_aligned ?pd" using ok unfolding vm_image_ok_def by blast
      moreover have "(of_nat (j mod 512) :: u64) < 512" by (simp add: word_less_nat_alt unat_of_nat)
      ultimately have "t = ?pd" using entry_inj [OF al i] e unfolding slot [OF j] by blast
      then show False using t pd by blast
    qed
    then show ?thesis using vm_init_mem(1) [OF ok] entry_mod8 [OF al i]
      by (simp add: mapped_2m_def pt_get_def)
  qed
  show "pt_get (vm_mem (vm_init k s)) (kernel_pml4 k) i = (if i = 0 then kernel_pdpt k OR table_flags else 0)"
    "pt_get (vm_mem (vm_init k s)) (kernel_pdpt k) i =
      (if i < 4 then (kernel_pd k + 4096 * i) OR table_flags else 0)"
    using keep boot_links_entries [OF ok i] by simp_all
  show "pt_get (vm_mem (vm_init k s)) (kernel_pd k + 4096 * of_nat q) i =
      of_nat ((q * 512 + unat i) * 2 ^ 21) OR table_flags OR VM_FLAG_HUGE" if "q < 4"
  proof -
    have u: "unat i < 512" using i by (simp add: word_less_nat_alt)
    then have "q * 512 + unat i < 2048" using that by simp
    moreover from this have "kernel_pd k + 8 * of_nat (q * 512 + unat i) = kernel_pd k + 4096 * of_nat q + 8 * i"
      using slot [of "q * 512 + unat i"] u by simp
    ultimately show ?thesis using vm_init_mem(1) [OF ok]
      unfolding mapped_2m_def pt_get_def by (metis (no_types, lifting) zero_le)
  qed
qed

definition boot_own :: "vm_image \<Rightarrow> u64 \<rightharpoonup> nat \<times> nat" where
  "boot_own k = map_of ((kernel_pml4 k, 4, 0) # (kernel_pdpt k, 3, 0) #
     map (\<lambda>q. (kernel_pd k + 4096 * of_nat q, 2, q)) [0..<4])"

lemma boot_own_cases:
  assumes "boot_own k t = Some (l, p)"
  obtains "t = kernel_pml4 k" "l = 4" "p = 0" | "t = kernel_pdpt k" "l = 3" "p = 0"
  | "p < 4" "t = kernel_pd k + 4096 * of_nat p" "l = 2"
  using assms map_of_SomeD unfolding boot_own_def by (fastforce split: if_splits)

lemma boot_own_pd:
  assumes ok: "vm_image_ok k m" and q: "q < 4"
  shows "boot_own k (kernel_pd k + 4096 * of_nat q) = Some (2, q)"
proof -
  have "q = 0 \<or> q = 1 \<or> q = 2 \<or> q = 3" using q by auto
  then show ?thesis
    using ok by (auto simp: boot_own_def vm_image_ok_def boot_tables_def upt_rec)
qed

lemma vm_init_inv:
  assumes ok: "vm_image_ok k (vm_mem s)"
  shows "vm_inv k (vm_init k s)"
proof -
  let ?m = "vm_mem (vm_init k s)" and ?b = "page_bump (vm_init k s)"
  note img = image_tables [OF ok]
  have "unat (kernel_end k) + 8192 \<le> 2 ^ 64" using ok by (simp add: vm_image_ok_def)
  then have b: "page_aligned ?b" "unat (kernel_end k) \<le> unat ?b"
    using align_up_page vm_init_mem(2) [OF ok] by simp_all
  have pages: "page_aligned t \<and> unat t + 4096 \<le> unat ?b \<and> l \<le> 4" if "boot_own k t = Some (l, p)" for t l p
  proof -
    have "t \<in> set (boot_tables k)" using that
      by (rule boot_own_cases) (use img(6) in \<open>auto simp: boot_tables_def\<close>)
    then have "page_aligned t \<and> unat t + 4096 \<le> unat (kernel_end k)" using ok unfolding vm_image_ok_def by blast
    moreover have "l \<le> 4" using that by (rule boot_own_cases) auto
    ultimately show ?thesis using b(2) by linarith
  qed
  have "boot_own k (pt_get ?m t i AND NOT 0xfff) = Some (l, p * 512 + unat i)"
    if o: "boot_own k t = Some (Suc l, p)" and "0 < l" and i: "i < 512" and e: "present (pt_get ?m t i)"
      and small: "\<not> (l = 1 \<and> huge (pt_get ?m t i))" for t l p i
    using o
  proof (cases rule: boot_own_cases)
    case 1
    then have "i = 0" using e boot_entries(1) [OF ok i] by (auto split: if_splits)
    then show ?thesis using 1 boot_entries(1) [OF ok i] table_entry(2) [OF img(2)] img(4)
      by (auto simp: boot_own_def)
  next
    case 2
    then have "i < 4" using e boot_entries(2) [OF ok i] by (auto split: if_splits)
    then have q: "unat i < 4" by (simp add: word_less_nat_alt)
    have w: "of_nat (unat i) = i" by simp
    have "page_aligned (kernel_pd k + 4096 * i)"
      using img(6) [OF q] ok unfolding vm_image_ok_def w by blast
    then show ?thesis using 2 boot_entries(2) [OF ok i] table_entry(2) \<open>i < 4\<close> boot_own_pd [OF ok q]
      unfolding w by simp
  next
    case 3
    then have "huge (pt_get ?m t i)" using boot_entries(3) [OF ok i, of p]
      by (simp add: bit.conj_disj_distrib2 or_eq_0_iff vm_flags)
    then show ?thesis using 3 small by simp
  qed
  moreover have "boot_own k (kernel_pml4 k) = Some (4, 0)" by (simp add: boot_own_def)
  ultimately have "tree_ok (boot_own k) (kernel_pml4 k) ?m ?b"
    unfolding tree_ok_def using b(1) pages by blast
  then show ?thesis by (auto simp: vm_inv_def)
qed

lemma large_frame: "(of_nat (unat v div 2 ^ 21 * 2 ^ 21) :: u64) = v AND NOT 0x1fffff"
  unfolding mask_clear by (simp add: mask_eq_exp_minus_1)

lemma vm_init_identity:
  assumes ok: "vm_image_ok k (vm_mem s)" and v: "unat v < 2 ^ 32"
  shows "walk (vm_mem (vm_init k s)) (kernel_pml4 k) v 4 = Some v"
proof -
  let ?m = "vm_mem (vm_init k s)" and ?q = "unat v div 2 ^ 30"
  note img = image_tables [OF ok]
  have q: "?q < 4" using v by (simp add: div_less_iff_less_mult)
  have i4: "idx 4 v = 0" using v by (simp add: word_unat_eq_iff idx_def unat_drop_mask)
  have i3: "idx 3 v = of_nat ?q"
    using q by (simp only: word_unat_eq_iff idx_def unat_drop_mask) (simp add: unat_of_nat)
  have i3': "idx 3 v < 4" using q unfolding i3 by (simp add: word_less_nat_alt unat_of_nat)
  have pd: "page_aligned (kernel_pd k + 4096 * of_nat ?q)" using img(6) [OF q] ok unfolding vm_image_ok_def by blast
  have "slot_to ?m (kernel_pml4 k) (idx 4 v) 3 (kernel_pdpt k)"
    using boot_entries(1) [OF ok idx_less, of 4 v] table_entry [OF img(2)] i4 by (simp add: slot_to_def)
  moreover have "slot_to ?m (kernel_pdpt k) (idx 3 v) 2 (kernel_pd k + 4096 * of_nat ?q)"
    using boot_entries(2) [OF ok idx_less, of 3 v] table_entry [OF pd] i3' unfolding i3 by (simp add: slot_to_def)
  ultimately have w: "walk ?m (kernel_pml4 k) v 4 = walk ?m (kernel_pd k + 4096 * of_nat ?q) v 2"
    by (rule walk_path) simp
  let ?e = "of_nat ((?q * 512 + unat (idx 2 v)) * 2 ^ 21) OR table_flags OR VM_FLAG_HUGE"
  have e: "pt_get ?m (kernel_pd k + 4096 * of_nat ?q) (idx 2 v) = ?e"
    using boot_entries(3) [OF ok idx_less q] .
  have "present ?e" "huge ?e" by (simp_all add: bit.conj_disj_distrib2 or_eq_0_iff vm_flags)
  then have "walk ?m (kernel_pd k + 4096 * of_nat ?q) v 2 = Some ((?e AND NOT 0x1fffff) OR (v AND 0x1fffff))"
    using e by (simp only: numeral_2_eq_2 walk.simps Let_def) simp
  moreover have "(?e AND NOT 0x1fffff) OR (v AND 0x1fffff) = v"
  proof -
    have "?q * 512 + unat (idx 2 v) = unat v div 2 ^ 21"
      using div_mult_mod_eq [of "unat v div 2 ^ 21" 512]
      by (simp add: idx_def unat_drop_mask div_mult2_eq [symmetric])
    then have "?e = (v AND NOT 0x1fffff) OR (table_flags OR VM_FLAG_HUGE)" by (simp only: large_frame or.assoc)
    then have "?e AND NOT 0x1fffff = v AND NOT 0x1fffff"
      by (simp add: bit.conj_disj_distrib2 vm_flags and.assoc)
    then show ?thesis using and_not_split [of v "0x1fffff"] by simp
  qed
  ultimately show ?thesis using w by simp
qed

section \<open>When the insertion is refused\<close>

text \<open>The address lies in a region whose page-directory entry is a 2 MiB page.\<close>

definition large_region :: "mem \<Rightarrow> u64 \<Rightarrow> u64 \<Rightarrow> bool" where
  "large_region m root v \<longleftrightarrow>
     (let e4 = pt_get m root (idx 4 v); e3 = pt_get m (e4 AND NOT 0xfff) (idx 3 v)
      in present e4 \<and> present e3 \<and> huge (pt_get m (e3 AND NOT 0xfff) (idx 2 v)))"

lemma next_table_fresh:
  assumes tree: "tree_ok own root (vm_mem s) (page_bump s)" and own: "own t = Some (l, p)" "i < 512"
    and absent: "\<not> present (pt_get (vm_mem s) t i)" and eq: "next_table s t i = (s', t')" and j: "j < 512"
  shows "pt_get (vm_mem s') t' j = 0"
proof -
  have "vm_mem s' = link_page (vm_mem s) (page_bump s) t i" "t' = page_bump s"
    using eq absent by (auto simp: next_table_alloc)
  moreover have "page_aligned (page_bump s)" using tree by (simp add: tree_ok_def)
  ultimately show ?thesis using link_page_entries(2) tree_ok_page [OF tree own(1)] own(2) j by simp
qed

lemma next_table_present:
  "present (pt_get (vm_mem s) t i) \<Longrightarrow> next_table s t i = (s, pt_get (vm_mem s) t i AND NOT 0xfff)"
  by (simp add: next_table_def)

lemma vm_map_page_result:
  assumes inv: "vm_inv k s" and room: "unat (page_bump s) + 4 * 4096 \<le> 2 ^ 64"
    and al: "virt AND 0xfff = 0" "phys AND 0xfff = 0"
  shows "snd (vm_map_page k s virt phys flags) = (if large_region (vm_mem s) (kernel_pml4 k) virt then -1 else 0)"
proof -
  let ?root = "kernel_pml4 k"
  obtain s1 pdpt where 1: "next_table s ?root (idx 4 virt) = (s1, pdpt)" by fastforce
  obtain s2 pd where 2: "next_table s1 pdpt (idx 3 virt) = (s2, pd)" by fastforce
  obtain own where own: "tree_ok own ?root (vm_mem s) (page_bump s)" using inv by (auto simp: vm_inv_def)
  then have o4: "own ?root = Some (Suc 3, 0)" by (simp add: tree_ok_def)
  obtain o1 where o1: "grown ?root own s o1 s1" "o1 pdpt = Some (3, 0 * 512 + unat (idx 4 virt))"
    using next_table_ok [OF own o4 _ idx_less _ _ 1] room by auto
  then have t1: "tree_ok o1 ?root (vm_mem s1) (page_bump s1)" by (simp add: grown_def)
  have "huge (pt_get (vm_mem s2) pd (idx 2 virt)) \<longleftrightarrow> large_region (vm_mem s) ?root virt"
  proof (cases "present (pt_get (vm_mem s1) pdpt (idx 3 virt))")
    case False
    then have "pt_get (vm_mem s2) pd (idx 2 virt) = 0"
      using next_table_fresh [OF t1 o1(2) idx_less _ 2 idx_less] by simp
    moreover have "\<not> large_region (vm_mem s) ?root virt"
      using False 1 by (auto simp: large_region_def Let_def next_table_present)
    ultimately show ?thesis by simp
  next
    case True
    have "present (pt_get (vm_mem s) ?root (idx 4 virt))"
    proof (rule ccontr)
      assume "\<not> ?thesis"
      then have "pt_get (vm_mem s1) pdpt (idx 3 virt) = 0"
        using next_table_fresh [OF own o4 idx_less _ 1 idx_less] by simp
      then show False using True by simp
    qed
    then show ?thesis using 1 2 True by (auto simp: large_region_def Let_def next_table_present)
  qed
  then show ?thesis using vm_map_page_unfold [OF al 1 2, of flags] by (simp add: case_prod_beta)
qed

section \<open>A booted machine\<close>

definition demo_image :: vm_image where
  "demo_image = \<lparr>kernel_end = 0x206123, kernel_pml4 = 0x200000, kernel_pdpt = 0x201000, kernel_pd = 0x202000\<rparr>"

definition demo_boot :: vm where
  "demo_boot = vm_init demo_image \<lparr>vm_mem = \<lambda>_. 0, page_bump = 0, cr3 = 0\<rparr>"

lemma pt_get_zero: "pt_get (\<lambda>_. 0) t i = 0"
  by (simp add: pt_get_def load_zero)

lemma demo_image_ok: "vm_image_ok demo_image (\<lambda>_. 0)"
  by (simp add: vm_image_ok_def demo_image_def boot_tables_def pt_get_zero page_aligned_def)

lemma demo_boot_ok:
  shows "vm_inv demo_image demo_boot" and "unat (page_bump demo_boot) + 4 * 4096 \<le> 2 ^ 64"
    and "\<not> large_region (vm_mem demo_boot) (kernel_pml4 demo_image) 0x8000000000"
    and "large_region (vm_mem demo_boot) (kernel_pml4 demo_image) 0x400000"
proof -
  let ?s = "\<lparr>vm_mem = \<lambda>_. 0, page_bump = 0, cr3 = 0\<rparr>"
  have ok: "vm_image_ok demo_image (vm_mem ?s)" using demo_image_ok by simp
  show "vm_inv demo_image demo_boot" unfolding demo_boot_def using ok by (rule vm_init_inv)
  show "unat (page_bump demo_boot) + 4 * 4096 \<le> 2 ^ 64"
    using vm_init_mem(2) [OF ok] by (simp add: demo_boot_def align_up_def demo_image_def)
  note e = boot_entries [OF ok, folded demo_boot_def]
  show "\<not> large_region (vm_mem demo_boot) (kernel_pml4 demo_image) 0x8000000000"
    using e(1) [of 1] by (simp add: large_region_def idx_def)
  show "large_region (vm_mem demo_boot) (kernel_pml4 demo_image) 0x400000"
    using e(1) [of 0] e(2) [of 0] e(3) [of 2 0]
    by (simp add: large_region_def idx_def demo_image_def vm_flags)
qed

section \<open>Properties\<close>

text \<open>C3. A page mapped by \<^verbatim>\<open>vm_map_page\<close> outside the 2 MiB regions is accepted, and
  \<^verbatim>\<open>vm_virt_to_phys\<close> then sends every address of that page to the same offset of the
  physical page.\<close>

theorem vm_map_page_roundtrip:
  assumes "vm_inv k s" and "unat (page_bump s) + 4 * 4096 \<le> 2 ^ 64"
    and "virt AND 0xfff = 0" and "phys AND 0xfff = 0" and "flags AND NOT 0xfff = 0"
    and "\<not> large_region (vm_mem s) (kernel_pml4 k) virt"
  shows "\<exists>s'. vm_map_page k s virt phys flags = (s', 0) \<and>
    (\<forall>u. page_number u = page_number virt \<longrightarrow> vm_virt_to_phys k s' u = phys OR (u AND 0xfff))"
proof -
  obtain s' r where e: "vm_map_page k s virt phys flags = (s', r)" by fastforce
  moreover have "r = 0" using vm_map_page_result [OF assms(1-4), of flags] assms(6) e by simp
  ultimately show ?thesis
    using vm_map_page_ok [OF assms(1-4) e] assms(5) by (simp add: vm_virt_to_phys_walk)
qed

theorem vm_map_page_roundtrip_witness:
  "\<exists>s'. vm_map_page demo_image demo_boot 0x8000000000 0x5000 3 = (s', 0) \<and>
    vm_virt_to_phys demo_image s' 0x8000000abc = 0x5abc"
proof -
  have "page_number 0x8000000abc = page_number 0x8000000000" by (simp add: vpref_def)
  moreover have "(0x5000 :: u64) OR (0x8000000abc AND 0xfff) = 0x5abc" by simp
  ultimately show ?thesis
    using vm_map_page_roundtrip [OF demo_boot_ok(1,2) _ _ _ demo_boot_ok(3), of "0x5000" 3] by fastforce
qed

text \<open>C11. Whatever \<^verbatim>\<open>vm_map_page\<close> answers, the tables stay well formed and every other
  page keeps its translation; a refused call changes no translation at all.\<close>

theorem vm_map_page_frame:
  assumes "vm_inv k s" and "unat (page_bump s) + 4 * 4096 \<le> 2 ^ 64"
    and "vm_map_page k s virt phys flags = (s', r)"
    and "page_number u \<noteq> page_number virt \<or> r = -1"
  shows "vm_inv k s' \<and> vm_virt_to_phys k s' u = vm_virt_to_phys k s u"
proof (cases "virt AND 0xfff = 0 \<and> phys AND 0xfff = 0")
  case True
  then show ?thesis using vm_map_page_ok [OF assms(1,2) _ _ assms(3)] assms(4)
    by (simp add: vm_virt_to_phys_walk)
next
  case False
  then show ?thesis using assms by (auto simp: vm_map_page_def)
qed

theorem vm_map_page_frame_witness:
  "\<exists>s' r. vm_map_page demo_image demo_boot 0x8000000000 0x5000 3 = (s', r) \<and>
    vm_virt_to_phys demo_image s' 0x8000001000 = vm_virt_to_phys demo_image demo_boot 0x8000001000"
proof -
  obtain s' r where e: "vm_map_page demo_image demo_boot 0x8000000000 0x5000 3 = (s', r)" by fastforce
  have "page_number 0x8000001000 \<noteq> page_number 0x8000000000" by (simp add: vpref_def)
  then show ?thesis using vm_map_page_frame [OF demo_boot_ok(1,2) e] e by blast
qed

text \<open>\<^verbatim>\<open>vm_map_page\<close> answers -1 exactly when an address is not page aligned or the
  virtual address lies in a 2 MiB region.\<close>

theorem vm_map_page_refused:
  assumes "vm_inv k s" and "unat (page_bump s) + 4 * 4096 \<le> 2 ^ 64"
  shows "snd (vm_map_page k s virt phys flags) =
    (if virt AND 0xfff \<noteq> 0 \<or> phys AND 0xfff \<noteq> 0 \<or> large_region (vm_mem s) (kernel_pml4 k) virt then -1 else 0)"
proof (cases "virt AND 0xfff = 0 \<and> phys AND 0xfff = 0")
  case True
  then show ?thesis using vm_map_page_result [OF assms] by simp
next
  case False
  then show ?thesis by (auto simp: vm_map_page_def)
qed

theorem vm_map_page_refused_witness:
  "snd (vm_map_page demo_image demo_boot 0x400000 0x5000 3) = -1"
  using vm_map_page_refused [OF demo_boot_ok(1,2), of "0x400000" "0x5000" 3] demo_boot_ok(4) by simp

text \<open>C15. After \<^verbatim>\<open>vm_init\<close> the tables are well formed, CR3 holds the kernel PML4, and
  every address below 4 GiB translates to itself.\<close>

theorem vm_init_identity_map:
  assumes "vm_image_ok k (vm_mem s)"
  shows "vm_inv k (vm_init k s) \<and> cr3 (vm_init k s) = vm_kernel_cr3 k \<and>
    (\<forall>v. v < 0x100000000 \<longrightarrow> vm_virt_to_phys k (vm_init k s) v = v)"
proof -
  have "vm_virt_to_phys k (vm_init k s) v = v" if "v < 0x100000000" for v
    using that vm_init_identity [OF assms, of v] by (simp add: vm_virt_to_phys_walk word_less_nat_alt)
  then show ?thesis using vm_init_inv [OF assms]
    by (simp add: vm_init_def vm_kernel_cr3_def Let_def)
qed

theorem vm_init_identity_map_witness:
  "vm_virt_to_phys demo_image (vm_init demo_image \<lparr>vm_mem = \<lambda>_. 0, page_bump = 0, cr3 = 0\<rparr>) 0xfee00123 = 0xfee00123"
proof -
  have "vm_image_ok demo_image (vm_mem \<lparr>vm_mem = \<lambda>_. 0, page_bump = 0, cr3 = 0\<rparr>)"
    using demo_image_ok by simp
  then show ?thesis using vm_init_identity_map [of demo_image] by simp
qed

end
