(* ===== verification/Slab.thy ===== *)
theory Slab
  imports Vm
begin

text \<open>
  \<^verbatim>\<open>src/src/freelib/slab.c\<close>: six size classes, a free list per class threaded through the
  slots, and pages carved into slots on demand.  The invariant \<open>slab_inv\<close> carries, as
  ghost values, the class of every page the slab owns, the contents of the free lists and the
  set of blocks handed out.

  \<open>page_source\<close> is the interface the slab relies on: a page allocator whose pages are
  fresh, and which changes nothing outside the page it returns.  It is interpreted on
  \<open>vm_alloc_page\<close>.
\<close>

section \<open>The page source\<close>

locale page_source =
  fixes alloc :: "'s \<Rightarrow> 's \<times> u64" and memory :: "'s \<Rightarrow> mem" and used :: "'s \<Rightarrow> u64"
  assumes alloc_fresh: "page_aligned (used s) \<Longrightarrow> unat (used s) + 8192 \<le> 2 ^ 64 \<Longrightarrow> alloc s = (s', p) \<Longrightarrow>
      page_aligned p \<and> page_aligned (used s') \<and> unat (used s) \<le> unat p \<and> unat p + 4096 = unat (used s')"
    and alloc_changes: "page_aligned (used s) \<Longrightarrow> alloc s = (s', p) \<Longrightarrow>
      changes (memory s) (memory s') {unat p ..< unat p + 4096}"
    and alloc_zero: "alloc s = (s', p) \<Longrightarrow> i < 4096 \<Longrightarrow> memory s' (p + of_nat i) = 0"
begin

lemma alloc_apart:
  assumes "page_aligned (used s)" "unat (used s) + 8192 \<le> 2 ^ 64" "alloc s = (s', p)"
    and "unat x < unat (used s)"
  shows "memory s' x = memory s x"
  using alloc_changes [OF assms(1,3)] alloc_fresh [OF assms(1-3)] assms(4) by (simp add: changes_def)

lemma alloc_distinct:
  assumes "page_aligned (used s)" "unat (used s) + 8192 \<le> 2 ^ 64" "alloc s = (s1, p)"
    and "unat (used s1) + 8192 \<le> 2 ^ 64" "alloc s1 = (s2, q)"
  shows "unat p + 4096 \<le> unat q"
  using alloc_fresh [OF assms(1-3)] alloc_fresh [OF _ assms(4,5)] by simp

end

lemma page_end: "page_aligned a \<Longrightarrow> unat a + 8192 \<le> 2 ^ 64 \<Longrightarrow> unat (a + 4096) = unat a + 4096"
  using unat_offset [of a 0 4096] by simp

interpretation vmpages: page_source vm_alloc_page vm_mem page_bump
proof
  fix s s' :: vm and p :: u64
  show "page_aligned p \<and> page_aligned (page_bump s') \<and> unat (page_bump s) \<le> unat p \<and>
      unat p + 4096 = unat (page_bump s')"
    if "page_aligned (page_bump s)" "unat (page_bump s) + 8192 \<le> 2 ^ 64" "vm_alloc_page s = (s', p)"
    using that page_end [OF that(1,2)] by (auto simp: vm_alloc_page_def Let_def page_aligned_def)
  show "changes (vm_mem s) (vm_mem s') {unat p ..< unat p + 4096}"
    if "page_aligned (page_bump s)" "vm_alloc_page s = (s', p)"
    using that changes_fill [OF page_room] by (auto simp: vm_alloc_page_def Let_def)
  show "vm_mem s' (p + of_nat i) = 0" if "vm_alloc_page s = (s', p)" "i < 4096" for i
    using that by (auto simp: vm_alloc_page_def Let_def mem_fill_apply unat_of_nat)
qed

section \<open>The allocator\<close>

definition SLAB_CLASSES :: nat where "SLAB_CLASSES = 6"
definition SLAB_MAGIC :: u32 where "SLAB_MAGIC = 0x534C4142"

definition class_sizes :: "u32 list" where
  "class_sizes = [32, 64, 128, 256, 512, 1024]"

text \<open>A null pointer is address 0.\<close>

record slab =
  slab_vm :: vm
  free_lists :: "u64 list"

abbreviation slab_mem :: "'a slab_scheme \<Rightarrow> mem" where
  "slab_mem s \<equiv> vm_mem (slab_vm s)"

definition set_mem :: "mem \<Rightarrow> 'a slab_scheme \<Rightarrow> 'a slab_scheme" where
  "set_mem m s = s\<lparr>slab_vm := (slab_vm s)\<lparr>vm_mem := m\<rparr>\<rparr>"

definition slab_init :: "'a slab_scheme \<Rightarrow> 'a slab_scheme" where
  "slab_init s = s\<lparr>free_lists := replicate SLAB_CLASSES 0\<rparr>"

definition class_for :: "u64 \<Rightarrow> int" where
  "class_for sz = (let need = sz + 8 in
     case first_index (\<lambda>c. need \<le> ucast c) class_sizes of None \<Rightarrow> -1 | Some i \<Rightarrow> int i)"

text \<open>The body of the carving loop of \<^verbatim>\<open>refill\<close>; the loop visits the offsets
  \<open>0, slot, 2 * slot, \<dots>\<close> whose slot still ends inside the page.\<close>

definition carve :: "u64 \<Rightarrow> nat \<Rightarrow> u32 \<Rightarrow> 'a slab_scheme \<Rightarrow> 'a slab_scheme" where
  "carve page ci off s =
     (let h = page + ucast off;
          m1 = store (slab_mem s) h SLAB_MAGIC;
          m2 = store m1 (h + 4) (of_nat ci :: u32);
          n = h + 8;
          m3 = store m2 n (free_lists s ! ci)
      in (set_mem m3 s)\<lparr>free_lists := (free_lists s)[ci := n]\<rparr>)"

definition refill :: "nat \<Rightarrow> 'a slab_scheme \<Rightarrow> 'a slab_scheme \<times> int" where
  "refill ci s =
     (let (v, page) = vm_alloc_page (slab_vm s); s1 = s\<lparr>slab_vm := v\<rparr>
      in if page = 0 then (s1, -1)
         else let slot = class_sizes ! ci
              in (fold (\<lambda>j. carve page ci (of_nat j * slot)) [0..<4096 div unat slot] s1, 0))"

definition slab_alloc :: "u64 \<Rightarrow> 'a slab_scheme \<Rightarrow> 'a slab_scheme \<times> u64" where
  "slab_alloc sz s =
     (let ci = class_for sz
      in if ci < 0 then (s, 0)
         else
           let (s1, r) = (if free_lists s ! nat ci = 0 then refill (nat ci) s else (s, 0))
           in if r \<noteq> 0 then (s1, 0)
              else let n = free_lists s1 ! nat ci
                   in (s1\<lparr>free_lists := (free_lists s1)[nat ci := load (slab_mem s1) n]\<rparr>, n))"

definition slab_free :: "u64 \<Rightarrow> 'a slab_scheme \<Rightarrow> 'a slab_scheme \<times> int" where
  "slab_free ptr s =
     (if ptr = 0 then (s, 0)
      else
        let h = ptr - 8; magic = (load (slab_mem s) h :: u32); class_index = (load (slab_mem s) (h + 4) :: u32)
        in if magic \<noteq> SLAB_MAGIC \<or> of_nat SLAB_CLASSES \<le> class_index then (s, 0)
           else let ci = unat class_index;
                    m' = store (slab_mem s) ptr (free_lists s ! ci)
                in ((set_mem m' s)\<lparr>free_lists := (free_lists s)[ci := ptr]\<rparr>, 1))"

section \<open>Sizes\<close>

definition csize :: "nat \<Rightarrow> nat" where
  "csize c = unat (class_sizes ! c)"

lemma less_6: "c < 6 \<Longrightarrow> c = 0 \<or> c = 1 \<or> c = 2 \<or> c = 3 \<or> c = 4 \<or> c = (5 :: nat)"
  by auto

lemma csize_facts:
  assumes "c < 6"
  shows "32 \<le> csize c" "csize c \<le> 1024" "csize c dvd 4096" "8 dvd csize c"
  using less_6 [OF assms] by (auto simp: csize_def class_sizes_def)

lemma class_for_fits:
  assumes "unat sz \<le> 1016"
  shows "\<exists>c < 6. class_for sz = int c \<and> unat sz + 8 \<le> csize c \<and> (\<forall>d < c. csize d < unat sz + 8)"
proof -
  have need: "unat (sz + 8) = unat sz + 8" using assms unat_offset [of sz 0 8] by simp
  have le: "sz + 8 \<le> ucast (class_sizes ! c) \<longleftrightarrow> unat sz + 8 \<le> csize c" if "c < 6" for c
    using less_6 [OF that] need by (auto simp: csize_def class_sizes_def word_le_nat_alt)
  have "first_index (\<lambda>c. sz + 8 \<le> ucast c) class_sizes \<noteq> None"
    using need assms by (simp add: first_index_None class_sizes_def word_le_nat_alt)
  then obtain c where c: "first_index (\<lambda>c. sz + 8 \<le> ucast c) class_sizes = Some c" by blast
  then have "c < 6" using first_index_bound [OF c] by (simp add: class_sizes_def)
  moreover have "class_for sz = int c" using c by (simp add: class_for_def)
  moreover have "unat sz + 8 \<le> csize c" "\<forall>d < c. csize d < unat sz + 8"
    using c le \<open>c < 6\<close> by (simp_all add: first_index_Some not_le)
  ultimately show ?thesis by blast
qed

lemma class_for_none:
  assumes "1016 < unat sz" and "unat sz < 2 ^ 64 - 8"
  shows "class_for sz = -1"
proof -
  have "unat (sz + 8) = unat sz + 8" using assms(2) unat_offset [of sz 0 8] by simp
  then have "first_index (\<lambda>c. sz + 8 \<le> ucast c) class_sizes = None"
    using assms(1) by (simp add: first_index_None class_sizes_def word_le_nat_alt)
  then show ?thesis by (simp add: class_for_def)
qed

section \<open>Slots and the invariant\<close>

text \<open>\<open>pc\<close> gives the class of each page the slab owns.  A block of class \<open>c\<close> sits 8
  bytes into a slot of its page; the 8 bytes before it are the slot's header.\<close>

definition slot_at :: "(nat \<rightharpoonup> nat) \<Rightarrow> nat \<Rightarrow> u64 \<Rightarrow> bool" where
  "slot_at pc c n \<longleftrightarrow> unat n mod csize c = 8 \<and> pc (unat n div 4096) = Some c"

definition slot_bytes :: "nat \<Rightarrow> u64 \<Rightarrow> nat set" where
  "slot_bytes c n = {unat n - 8 ..< unat n - 8 + csize c}"

definition header_ok :: "mem \<Rightarrow> nat \<Rightarrow> u64 \<Rightarrow> bool" where
  "header_ok m c n \<longleftrightarrow> load m (n - 8) = SLAB_MAGIC \<and> load m (n - 4) = (of_nat c :: u32)"

fun node_chain :: "mem \<Rightarrow> u64 \<Rightarrow> u64 list \<Rightarrow> bool" where
  "node_chain m h [] \<longleftrightarrow> h = 0"
| "node_chain m h (n # ns) \<longleftrightarrow> h = n \<and> n \<noteq> 0 \<and> node_chain m (load m n) ns"

definition slab_inv :: "(nat \<rightharpoonup> nat) \<Rightarrow> (nat \<Rightarrow> u64 list) \<Rightarrow> u64 set \<Rightarrow> 'a slab_scheme \<Rightarrow> bool" where
  "slab_inv pc fs live s \<longleftrightarrow>
     length (free_lists s) = 6 \<and> page_aligned (page_bump (slab_vm s)) \<and>
     0 < unat (page_bump (slab_vm s)) \<and>
     (\<forall>p c. pc p = Some c \<longrightarrow> p < unat (page_bump (slab_vm s)) div 4096 \<and> c < 6) \<and>
     (\<forall>c n. slot_at pc c n \<longrightarrow> header_ok (slab_mem s) c n) \<and>
     (\<forall>c < 6. node_chain (slab_mem s) (free_lists s ! c) (fs c) \<and> distinct (fs c) \<and>
        (\<forall>n \<in> set (fs c). slot_at pc c n)) \<and>
     (\<forall>n \<in> live. \<exists>c. slot_at pc c n \<and> n \<notin> set (fs c))"

lemma div_interval:
  "d dvd D \<Longrightarrow> a mod d = 0 \<Longrightarrow> 0 < d \<Longrightarrow> 0 < D \<Longrightarrow> a div D * D \<le> a \<and> a + d \<le> a div D * D + (D :: nat)"
proof -
  assume a: "d dvd D" "a mod d = 0" "0 < d" "0 < D"
  then have "d dvd a mod D" by (simp add: dvd_mod mod_eq_0_iff_dvd)
  moreover have "a mod D < D" using a(4) by simp
  ultimately have "a mod D + d \<le> D" using a(1) by (metis add.commute dvd_diffD dvd_imp_le le_diff_conv2 less_imp_le zero_less_diff dvd_diff_nat)
  then show ?thesis using div_mult_mod_eq [of a D] by linarith
qed

lemma slot_page:
  assumes n: "slot_at pc c n" and c: "c < 6"
  shows "8 \<le> unat n" and "slot_bytes c n \<subseteq> {unat n div 4096 * 4096 ..< unat n div 4096 * 4096 + 4096}"
    and "(unat n - 8) mod csize c = 0" and "unat n - 8 + csize c \<le> 2 ^ 64"
    and "unat n div 4096 = (unat n - 8) div 4096"
proof -
  have m: "unat n mod csize c = 8" using n by (simp add: slot_at_def)
  then show 8: "8 \<le> unat n" by (metis mod_less_eq_dividend)
  show z: "(unat n - 8) mod csize c = 0"
    using m by (metis minus_mod_eq_mult_div mod_mult_self1_is_0)
  have iv: "(unat n - 8) div 4096 * 4096 \<le> unat n - 8 \<and> unat n - 8 + csize c \<le> (unat n - 8) div 4096 * 4096 + 4096"
    using csize_facts [OF c] z by (intro div_interval) auto
  then have "(unat n - 8) div 4096 * 4096 \<le> unat n" "unat n < (unat n - 8) div 4096 * 4096 + 4096"
    using csize_facts(1) [OF c] 8 by linarith+
  then show d: "unat n div 4096 = (unat n - 8) div 4096"
    by (metis div_nat_eqI mult.commute mult_Suc_right add.commute)
  show "slot_bytes c n \<subseteq> {unat n div 4096 * 4096 ..< unat n div 4096 * 4096 + 4096}"
    unfolding d slot_bytes_def using iv by auto
  have "unat n div 4096 < 2 ^ 52" using unsigned_less [of n] by (subst div_less_iff_less_mult) simp_all
  then have "unat n div 4096 + 1 \<le> 2 ^ 52" by simp
  from mult_le_mono1 [OF this, of 4096] have "unat n div 4096 * 4096 + 4096 \<le> 2 ^ 64" by simp
  then show "unat n - 8 + csize c \<le> 2 ^ 64" using iv unfolding d by linarith
qed

lemma slots_disjoint:
  assumes n: "slot_at pc c n" "c < 6" and k: "slot_at pc d k" "d < 6" and ne: "n \<noteq> k"
  shows "slot_bytes c n \<inter> slot_bytes d k = {}"
proof (cases "unat n div 4096 = unat k div 4096")
  case False
  then have "unat n div 4096 * 4096 + 4096 \<le> unat k div 4096 * 4096 \<or>
      unat k div 4096 * 4096 + 4096 \<le> unat n div 4096 * 4096" by linarith
  then show ?thesis using slot_page(2) [OF n] slot_page(2) [OF k] by fastforce
next
  case True
  then have cd: "d = c" using n k by (simp add: slot_at_def)
  obtain x y where xy: "unat n - 8 = csize c * x" "unat k - 8 = csize c * y"
    using slot_page(3) [OF n] slot_page(3) [OF k] cd by (auto simp: mod_eq_0_iff_dvd dvd_def)
  have "unat n - 8 \<noteq> unat k - 8"
    using slot_page(1) [OF n] slot_page(1) [OF k] ne by (metis add_diff_cancel_left' le_Suc_ex unsigned_word_eqI add.commute)
  then have "x < y \<or> y < x" using xy by (metis nat_neq_iff)
  then have "unat n - 8 + csize c \<le> unat k - 8 \<or> unat k - 8 + csize c \<le> unat n - 8"
    unfolding xy by (metis Suc_leI mult_Suc_right mult_le_mono2 add.commute)
  then show ?thesis unfolding slot_bytes_def cd by auto
qed

lemma slab_inv_page:
  "slab_inv pc fs live s \<Longrightarrow> pc p = Some c \<Longrightarrow> p < unat (page_bump (slab_vm s)) div 4096 \<and> c < 6"
  by (simp add: slab_inv_def)

lemma slab_inv_class: "slab_inv pc fs live s \<Longrightarrow> slot_at pc c n \<Longrightarrow> c < 6"
  unfolding slot_at_def using slab_inv_page by blast

lemma slab_inv_below:
  assumes "slab_inv pc fs live s" and "slot_at pc c n"
  shows "slot_bytes c n \<subseteq> {..< unat (page_bump (slab_vm s))}"
proof -
  have "unat n div 4096 < unat (page_bump (slab_vm s)) div 4096"
    using slab_inv_page [OF assms(1)] assms(2) by (simp add: slot_at_def)
  then have "unat n div 4096 * 4096 + 4096 \<le> unat (page_bump (slab_vm s)) div 4096 * 4096"
    by linarith
  then show ?thesis
    using slot_page(2) [OF assms(2) slab_inv_class [OF assms]]
      div_times_less_eq_dividend [of "unat (page_bump (slab_vm s))" 4096] by fastforce
qed

text \<open>Loads of headers and links survive a change elsewhere.\<close>

lemma header_ok_changes:
  assumes "changes m m' A" and "8 \<le> unat n" and "{unat n - 8 ..< unat n} \<inter> A = {}"
  shows "header_ok m' c n = header_ok m c n"
proof -
  have u: "unat (n - 8) = unat n - 8" "unat (n - 4) = unat n - 4"
    using assms(2) by (simp_all add: unat_sub word_le_nat_alt)
  have lt: "unat n < 2 ^ 64" using unsigned_less [of n] by simp
  have "load m' (n - 8) = (load m (n - 8) :: u32)" "load m' (n - 4) = (load m (n - 4) :: u32)"
    by (rule changes_load [OF assms(1)]; use assms(2,3) lt in \<open>force simp: u disjoint_iff\<close>)+
  then show ?thesis by (simp add: header_ok_def)
qed

lemma node_chain_changes:
  assumes "changes m m' A" and "\<And>n. n \<in> set ns \<Longrightarrow> {unat n ..< unat n + 8} \<inter> A = {} \<and> unat n + 8 \<le> 2 ^ 64"
  shows "node_chain m' h ns = node_chain m h ns"
  using assms(2)
proof (induction ns arbitrary: h)
  case (Cons n ns)
  have "load m' n = (load m n :: u64)"
    using Cons.prems [of n] by (intro changes_load [OF assms(1)]) auto
  then show ?case using Cons by simp
qed simp

lemma slot_link:
  assumes "slot_at pc c n" "c < 6"
  shows "{unat n - 8 ..< unat n} \<subseteq> slot_bytes c n" and "{unat n ..< unat n + 8} \<subseteq> slot_bytes c n"
    and "unat n + 8 \<le> 2 ^ 64" and "n \<noteq> 0"
proof -
  have "32 \<le> csize c" using csize_facts assms(2) by blast
  then show "{unat n - 8 ..< unat n} \<subseteq> slot_bytes c n" "{unat n ..< unat n + 8} \<subseteq> slot_bytes c n"
      "unat n + 8 \<le> 2 ^ 64" "n \<noteq> 0"
    using slot_page(1,4) [OF assms] by (auto simp: slot_bytes_def)
qed

text \<open>A client that writes only inside its live blocks keeps the invariant.\<close>

lemma slab_inv_changes:
  assumes inv: "slab_inv pc fs live s" and ch: "changes (slab_mem s) m' A"
    and A: "\<And>c n. slot_at pc c n \<Longrightarrow> n \<in> set (fs c) \<Longrightarrow> slot_bytes c n \<inter> A = {}"
      "\<And>c n. slot_at pc c n \<Longrightarrow> {unat n - 8 ..< unat n} \<inter> A = {}"
  shows "slab_inv pc fs live (set_mem m' s)"
proof -
  have "header_ok m' c n" if "slot_at pc c n" for c n
    using header_ok_changes [OF ch slot_page(1) [OF that slab_inv_class [OF inv that]] A(2) [OF that]] inv that
    by (simp add: slab_inv_def)
  moreover have "node_chain m' (free_lists s ! c) (fs c)" if c: "c < 6" for c
  proof -
    have "{unat n ..< unat n + 8} \<inter> A = {} \<and> unat n + 8 \<le> 2 ^ 64" if "n \<in> set (fs c)" for n
    proof -
      have s: "slot_at pc c n" using inv that c by (simp add: slab_inv_def)
      then show ?thesis using A(1) [OF s that] slot_link [OF s c] by blast
    qed
    then show ?thesis using node_chain_changes [OF ch, of "fs c"] inv c by (simp add: slab_inv_def)
  qed
  ultimately show ?thesis using inv by (simp add: slab_inv_def set_mem_def)
qed

section \<open>Carving a page\<close>

definition slot_addr :: "u64 \<Rightarrow> nat \<Rightarrow> nat \<Rightarrow> u64" where
  "slot_addr page c j = page + ucast (of_nat j * class_sizes ! c) + 8"

lemma slot_fits: "c < 6 \<Longrightarrow> j < 4096 div csize c \<Longrightarrow> j * csize c + csize c \<le> 4096"
proof -
  assume "c < 6" "j < 4096 div csize c"
  then have "Suc j * csize c \<le> 4096 div csize c * csize c" by (intro mult_le_mono1) simp
  also have "\<dots> \<le> 4096" by simp
  finally show ?thesis by simp
qed

lemma slot_addr_unat:
  assumes c: "c < 6" and j: "j < 4096 div csize c" and page: "page_aligned page"
  shows "unat (page + ucast (of_nat j * class_sizes ! c) :: u64) = unat page + j * csize c"
    and "unat (slot_addr page c j) = unat page + j * csize c + 8"
    and "unat (slot_addr page c j - 4) = unat page + j * csize c + 4"
    and "slot_addr page c j - 8 = page + ucast (of_nat j * class_sizes ! c)"
proof -
  note fits = slot_fits [OF c j] and cs = csize_facts [OF c]
  have "j * csize c < 2 ^ 32" using fits by simp
  moreover have "j \<le> j * csize c" using cs(1) by simp
  then have "j < 2 ^ 32" using \<open>j * csize c < 2 ^ 32\<close> by (rule le_less_trans)
  ultimately have o: "unat (of_nat j * class_sizes ! c :: u32) = j * csize c"
    by (simp add: unat_word_ariths unat_of_nat csize_def)
  then have uo: "unat (ucast (of_nat j * class_sizes ! c :: u32) :: u64) = j * csize c"
    using fits by (simp add: unsigned_ucast_eq take_bit_nat_eq_self_iff)
  have room: "unat page + 4096 \<le> 2 ^ 64" using page by (rule page_room)
  show h: "unat (page + ucast (of_nat j * class_sizes ! c) :: u64) = unat page + j * csize c"
    using room fits cs uo by (simp add: unat_word_ariths)
  show n: "unat (slot_addr page c j) = unat page + j * csize c + 8"
    using room fits cs h unfolding slot_addr_def by (simp add: unat_word_ariths)
  show "unat (slot_addr page c j - 4) = unat page + j * csize c + 4"
    using n by (simp add: unat_sub word_le_nat_alt)
qed (simp add: slot_addr_def)

lemma carve_one:
  assumes c: "c < 6" and j: "j < 4096 div csize c" and page: "page_aligned page"
    and s': "s' = carve page c (of_nat j * class_sizes ! c) s"
  shows "changes (slab_mem s) (slab_mem s') {unat page + j * csize c ..< unat page + j * csize c + 16}"
    and "header_ok (slab_mem s') c (slot_addr page c j)"
    and "load (slab_mem s') (slot_addr page c j) = free_lists s ! c"
    and "free_lists s' = (free_lists s)[c := slot_addr page c j]"
    and "page_bump (slab_vm s') = page_bump (slab_vm s)"
proof -
  let ?h = "page + ucast (of_nat j * class_sizes ! c) :: u64" and ?n = "slot_addr page c j"
  let ?H = "unat page + j * csize c"
  let ?m1 = "store (slab_mem s) ?h SLAB_MAGIC"
  let ?m2 = "store ?m1 (?h + 4) (of_nat c :: u32)"
  let ?m3 = "store ?m2 ?n (free_lists s ! c)"
  have m: "slab_mem s' = ?m3" using s' by (simp add: carve_def Let_def set_mem_def slot_addr_def)
  note u = slot_addr_unat [OF c j page]
  have h4: "?h + 4 = ?n - 4" by (simp add: slot_addr_def)
  have room: "?H + 32 \<le> 2 ^ 64" using page_room [OF page] slot_fits [OF c j] csize_facts(1) [OF c] by linarith
  have c1: "changes (slab_mem s) ?m1 {?H ..< ?H + 4}"
    using changes_store [where 'a = 32, of ?h] room u(1) by simp
  have c2: "changes ?m1 ?m2 {?H + 4 ..< ?H + 4 + 4}"
    using changes_store [where 'a = 32, of "?n - 4"] room u(3) unfolding h4 by simp
  have c3: "changes ?m2 ?m3 {?H + 8 ..< ?H + 8 + 8}"
    using changes_store [where 'a = 64, of ?n] room u(2) by simp
  show "changes (slab_mem s) (slab_mem s') {?H ..< ?H + 16}"
    unfolding m using c1 c2 c3 by (auto simp: changes_def)
  have "load ?m3 (?n - 4) = (of_nat c :: u32)"
    using changes_load [OF c3, where 'a = 32, of "?n - 4"] room u(3) unfolding h4 by simp
  moreover have "load ?m3 ?h = SLAB_MAGIC"
    using changes_load [OF c3, where 'a = 32, of ?h] changes_load [OF c2, where 'a = 32, of ?h] room u(1) by simp
  ultimately show "header_ok (slab_mem s') c ?n" unfolding m header_ok_def u(4) by simp
  show "load (slab_mem s') ?n = free_lists s ! c" unfolding m by simp
  show "free_lists s' = (free_lists s)[c := ?n]" "page_bump (slab_vm s') = page_bump (slab_vm s)"
    using s' by (simp_all add: carve_def Let_def set_mem_def slot_addr_def)
qed

lemma carve_loop:
  assumes c: "c < 6" and page: "page_aligned page" and len: "length (free_lists s) = 6"
    and xs: "node_chain (slab_mem s) (free_lists s ! c) xs"
      "\<And>n. n \<in> set xs \<Longrightarrow> {unat n ..< unat n + 8} \<inter> {unat page ..< unat page + 4096} = {} \<and> unat n + 8 \<le> 2 ^ 64"
  shows "k \<le> 4096 div csize c \<Longrightarrow> s' = fold (\<lambda>j. carve page c (of_nat j * class_sizes ! c)) [0..<k] s \<Longrightarrow>
    changes (slab_mem s) (slab_mem s') {unat page ..< unat page + k * csize c} \<and>
    (\<forall>j < k. header_ok (slab_mem s') c (slot_addr page c j)) \<and>
    node_chain (slab_mem s') (free_lists s' ! c) (map (slot_addr page c) (rev [0..<k]) @ xs) \<and>
    length (free_lists s') = 6 \<and> (\<forall>d. d \<noteq> c \<longrightarrow> free_lists s' ! d = free_lists s ! d) \<and>
    page_bump (slab_vm s') = page_bump (slab_vm s)"
proof (induction k arbitrary: s')
  case 0
  then show ?case using xs(1) len by simp
next
  case (Suc k)
  define s1 where "s1 = fold (\<lambda>j. carve page c (of_nat j * class_sizes ! c)) [0..<k] s"
  have k: "k < 4096 div csize c" using Suc.prems(1) by simp
  have IH: "changes (slab_mem s) (slab_mem s1) {unat page ..< unat page + k * csize c}"
      "\<forall>j < k. header_ok (slab_mem s1) c (slot_addr page c j)"
      "node_chain (slab_mem s1) (free_lists s1 ! c) (map (slot_addr page c) (rev [0..<k]) @ xs)"
      "length (free_lists s1) = 6" "\<forall>d. d \<noteq> c \<longrightarrow> free_lists s1 ! d = free_lists s ! d"
      "page_bump (slab_vm s1) = page_bump (slab_vm s)"
    using Suc.IH [OF less_imp_le [OF k] s1_def] by auto
  have s': "s' = carve page c (of_nat k * class_sizes ! c) s1" using Suc.prems(2) by (simp add: s1_def)
  note one = carve_one [OF c k page s']
  have fits: "k * csize c + csize c \<le> 4096" using slot_fits [OF c k] .
  have below: "j * csize c + 32 \<le> k * csize c" if "j < k" for j
  proof -
    have "Suc j * csize c \<le> k * csize c" using that by (intro mult_le_mono1) simp
    then show ?thesis using csize_facts(1) [OF c] by simp
  qed
  have u: "unat (slot_addr page c j) = unat page + j * csize c + 8" if "j < k" for j
    using slot_addr_unat(2) [OF c _ page] that k by simp
  have "changes (slab_mem s) (slab_mem s') {unat page ..< unat page + Suc k * csize c}"
  proof (rule changes_trans)
    show "changes (slab_mem s) (slab_mem s1) {unat page ..< unat page + Suc k * csize c}"
      using IH(1) by (rule changes_mono) simp
    show "changes (slab_mem s1) (slab_mem s') {unat page ..< unat page + Suc k * csize c}"
      using one(1) by (rule changes_mono) (use csize_facts(1) [OF c] in simp)
  qed
  moreover have "header_ok (slab_mem s') c (slot_addr page c j)" if "j < Suc k" for j
  proof (cases "j = k")
    case False
    then have j: "j < k" using that by simp
    then show ?thesis using header_ok_changes [OF one(1), of "slot_addr page c j"] u [OF j] below [OF j] IH(2)
      by auto
  qed (simp add: one(2))
  moreover have "node_chain (slab_mem s') (free_lists s1 ! c) (map (slot_addr page c) (rev [0..<k]) @ xs)"
  proof (subst node_chain_changes [OF one(1)])
    fix n assume "n \<in> set (map (slot_addr page c) (rev [0..<k]) @ xs)"
    then consider j where "j < k" "n = slot_addr page c j" | "n \<in> set xs" by auto
    then show "{unat n ..< unat n + 8} \<inter> {unat page + k * csize c ..< unat page + k * csize c + 16} = {} \<and>
        unat n + 8 \<le> 2 ^ 64"
    proof cases
      case 1
      then show ?thesis using u below [OF 1(1)] page_room [OF page] fits by auto
    next
      case 2
      moreover have "{unat page + k * csize c ..< unat page + k * csize c + 16} \<subseteq> {unat page ..< unat page + 4096}"
        using fits csize_facts(1) [OF c] by auto
      ultimately show ?thesis using xs(2) by blast
    qed
  qed (rule IH(3))
  then have "node_chain (slab_mem s') (free_lists s' ! c) (map (slot_addr page c) (rev [0..<Suc k]) @ xs)"
    using one(3,4) IH(4) c slot_addr_unat(2) [OF c k page] by auto
  ultimately show ?case using one(4,5) IH(4-6) by simp
qed

lemma slot_addr_page:
  assumes "c < 6" "j < 4096 div csize c" "page_aligned page"
  shows "unat (slot_addr page c j) div 4096 = unat page div 4096" and "unat (slot_addr page c j) mod csize c = 8"
proof -
  have z: "unat page mod 4096 = 0" using assms(3) by (simp add: page_aligned_def)
  have "j * csize c + 8 < 4096" using slot_fits [OF assms(1,2)] csize_facts(1) [OF assms(1)] by linarith
  then show "unat (slot_addr page c j) div 4096 = unat page div 4096"
    using z slot_addr_unat(2) [OF assms] div_add1_eq [of "unat page" "j * csize c + 8" 4096] by (simp add: add.assoc)
  have "csize c dvd unat page"
    using z csize_facts(3) [OF assms(1)] dvd_trans by (metis mod_eq_0_iff_dvd)
  then obtain q where "unat page = csize c * q" by (auto simp: dvd_def)
  then have "unat (slot_addr page c j) = 8 + csize c * (q + j)"
    using slot_addr_unat(2) [OF assms] by (simp add: algebra_simps)
  then have "unat (slot_addr page c j) mod csize c = 8 mod csize c" by (simp only: mod_mult_self2)
  then show "unat (slot_addr page c j) mod csize c = 8" using csize_facts(1) [OF assms(1)] by simp
qed

lemma slot_in_page:
  assumes "c < 6" "page_aligned page" "unat n mod csize c = 8" "unat n div 4096 = unat page div 4096"
  obtains j where "j < 4096 div csize c" "n = slot_addr page c j"
proof -
  have pos: "0 < csize c" using csize_facts(1) [OF assms(1)] by simp
  have pg: "unat page = unat page div 4096 * 4096"
    using assms(2) div_mult_mod_eq [of "unat page" 4096] by (simp add: page_aligned_def)
  define r where "r = unat n mod 4096"
  have r: "unat n = unat page + r" "r < 4096"
    using div_mult_mod_eq [of "unat n" 4096] assms(4) pg by (simp_all add: r_def)
  have "csize c dvd unat page" using pg csize_facts(3) [OF assms(1)] by (metis dvd_mult)
  then have "r mod csize c = 8" using assms(3) r(1) by (metis add.commute dvd_imp_mod_0 mod_add_right_eq add_0_right)
  then have eq: "r = r div csize c * csize c + 8" using div_mult_mod_eq [of r "csize c"] by simp
  have j: "r div csize c < 4096 div csize c"
    using r(2) csize_facts(3) [OF assms(1)] pos by (metis dvd_div_mult_self div_less_iff_less_mult)
  have "unat n = unat (slot_addr page c (r div csize c))"
    using slot_addr_unat(2) [OF assms(1) j assms(2)] r(1) eq by simp
  then show ?thesis using that [OF j] by (simp add: unsigned_word_eqI)
qed

lemma fresh_page_slots:
  assumes c: "c < 6" and page: "page_aligned page" and pc: "pc (unat page div 4096) = None"
  defines "pc' \<equiv> pc(unat page div 4096 \<mapsto> c)" and "new \<equiv> map (slot_addr page c) (rev [0..<4096 div csize c])"
  shows "slot_at pc' d n \<longleftrightarrow> slot_at pc d n \<or> d = c \<and> n \<in> set new"
    and "n \<in> set new \<Longrightarrow> \<not> slot_at pc d n" and "distinct new" and "new \<noteq> []"
proof -
  have new: "n \<in> set new \<longleftrightarrow> unat n mod csize c = 8 \<and> unat n div 4096 = unat page div 4096" for n
    using slot_addr_page [OF c _ page] by (auto simp: new_def elim!: slot_in_page [OF c page])
  show "slot_at pc' d n \<longleftrightarrow> slot_at pc d n \<or> d = c \<and> n \<in> set new"
    using pc by (auto simp: new slot_at_def pc'_def)
  show "n \<in> set new \<Longrightarrow> \<not> slot_at pc d n" using pc by (auto simp: new slot_at_def)
  have "inj_on (slot_addr page c) {0..<4096 div csize c}"
  proof (rule inj_onI)
    fix i j assume "i \<in> {0..<4096 div csize c}" "j \<in> {0..<4096 div csize c}" "slot_addr page c i = slot_addr page c j"
    then have "i * csize c = j * csize c"
      using slot_addr_unat(2) [OF c _ page, of i] slot_addr_unat(2) [OF c _ page, of j] by auto
    then show "i = j" using csize_facts(1) [OF c] by simp
  qed
  then show "distinct new" by (simp add: new_def distinct_map)
  show "new \<noteq> []" using csize_facts(1,2) [OF c] by (simp add: new_def div_eq_0_iff)
qed

text \<open>The state after \<^verbatim>\<open>refill\<close>: the page allocated, then carved.\<close>

lemma carve_page:
  assumes inv: "slab_inv pc fs live s" and c: "c < 6" and room: "unat (page_bump (slab_vm s)) + 8192 \<le> 2 ^ 64"
  defines "page \<equiv> page_bump (slab_vm s)"
  defines "new \<equiv> map (slot_addr page c) (rev [0..<4096 div csize c])"
  shows "\<exists>s'. refill c s = (s', 0) \<and>
    changes (slab_mem s) (slab_mem s') {unat page ..< unat page + 4096} \<and>
    (\<forall>n \<in> set new. header_ok (slab_mem s') c n) \<and>
    node_chain (slab_mem s') (free_lists s' ! c) (new @ fs c) \<and> length (free_lists s') = 6 \<and>
    (\<forall>d. d \<noteq> c \<longrightarrow> free_lists s' ! d = free_lists s ! d) \<and>
    page_aligned (page_bump (slab_vm s')) \<and> unat (page_bump (slab_vm s')) = unat page + 4096"
proof -
  let ?A = "{unat page ..< unat page + 4096}"
  obtain v where v: "vm_alloc_page (slab_vm s) = (v, page)" by (simp add: vm_alloc_page_def Let_def page_def)
  define s1 where "s1 = s\<lparr>slab_vm := v\<rparr>"
  define s2 where "s2 = fold (\<lambda>j. carve page c (of_nat j * class_sizes ! c)) [0..<4096 div csize c] s1"
  have page: "page_aligned page" "page \<noteq> 0" using inv by (auto simp: slab_inv_def page_def)
  have r: "refill c s = (s2, 0)" using v page(2) by (simp add: refill_def s2_def s1_def csize_def Let_def)
  have ch1: "changes (slab_mem s) (slab_mem s1) ?A"
    using vmpages.alloc_changes [OF _ v] page(1) by (simp add: s1_def page_def)
  have xs: "{unat n ..< unat n + 8} \<inter> ?A = {} \<and> unat n + 8 \<le> 2 ^ 64" if "n \<in> set (fs c)" for n
  proof -
    have s: "slot_at pc c n" using inv that c by (simp add: slab_inv_def)
    have "{unat n ..< unat n + 8} \<subseteq> {..< unat page}"
      using slot_link(2) [OF s c] slab_inv_below [OF inv s] unfolding page_def by (rule subset_trans)
    then have "{unat n ..< unat n + 8} \<inter> ?A = {}" by fastforce
    then show ?thesis using slot_link(3) [OF s c] by simp
  qed
  have "node_chain (slab_mem s) (free_lists s ! c) (fs c)" using inv c by (simp add: slab_inv_def)
  then have chain: "node_chain (slab_mem s1) (free_lists s1 ! c) (fs c)"
    using node_chain_changes [OF ch1 xs] by (simp add: s1_def)
  have len: "length (free_lists s1) = 6" using inv by (simp add: slab_inv_def s1_def)
  have loop: "changes (slab_mem s1) (slab_mem s2) {unat page ..< unat page + 4096 div csize c * csize c} \<and>
    (\<forall>j < 4096 div csize c. header_ok (slab_mem s2) c (slot_addr page c j)) \<and>
    node_chain (slab_mem s2) (free_lists s2 ! c) (new @ fs c) \<and> length (free_lists s2) = 6 \<and>
    (\<forall>d. d \<noteq> c \<longrightarrow> free_lists s2 ! d = free_lists s1 ! d) \<and> page_bump (slab_vm s2) = page_bump (slab_vm s1)"
    unfolding new_def by (rule carve_loop [OF c page(1) len chain xs le_refl s2_def])
  then have "changes (slab_mem s1) (slab_mem s2) {unat page ..< unat page + 4096 div csize c * csize c}" by blast
  then have "changes (slab_mem s1) (slab_mem s2) ?A" by (rule changes_mono) simp
  then have "changes (slab_mem s) (slab_mem s2) ?A" using ch1 changes_trans by blast
  moreover have "page_aligned (page_bump v)" "unat (page_bump v) = unat page + 4096"
    using vmpages.alloc_fresh [OF _ _ v] page(1) room by (simp_all add: page_def)
  moreover have "\<forall>n \<in> set new. header_ok (slab_mem s2) c n" using loop by (auto simp: new_def)
  ultimately show ?thesis using r loop by (simp add: s1_def)
qed

lemma refill_ok:
  assumes inv: "slab_inv pc fs live s" and c: "c < 6" and room: "unat (page_bump (slab_vm s)) + 8192 \<le> 2 ^ 64"
  shows "\<exists>s' pc' new. refill c s = (s', 0) \<and> slab_inv pc' (fs(c := new @ fs c)) live s' \<and> new \<noteq> [] \<and>
    (\<forall>d n. slot_at pc d n \<longrightarrow> slot_at pc' d n) \<and>
    changes (slab_mem s) (slab_mem s') {unat (page_bump (slab_vm s)) ..} \<and>
    unat (page_bump (slab_vm s')) = unat (page_bump (slab_vm s)) + 4096"
proof -
  let ?page = "page_bump (slab_vm s)"
  let ?new = "map (slot_addr ?page c) (rev [0..<4096 div csize c])" and ?pc = "pc(unat ?page div 4096 \<mapsto> c)"
  let ?A = "{unat ?page ..< unat ?page + 4096}"
  obtain s' where r: "refill c s = (s', 0)" and ch: "changes (slab_mem s) (slab_mem s') ?A"
    and hd: "\<And>n. n \<in> set ?new \<Longrightarrow> header_ok (slab_mem s') c n"
    and chain: "node_chain (slab_mem s') (free_lists s' ! c) (?new @ fs c)" "length (free_lists s') = 6"
    and other: "\<And>d. d \<noteq> c \<Longrightarrow> free_lists s' ! d = free_lists s ! d"
    and bump: "page_aligned (page_bump (slab_vm s'))" "unat (page_bump (slab_vm s')) = unat ?page + 4096"
    using carve_page [OF inv c room] by blast
  have page: "page_aligned ?page" using inv by (simp add: slab_inv_def)
  have "pc (unat ?page div 4096) = None" using slab_inv_page [OF inv] by (metis less_irrefl option.exhaust)
  note new = fresh_page_slots [where pc = pc, OF c page this]
  have out: "slot_bytes d n \<inter> ?A = {}" if "slot_at pc d n" for d n
    using slab_inv_below [OF inv that] by (auto simp: disjoint_iff)
  have inv': "slab_inv pc fs live (set_mem (slab_mem s') s)"
  proof (rule slab_inv_changes [OF inv ch])
    show "{unat n - 8 ..< unat n} \<inter> ?A = {}" if "slot_at pc d n" for d n
      using out [OF that] slot_link(1) [OF that slab_inv_class [OF inv that]] by blast
  qed (rule out)
  then have old: "\<And>d n. slot_at pc d n \<Longrightarrow> header_ok (slab_mem s') d n"
      "\<And>d. d < 6 \<Longrightarrow> node_chain (slab_mem s') (free_lists s ! d) (fs d) \<and> distinct (fs d) \<and> (\<forall>n \<in> set (fs d). slot_at pc d n)"
    by (simp_all add: slab_inv_def set_mem_def)
  have pages: "p < unat (page_bump (slab_vm s')) div 4096 \<and> d < 6" if "?pc p = Some d" for p d
    using that slab_inv_page [OF inv, of p d] c unfolding bump(2) by (auto split: if_splits)
  have lists: "node_chain (slab_mem s') (free_lists s' ! d) ((fs(c := ?new @ fs c)) d) \<and>
      distinct ((fs(c := ?new @ fs c)) d) \<and> (\<forall>n \<in> set ((fs(c := ?new @ fs c)) d). slot_at ?pc d n)" if "d < 6" for d
    using old(2) [OF that] chain(1) other new that by (cases "d = c") auto
  have live: "\<exists>d. slot_at ?pc d n \<and> n \<notin> set ((fs(c := ?new @ fs c)) d)" if "n \<in> live" for n
    using inv that new(1,2) unfolding slab_inv_def by (metis (no_types, lifting) Un_iff fun_upd_apply set_append)
  have "slab_inv ?pc (fs(c := ?new @ fs c)) live s'"
    unfolding slab_inv_def using chain(2) bump pages lists live old(1) hd new(1) by auto
  moreover have "changes (slab_mem s) (slab_mem s') {unat ?page ..}" using ch by (rule changes_mono) auto
  ultimately show ?thesis using r new(1,4) bump(2) by blast
qed

section \<open>Allocation and release\<close>

definition slab_ok :: "u64 set \<Rightarrow> 'a slab_scheme \<Rightarrow> bool" where
  "slab_ok live s \<longleftrightarrow> (\<exists>pc fs. slab_inv pc fs live s)"

text \<open>The bytes a client may use of the block at \<open>n\<close>: the slot its header names, without
  the header.\<close>

definition block_bytes :: "'a slab_scheme \<Rightarrow> u64 \<Rightarrow> nat set" where
  "block_bytes s n = {unat n ..< unat n - 8 + csize (unat (load (slab_mem s) (n - 4) :: u32))}"

definition slab_room :: "'a slab_scheme \<Rightarrow> bool" where
  "slab_room s \<longleftrightarrow> unat (page_bump (slab_vm s)) + 8192 \<le> 2 ^ 64"

lemma slot_header:
  assumes "slab_inv pc fs live s" "slot_at pc c n"
  shows "load (slab_mem s) (n - 8) = SLAB_MAGIC" "unat (load (slab_mem s) (n - 4) :: u32) = c"
proof -
  have "c < 6" using slab_inv_class [OF assms] .
  then show "load (slab_mem s) (n - 8) = SLAB_MAGIC" "unat (load (slab_mem s) (n - 4) :: u32) = c"
    using assms by (auto simp: slab_inv_def header_ok_def unat_of_nat)
qed

lemma block_bytes_slot:
  assumes "slab_inv pc fs live s" "slot_at pc c n"
  shows "block_bytes s n = {unat n ..< unat n - 8 + csize c}" "block_bytes s n \<subseteq> slot_bytes c n"
  using slot_header [OF assms] slot_page(1) [OF assms(2) slab_inv_class [OF assms]]
  by (auto simp: block_bytes_def slot_bytes_def)

lemma pop_inv:
  assumes inv: "slab_inv pc fs live s" and c: "c < 6" and fs: "fs c = n # ns"
  shows "slab_inv pc (fs(c := ns)) (insert n live) (s\<lparr>free_lists := (free_lists s)[c := load (slab_mem s) n]\<rparr>)"
    and "n = free_lists s ! c" and "n \<noteq> 0" and "slot_at pc c n" and "n \<notin> live"
proof -
  have n: "node_chain (slab_mem s) (free_lists s ! c) (n # ns)" "distinct (n # ns)" "\<forall>k \<in> set (n # ns). slot_at pc c k"
    using inv c fs unfolding slab_inv_def by metis+
  then show "n = free_lists s ! c" "n \<noteq> 0" and s: "slot_at pc c n" by auto
  have one: "d = c" if "slot_at pc d n" for d using that s by (simp add: slot_at_def)
  then show "n \<notin> live" using inv fs by (fastforce simp: slab_inv_def)
  have "node_chain (slab_mem s) ((free_lists s)[c := load (slab_mem s) n] ! d) ((fs(c := ns)) d) \<and>
      distinct ((fs(c := ns)) d) \<and> (\<forall>k \<in> set ((fs(c := ns)) d). slot_at pc d k)" if "d < 6" for d
    using inv that n c by (cases "d = c") (simp_all add: slab_inv_def)
  moreover have "\<exists>d. slot_at pc d k \<and> k \<notin> set ((fs(c := ns)) d)" if "k \<in> insert n live" for k
  proof (cases "k = n")
    case True
    then show ?thesis using s n(2) by (intro exI [of _ c]) simp
  next
    case False
    then obtain d where "slot_at pc d k" "k \<notin> set (fs d)" using inv \<open>k \<in> insert n live\<close> by (auto simp: slab_inv_def)
    then show ?thesis using fs by (intro exI [of _ d]) auto
  qed
  ultimately show "slab_inv pc (fs(c := ns)) (insert n live) (s\<lparr>free_lists := (free_lists s)[c := load (slab_mem s) n]\<rparr>)"
    using inv by (simp add: slab_inv_def)
qed

lemma slab_alloc_unfold:
  assumes "class_for sz = int c"
  shows "slab_alloc sz s =
    (let (s1, r) = (if free_lists s ! c = 0 then refill c s else (s, 0))
     in if r \<noteq> 0 then (s1, 0)
        else (s1\<lparr>free_lists := (free_lists s1)[c := load (slab_mem s1) (free_lists s1 ! c)]\<rparr>, free_lists s1 ! c))"
  using assms by (simp add: slab_alloc_def Let_def split: prod.split)

lemma slab_alloc_inv:
  assumes inv: "slab_inv pc fs live s" and sz: "class_for sz = int c" "c < 6" and room: "slab_room s"
  shows "\<exists>s' n pc' fs'. slab_alloc sz s = (s', n) \<and> slab_inv pc' fs' (insert n live) s' \<and> n \<noteq> 0 \<and> n \<notin> live \<and>
    slot_at pc' c n \<and> (\<forall>d k. slot_at pc d k \<longrightarrow> slot_at pc' d k) \<and>
    changes (slab_mem s) (slab_mem s') {unat (page_bump (slab_vm s)) ..} \<and>
    unat (page_bump (slab_vm s')) \<le> unat (page_bump (slab_vm s)) + 4096"
proof (cases "fs c")
  case Nil
  then have empty: "free_lists s ! c = 0" using inv sz(2) by (force simp: slab_inv_def)
  obtain s1 pc1 new where r: "refill c s = (s1, 0)" "slab_inv pc1 (fs(c := new @ fs c)) live s1" "new \<noteq> []"
      "\<forall>d k. slot_at pc d k \<longrightarrow> slot_at pc1 d k" "changes (slab_mem s) (slab_mem s1) {unat (page_bump (slab_vm s)) ..}"
      "unat (page_bump (slab_vm s1)) = unat (page_bump (slab_vm s)) + 4096"
    using refill_ok [OF inv sz(2)] room unfolding slab_room_def by blast
  obtain n ns where n: "(fs(c := new @ fs c)) c = n # ns" using r(3) Nil by (cases new) auto
  note pop = pop_inv [OF r(2) sz(2) n]
  show ?thesis using pop r empty by (intro exI) (auto simp: slab_alloc_unfold [OF sz(1)])
next
  case (Cons n ns)
  note pop = pop_inv [OF inv sz(2) Cons]
  show ?thesis using pop by (intro exI) (auto simp: slab_alloc_unfold [OF sz(1)])
qed

lemma slab_free_inv:
  assumes inv: "slab_inv pc fs live s" and n: "n \<in> live" and c: "slot_at pc c n"
  defines "s' \<equiv> (set_mem (store (slab_mem s) n (free_lists s ! c)) s)\<lparr>free_lists := (free_lists s)[c := n]\<rparr>"
  shows "slab_free n s = (s', 1)" and "slab_inv pc (fs(c := n # fs c)) (live - {n}) s'"
proof -
  have c6: "c < 6" using slab_inv_class [OF inv c] .
  note link = slot_link [OF c c6] and hd = slot_header [OF inv c]
  have "\<not> of_nat SLAB_CLASSES \<le> (load (slab_mem s) (n - 4) :: u32)"
    using hd(2) c6 by (simp add: word_le_nat_alt SLAB_CLASSES_def)
  moreover have "n - 8 + 4 = n - 4" by simp
  ultimately show "slab_free n s = (s', 1)"
    using hd link(4) by (simp add: slab_free_def Let_def s'_def)
  have nf: "n \<notin> set (fs d)" if d: "d < 6" for d
  proof -
    obtain e where "slot_at pc e n" "n \<notin> set (fs e)" using inv n by (auto simp: slab_inv_def)
    moreover have "slot_at pc d n" if "n \<in> set (fs d)" using inv d that by (simp add: slab_inv_def)
    ultimately show ?thesis by (auto simp: slot_at_def)
  qed
  let ?m = "store (slab_mem s) n (free_lists s ! c)"
  have ch: "changes (slab_mem s) ?m {unat n ..< unat n + 8}" using changes_store [where 'a = 64] link(3) by fastforce
  have dis: "slot_bytes d k \<inter> {unat n ..< unat n + 8} = {}" if "slot_at pc d k" "k \<noteq> n" for d k
    using slots_disjoint [OF that(1) slab_inv_class [OF inv that(1)] c c6 that(2)] link(2) by blast
  have "slab_inv pc fs live (set_mem ?m s)"
  proof (rule slab_inv_changes [OF inv ch])
    show "slot_bytes d k \<inter> {unat n ..< unat n + 8} = {}" if "slot_at pc d k" "k \<in> set (fs d)" for d k
      using that dis nf slab_inv_class [OF inv that(1)] by blast
    show "{unat k - 8 ..< unat k} \<inter> {unat n ..< unat n + 8} = {}" if "slot_at pc d k" for d k
    proof (cases "k = n")
      case False
      then show ?thesis using dis [OF that] slot_link(1) [OF that slab_inv_class [OF inv that]] by blast
    qed auto
  qed
  then have m: "length (free_lists s) = 6 \<and> page_aligned (page_bump (slab_vm s)) \<and> 0 < unat (page_bump (slab_vm s))"
      "\<forall>p c. pc p = Some c \<longrightarrow> p < unat (page_bump (slab_vm s)) div 4096 \<and> c < 6"
      "\<forall>c n. slot_at pc c n \<longrightarrow> header_ok ?m c n"
      "\<And>d. d < 6 \<Longrightarrow> node_chain ?m (free_lists s ! d) (fs d) \<and> distinct (fs d) \<and> (\<forall>n \<in> set (fs d). slot_at pc d n)"
    by (simp_all add: slab_inv_def set_mem_def)
  have lists: "node_chain ?m ((free_lists s)[c := n] ! d) ((fs(c := n # fs c)) d) \<and> distinct ((fs(c := n # fs c)) d) \<and>
      (\<forall>k \<in> set ((fs(c := n # fs c)) d). slot_at pc d k)" if "d < 6" for d
    using m(1) m(4) [OF that] nf [OF that] c link(4) that by (cases "d = c") simp_all
  have live: "\<exists>d. slot_at pc d k \<and> k \<notin> set ((fs(c := n # fs c)) d)" if k: "k \<in> live - {n}" for k
  proof -
    obtain d where "slot_at pc d k" "k \<notin> set (fs d)" using inv k by (auto simp: slab_inv_def)
    then show ?thesis using k by (intro exI [of _ d]) auto
  qed
  show "slab_inv pc (fs(c := n # fs c)) (live - {n}) s'"
    using m lists live by (simp add: slab_inv_def set_mem_def s'_def)
qed

section \<open>The allocator's contract\<close>

text \<open>What a client of a block allocator may rely on.  \<open>put\<close> replaces the memory; a client
  writes through it.\<close>

locale block_allocator =
  fixes ok :: "u64 set \<Rightarrow> 's \<Rightarrow> bool" and bytes :: "'s \<Rightarrow> u64 \<Rightarrow> nat set" and memory :: "'s \<Rightarrow> mem"
    and put :: "mem \<Rightarrow> 's \<Rightarrow> 's" and fits :: "u64 \<Rightarrow> 's \<Rightarrow> bool"
    and alloc :: "u64 \<Rightarrow> 's \<Rightarrow> 's \<times> u64" and release :: "u64 \<Rightarrow> 's \<Rightarrow> 's \<times> int"
  assumes alloc_new: "ok live s \<Longrightarrow> fits z s \<Longrightarrow> alloc z s = (s', n) \<Longrightarrow>
      n \<noteq> 0 \<and> n \<notin> live \<and> ok (insert n live) s' \<and> {unat n ..< unat n + unat z} \<subseteq> bytes s' n"
    and alloc_keeps: "ok live s \<Longrightarrow> fits z s \<Longrightarrow> alloc z s = (s', n) \<Longrightarrow> q \<in> live \<Longrightarrow>
      bytes s' q = bytes s q \<and> (\<forall>x. unat x \<in> bytes s q \<longrightarrow> memory s' x = memory s x)"
    and release_ok: "ok live s \<Longrightarrow> n \<in> live \<Longrightarrow> release n s = (s', r) \<Longrightarrow> r = 1 \<and> ok (live - {n}) s'"
    and release_keeps: "ok live s \<Longrightarrow> n \<in> live \<Longrightarrow> release n s = (s', r) \<Longrightarrow> q \<in> live \<Longrightarrow> q \<noteq> n \<Longrightarrow>
      bytes s' q = bytes s q \<and> (\<forall>x. unat x \<in> bytes s q \<longrightarrow> memory s' x = memory s x)"
    and blocks_apart: "ok live s \<Longrightarrow> p \<in> live \<Longrightarrow> q \<in> live \<Longrightarrow> p \<noteq> q \<Longrightarrow> bytes s p \<inter> bytes s q = {}"
    and write_ok: "ok live s \<Longrightarrow> n \<in> live \<Longrightarrow> unat x \<in> bytes s n \<Longrightarrow>
      ok live (put ((memory s)(x := v)) s) \<and> (q \<in> live \<longrightarrow> bytes (put ((memory s)(x := v)) s) q = bytes s q)"
    and memory_put: "memory (put m s) = m"
begin

text \<open>The view a client has of one of its blocks.\<close>

definition holds :: "'s \<Rightarrow> u64 \<Rightarrow> 's \<Rightarrow> bool" where
  "holds s p s' \<longleftrightarrow> bytes s' p = bytes s p \<and> (\<forall>x. unat x \<in> bytes s p \<longrightarrow> memory s' x = memory s x)"

lemma holds_trans: "holds s p s' \<Longrightarrow> holds s' p s'' \<Longrightarrow> holds s p s''"
  by (simp add: holds_def)

lemma holds_alloc: "ok live s \<Longrightarrow> fits z s \<Longrightarrow> alloc z s = (s', n) \<Longrightarrow> p \<in> live \<Longrightarrow> holds s p s'"
  using alloc_keeps by (simp add: holds_def)

lemma holds_release: "ok live s \<Longrightarrow> n \<in> live \<Longrightarrow> release n s = (s', r) \<Longrightarrow> p \<in> live \<Longrightarrow> p \<noteq> n \<Longrightarrow> holds s p s'"
  using release_keeps by (simp add: holds_def)

lemma holds_write:
  assumes "ok live s" "n \<in> live" "unat x \<in> bytes s n" "p \<in> live" "p \<noteq> n"
  shows "holds s p (put ((memory s)(x := v)) s)"
  using assms blocks_apart [OF assms(1,4,2,5)] write_ok [OF assms(1-3)] by (auto simp: holds_def memory_put)

end

lemma slab_block_same:
  assumes "slab_inv pc fs live s" "slot_at pc d q" "slab_inv pc' fs' live' s'" "slot_at pc' d q"
  shows "block_bytes s' q = block_bytes s q"
  using block_bytes_slot(1) [OF assms(1,2)] block_bytes_slot(1) [OF assms(3,4)] by simp

lemma slab_alloc_contract:
  assumes ok: "slab_ok live s" and fits: "unat z \<le> 1016 \<and> slab_room s" and eq: "slab_alloc z s = (s', n)"
  shows "n \<noteq> 0 \<and> n \<notin> live \<and> slab_ok (insert n live) s' \<and> {unat n ..< unat n + unat z} \<subseteq> block_bytes s' n"
    and "q \<in> live \<Longrightarrow> block_bytes s' q = block_bytes s q \<and>
      (\<forall>x. unat x \<in> block_bytes s q \<longrightarrow> slab_mem s' x = slab_mem s x)"
proof -
  obtain pc fs where inv: "slab_inv pc fs live s" using ok by (auto simp: slab_ok_def)
  obtain c where c: "c < 6" "class_for z = int c" "unat z + 8 \<le> csize c" using class_for_fits fits by blast
  obtain pc' fs' where a: "slab_inv pc' fs' (insert n live) s'" "n \<noteq> 0" "n \<notin> live" "slot_at pc' c n"
      "\<forall>d k. slot_at pc d k \<longrightarrow> slot_at pc' d k" "changes (slab_mem s) (slab_mem s') {unat (page_bump (slab_vm s)) ..}"
    using slab_alloc_inv [OF inv c(2,1)] fits eq by auto
  show "n \<noteq> 0 \<and> n \<notin> live \<and> slab_ok (insert n live) s' \<and> {unat n ..< unat n + unat z} \<subseteq> block_bytes s' n"
    using a c(3) slot_page(1) [OF a(4) c(1)] block_bytes_slot(1) [OF a(1,4)] by (auto simp: slab_ok_def)
  show "block_bytes s' q = block_bytes s q \<and> (\<forall>x. unat x \<in> block_bytes s q \<longrightarrow> slab_mem s' x = slab_mem s x)"
    if q: "q \<in> live"
  proof -
    obtain d where d: "slot_at pc d q" using inv q by (auto simp: slab_inv_def)
    have "block_bytes s q \<subseteq> {..< unat (page_bump (slab_vm s))}"
      using block_bytes_slot(2) [OF inv d] slab_inv_below [OF inv d] by (rule subset_trans)
    then show ?thesis using slab_block_same [OF inv d a(1)] a(5,6) d by (force simp: changes_def)
  qed
qed

lemma slab_alloc_bump:
  assumes ok: "slab_ok live s" and fits: "unat z \<le> 1016" "slab_room s" and eq: "slab_alloc z s = (s', n)"
  shows "unat (page_bump (slab_vm s')) \<le> unat (page_bump (slab_vm s)) + 4096"
proof -
  obtain pc fs where inv: "slab_inv pc fs live s" using ok by (auto simp: slab_ok_def)
  obtain c where "c < 6" "class_for z = int c" using class_for_fits fits by blast
  then show ?thesis using slab_alloc_inv [OF inv _ _ fits(2)] eq by fastforce
qed

lemma slab_free_contract:
  assumes ok: "slab_ok live s" and n: "n \<in> live" and eq: "slab_free n s = (s', r)"
  shows "r = 1 \<and> slab_ok (live - {n}) s'"
    and "q \<in> live \<Longrightarrow> q \<noteq> n \<Longrightarrow> block_bytes s' q = block_bytes s q \<and>
      (\<forall>x. unat x \<in> block_bytes s q \<longrightarrow> slab_mem s' x = slab_mem s x)"
proof -
  obtain pc fs where inv: "slab_inv pc fs live s" using ok by (auto simp: slab_ok_def)
  obtain c where c: "slot_at pc c n" using inv n by (auto simp: slab_inv_def)
  have c6: "c < 6" using slab_inv_class [OF inv c] .
  note f = slab_free_inv [OF inv n c]
  have s': "s' = (set_mem (store (slab_mem s) n (free_lists s ! c)) s)\<lparr>free_lists := (free_lists s)[c := n]\<rparr>" "r = 1"
    using f(1) eq by auto
  then have inv': "slab_inv pc (fs(c := n # fs c)) (live - {n}) s'" using f(2) by simp
  then show "r = 1 \<and> slab_ok (live - {n}) s'" using s'(2) by (auto simp: slab_ok_def)
  have ch: "changes (slab_mem s) (slab_mem s') {unat n ..< unat n + 8}"
    using changes_store [where 'a = 64, of n] slot_link(3) [OF c c6] by (simp add: s'(1) set_mem_def)
  show "block_bytes s' q = block_bytes s q \<and> (\<forall>x. unat x \<in> block_bytes s q \<longrightarrow> slab_mem s' x = slab_mem s x)"
    if q: "q \<in> live" "q \<noteq> n"
  proof -
    obtain d where d: "slot_at pc d q" using inv q by (auto simp: slab_inv_def)
    have "slot_bytes d q \<inter> {unat n ..< unat n + 8} = {}"
      using slots_disjoint [OF d slab_inv_class [OF inv d] c c6 q(2)] slot_link(2) [OF c c6] by blast
    then have "block_bytes s q \<inter> {unat n ..< unat n + 8} = {}" using block_bytes_slot(2) [OF inv d] by blast
    then show ?thesis using slab_block_same [OF inv d inv' d] ch unfolding changes_def by blast
  qed
qed

lemma slab_blocks_apart:
  assumes ok: "slab_ok live s" and p: "p \<in> live" and q: "q \<in> live" and ne: "p \<noteq> q"
  shows "block_bytes s p \<inter> block_bytes s q = {}"
proof -
  obtain pc fs where inv: "slab_inv pc fs live s" using ok by (auto simp: slab_ok_def)
  obtain c d where c: "slot_at pc c p" and d: "slot_at pc d q" using inv p q unfolding slab_inv_def by blast
  show ?thesis
    using slots_disjoint [OF c slab_inv_class [OF inv c] d slab_inv_class [OF inv d] ne]
      block_bytes_slot(2) [OF inv c] block_bytes_slot(2) [OF inv d] by blast
qed

lemma slab_write_ok:
  assumes ok: "slab_ok live s" and n: "n \<in> live" and x: "unat x \<in> block_bytes s n"
  shows "slab_ok live (set_mem ((slab_mem s)(x := v)) s) \<and>
    (q \<in> live \<longrightarrow> block_bytes (set_mem ((slab_mem s)(x := v)) s) q = block_bytes s q)"
proof -
  obtain pc fs where inv: "slab_inv pc fs live s" using ok by (auto simp: slab_ok_def)
  obtain c where c: "slot_at pc c n" "n \<notin> set (fs c)" using inv n by (auto simp: slab_inv_def)
  have xs: "unat x \<in> slot_bytes c n" "unat n \<le> unat x" using x block_bytes_slot [OF inv c(1)] by auto
  have other: "unat x \<notin> slot_bytes d k" if "slot_at pc d k" "k \<noteq> n" for d k
    using slots_disjoint [OF that(1) slab_inv_class [OF inv that(1)] c(1) slab_inv_class [OF inv c(1)] that(2)] xs(1) by blast
  have "changes (slab_mem s) ((slab_mem s)(x := v)) {unat x}" by (auto simp: changes_def)
  then have inv': "slab_inv pc fs live (set_mem ((slab_mem s)(x := v)) s)"
  proof (rule slab_inv_changes [OF inv])
    show "slot_bytes d k \<inter> {unat x} = {}" if "slot_at pc d k" "k \<in> set (fs d)" for d k
    proof -
      have "k \<noteq> n" using that c by (auto simp: slot_at_def)
      then show ?thesis using other [OF that(1)] by blast
    qed
    show "{unat k - 8 ..< unat k} \<inter> {unat x} = {}" if "slot_at pc d k" for d k
      using other [OF that] slot_link(1) [OF that slab_inv_class [OF inv that]] xs(2) by (cases "k = n") auto
  qed
  moreover have "block_bytes (set_mem ((slab_mem s)(x := v)) s) q = block_bytes s q" if q: "q \<in> live"
  proof -
    obtain d where "slot_at pc d q" using inv q by (auto simp: slab_inv_def)
    then show ?thesis using slab_block_same [OF inv _ inv'] by blast
  qed
  ultimately show ?thesis by (auto simp: slab_ok_def)
qed

interpretation slabs: block_allocator slab_ok block_bytes "\<lambda>s. slab_mem s" set_mem
  "\<lambda>z s. unat z \<le> 1016 \<and> slab_room s" slab_alloc slab_free
proof (unfold_locales, goal_cases)
  case (1 live s z s' n)
  then show ?case by (rule slab_alloc_contract(1))
next
  case (2 live s z s' n q)
  then show ?case by (rule slab_alloc_contract(2))
next
  case (3 live s n s' r)
  then show ?case by (rule slab_free_contract(1))
next
  case (4 live s n s' r q)
  then show ?case by (rule slab_free_contract(2))
next
  case (5 live s p q)
  then show ?case by (rule slab_blocks_apart)
next
  case (6 live s n x v q)
  then show ?case by (rule slab_write_ok)
next
  case (7 m s)
  then show ?case by (simp add: set_mem_def)
qed

section \<open>Runs of the allocator\<close>

text \<open>One step of the clients other than the owner of block \<open>p\<close>: an allocation, the release
  of another block, or a byte written inside another block.\<close>

inductive slab_step :: "u64 \<Rightarrow> u64 set \<times> slab \<Rightarrow> u64 set \<times> slab \<Rightarrow> bool" for p where
  step_alloc: "unat sz \<le> 1016 \<Longrightarrow> slab_room s \<Longrightarrow> slab_alloc sz s = (s', n) \<Longrightarrow>
    slab_step p (live, s) (insert n live, s')"
| step_free: "n \<in> live \<Longrightarrow> n \<noteq> p \<Longrightarrow> slab_free n s = (s', r) \<Longrightarrow> slab_step p (live, s) (live - {n}, s')"
| step_write: "n \<in> live \<Longrightarrow> n \<noteq> p \<Longrightarrow> unat x \<in> block_bytes s n \<Longrightarrow>
    slab_step p (live, s) (live, set_mem ((slab_mem s)(x := v)) s)"

lemma slab_step_keeps:
  assumes "slab_step p (live, s) (live', s')" "slab_ok live s" "p \<in> live"
  shows "slab_ok live' s' \<and> p \<in> live' \<and> slabs.holds s p s'"
  using assms
proof (cases rule: slab_step.cases)
  case (step_alloc sz n)
  then show ?thesis
    using slabs.alloc_new [OF assms(2) _ step_alloc(4)] slabs.holds_alloc [OF assms(2) _ step_alloc(4) assms(3)] assms(3)
    by blast
next
  case (step_free n r)
  then show ?thesis
    using slabs.release_ok [OF assms(2) step_free(2,4)] slabs.holds_release [OF assms(2) step_free(2,4) assms(3)] assms(3)
    by blast
next
  case (step_write n x v)
  then show ?thesis
    using slabs.write_ok [OF assms(2) step_write(3,5)] slabs.holds_write [OF assms(2) step_write(3,5) assms(3)] assms(3)
    by blast
qed

lemma slab_run_keeps:
  assumes "(slab_step p)\<^sup>*\<^sup>* a b" "slab_ok (fst a) (snd a)" "p \<in> fst a"
  shows "slab_ok (fst b) (snd b) \<and> p \<in> fst b \<and> slabs.holds (snd a) p (snd b)"
  using assms
proof (induction rule: rtranclp_induct)
  case base
  then show ?case by (simp add: slabs.holds_def)
next
  case (step b c)
  then show ?case
    using slab_step_keeps [of p "fst b" "snd b" "fst c" "snd c"] slabs.holds_trans by fastforce
qed

lemma slab_init_ok:
  assumes "page_aligned (page_bump (slab_vm s))" "0 < unat (page_bump (slab_vm s))"
  shows "slab_ok {} (slab_init s)"
proof -
  have "slab_inv Map.empty (\<lambda>_. []) {} (slab_init s)"
    using assms by (simp add: slab_inv_def slab_init_def slot_at_def SLAB_CLASSES_def)
  then show ?thesis by (auto simp: slab_ok_def)
qed

definition demo_slab :: slab where
  "demo_slab = slab_init \<lparr>slab_vm = \<lparr>vm_mem = \<lambda>_. 0, page_bump = 0x300000, cr3 = 0\<rparr>, free_lists = []\<rparr>"

lemma demo_slab_ok: "slab_ok {} demo_slab"
  unfolding demo_slab_def by (rule slab_init_ok) (simp_all add: page_aligned_def)

lemma demo_slab_room: "unat (page_bump (slab_vm demo_slab)) = 0x300000"
  by (simp add: demo_slab_def slab_init_def)

lemma demo_slab_has_room: "slab_room demo_slab"
  by (simp add: slab_room_def demo_slab_room)

section \<open>Properties\<close>

text \<open>C16. A request of at most 1016 bytes is served with a block that was not in use, lies
  outside every block in use and is large enough.\<close>

theorem slab_alloc_fresh:
  assumes "slab_ok live s" and "unat sz \<le> 1016" and "slab_room s"
  shows "\<exists>s' n. slab_alloc sz s = (s', n) \<and> n \<noteq> 0 \<and> n \<notin> live \<and> slab_ok (insert n live) s' \<and>
    {unat n ..< unat n + unat sz} \<subseteq> block_bytes s' n \<and>
    (\<forall>q \<in> live. block_bytes s' q \<inter> block_bytes s' n = {})"
proof -
  obtain s' n where e: "slab_alloc sz s = (s', n)" by fastforce
  have new: "n \<noteq> 0 \<and> n \<notin> live \<and> slab_ok (insert n live) s' \<and> {unat n ..< unat n + unat sz} \<subseteq> block_bytes s' n"
    using slabs.alloc_new [OF assms(1) _ e] assms(2,3) by blast
  then have "block_bytes s' q \<inter> block_bytes s' n = {}" if "q \<in> live" for q
    using that slabs.blocks_apart [of "insert n live" s' q n] by blast
  with e new show ?thesis by blast
qed

theorem slab_alloc_fresh_witness:
  "\<exists>s' n. slab_alloc 100 demo_slab = (s', n) \<and> slab_ok {n} s' \<and> {unat n ..< unat n + 100} \<subseteq> block_bytes s' n"
  using slab_alloc_fresh [OF demo_slab_ok _ demo_slab_has_room, of 100] by auto

text \<open>C5. Whatever sequence of allocations, releases of other blocks and writes into other
  blocks happens, a block stays live, keeps its extent, and its owner finds in it the bytes it
  left there.\<close>

theorem slab_block_stable:
  assumes "slab_ok live s" and "p \<in> live" and "(slab_step p)\<^sup>*\<^sup>* (live, s) (live', s')"
  shows "slab_ok live' s' \<and> p \<in> live' \<and> block_bytes s' p = block_bytes s p \<and>
    (\<forall>x. unat x \<in> block_bytes s p \<longrightarrow> slab_mem s' x = slab_mem s x)"
  using slab_run_keeps [OF assms(3)] assms(1,2) by (simp add: slabs.holds_def)

theorem slab_block_stable_witness:
  "\<exists>s1 n s2 k. slab_alloc 100 demo_slab = (s1, n) \<and> slab_alloc 200 s1 = (s2, k) \<and>
    (\<forall>x. unat x \<in> block_bytes s1 n \<longrightarrow> slab_mem s2 x = slab_mem s1 x)"
proof -
  obtain s1 n where 1: "slab_alloc 100 demo_slab = (s1, n)" by fastforce
  obtain s2 k where 2: "slab_alloc 200 s1 = (s2, k)" by fastforce
  have ok: "slab_ok {n} s1" using slabs.alloc_new [OF demo_slab_ok _ 1] demo_slab_has_room by simp
  have "slab_room s1"
    using slab_alloc_bump [OF demo_slab_ok _ demo_slab_has_room 1] demo_slab_room by (simp add: slab_room_def)
  then have "(slab_step n)\<^sup>*\<^sup>* ({n}, s1) (insert k {n}, s2)" 
    using slab_step.step_alloc [OF _ _ 2] by (intro r_into_rtranclp) simp
  then show ?thesis using slab_block_stable [OF ok] 1 2 by blast
qed

text \<open>Releasing a block and asking again for its size class gives the same block back and
  leaves the free lists as they were.\<close>

theorem slab_free_alloc_lifo:
  assumes "slab_ok live s" and "n \<in> live" and "slab_free n s = (s1, r)"
    and "class_for sz = int (unat (load (slab_mem s) (n - 4) :: u32))"
  shows "r = 1 \<and> (\<exists>s2. slab_alloc sz s1 = (s2, n) \<and> free_lists s2 = free_lists s)"
proof -
  obtain pc fs where inv: "slab_inv pc fs live s" using assms(1) by (auto simp: slab_ok_def)
  obtain c where c: "slot_at pc c n" using inv assms(2) by (auto simp: slab_inv_def)
  have c6: "c < length (free_lists s)" using slab_inv_class [OF inv c] inv by (simp add: slab_inv_def)
  have "class_for sz = int c" using assms(4) slot_header(2) [OF inv c] by simp
  moreover have "n \<noteq> 0" using slot_link(4) [OF c slab_inv_class [OF inv c]] .
  ultimately show ?thesis
    using slab_free_inv(1) [OF inv assms(2) c] assms(3) c6
    by (auto simp: slab_alloc_unfold set_mem_def)
qed

theorem slab_free_alloc_lifo_witness:
  "\<exists>s1 n s2 s3. slab_alloc 100 demo_slab = (s1, n) \<and> slab_free n s1 = (s2, 1) \<and> slab_alloc 90 s2 = (s3, n)"
proof -
  obtain s1 n where 1: "slab_alloc 100 demo_slab = (s1, n)" by fastforce
  obtain s2 r where 2: "slab_free n s1 = (s2, r)" by fastforce
  obtain pc fs where inv: "slab_inv pc fs {} demo_slab" using demo_slab_ok by (auto simp: slab_ok_def)
  have cls: "class_for 100 = int 2" "class_for 90 = int 2" by (simp_all add: class_for_def class_sizes_def)
  obtain pc' fs' where a: "slab_inv pc' fs' {n} s1" "slot_at pc' 2 n"
    using slab_alloc_inv [OF inv cls(1) _ demo_slab_has_room] 1 by auto
  then have "slab_ok {n} s1" "class_for 90 = int (unat (load (slab_mem s1) (n - 4) :: u32))"
    using slot_header(2) [OF a] cls by (auto simp: slab_ok_def)
  then show ?thesis using slab_free_alloc_lifo [OF _ _ 2, of "{n}" 90] 1 2 by blast
qed

end
