(* ===== verification/Kalloc.thy ===== *)
theory Kalloc
  imports Slab
begin

text \<open>
  \<^verbatim>\<open>src/src/freelib/kalloc.c\<close>: \<^verbatim>\<open>kalloc\<close> tries the slab for small requests and
  otherwise searches a list of blocks laid out one after the other from
  \<^verbatim>\<open>_kernel_end\<close>, first fit, appending a block when none fits.  A header is 24 bytes: size at
  0, the 32-bit \<^verbatim>\<open>is_free\<close> at 8, \<^verbatim>\<open>next\<close> at 16.  The search loop follows the
  \<^verbatim>\<open>next\<close> pointers in memory and need not end on a corrupted list, so it is a partial
  function; \<open>heap_ok\<close> makes it total.

  The specification is \<open>first_fit\<close> on the list of (size, free) pairs, and
  \<open>heap_ok\<close> is the representation relation.
\<close>

record kheap = slab +
  heap_start :: u64

definition kalloc_init :: "vm_image \<Rightarrow> 'a kheap_scheme \<Rightarrow> 'a kheap_scheme" where
  "kalloc_init k s =
     (if heap_start s \<noteq> 0 then s
      else
        let heap_addr = (kernel_end k + 15) AND NOT 15;
            m1 = store (slab_mem s) heap_addr (0 :: u64);
            m2 = store m1 (heap_addr + 8) (1 :: u32);
            m3 = store m2 (heap_addr + 16) (0 :: u64)
        in (set_mem m3 s)\<lparr>heap_start := heap_addr\<rparr>)"

text \<open>How the search of \<^verbatim>\<open>kalloc\<close> ends: at a free block that is large enough, or with
  \<^verbatim>\<open>current\<close> at the block after which to append.\<close>

datatype search = Found u64 | Stopped u64

partial_function (option) kalloc_search :: "mem \<Rightarrow> u64 \<Rightarrow> u64 \<Rightarrow> search option" where
  "kalloc_search m sz current =
     (if load m current = (0 :: u64) then Some (Stopped current)
      else if load m (current + 8) \<noteq> (0 :: u32) \<and> sz \<le> load m current then Some (Found current)
      else if load m (current + 16) = (0 :: u64) then Some (Stopped current)
      else kalloc_search m sz (load m (current + 16)))"

definition kalloc_append :: "u64 \<Rightarrow> u64 \<Rightarrow> 'a kheap_scheme \<Rightarrow> 'a kheap_scheme \<times> u64" where
  "kalloc_append sz current s =
     (let m = slab_mem s;
          new_block = (if load m current = (0 :: u64) then heap_start s else current + 24 + load m current);
          m1 = store m new_block sz;
          m2 = store m1 (new_block + 8) (0 :: u32);
          m3 = store m2 (new_block + 16) (0 :: u64);
          m4 = (if current \<noteq> new_block then store m3 (current + 16) new_block else m3)
      in (set_mem m4 s, new_block + 24))"

definition kalloc_large :: "u64 \<Rightarrow> 'a kheap_scheme \<Rightarrow> ('a kheap_scheme \<times> u64) option" where
  "kalloc_large sz s =
     (case kalloc_search (slab_mem s) sz (heap_start s) of
        None \<Rightarrow> None
      | Some (Found c) \<Rightarrow> Some (set_mem (store (slab_mem s) (c + 8) (0 :: u32)) s, c + 24)
      | Some (Stopped c) \<Rightarrow> Some (kalloc_append sz c s))"

definition kalloc :: "vm_image \<Rightarrow> u64 \<Rightarrow> 'a kheap_scheme \<Rightarrow> ('a kheap_scheme \<times> u64) option" where
  "kalloc k sz s =
     (let s0 = kalloc_init k s;
          (s1, small) = (if sz \<le> 1024 then slab_alloc sz s0 else (s0, 0))
      in if small \<noteq> 0 then Some (s1, small)
         else kalloc_large ((sz + 15) AND NOT 15) s1)"

definition kfree_large :: "u64 \<Rightarrow> 'a kheap_scheme \<Rightarrow> 'a kheap_scheme" where
  "kfree_large ptr s =
     (if ptr = 0 then s else set_mem (store (slab_mem s) (ptr - 24 + 8) (1 :: u32)) s)"

definition kfree :: "u64 \<Rightarrow> 'a kheap_scheme \<Rightarrow> 'a kheap_scheme" where
  "kfree ptr s =
     (if ptr = 0 then s
      else let (s', r) = slab_free ptr s in if r \<noteq> 0 then s' else kfree_large ptr s')"

section \<open>The block list\<close>

type_synonym kblock = "nat \<times> bool"

text \<open>Where block \<open>i\<close> starts.\<close>

definition block_addr :: "nat \<Rightarrow> kblock list \<Rightarrow> nat \<Rightarrow> nat" where
  "block_addr H bs i = H + sum_list (map (\<lambda>b. 24 + fst b) (take i bs))"

definition header_at :: "mem \<Rightarrow> nat \<Rightarrow> nat \<Rightarrow> bool \<Rightarrow> nat \<Rightarrow> bool" where
  "header_at m a z free nxt \<longleftrightarrow> load m (of_nat a) = (of_nat z :: u64) \<and>
     (load m (of_nat a + 8) \<noteq> (0 :: u32)) = free \<and> load m (of_nat a + 16) = (of_nat nxt :: u64)"

definition heap_blocks :: "mem \<Rightarrow> nat \<Rightarrow> kblock list \<Rightarrow> bool" where
  "heap_blocks m H bs \<longleftrightarrow> (\<forall>i < length bs.
     header_at m (block_addr H bs i) (fst (bs ! i)) (snd (bs ! i))
       (if Suc i < length bs then block_addr H bs (Suc i) else 0))"

definition heap_ok :: "kblock list \<Rightarrow> 'a kheap_scheme \<Rightarrow> bool" where
  "heap_ok bs s \<longleftrightarrow>
     (let H = unat (heap_start s)
      in 0 < H \<and> H mod 8 = 0 \<and> block_addr H bs (length bs) + 24 \<le> 2 ^ 64 \<and>
         (\<forall>b \<in> set bs. 0 < fst b \<and> fst b mod 16 = 0) \<and>
         (if bs = [] then load (slab_mem s) (heap_start s) = (0 :: u64) else heap_blocks (slab_mem s) H bs))"

definition round16 :: "nat \<Rightarrow> nat" where
  "round16 z = (z + 15) div 16 * 16"

definition first_fit :: "nat \<Rightarrow> kblock list \<Rightarrow> kblock list \<times> nat" where
  "first_fit z bs =
     (case first_index (\<lambda>b. snd b \<and> z \<le> fst b) bs of
        Some i \<Rightarrow> (bs[i := (fst (bs ! i), False)], i)
      | None \<Rightarrow> (bs @ [(z, False)], length bs))"

text \<open>The bytes block \<open>i\<close> offers its client.\<close>

definition payload :: "nat \<Rightarrow> kblock list \<Rightarrow> nat \<Rightarrow> nat set" where
  "payload H bs i = {block_addr H bs i + 24 ..< block_addr H bs i + 24 + fst (bs ! i)}"

lemma block_addr_Suc: "i < length bs \<Longrightarrow> block_addr H bs (Suc i) = block_addr H bs i + 24 + fst (bs ! i)"
  by (simp add: block_addr_def take_Suc_conv_app_nth)

lemma block_addr_0 [simp]: "block_addr H bs 0 = H"
  by (simp add: block_addr_def)

lemma block_addr_mono: "i \<le> j \<Longrightarrow> j \<le> length bs \<Longrightarrow> block_addr H bs i \<le> block_addr H bs j"
proof (induction j)
  case (Suc j)
  then show ?case using block_addr_Suc [of j bs H] by (cases "i = Suc j") auto
qed simp

lemma block_addr_next:
  "i < j \<Longrightarrow> j \<le> length bs \<Longrightarrow> block_addr H bs i + 24 + fst (bs ! i) \<le> block_addr H bs j"
  using block_addr_mono [of "Suc i" j bs H] block_addr_Suc [of i bs H] by simp

lemma block_addr_update:
  "fst b = fst (bs ! i) \<Longrightarrow> block_addr H (bs[i := b]) j = block_addr H bs j"
proof -
  assume "fst b = fst (bs ! i)"
  then have "map (\<lambda>b. 24 + fst b) (bs[i := b]) = map (\<lambda>b. 24 + fst b) bs"
    by (cases "i < length bs") (simp_all add: map_update list_update_same_conv list_update_beyond)
  then show ?thesis by (simp add: block_addr_def take_map [symmetric])
qed

lemma block_addr_append: "i \<le> length bs \<Longrightarrow> block_addr H (bs @ cs) i = block_addr H bs i"
  by (simp add: block_addr_def)

lemma payloads_disjoint:
  assumes "i < length bs" "j < length bs" "i \<noteq> j"
  shows "payload H bs i \<inter> payload H bs j = {}"
proof (cases "i < j")
  case True
  then show ?thesis using block_addr_next [of i j bs H] assms by (auto simp: payload_def)
next
  case False
  then show ?thesis using block_addr_next [of j i bs H] assms by (auto simp: payload_def)
qed

section \<open>The search\<close>

lemma heap_block:
  assumes "heap_blocks m H bs" "i < length bs"
  shows "load m (of_nat (block_addr H bs i)) = (of_nat (fst (bs ! i)) :: u64)"
    and "(load m (of_nat (block_addr H bs i) + 8) \<noteq> (0 :: u32)) = snd (bs ! i)"
    and "load m (of_nat (block_addr H bs i) + 16) =
      (of_nat (if Suc i < length bs then block_addr H bs (Suc i) else 0) :: u64)"
  using assms unfolding heap_blocks_def header_at_def by blast+

text \<open>Blocks that do not fit are skipped; \<open>e\<close> is the \<^verbatim>\<open>next\<close> field of the last one.\<close>

lemma search_skip:
  assumes "\<And>j. i \<le> j \<Longrightarrow> j < n \<Longrightarrow>
      load m (of_nat (a j)) = (of_nat (z j) :: u64) \<and> 0 < z j \<and> z j < 2 ^ 64 \<and>
      \<not> (load m (of_nat (a j) + 8) \<noteq> (0 :: u32) \<and> unat sz \<le> z j) \<and>
      (Suc j < n \<longrightarrow> load m (of_nat (a j) + 16) = (of_nat (a (Suc j)) :: u64) \<and> 0 < a (Suc j) \<and> a (Suc j) < 2 ^ 64)"
    and "i < n"
  shows "kalloc_search m sz (of_nat (a i)) =
    (let e = load m (of_nat (a (n - 1)) + 16) :: u64
     in if e = 0 then Some (Stopped (of_nat (a (n - 1)))) else kalloc_search m sz e)"
  using assms
proof (induction "n - i" arbitrary: i)
  case (Suc d)
  have z: "load m (of_nat (a i)) = (of_nat (z i) :: u64)" "(of_nat (z i) :: u64) \<noteq> 0"
      "\<not> (load m (of_nat (a i) + 8) \<noteq> (0 :: u32) \<and> sz \<le> of_nat (z i))"
    using Suc.prems(1) [of i] Suc.prems(2) by (auto simp: word_unat_eq_iff word_le_nat_alt unat_of_nat)
  show ?case
  proof (cases "Suc i < n")
    case True
    then have nxt: "load m (of_nat (a i) + 16) = (of_nat (a (Suc i)) :: u64)" "(of_nat (a (Suc i)) :: u64) \<noteq> 0"
      using Suc.prems(1) [of i] by (auto simp: word_unat_eq_iff unat_of_nat)
    have "kalloc_search m sz (of_nat (a (Suc i))) =
      (let e = load m (of_nat (a (n - 1)) + 16) :: u64
       in if e = 0 then Some (Stopped (of_nat (a (n - 1)))) else kalloc_search m sz e)"
      using Suc.hyps(2) Suc.prems True by (intro Suc.hyps(1)) auto
    then show ?thesis using z nxt by (subst kalloc_search.simps) auto
  next
    case False
    then have "i = n - 1" using Suc.prems(2) by simp
    then show ?thesis using z by (subst kalloc_search.simps) (auto simp: Let_def)
  qed
qed simp

lemma search_found:
  assumes "\<And>j. i \<le> j \<Longrightarrow> j < n \<Longrightarrow>
      load m (of_nat (a j)) = (of_nat (z j) :: u64) \<and> 0 < z j \<and> z j < 2 ^ 64 \<and>
      \<not> (load m (of_nat (a j) + 8) \<noteq> (0 :: u32) \<and> unat sz \<le> z j) \<and>
      load m (of_nat (a j) + 16) = (of_nat (a (Suc j)) :: u64) \<and> 0 < a (Suc j) \<and> a (Suc j) < 2 ^ 64"
    and "i \<le> n" and fit: "load m (of_nat (a n)) = (of_nat (z n) :: u64)" "0 < z n" "z n < 2 ^ 64"
      "load m (of_nat (a n) + 8) \<noteq> (0 :: u32)" "unat sz \<le> z n"
  shows "kalloc_search m sz (of_nat (a i)) = Some (Found (of_nat (a n)))"
proof -
  have last: "kalloc_search m sz (of_nat (a n)) = Some (Found (of_nat (a n)))"
    using fit by (subst kalloc_search.simps) (simp add: word_unat_eq_iff word_le_nat_alt unat_of_nat)
  show ?thesis
  proof (cases "i = n")
    case False
    then have "i < n" using assms(2) by simp
    then have "kalloc_search m sz (of_nat (a i)) =
      (let e = load m (of_nat (a (n - 1)) + 16) :: u64
       in if e = 0 then Some (Stopped (of_nat (a (n - 1)))) else kalloc_search m sz e)"
      using assms(1) by (intro search_skip [where z = z]) blast+
    moreover have "load m (of_nat (a (n - 1)) + 16) = (of_nat (a n) :: u64)" "(of_nat (a n) :: u64) \<noteq> 0"
      using assms(1) [of "n - 1"] \<open>i < n\<close> by (auto simp: word_unat_eq_iff unat_of_nat)
    ultimately show ?thesis using last by simp
  qed (simp add: last)
qed

lemma heap_search:
  assumes hb: "heap_blocks m H bs" and H: "0 < H" "block_addr H bs (length bs) + 24 \<le> 2 ^ 64"
    and pos: "\<forall>b \<in> set bs. 0 < fst b" and ne: "bs \<noteq> []"
  shows "kalloc_search m sz (of_nat H) =
    (case first_index (\<lambda>b. snd b \<and> unat sz \<le> fst b) bs of
       Some i \<Rightarrow> Some (Found (of_nat (block_addr H bs i)))
     | None \<Rightarrow> Some (Stopped (of_nat (block_addr H bs (length bs - 1)))))"
proof -
  let ?P = "\<lambda>b. snd b \<and> unat sz \<le> fst b"
  have size: "fst (bs ! j) < 2 ^ 64" "0 < fst (bs ! j)" if "j < length bs" for j
    using block_addr_next [of j "length bs" bs H] that H(2) pos by auto
  have addr: "0 < block_addr H bs j" "block_addr H bs j < 2 ^ 64" if "j \<le> length bs" for j
    using block_addr_mono [of 0 j bs H] block_addr_mono [of j "length bs" bs H] that H by auto
  show ?thesis
  proof (cases "first_index ?P bs")
    case None
    then have "\<not> ?P (bs ! j)" if "j < length bs" for j using that by (simp add: first_index_None)
    then have "kalloc_search m sz (of_nat (block_addr H bs 0)) =
      (let e = load m (of_nat (block_addr H bs (length bs - 1)) + 16) :: u64
       in if e = 0 then Some (Stopped (of_nat (block_addr H bs (length bs - 1)))) else kalloc_search m sz e)"
      using heap_block [OF hb] size addr ne by (intro search_skip [where z = "\<lambda>j. fst (bs ! j)"]) auto
    then show ?thesis using None heap_block(3) [OF hb, of "length bs - 1"] ne by simp
  next
    case (Some i)
    then have i: "i < length bs" "?P (bs ! i)" "\<And>j. j < i \<Longrightarrow> \<not> ?P (bs ! j)" by (auto simp: first_index_Some)
    have "kalloc_search m sz (of_nat (block_addr H bs 0)) = Some (Found (of_nat (block_addr H bs i)))"
      using heap_block [OF hb] size addr i
      by (intro search_found [where z = "\<lambda>j. fst (bs ! j)" and a = "block_addr H bs" and i = 0]) auto
    then show ?thesis using Some by simp
  qed
qed

section \<open>Updating the list\<close>

lemma header_addr:
  assumes "a + 24 \<le> 2 ^ 64"
  shows "unat (of_nat a :: u64) = a" "unat (of_nat a + 8 :: u64) = a + 8" "unat (of_nat a + 16 :: u64) = a + 16"
proof -
  show a: "unat (of_nat a :: u64) = a" using assms by (simp add: unat_of_nat)
  show "unat (of_nat a + 8 :: u64) = a + 8" "unat (of_nat a + 16 :: u64) = a + 16"
    using unat_offset [of "of_nat a" 0 8] unat_offset [of "of_nat a" 0 16] assms a by simp_all
qed

lemma header_at_changes:
  assumes ch: "changes m m' A" and room: "a + 24 \<le> 2 ^ 64" and "{a ..< a + 24} \<inter> A = {}"
  shows "header_at m' a z f n = header_at m a z f n"
proof -
  note u = header_addr [OF room]
  have A: "x \<notin> A" if "a \<le> x" "x < a + 24" for x using that assms(3) by (simp add: disjoint_iff)
  have "load m' (of_nat a) = (load m (of_nat a) :: u64)" "load m' (of_nat a + 16) = (load m (of_nat a + 16) :: u64)"
    by (rule changes_load [OF ch]; use room A in \<open>auto simp: u disjoint_iff\<close>)+
  moreover have "load m' (of_nat a + 8) = (load m (of_nat a + 8) :: u32)"
    by (rule changes_load [OF ch]; use room A in \<open>auto simp: u disjoint_iff\<close>)
  ultimately show ?thesis by (simp add: header_at_def)
qed

lemma store_flag:
  assumes room: "a + 24 \<le> 2 ^ 64" and h: "header_at m a z f n"
  shows "changes m (store m (of_nat a + 8) (v :: u32)) {a + 8 ..< a + 8 + 4}"
    and "header_at (store m (of_nat a + 8) (v :: u32)) a z (v \<noteq> 0) n"
proof -
  note u = header_addr [OF room]
  show ch: "changes m (store m (of_nat a + 8) v) {a + 8 ..< a + 8 + 4}"
    using changes_store [where 'a = 32, of "of_nat a + 8" m v] room u(2) by simp
  have "load (store m (of_nat a + 8) v) (of_nat a) = (load m (of_nat a) :: u64)"
    "load (store m (of_nat a + 8) v) (of_nat a + 16) = (load m (of_nat a + 16) :: u64)"
    by (rule changes_load [OF ch]; use room in \<open>auto simp: u disjoint_iff\<close>)+
  then show "header_at (store m (of_nat a + 8) v) a z (v \<noteq> 0) n" using h by (simp add: header_at_def)
qed

lemma store_next:
  assumes room: "a + 24 \<le> 2 ^ 64" and h: "header_at m a z f n"
  shows "changes m (store m (of_nat a + 16) (of_nat v :: u64)) {a + 16 ..< a + 16 + 8}"
    and "header_at (store m (of_nat a + 16) (of_nat v :: u64)) a z f v"
proof -
  note u = header_addr [OF room]
  let ?m = "store m (of_nat a + 16) (of_nat v :: u64)"
  show ch: "changes m ?m {a + 16 ..< a + 16 + 8}"
    using changes_store [where 'a = 64, of "of_nat a + 16" m "of_nat v"] room u(3) by simp
  have "load ?m (of_nat a) = (load m (of_nat a) :: u64)"
    by (rule changes_load [OF ch]; use room in \<open>auto simp: u disjoint_iff\<close>)
  moreover have "load ?m (of_nat a + 8) = (load m (of_nat a + 8) :: u32)"
    by (rule changes_load [OF ch]; use room in \<open>auto simp: u disjoint_iff\<close>)
  ultimately show "header_at ?m a z f v" using h by (simp add: header_at_def)
qed

text \<open>The three stores that make a new header.\<close>

definition new_header :: "mem \<Rightarrow> u64 \<Rightarrow> u64 \<Rightarrow> mem" where
  "new_header m a sz = store (store (store m a sz) (a + 8) (0 :: u32)) (a + 16) (0 :: u64)"

lemma new_header:
  assumes room: "a + 24 \<le> 2 ^ 64"
  shows "changes m (new_header m (of_nat a) (of_nat z)) {a ..< a + 24}"
    and "header_at (new_header m (of_nat a) (of_nat z)) a z False 0"
proof -
  note u = header_addr [OF room]
  let ?m1 = "store m (of_nat a) (of_nat z :: u64)" and ?m2 = "store (store m (of_nat a) (of_nat z :: u64)) (of_nat a + 8) (0 :: u32)"
  let ?m3 = "store ?m2 (of_nat a + 16) (0 :: u64)"
  have c1: "changes m ?m1 {a ..< a + 8}" using changes_store [where 'a = 64, of "of_nat a"] room u(1) by simp
  have c2: "changes ?m1 ?m2 {a + 8 ..< a + 8 + 4}" using changes_store [where 'a = 32, of "of_nat a + 8"] room u(2) by simp
  have c3: "changes ?m2 ?m3 {a + 16 ..< a + 16 + 8}" using changes_store [where 'a = 64, of "of_nat a + 16"] room u(3) by simp
  show "changes m (new_header m (of_nat a) (of_nat z)) {a ..< a + 24}"
    using c1 c2 c3 by (auto simp: new_header_def changes_def)
  have "load ?m2 (of_nat a) = (load ?m1 (of_nat a) :: u64)"
    by (rule changes_load [OF c2]; use room in \<open>auto simp: u disjoint_iff\<close>)
  moreover have "load ?m3 (of_nat a) = (load ?m2 (of_nat a) :: u64)"
    by (rule changes_load [OF c3]; use room in \<open>auto simp: u disjoint_iff\<close>)
  moreover have "load ?m3 (of_nat a + 8) = (load ?m2 (of_nat a + 8) :: u32)"
    by (rule changes_load [OF c3]; use room in \<open>auto simp: u disjoint_iff\<close>)
  ultimately show "header_at (new_header m (of_nat a) (of_nat z)) a z False 0"
    by (simp add: header_at_def new_header_def)
qed

lemma heap_blocks_flag:
  assumes hb: "heap_blocks m H bs" and i: "i < length bs" and room: "block_addr H bs (length bs) + 24 \<le> 2 ^ 64"
  shows "heap_blocks (store m (of_nat (block_addr H bs i) + 8) (v :: u32)) H (bs[i := (fst (bs ! i), v \<noteq> 0)])"
    and "changes m (store m (of_nat (block_addr H bs i) + 8) v) {block_addr H bs i + 8 ..< block_addr H bs i + 8 + 4}"
proof -
  let ?a = "block_addr H bs"
  have r: "?a j + 24 \<le> 2 ^ 64" if "j < length bs" for j
    using block_addr_mono [of j "length bs" bs H] that room by simp
  have h: "header_at m (?a j) (fst (bs ! j)) (snd (bs ! j)) (if Suc j < length bs then ?a (Suc j) else 0)"
    if "j < length bs" for j using hb that by (simp add: heap_blocks_def)
  note flag = store_flag [OF r [OF i] h [OF i], of v]
  show "changes m (store m (of_nat (?a i) + 8) v) {?a i + 8 ..< ?a i + 8 + 4}" by (rule flag(1))
  have "header_at (store m (of_nat (?a i) + 8) v) (?a j) (fst (bs[i := (fst (bs ! i), v \<noteq> 0)] ! j))
      (snd (bs[i := (fst (bs ! i), v \<noteq> 0)] ! j)) (if Suc j < length bs then ?a (Suc j) else 0)"
    if j: "j < length bs" for j
  proof (cases "j = i")
    case True
    then show ?thesis using flag(2) by (simp only: nth_list_update_eq [OF i] fst_conv snd_conv)
  next
    case False
    have "{?a j ..< ?a j + 24} \<inter> {?a i + 8 ..< ?a i + 8 + 4} = {}"
      using block_addr_next [of i j bs H] block_addr_next [of j i bs H] i j False by (cases "i < j") auto
    then show ?thesis using header_at_changes [OF flag(1) r [OF j]] h [OF j] False by simp
  qed
  then show "heap_blocks (store m (of_nat (?a i) + 8) v) H (bs[i := (fst (bs ! i), v \<noteq> 0)])"
    unfolding heap_blocks_def by (simp only: length_list_update block_addr_update fst_conv) blast
qed

lemma heap_blocks_append:
  fixes z :: nat
  assumes hb: "heap_blocks m H bs" and ne: "bs \<noteq> []" and room: "block_addr H bs (length bs) + 24 \<le> 2 ^ 64"
  defines "m' \<equiv> store (new_header m (of_nat (block_addr H bs (length bs))) (of_nat z))
      (of_nat (block_addr H bs (length bs - 1)) + 16) (of_nat (block_addr H bs (length bs)) :: u64)"
  shows "heap_blocks m' H (bs @ [(z, False)])"
    and "i < length bs \<Longrightarrow> x \<in> payload H bs i \<Longrightarrow> m' (of_nat x) = m (of_nat x)"
proof -
  let ?a = "block_addr H bs" and ?n = "length bs" and ?m1 = "new_header m (of_nat (block_addr H bs (length bs))) (of_nat z)"
  have l: "?n - 1 < ?n" "Suc (?n - 1) = ?n" using ne by auto
  have r: "?a j + 24 \<le> 2 ^ 64" if "j \<le> ?n" for j using block_addr_mono [OF that] room by (meson add_le_mono1 le_trans order_refl)
  have h: "header_at m (?a j) (fst (bs ! j)) (snd (bs ! j)) (if Suc j < ?n then ?a (Suc j) else 0)"
    if "j < ?n" for j using hb that by (simp add: heap_blocks_def)
  note nh = new_header [OF room, of m z]
  have apart: "{?a j ..< ?a j + 24} \<inter> {?a k ..< ?a k + 24} = {}" if "j < k" "k \<le> ?n" for j k
    using block_addr_next [OF that, of H] by auto
  have h1: "header_at ?m1 (?a j) (fst (bs ! j)) (snd (bs ! j)) (if Suc j < ?n then ?a (Suc j) else 0)" if "j < ?n" for j
    using header_at_changes [OF nh(1) r [of j]] apart [OF that] h [OF that] that by simp
  have sn: "changes ?m1 m' {?a (?n - 1) + 16 ..< ?a (?n - 1) + 16 + 8}"
      "header_at m' (?a (?n - 1)) (fst (bs ! (?n - 1))) (snd (bs ! (?n - 1))) (?a ?n)"
    unfolding m'_def using store_next [OF r [OF less_imp_le [OF l(1)]] h1 [OF l(1)], of "?a ?n"] by blast+
  have hdr: "header_at m' (?a j) (fst (bs ! j)) (snd (bs ! j)) (?a (Suc j))" if j: "j < ?n" for j
  proof (cases "j = ?n - 1")
    case True
    then show ?thesis using sn(2) l(2) by simp
  next
    case False
    then have lt: "j < ?n - 1" "Suc j < ?n" using j by arith+
    then have "{?a j ..< ?a j + 24} \<inter> {?a (?n - 1) + 16 ..< ?a (?n - 1) + 16 + 8} = {}"
      using apart [of j "?n - 1"] by auto
    then show ?thesis using header_at_changes [OF sn(1) r [of j]] h1 [OF j] lt(2) j by simp
  qed
  have "{?a ?n ..< ?a ?n + 24} \<inter> {?a (?n - 1) + 16 ..< ?a (?n - 1) + 16 + 8} = {}"
    using apart [of "?n - 1" ?n] l(1) by auto
  then have new: "header_at m' (?a ?n) z False 0" using header_at_changes [OF sn(1) r [of ?n]] nh(2) by simp
  show "heap_blocks m' H (bs @ [(z, False)])"
    unfolding heap_blocks_def using hdr new by (auto simp: nth_append block_addr_append less_Suc_eq)
  show "m' (of_nat x) = m (of_nat x)" if i: "i < ?n" and x: "x \<in> payload H bs i"
  proof -
    have lt: "x < ?a ?n" using x block_addr_next [OF i order_refl, of H] by (simp add: payload_def)
    then have u: "unat (of_nat x :: u64) = x" using room by (simp add: unat_of_nat)
    have "x \<notin> {?a (?n - 1) + 16 ..< ?a (?n - 1) + 16 + 8}"
    proof (cases "i = ?n - 1")
      case False
      then have "i < ?n - 1" using i by arith
      then show ?thesis using x block_addr_next [of i "?n - 1" bs H] by (auto simp: payload_def)
    qed (use x in \<open>auto simp: payload_def\<close>)
    then show ?thesis using sn(1) nh(1) lt u by (simp add: changes_def)
  qed
qed

section \<open>The large path refines first fit\<close>

lemma round16_facts: "z \<le> round16 z" "round16 z mod 16 = 0" "round16 z < z + 16" "0 < z \<Longrightarrow> 0 < round16 z"
proof -
  have e: "round16 z + (z + 15) mod 16 = z + 15" unfolding round16_def by (rule div_mult_mod_eq)
  moreover have "(z + 15) mod 16 < 16" by simp
  ultimately show le: "z \<le> round16 z" "round16 z < z + 16" by linarith+
  then show "0 < z \<Longrightarrow> 0 < round16 z" by simp
qed (simp add: round16_def)

lemma round_up_16:
  fixes sz :: u64
  assumes "unat sz + 15 < 2 ^ 64"
  shows "(sz + 15) AND NOT 15 = of_nat (round16 (unat sz))"
proof -
  have "unat (sz + 15) = unat sz + 15" using assms unat_offset [of sz 0 15] by simp
  then have "of_nat (round16 (unat sz)) = (of_nat (unat (sz + 15) div 2 ^ 4 * 2 ^ 4) :: u64)"
    by (simp add: round16_def)
  also have "\<dots> = (sz + 15) AND NOT 15" unfolding mask_clear by (simp add: mask_eq_exp_minus_1)
  finally show ?thesis by simp
qed

lemma kalloc_large_empty:
  assumes ok: "heap_ok [] s" and z: "0 < z" "z mod 16 = 0" and room: "unat (heap_start s) + 24 + z + 24 \<le> 2 ^ 64"
  shows "\<exists>s'. kalloc_large (of_nat z) s = Some (s', heap_start s + 24) \<and> heap_ok [(z, False)] s' \<and>
    heap_start s' = heap_start s"
proof -
  let ?H = "unat (heap_start s)" and ?m = "slab_mem s"
  have H: "0 < ?H" "?H mod 8 = 0" "load ?m (heap_start s) = (0 :: u64)" using ok by (auto simp: heap_ok_def Let_def)
  have search: "kalloc_search ?m (of_nat z) (heap_start s) = Some (Stopped (heap_start s))"
    using H(3) by (subst kalloc_search.simps) simp
  have "kalloc_large (of_nat z) s = Some (set_mem (new_header ?m (of_nat ?H) (of_nat z)) s, heap_start s + 24)"
    using search H(3) by (simp add: kalloc_large_def kalloc_append_def new_header_def Let_def)
  moreover have "heap_ok [(z, False)] (set_mem (new_header ?m (of_nat ?H) (of_nat z)) s)"
    using H z room new_header(2) [of ?H ?m z]
    by (simp add: heap_ok_def set_mem_def heap_blocks_def block_addr_def)
  ultimately show ?thesis by (simp add: set_mem_def)
qed

lemma kalloc_append_last:
  assumes ok: "heap_ok bs s" and ne: "bs \<noteq> []"
  defines "cur \<equiv> block_addr (unat (heap_start s)) bs (length bs - 1)"
    and "new \<equiv> block_addr (unat (heap_start s)) bs (length bs)"
  shows "kalloc_append sz (of_nat cur) s =
    (set_mem (store (new_header (slab_mem s) (of_nat new) sz) (of_nat cur + 16) (of_nat new :: u64)) s, of_nat new + 24)"
proof -
  let ?H = "unat (heap_start s)"
  have H: "new + 24 \<le> 2 ^ 64" "heap_blocks (slab_mem s) ?H bs" "\<forall>b \<in> set bs. 0 < fst b"
    using ok ne by (auto simp: heap_ok_def Let_def new_def)
  have l: "length bs - 1 < length bs" "Suc (length bs - 1) = length bs" using ne by auto
  have new: "new = cur + 24 + fst (bs ! (length bs - 1))"
    using block_addr_Suc [OF l(1), of ?H] l(2) by (simp add: new_def cur_def)
  have pos: "0 < fst (bs ! (length bs - 1))" using H(3) l(1) by simp
  have "load (slab_mem s) (of_nat cur) = (of_nat (fst (bs ! (length bs - 1))) :: u64)"
    unfolding cur_def by (rule heap_block(1) [OF H(2) l(1)])
  moreover have "(of_nat (fst (bs ! (length bs - 1))) :: u64) \<noteq> 0"
    using pos H(1) new by (simp add: word_unat_eq_iff unat_of_nat)
  moreover have "(of_nat cur :: u64) + 24 + of_nat (fst (bs ! (length bs - 1))) = of_nat new" using new by simp
  moreover have "(of_nat cur :: u64) \<noteq> of_nat new"
    using arg_cong [of "of_nat cur :: u64" "of_nat new" unat] header_addr(1) [of cur] header_addr(1) [of new]
      H(1) new pos by linarith
  ultimately show ?thesis by (simp add: kalloc_append_def new_header_def Let_def)
qed

lemma kalloc_large_first_fit:
  assumes ok: "heap_ok bs s" and ne: "bs \<noteq> []" and z: "0 < z" "z mod 16 = 0"
    and room: "block_addr (unat (heap_start s)) bs (length bs) + 24 + z + 24 \<le> 2 ^ 64"
    and ff: "first_fit z bs = (bs', i)"
  shows "\<exists>s'. kalloc_large (of_nat z) s = Some (s', of_nat (block_addr (unat (heap_start s)) bs' i) + 24) \<and>
    heap_ok bs' s' \<and> heap_start s' = heap_start s \<and>
    (\<forall>j < length bs. \<forall>x \<in> payload (unat (heap_start s)) bs j. slab_mem s' (of_nat x) = slab_mem s (of_nat x))"
proof -
  let ?H = "unat (heap_start s)" and ?m = "slab_mem s"
  have H: "0 < ?H" "?H mod 8 = 0" "block_addr ?H bs (length bs) + 24 \<le> 2 ^ 64" "heap_blocks ?m ?H bs"
      "\<forall>b \<in> set bs. 0 < fst b \<and> fst b mod 16 = 0"
    using ok ne by (auto simp: heap_ok_def Let_def)
  have zu: "unat (of_nat z :: u64) = z" using room by (simp add: unat_of_nat)
  have search: "kalloc_search ?m (of_nat z) (heap_start s) =
    (case first_index (\<lambda>b. snd b \<and> z \<le> fst b) bs of
       Some i \<Rightarrow> Some (Found (of_nat (block_addr ?H bs i)))
     | None \<Rightarrow> Some (Stopped (of_nat (block_addr ?H bs (length bs - 1)))))"
    using heap_search [OF H(4,1,3) _ ne, of "of_nat z"] H(5) zu by simp
  show ?thesis
  proof (cases "first_index (\<lambda>b. snd b \<and> z \<le> fst b) bs")
    case (Some j)
    then have j: "j < length bs" "i = j" "bs' = bs[j := (fst (bs ! j), False)]"
      using ff first_index_bound by (auto simp: first_fit_def)
    let ?m' = "store ?m (of_nat (block_addr ?H bs j) + 8) (0 :: u32)"
    note flag = heap_blocks_flag [OF H(4) j(1) H(3), of 0]
    have keep: "?m' (of_nat x) = ?m (of_nat x)" if l: "l < length bs" and x: "x \<in> payload ?H bs l" for l x
    proof -
      have "x < 2 ^ 64" using x block_addr_next [OF l order_refl, of ?H] H(3) by (simp add: payload_def)
      then have "unat (of_nat x :: u64) = x" by (simp add: unat_of_nat)
      moreover have "x \<notin> {block_addr ?H bs j + 8 ..< block_addr ?H bs j + 8 + 4}"
        using x block_addr_next [of l j bs ?H] block_addr_next [of j l bs ?H] l j(1)
        by (cases l j rule: linorder_cases) (auto simp: payload_def)
      ultimately show ?thesis using flag(2) by (simp add: changes_def)
    qed
    have "heap_ok bs' (set_mem ?m' s)"
      using H flag(1) j ne set_update_subset_insert [of bs j "(fst (bs ! j), False)"]
      by (fastforce simp: heap_ok_def set_mem_def block_addr_update)
    then show ?thesis using search Some j keep
      by (auto simp: kalloc_large_def set_mem_def block_addr_update)
  next
    case None
    then have bs': "bs' = bs @ [(z, False)]" "i = length bs" using ff by (auto simp: first_fit_def)
    let ?cur = "block_addr ?H bs (length bs - 1)" and ?new = "block_addr ?H bs (length bs)"
    let ?m' = "store (new_header ?m (of_nat ?new) (of_nat z)) (of_nat ?cur + 16) (of_nat ?new :: u64)"
    have app: "kalloc_append (of_nat z) (of_nat ?cur) s = (set_mem ?m' s, of_nat ?new + 24)"
      by (rule kalloc_append_last [OF ok ne])
    note ap = heap_blocks_append [OF H(4) ne H(3), where z = z]
    have "block_addr ?H (bs @ [(z, False)]) (length (bs @ [(z, False)])) = ?new + 24 + z"
      using block_addr_Suc [of "length bs" "bs @ [(z, False)]" ?H] by (simp add: block_addr_append)
    then have "heap_ok bs' (set_mem ?m' s)"
      using H ap(1) bs'(1) z room by (simp add: heap_ok_def set_mem_def)
    moreover have "kalloc_large (of_nat z) s = Some (set_mem ?m' s, of_nat (block_addr ?H bs' i) + 24)"
      using search None app bs' by (simp add: kalloc_large_def block_addr_append)
    ultimately show ?thesis using ap(2) by (intro exI [of _ "set_mem ?m' s"]) (simp add: set_mem_def)
  qed
qed

lemma kalloc_to_large:
  assumes "heap_start s \<noteq> 0" and "1016 < unat sz" and "unat sz + 15 < 2 ^ 64"
  shows "kalloc k sz s = kalloc_large (of_nat (round16 (unat sz))) s"
proof -
  have "unat sz < 2 ^ 64 - 8" using assms(3) by simp
  then have "class_for sz = -1" using class_for_none assms(2) by blast
  then have "slab_alloc sz s = (s, 0)" by (simp add: slab_alloc_def)
  then show ?thesis using assms(1) round_up_16 [OF assms(3)] by (simp add: kalloc_def kalloc_init_def)
qed

lemma kalloc_first_fit:
  assumes ok: "heap_ok bs s" and sz: "1016 < unat sz"
    and room: "block_addr (unat (heap_start s)) bs (length bs) + 48 + round16 (unat sz) \<le> 2 ^ 64"
    and ff: "first_fit (round16 (unat sz)) bs = (bs', i)"
  shows "\<exists>s'. kalloc k sz s = Some (s', of_nat (block_addr (unat (heap_start s)) bs' i) + 24) \<and>
    heap_ok bs' s' \<and> heap_start s' = heap_start s \<and>
    (\<forall>j < length bs. \<forall>x \<in> payload (unat (heap_start s)) bs j. slab_mem s' (of_nat x) = slab_mem s (of_nat x))"
proof -
  let ?z = "round16 (unat sz)"
  have z: "0 < ?z" "?z mod 16 = 0" "unat sz + 15 < 2 ^ 64"
    using round16_facts [of "unat sz"] sz room by simp_all
  have H: "heap_start s \<noteq> 0" using ok by (auto simp: heap_ok_def Let_def)
  note k = kalloc_to_large [OF H sz z(3), of k]
  show ?thesis
  proof (cases "bs = []")
    case True
    then have "bs' = [(?z, False)]" "i = 0" using ff by (auto simp: first_fit_def)
    then show ?thesis using kalloc_large_empty [of s ?z] ok True z room k by simp
  next
    case False
    then show ?thesis using kalloc_large_first_fit [OF ok False z(1,2) _ ff] room k by simp
  qed
qed

lemma first_fit_block:
  assumes "first_fit z bs = (bs', i)" and "\<forall>b \<in> set bs. 0 < fst b"
  shows "i < length bs'" "z \<le> fst (bs' ! i)" "\<not> snd (bs' ! i)" "i < length bs \<Longrightarrow> snd (bs ! i)"
    and "j < length bs \<Longrightarrow> j \<noteq> i \<Longrightarrow> bs' ! j = bs ! j" and "length bs \<le> length bs'"
  using assms by (auto simp: first_fit_def nth_append first_index_Some split: option.splits)

section \<open>Release\<close>

lemma dvd_sum_list: "(\<And>x. x \<in> set xs \<Longrightarrow> d dvd x) \<Longrightarrow> d dvd sum_list (xs :: nat list)"
  by (induction xs) simp_all

lemma aligned_not_magic: "8 dvd a \<Longrightarrow> (ucast (of_nat a :: u64) :: u32) \<noteq> SLAB_MAGIC"
proof
  assume "8 dvd a" and "(ucast (of_nat a :: u64) :: u32) = SLAB_MAGIC"
  obtain q where "a = 8 * q" using \<open>8 dvd a\<close> by (auto simp: dvd_def)
  then have "(of_nat a :: u64) = push_bit 3 (of_nat q)" by (simp add: push_bit_eq_mult)
  then have "\<not> bit (ucast (of_nat a :: u64) :: u32) 1" by (simp add: bit_simps)
  moreover have "bit (0x534C4142 :: u32) 1" by simp
  ultimately show False using \<open>(ucast (of_nat a :: u64) :: u32) = SLAB_MAGIC\<close> by (simp add: SLAB_MAGIC_def)
qed

lemma kfree_marks_free:
  assumes ok: "heap_ok bs s" and i: "i < length bs"
  shows "heap_ok (bs[i := (fst (bs ! i), True)]) (kfree (of_nat (block_addr (unat (heap_start s)) bs i) + 24) s)"
proof -
  let ?H = "unat (heap_start s)" and ?m = "slab_mem s"
  let ?a = "block_addr ?H bs i" and ?p = "of_nat (block_addr (unat (heap_start s)) bs i) + 24 :: u64"
  have H: "0 < ?H" "?H mod 8 = 0" "block_addr ?H bs (length bs) + 24 \<le> 2 ^ 64" "heap_blocks ?m ?H bs"
      "\<forall>b \<in> set bs. 0 < fst b \<and> fst b mod 16 = 0"
    using ok i by (auto simp: heap_ok_def Let_def split: if_splits)
  have al: "8 dvd block_addr ?H bs j" for j
  proof -
    have "8 dvd (24 + fst b)" if "b \<in> set bs" for b
    proof -
      have "16 dvd fst b" using H(5) that by (simp add: mod_eq_0_iff_dvd)
      then have "8 dvd fst b" using dvd_trans [of 8 16 "fst b"] by simp
      then show ?thesis by simp
    qed
    then have "8 dvd sum_list (map (\<lambda>b. 24 + fst b) (take j bs))"
      by (intro dvd_sum_list) (auto dest: in_set_takeD)
    moreover have "8 dvd ?H" using H(2) by (simp add: mod_eq_0_iff_dvd)
    ultimately show ?thesis by (simp add: block_addr_def)
  qed
  have "?a + 24 + fst (bs ! i) \<le> block_addr ?H bs (length bs)" using block_addr_next [OF i order_refl] .
  then have p: "unat ?p = ?a + 24" using header_addr(1) [of ?a] unat_offset [of "of_nat ?a" 0 24] H(3) by simp
  then have p0: "?p \<noteq> 0" by auto
  have p8: "?p - 8 = of_nat ?a + 16" by simp
  have "load ?m (?p - 8) = (ucast (load ?m (of_nat ?a + 16) :: u64) :: u32)" unfolding p8 by (rule load_low)
  then have "load ?m (?p - 8) \<noteq> SLAB_MAGIC"
    using heap_block(3) [OF H(4) i] aligned_not_magic [OF al [of "Suc i"]] aligned_not_magic [of 0] by simp
  then have "slab_free ?p s = (s, 0)" using p0 by (simp add: slab_free_def Let_def)
  then have "kfree ?p s = set_mem (store ?m (of_nat ?a + 8) (1 :: u32)) s"
    using p0 by (simp add: kfree_def kfree_large_def)
  moreover have "heap_blocks (store ?m (of_nat ?a + 8) (1 :: u32)) ?H (bs[i := (fst (bs ! i), True)])"
    using heap_blocks_flag(1) [OF H(4) i H(3), of 1] by simp
  moreover have "\<forall>b \<in> set (bs[i := (fst (bs ! i), True)]). 0 < fst b \<and> fst b mod 16 = 0"
    using H(5) i set_update_subset_insert [of bs i "(fst (bs ! i), True)"] by fastforce
  ultimately show ?thesis using H(1-3) i by (auto simp: heap_ok_def set_mem_def block_addr_update)
qed

section \<open>Boot state and corner cases\<close>

lemma kalloc_init_ok:
  assumes h0: "heap_start s = 0" and e: "0 < unat (kernel_end k)" "unat (kernel_end k) + 64 \<le> 2 ^ 64"
  shows "heap_ok [] (kalloc_init k s)" "unat (heap_start (kalloc_init k s)) = round16 (unat (kernel_end k))"
    and "slab_vm (kalloc_init k s) = (slab_vm s)\<lparr>vm_mem := slab_mem (kalloc_init k s)\<rparr>"
proof -
  let ?H = "round16 (unat (kernel_end k))" and ?s = "kalloc_init k s"
  note r = round16_facts [of "unat (kernel_end k)"]
  have H24: "?H + 24 \<le> 2 ^ 64" using r e by linarith
  have H: "(kernel_end k + 15) AND NOT 15 = of_nat ?H" using e by (intro round_up_16) simp
  note u = header_addr [OF H24]
  show hs: "unat (heap_start ?s) = ?H" using h0 H u(1) by (simp add: kalloc_init_def Let_def)
  let ?m1 = "store (slab_mem s) (of_nat ?H) (0 :: u64)"
  let ?m2 = "store ?m1 (of_nat ?H + 8) (1 :: u32)" and ?m3 = "store (store ?m1 (of_nat ?H + 8) (1 :: u32)) (of_nat ?H + 16) (0 :: u64)"
  have c2: "changes ?m1 ?m2 {?H + 8 ..< ?H + 8 + 4}" using changes_store [where 'a = 32, of "of_nat ?H + 8"] H24 u(2) by simp
  have c3: "changes ?m2 ?m3 {?H + 16 ..< ?H + 16 + 8}" using changes_store [where 'a = 64, of "of_nat ?H + 16"] H24 u(3) by simp
  have "load ?m2 (of_nat ?H) = (load ?m1 (of_nat ?H) :: u64)" by (rule changes_load [OF c2]; use H24 in \<open>auto simp: u disjoint_iff\<close>)
  moreover have "load ?m3 (of_nat ?H) = (load ?m2 (of_nat ?H) :: u64)" by (rule changes_load [OF c3]; use H24 in \<open>auto simp: u disjoint_iff\<close>)
  ultimately have "load (slab_mem ?s) (heap_start ?s) = (0 :: u64)"
    using h0 H by (simp add: kalloc_init_def Let_def set_mem_def)
  moreover have "?H mod 8 = 0" using r(2) mod_mod_cancel [of 8 16 ?H] by simp
  ultimately show "heap_ok [] ?s" using hs H24 r(4) [OF e(1)] by (simp add: heap_ok_def block_addr_def)
  show "slab_vm ?s = (slab_vm s)\<lparr>vm_mem := slab_mem ?s\<rparr>" by (simp add: kalloc_init_def Let_def set_mem_def)
qed

lemma kalloc_after_init: "kernel_end k + 15 AND NOT 15 \<noteq> 0 \<Longrightarrow> kalloc k sz (kalloc_init k s) = kalloc k sz s"
  by (simp add: kalloc_def kalloc_init_def Let_def)

lemma kalloc_large_bump:
  "kalloc_large sz s = Some (s', p) \<Longrightarrow> page_bump (slab_vm s') = page_bump (slab_vm s)"
  by (auto simp: kalloc_large_def kalloc_append_def Let_def set_mem_def split: option.splits search.splits)

text \<open>A request so large that rounding wraps to 0 appends an empty header, which ends every
  later search at \<^verbatim>\<open>heap_start\<close>.\<close>

lemma kalloc_wrap_size: "2 ^ 64 - 15 \<le> unat (sz :: u64) \<Longrightarrow> (sz + 15) AND NOT 15 = 0"
proof -
  assume a: "2 ^ 64 - 15 \<le> unat sz"
  have "unat (sz + 15) = (unat sz + 15) mod 2 ^ 64" by (simp add: unat_word_ariths)
  also have "\<dots> = (unat sz + 15 - 2 ^ 64) mod 2 ^ 64" using a by (intro le_mod_geq) simp
  also have "\<dots> = unat sz + 15 - 2 ^ 64" using unat_u64 [of sz] by (intro mod_less) simp
  finally have "unat (sz + 15) < 16" using unat_u64 [of sz] by simp
  then have "(of_nat (unat (sz + 15) div 2 ^ 4 * 2 ^ 4) :: u64) = 0" by simp
  then show ?thesis unfolding mask_clear by (simp add: mask_eq_exp_minus_1)
qed

lemma kalloc_wrap:
  assumes ok: "heap_ok bs s" and ne: "bs \<noteq> []" and used: "\<forall>b \<in> set bs. \<not> snd b"
  shows "\<exists>s1 p. kalloc_large 0 s = Some (s1, p) \<and> heap_start s1 = heap_start s \<and>
    (\<forall>z. snd (the (kalloc_large z s1)) = heap_start s + 24 \<and> kalloc_large z s1 \<noteq> None)"
proof -
  let ?H = "unat (heap_start s)" and ?m = "slab_mem s" and ?n = "length bs"
  let ?a = "block_addr ?H bs"
  let ?m' = "store (new_header ?m (of_nat (?a ?n)) (of_nat 0)) (of_nat (?a (?n - 1)) + 16) (of_nat (?a ?n) :: u64)"
  let ?s1 = "set_mem ?m' s"
  have H: "0 < ?H" "?a ?n + 24 \<le> 2 ^ 64" "heap_blocks ?m ?H bs" "\<forall>b \<in> set bs. 0 < fst b"
    using ok ne by (auto simp: heap_ok_def Let_def)
  have none: "first_index (\<lambda>b. snd b \<and> unat (0 :: u64) \<le> fst b) bs = None" using used by (auto simp: first_index_None)
  have "kalloc_search ?m 0 (heap_start s) = Some (Stopped (of_nat (?a (?n - 1))))"
    using heap_search [OF H(3,1,2,4) ne, of 0] unfolding none by simp
  then have 1: "kalloc_large 0 s = Some (?s1, of_nat (?a ?n) + 24)"
    using kalloc_append_last [OF ok ne, of 0] by (simp add: kalloc_large_def)
  have hb: "heap_blocks ?m' ?H (bs @ [(0, False)])" using heap_blocks_append(1) [OF H(3) ne H(2), where z = 0] by simp
  have hd: "load ?m' (of_nat (?a j)) = (of_nat (fst (bs ! j)) :: u64)" "load ?m' (of_nat (?a j) + 8) = (0 :: u32)"
      "load ?m' (of_nat (?a j) + 16) = (of_nat (?a (Suc j)) :: u64)" if "j < ?n" for j
    using heap_block [OF hb, of j] that used by (simp_all add: block_addr_append nth_append)
  have addr: "0 < ?a j" "?a j < 2 ^ 64" if "j \<le> ?n" for j
    using block_addr_mono [of 0 j bs ?H] block_addr_mono [of j ?n bs ?H] that H by auto
  have size: "0 < fst (bs ! j)" "fst (bs ! j) < 2 ^ 64" if "j < ?n" for j
    using block_addr_next [of j ?n bs ?H] that H(2,4) by auto
  have last: "load ?m' (of_nat (?a ?n)) = (0 :: u64)" using heap_block(1) [OF hb, of ?n] by (simp add: block_addr_append)
  have e: "load ?m' (of_nat (?a (?n - 1)) + 16) = (of_nat (?a ?n) :: u64)" "(of_nat (?a ?n) :: u64) \<noteq> 0"
    using hd(3) [of "?n - 1"] ne addr [of ?n] by (simp_all add: word_unat_eq_iff unat_of_nat)
  have "kalloc_search ?m' z (of_nat (?a 0)) =
      (let e = load ?m' (of_nat (?a (?n - 1)) + 16) :: u64
       in if e = 0 then Some (Stopped (of_nat (?a (?n - 1)))) else kalloc_search ?m' z e)" for z
    using hd addr size ne by (intro search_skip [where z = "\<lambda>j. fst (bs ! j)"]) auto
  moreover have "kalloc_search ?m' z (of_nat (?a ?n)) = Some (Stopped (of_nat (?a ?n)))" for z
    using last by (subst kalloc_search.simps) simp
  ultimately have "kalloc_search ?m' z (heap_start s) = Some (Stopped (of_nat (?a ?n)))" for z
    using e by (simp add: Let_def)
  then have "kalloc_large z ?s1 = Some (kalloc_append z (of_nat (?a ?n)) ?s1)" for z
    by (simp add: kalloc_large_def set_mem_def)
  moreover have "snd (kalloc_append z (of_nat (?a ?n)) ?s1) = heap_start s + 24" for z
    using last by (simp add: kalloc_append_def set_mem_def Let_def)
  ultimately show ?thesis using 1 by (intro exI [of _ ?s1] exI [of _ "of_nat (?a ?n) + 24"]) (simp add: set_mem_def)
qed

definition demo_heap :: kheap where
  "demo_heap = \<lparr>slab_vm = \<lparr>vm_mem = \<lambda>_. 0, page_bump = align_up (kernel_end demo_image) 4096, cr3 = 0\<rparr>,
     free_lists = replicate 6 0, heap_start = 0\<rparr>"

lemma demo_heap_init:
  shows "heap_ok [] (kalloc_init demo_image demo_heap)"
    and "unat (heap_start (kalloc_init demo_image demo_heap)) = 0x206130"
  using kalloc_init_ok(1,2) [of demo_heap demo_image]
  by (simp_all add: demo_heap_def demo_image_def round16_def)

section \<open>Properties\<close>

text \<open>C4. On a heap that represents the block list \<open>bs\<close>, a request too large for the slab
  is served as first fit on \<open>bs\<close> says: the block returned has room for the request, lies
  outside every other block, and no block's contents change.\<close>

theorem kalloc_refines_first_fit:
  assumes "heap_ok bs s" and "1016 < unat sz"
    and "block_addr (unat (heap_start s)) bs (length bs) + 48 + round16 (unat sz) \<le> 2 ^ 64"
    and "first_fit (round16 (unat sz)) bs = (bs', i)"
  shows "\<exists>s'. kalloc k sz s = Some (s', of_nat (block_addr (unat (heap_start s)) bs' i) + 24) \<and>
    heap_ok bs' s' \<and> unat sz \<le> fst (bs' ! i) \<and>
    (\<forall>j < length bs. j \<noteq> i \<longrightarrow>
       payload (unat (heap_start s)) bs' j \<inter> payload (unat (heap_start s)) bs' i = {} \<and> bs' ! j = bs ! j) \<and>
    (\<forall>j < length bs. \<forall>x \<in> payload (unat (heap_start s)) bs j. slab_mem s' (of_nat x) = slab_mem s (of_nat x))"
proof -
  obtain s' where s': "kalloc k sz s = Some (s', of_nat (block_addr (unat (heap_start s)) bs' i) + 24)" "heap_ok bs' s'"
    "\<forall>j < length bs. \<forall>x \<in> payload (unat (heap_start s)) bs j. slab_mem s' (of_nat x) = slab_mem s (of_nat x)"
    using kalloc_first_fit [OF assms] by blast
  have "\<forall>b \<in> set bs. 0 < fst b" using assms(1) by (auto simp: heap_ok_def Let_def)
  note ff = first_fit_block [OF assms(4) this]
  have "unat sz \<le> fst (bs' ! i)" using ff(2) round16_facts(1) [of "unat sz"] by simp
  moreover have "payload (unat (heap_start s)) bs' j \<inter> payload (unat (heap_start s)) bs' i = {}"
    if "j < length bs" "j \<noteq> i" for j using that ff(1,6) by (intro payloads_disjoint) auto
  ultimately show ?thesis using s' ff(5) by blast
qed

theorem kalloc_refines_first_fit_witness:
  "\<exists>s'. kalloc demo_image 2000 (kalloc_init demo_image demo_heap) = Some (s', 0x206148) \<and> heap_ok [(2000, False)] s'"
  using kalloc_refines_first_fit [OF demo_heap_init(1), of 2000 "[(2000, False)]" 0 demo_image] demo_heap_init(2)
  by (auto simp: round16_def first_fit_def)

text \<open>Releasing a large block is never mistaken for a slab release, makes exactly that block
  free again, and the next request it is the first to satisfy returns the same address.\<close>

theorem kfree_kalloc_reuse:
  assumes "heap_ok bs s" and "i < length bs" and "1016 < unat sz" and "round16 (unat sz) \<le> fst (bs ! i)"
    and "\<forall>j < i. \<not> (snd (bs ! j) \<and> round16 (unat sz) \<le> fst (bs ! j))"
    and "block_addr (unat (heap_start s)) bs (length bs) + 48 + round16 (unat sz) \<le> 2 ^ 64"
    and "p = of_nat (block_addr (unat (heap_start s)) bs i) + 24"
  shows "heap_ok (bs[i := (fst (bs ! i), True)]) (kfree p s) \<and>
    (\<exists>s'. kalloc k sz (kfree p s) = Some (s', p) \<and> heap_ok (bs[i := (fst (bs ! i), False)]) s')"
proof -
  let ?bs = "bs[i := (fst (bs ! i), True)]" and ?z = "round16 (unat sz)"
  have ok: "heap_ok ?bs (kfree p s)" using kfree_marks_free [OF assms(1,2)] assms(7) by simp
  have hs: "heap_start (kfree p s) = heap_start s"
    by (auto simp: kfree_def slab_free_def kfree_large_def set_mem_def Let_def split: prod.split)
  have "first_index (\<lambda>b. snd b \<and> ?z \<le> fst b) ?bs = Some i"
    using assms(2,4,5) by (auto simp: first_index_Some)
  then have ff: "first_fit ?z ?bs = (bs[i := (fst (bs ! i), False)], i)" using assms(2) by (simp add: first_fit_def)
  have "\<exists>s'. kalloc k sz (kfree p s) = Some (s', p) \<and> heap_ok (bs[i := (fst (bs ! i), False)]) s'"
    using kalloc_first_fit [OF ok assms(3) _ ff, of k] assms(6)
    unfolding hs assms(7) [symmetric] by (auto simp: block_addr_update assms(7) [symmetric])
  with ok show ?thesis by blast
qed

theorem kfree_kalloc_reuse_witness:
  "\<exists>s1 s2. kalloc demo_image 2000 (kalloc_init demo_image demo_heap) = Some (s1, 0x206148) \<and>
    kalloc demo_image 1500 (kfree 0x206148 s1) = Some (s2, 0x206148)"
proof -
  obtain s1 where s1: "kalloc demo_image 2000 (kalloc_init demo_image demo_heap) = Some (s1, 0x206148)"
      "heap_ok [(2000, False)] s1" "unat (heap_start s1) = 0x206130"
    using kalloc_first_fit [OF demo_heap_init(1), of 2000 "[(2000, False)]" 0 demo_image] demo_heap_init(2)
    by (auto simp: round16_def first_fit_def)
  then show ?thesis
    using kfree_kalloc_reuse [OF s1(2), of 0 1500 "0x206148" demo_image] by (auto simp: round16_def block_addr_def)
qed



text \<open>A request within 15 bytes of \<^verbatim>\<open>SIZE_MAX\<close> rounds to 0 and is accepted; from then on
  every request too large for the slab is given the first block of the heap, which is still in
  use.\<close>

theorem kalloc_wrap_aliases:
  assumes "heap_ok bs s" and "bs \<noteq> []" and "\<forall>b \<in> set bs. \<not> snd b" and "2 ^ 64 - 15 \<le> unat sz"
    and "1016 < unat sz'" and "unat sz' + 15 < 2 ^ 64"
  shows "\<exists>s1 p s2. kalloc k sz s = Some (s1, p) \<and> kalloc k sz' s1 = Some (s2, heap_start s + 24)"
proof -
  have hs: "heap_start s \<noteq> 0" using assms(1) by (auto simp: heap_ok_def Let_def)
  have "\<not> sz \<le> 1024" using assms(4) by (simp add: word_le_nat_alt)
  then have k: "kalloc k sz s = kalloc_large 0 s"
    using hs kalloc_wrap_size [OF assms(4)] by (simp add: kalloc_def kalloc_init_def)
  obtain s1 p where s1: "kalloc_large 0 s = Some (s1, p)" "heap_start s1 = heap_start s"
      "\<forall>z. snd (the (kalloc_large z s1)) = heap_start s + 24 \<and> kalloc_large z s1 \<noteq> None"
    using kalloc_wrap [OF assms(1-3)] by blast
  have "kalloc k sz' s1 = kalloc_large (of_nat (round16 (unat sz'))) s1"
    using kalloc_to_large [OF _ assms(5,6), of s1 k] hs s1(2) by simp
  then show ?thesis using k s1 by (metis option.exhaust_sel prod.collapse)
qed

theorem kalloc_wrap_aliases_witness:
  "\<exists>s1 s2 q s3. kalloc demo_image 2000 (kalloc_init demo_image demo_heap) = Some (s1, 0x206148) \<and>
    kalloc demo_image (-1) s1 = Some (s2, q) \<and> kalloc demo_image 2000 s2 = Some (s3, 0x206148)"
proof -
  obtain s1 where s1: "kalloc demo_image 2000 (kalloc_init demo_image demo_heap) = Some (s1, 0x206148)"
      "heap_ok [(2000, False)] s1" "heap_start s1 = heap_start (kalloc_init demo_image demo_heap)"
    using kalloc_first_fit [OF demo_heap_init(1), of 2000 "[(2000, False)]" 0 demo_image] demo_heap_init(2)
    by (auto simp: round16_def first_fit_def)
  have "heap_start s1 + 24 = 0x206148"
    using demo_heap_init(2) s1(3) unat_offset [of "heap_start s1" 0 24] by (simp add: word_unat_eq_iff)
  moreover have "2 ^ 64 - 15 \<le> unat (-1 :: u64)" by (simp add: unsigned_minus_1_eq_mask mask_eq_exp_minus_1)
  ultimately show ?thesis
    using kalloc_wrap_aliases [OF s1(2), of "-1" 2000 demo_image] s1(1) by (auto simp: round16_def)
qed

end
