(* ===== verification/Block.thy ===== *)
theory Block
  imports Prelude
begin

text \<open>
  \<^verbatim>\<open>src/src/drivers/block/block.c\<close> and \<^verbatim>\<open>src/src/fs/partition.c\<close>: the block device
  with its function pointers, the checked sector transfers, and the scan of a master boot record.

  The driver behind a device is whatever its \<^verbatim>\<open>read\<close> and \<^verbatim>\<open>write\<close> pointers are; the
  model keeps them as fields, acting on the driver's own state \<^verbatim>\<open>driver_data\<close>.  What a
  working driver promises is \<open>disk_laws\<close>: \<open>sect d l\<close> is the content of sector
  \<open>l\<close>.  The lock around a transfer has no effect on one thread.
\<close>

record 'd BlockDevice =
  dev_name :: bytes
  sector_count :: u64
  sector_size :: u32
  driver_data :: 'd
  read_fn :: "('d \<Rightarrow> u64 \<Rightarrow> u32 \<Rightarrow> bytes option) option"
  write_fn :: "('d \<Rightarrow> u64 \<Rightarrow> u32 \<Rightarrow> bytes \<Rightarrow> 'd \<times> int) option"

definition BLOCK_SECTOR_SIZE :: nat where "BLOCK_SECTOR_SIZE = 512"

text \<open>A null device is None.  A read gives the bytes, None for the error return; a write gives
  the device after it and the return value.\<close>

definition block_read :: "'d BlockDevice option \<Rightarrow> u64 \<Rightarrow> u32 \<Rightarrow> bytes option" where
  "block_read dev lba count =
     (case dev of
        None \<Rightarrow> None
      | Some d \<Rightarrow>
          (case read_fn d of
             None \<Rightarrow> None
           | Some rd \<Rightarrow>
               if count = 0 then None
               else if sector_size d \<noteq> of_nat BLOCK_SECTOR_SIZE then None
               else rd (driver_data d) lba count))"

definition block_write :: "'d BlockDevice option \<Rightarrow> u64 \<Rightarrow> u32 \<Rightarrow> bytes \<Rightarrow> 'd BlockDevice option \<times> int" where
  "block_write dev lba count buffer =
     (case dev of
        None \<Rightarrow> (None, -1)
      | Some d \<Rightarrow>
          (case write_fn d of
             None \<Rightarrow> (dev, -1)
           | Some wr \<Rightarrow>
               if count = 0 then (dev, -1)
               else if sector_size d \<noteq> of_nat BLOCK_SECTOR_SIZE then (dev, -1)
               else let (data, r) = wr (driver_data d) lba count buffer in (Some (d\<lparr>driver_data := data\<rparr>), r)))"

section \<open>Working drivers\<close>

definition sectors :: "('d \<Rightarrow> u64 \<Rightarrow> bytes) \<Rightarrow> 'd \<Rightarrow> u64 \<Rightarrow> nat \<Rightarrow> bytes" where
  "sectors sect d lba n = concat (map (\<lambda>i. sect d (lba + of_nat i)) [0..<n])"

definition disk_laws :: "('d \<Rightarrow> u64 \<Rightarrow> bytes) \<Rightarrow> 'd BlockDevice \<Rightarrow> bool" where
  "disk_laws sect dev \<longleftrightarrow>
     sector_size dev = 512 \<and> (\<forall>d l. length (sect d l) = 512) \<and>
     (\<exists>rd wr. read_fn dev = Some rd \<and> write_fn dev = Some wr \<and>
        (\<forall>d lba n. n \<noteq> 0 \<longrightarrow> rd d lba n = Some (sectors sect d lba (unat n))) \<and>
        (\<forall>d lba n buf. n \<noteq> 0 \<longrightarrow> length buf = 512 * unat n \<longrightarrow>
           (\<exists>d'. wr d lba n buf = (d', 0) \<and>
              (\<forall>l. sect d' l = (if unat (l - lba) < unat n then take 512 (drop (512 * unat (l - lba)) buf)
                 else sect d l)))))"

lemma length_sectors: "disk_laws sect dev \<Longrightarrow> length (sectors sect d lba n) = 512 * n"
  by (induction n) (simp_all add: sectors_def disk_laws_def)

lemma block_read_ok:
  "disk_laws sect dev \<Longrightarrow> n \<noteq> 0 \<Longrightarrow>
     block_read (Some dev) lba n = Some (sectors sect (driver_data dev) lba (unat n))"
  by (auto simp: disk_laws_def block_read_def BLOCK_SECTOR_SIZE_def)

lemma block_write_ok:
  assumes "disk_laws sect dev" "n \<noteq> 0" "length buf = 512 * unat n"
  shows "\<exists>dev'. block_write (Some dev) lba n buf = (Some dev', 0) \<and> disk_laws sect dev' \<and>
    (\<forall>l. sect (driver_data dev') l =
       (if unat (l - lba) < unat n then take 512 (drop (512 * unat (l - lba)) buf) else sect (driver_data dev) l))"
proof -
  obtain rd wr where w: "sector_size dev = 512" "\<forall>d l. length (sect d l) = 512"
      "read_fn dev = Some rd" "write_fn dev = Some wr"
      "\<forall>d lba n. n \<noteq> 0 \<longrightarrow> rd d lba n = Some (sectors sect d lba (unat n))"
      "\<forall>d lba n buf. n \<noteq> 0 \<longrightarrow> length buf = 512 * unat n \<longrightarrow>
         (\<exists>d'. wr d lba n buf = (d', 0) \<and>
            (\<forall>l. sect d' l = (if unat (l - lba) < unat n then take 512 (drop (512 * unat (l - lba)) buf) else sect d l)))"
    using assms(1) unfolding disk_laws_def by blast
  then obtain d' where "wr (driver_data dev) lba n buf = (d', 0)"
      "\<forall>l. sect d' l = (if unat (l - lba) < unat n then take 512 (drop (512 * unat (l - lba)) buf)
         else sect (driver_data dev) l)"
    using assms(2,3) by blast
  then show ?thesis using w assms(2) unfolding block_write_def disk_laws_def BLOCK_SECTOR_SIZE_def
    by (intro exI [of _ "dev\<lparr>driver_data := d'\<rparr>"]) simp
qed

text \<open>Reading back the sectors just written, and the sectors a write does not touch.\<close>

lemma sectors_written:
  assumes len: "length buf = 512 * n" "n < 2 ^ 64"
    and w: "\<forall>l. sect d' l = (if unat (l - lba) < n then take 512 (drop (512 * unat (l - lba)) buf) else sect d l)"
  shows "sectors sect d' lba n = buf"
proof -
  have "sect d' (lba + of_nat i) = take 512 (drop (512 * i) buf)" if "i < n" for i
    using that w len(2) by (simp add: unat_of_nat)
  then have "sectors sect d' lba k = take (512 * k) buf" if "k \<le> n" for k
    using that
  proof (induction k)
    case (Suc k)
    then show ?case by (simp add: sectors_def take_add add.commute [of 512])
  qed (simp add: sectors_def)
  then show ?thesis using len(1) by simp
qed

lemma sectors_untouched:
  assumes w: "\<forall>l. sect d' l = (if unat (l - lba) < n then take 512 (drop (512 * unat (l - lba)) buf) else sect d l)"
    and "\<And>i. i < k \<Longrightarrow> n \<le> unat (lba' + of_nat i - lba)"
  shows "sectors sect d' lba' k = sectors sect d lba' k"
  unfolding sectors_def using assms by (intro arg_cong [of _ _ concat] map_cong) (simp_all add: leD)

text \<open>Two device states agree off a set of sectors.\<close>

definition agree_off :: "('d \<Rightarrow> u64 \<Rightarrow> bytes) \<Rightarrow> nat set \<Rightarrow> 'd \<Rightarrow> 'd \<Rightarrow> bool" where
  "agree_off sect A d d' \<longleftrightarrow> (\<forall>l. unat l \<notin> A \<longrightarrow> sect d' l = sect d l)"

lemma agree_off_refl [simp]: "agree_off sect A d d"
  by (simp add: agree_off_def)

lemma agree_off_trans:
  "agree_off sect A d d' \<Longrightarrow> agree_off sect B d' d'' \<Longrightarrow> A \<union> B \<subseteq> C \<Longrightarrow> agree_off sect C d d''"
  unfolding agree_off_def by (metis UnCI subsetD)

lemma agree_off_sectors:
  assumes "agree_off sect A d d'" and "{unat lba ..< unat lba + n} \<inter> A = {}" and "unat lba + n \<le> 2 ^ 64"
  shows "sectors sect d' lba n = sectors sect d lba n"
proof -
  have "sect d' (lba + of_nat i) = sect d (lba + of_nat i)" if "i < n" for i
  proof -
    have "unat (lba + of_nat i) = unat lba + i"
      using that assms(3) by (simp add: unat_word_ariths unat_of_nat)
    then show ?thesis using that assms(1,2) by (auto simp: agree_off_def disjoint_iff)
  qed
  then show ?thesis unfolding sectors_def by (intro arg_cong [of _ _ concat] map_cong) simp_all
qed

lemma block_write_effect:
  assumes laws: "disk_laws sect dev" and n: "n \<noteq> 0" "length buf = 512 * unat n" and room: "unat lba + unat n \<le> 2 ^ 64"
  shows "\<exists>dev'. block_write (Some dev) lba n buf = (Some dev', 0) \<and> disk_laws sect dev' \<and>
    agree_off sect {unat lba ..< unat lba + unat n} (driver_data dev) (driver_data dev') \<and>
    sectors sect (driver_data dev') lba (unat n) = buf"
proof -
  obtain dev' where dev': "block_write (Some dev) lba n buf = (Some dev', 0)" "disk_laws sect dev'"
      "\<forall>l. sect (driver_data dev') l =
        (if unat (l - lba) < unat n then take 512 (drop (512 * unat (l - lba)) buf) else sect (driver_data dev) l)"
    using block_write_ok [OF laws n] by blast
  have "unat l \<in> {unat lba ..< unat lba + unat n}" if "unat (l - lba) < unat n" for l
    using that room by (rule unat_between)
  then have "agree_off sect {unat lba ..< unat lba + unat n} (driver_data dev) (driver_data dev')"
    using dev'(3) unfolding agree_off_def by metis
  moreover have "unat n < 2 ^ 64" using unat_u32 [of n] by simp
  ultimately show ?thesis using dev' sectors_written [where sect = sect and n = "unat n", OF n(2) _ dev'(3)] by blast
qed

text \<open>A disk held in memory obeys the laws.\<close>

definition ram_sect :: "(u64 \<Rightarrow> bytes) \<Rightarrow> u64 \<Rightarrow> bytes" where
  "ram_sect d l = take 512 (d l @ replicate 512 0)"

definition ram_disk :: "(u64 \<Rightarrow> bytes) \<Rightarrow> (u64 \<Rightarrow> bytes) BlockDevice" where
  "ram_disk d = \<lparr>dev_name = [], sector_count = 0, sector_size = 512, driver_data = d,
     read_fn = Some (\<lambda>d lba n. Some (sectors ram_sect d lba (unat n))),
     write_fn = Some (\<lambda>d lba n buf.
       (\<lambda>l. if unat (l - lba) < unat n then take 512 (drop (512 * unat (l - lba)) buf) else d l, 0))\<rparr>"

lemma ram_disk_laws: "disk_laws ram_sect (ram_disk d)"
proof -
  have "ram_sect (\<lambda>l. if unat (l - lba) < unat n then take 512 (drop (512 * unat (l - lba)) buf) else d l) l =
      (if unat (l - lba) < unat n then take 512 (drop (512 * unat (l - lba)) buf) else ram_sect d l)"
    if "length buf = 512 * unat n" for d lba l and n :: u32 and buf
  proof (cases "unat (l - lba) < unat n")
    case True
    then have "512 * unat (l - lba) + 512 \<le> length buf" using that by simp
    then show ?thesis using True by (simp add: ram_sect_def)
  qed (simp add: ram_sect_def)
  moreover have "length (ram_sect d l) = 512" for d l by (simp add: ram_sect_def)
  ultimately show ?thesis by (simp add: disk_laws_def ram_disk_def)
qed

end
