(* ===== verification/Partition.thy ===== *)
theory Partition
  imports Block
begin

text \<open>
  \<^verbatim>\<open>src/src/fs/partition.c\<close>: the four entries of a master boot record.  The
  \<^verbatim>\<open>disk\<close> pointer a \<^verbatim>\<open>Partition\<close> carries is the device every operation on it is given
  as an argument, so the record has the other three fields.
\<close>

record Partition =
  part_type :: u8
  first_lba :: u64
  part_sectors :: u64

definition PARTITION_MAX :: nat where "PARTITION_MAX = 4"

definition partition_is_fat32 :: "Partition \<Rightarrow> bool" where
  "partition_is_fat32 p \<longleftrightarrow> part_type p = 0x0B \<or> part_type p = 0x0C \<or> part_type p = 0x1B \<or> part_type p = 0x1C"

definition partition_is_fat :: "Partition \<Rightarrow> bool" where
  "partition_is_fat p \<longleftrightarrow> partition_is_fat32 p \<or>
     part_type p = 0x01 \<or> part_type p = 0x04 \<or> part_type p = 0x06 \<or> part_type p = 0x0E \<or>
     part_type p = 0x11 \<or> part_type p = 0x14 \<or> part_type p = 0x16 \<or> part_type p = 0x1E"

text \<open>One entry of the table, None when it is skipped.\<close>

definition mbr_entry :: "bytes \<Rightarrow> nat \<Rightarrow> Partition option" where
  "mbr_entry sector i =
     (let entry = 446 + i * 16; type = sector ! (entry + 4);
          lba = le32 sector (entry + 8); sects = le32 sector (entry + 12)
      in if type = 0 \<or> sects = 0 then None
         else Some \<lparr>part_type = type, first_lba = ucast lba, part_sectors = ucast sects\<rparr>)"

fun mbr_loop :: "bytes \<Rightarrow> nat \<Rightarrow> nat list \<Rightarrow> Partition list \<Rightarrow> Partition list" where
  "mbr_loop sector max_p [] out = out"
| "mbr_loop sector max_p (i # is) out =
     (if length out < max_p
      then (case mbr_entry sector i of None \<Rightarrow> mbr_loop sector max_p is out
            | Some p \<Rightarrow> mbr_loop sector max_p is (out @ [p]))
      else out)"

definition partition_scan_mbr :: "'d BlockDevice option \<Rightarrow> u32 \<Rightarrow> int \<times> Partition list" where
  "partition_scan_mbr disk max_p =
     (if Option.is_none disk \<or> max_p = 0 then (-1, [])
      else case block_read disk 0 1 of
        None \<Rightarrow> (-1, [])
      | Some sector \<Rightarrow>
          if sector ! 510 \<noteq> 0x55 \<or> sector ! 511 \<noteq> 0xAA then (0, [])
          else let out = mbr_loop sector (unat max_p) [0..<PARTITION_MAX] [] in (int (length out), out))"

lemma mbr_loop_spec:
  "length out \<le> max_p \<Longrightarrow>
     mbr_loop sector max_p is out = take max_p (out @ List.map_filter (mbr_entry sector) is)"
  by (induction "is" arbitrary: out) (auto simp: map_filter_simps take_Cons' split: option.splits)

section \<open>Properties\<close>

text \<open>On a disk with a boot signature the scan returns, in table order, the entries with a
  type and a size, cut to the space the caller gave, and their number.\<close>

theorem partition_scan_mbr_entries:
  assumes "block_read (Some disk) 0 1 = Some sector" and "sector ! 510 = 0x55" and "sector ! 511 = 0xAA" and "max_p \<noteq> 0"
  shows "partition_scan_mbr (Some disk) max_p =
    (let ps = take (unat max_p) (List.map_filter (mbr_entry sector) [0..<4]) in (int (length ps), ps))"
  using assms by (simp add: partition_scan_mbr_def mbr_loop_spec PARTITION_MAX_def Let_def)

text \<open>A boot record with a FAT32 partition in its second entry, on a disk that answers with it.\<close>

definition demo_mbr :: bytes where
  "demo_mbr = (replicate 512 0)[466 := 0x0C, 470 := 0x00, 471 := 0x08, 475 := 0x02, 510 := 0x55, 511 := 0xAA]"

definition demo_mbr_disk :: "unit BlockDevice" where
  "demo_mbr_disk = \<lparr>dev_name = [], sector_count = 8192, sector_size = 512, driver_data = (),
     read_fn = Some (\<lambda>_ _ _. Some demo_mbr), write_fn = None\<rparr>"

theorem partition_scan_mbr_entries_witness:
  "partition_scan_mbr (Some demo_mbr_disk) 4 =
    (1, [\<lparr>part_type = 0x0C, first_lba = 2048, part_sectors = 512\<rparr>])"
proof -
  have e: "mbr_entry demo_mbr 0 = None" "mbr_entry demo_mbr 2 = None" "mbr_entry demo_mbr 3 = None"
      "mbr_entry demo_mbr (Suc 0) = Some \<lparr>part_type = 0x0C, first_lba = 2048, part_sectors = 512\<rparr>"
    by (simp_all add: mbr_entry_def demo_mbr_def le32_def Let_def nth_list_update)
  have "[0..<4] = [0, 1, 2, 3 :: nat]" by (simp add: upt_rec)
  moreover have "block_read (Some demo_mbr_disk) 0 1 = Some demo_mbr"
    by (simp add: block_read_def demo_mbr_disk_def BLOCK_SECTOR_SIZE_def)
  moreover have "demo_mbr ! 510 = 0x55" "demo_mbr ! 511 = 0xAA" by (simp_all add: demo_mbr_def nth_list_update)
  ultimately show ?thesis
    using partition_scan_mbr_entries [of demo_mbr_disk demo_mbr 4] by (simp add: map_filter_simps e Let_def)
qed

end
