(* ===== verification/Fat32.thy ===== *)
theory Fat32
  imports Partition
begin

text \<open>
  \<^verbatim>\<open>src/src/fs/fat32.c\<close>: mounting a FAT12/16/32 volume, following cluster chains,
  parsing directory entries with long names, resolving paths, and reading and overwriting
  files.  Every \<^verbatim>\<open>CONFIG_FS_FAT*\<close> switch is defined in \<^verbatim>\<open>src/src/config.h\<close>, so
  the guarded early returns are not compiled.

  A C array that holds a name is its string (\<open>cstr\<close>).  The 64-byte long-name buffer is
  kept as an array; the source leaves it uninitialised but for its first byte, and the bytes
  before the first zero are always bytes the parser wrote, so the model starts it at zero.

  A chain that loops through directories without an end marker makes the listing run forever:
  the listing is a partial function, None meaning it does not return.  The loops that copy file
  data always end, because each round copies at least one byte.
\<close>

definition FAT32_MAX_NAME :: nat where "FAT32_MAX_NAME = 64"
definition FAT32_ATTR_LONG_NAME :: u8 where "FAT32_ATTR_LONG_NAME = 0x0F"
definition FAT32_ATTR_DIRECTORY :: u8 where "FAT32_ATTR_DIRECTORY = 0x10"
definition FAT12_EOC :: u16 where "FAT12_EOC = 0x0FF8"
definition FAT16_EOC :: u16 where "FAT16_EOC = 0xFFF8"
definition FAT32_EOC :: u32 where "FAT32_EOC = 0x0FFFFFF8"

definition PEANUT_FAT12 :: u8 where "PEANUT_FAT12 = 12"
definition PEANUT_FAT16 :: u8 where "PEANUT_FAT16 = 16"
definition PEANUT_FAT32 :: u8 where "PEANUT_FAT32 = 32"

lemmas fat_consts = FAT32_ATTR_LONG_NAME_def FAT32_ATTR_DIRECTORY_def FAT12_EOC_def FAT16_EOC_def FAT32_EOC_def
  PEANUT_FAT12_def PEANUT_FAT16_def PEANUT_FAT32_def

record Fat32Volume =
  fat_part :: Partition
  fat_type :: u8
  fat_start_lba :: u32
  data_start_lba :: u32
  root_dir_lba :: u32
  root_dir_sectors :: u32
  root_cluster :: u32
  sectors_per_fat :: u32
  sectors_per_cluster :: u8
  root_entry_count :: u16

record Fat32DirEntry =
  entry_name :: bytes
  attributes :: u8
  first_cluster :: u32
  entry_size :: u32

section \<open>Names\<close>

definition upper_ascii :: "u8 \<Rightarrow> u8" where
  "upper_ascii c = (if 0x61 \<le> c \<and> c \<le> 0x7A then c - 32 else c)"

fun streq_ci :: "bytes \<Rightarrow> bytes \<Rightarrow> bool" where
  "streq_ci (a # as) (b # bs) \<longleftrightarrow> upper_ascii a = upper_ascii b \<and> streq_ci as bs"
| "streq_ci [] [] \<longleftrightarrow> True"
| "streq_ci _ _ \<longleftrightarrow> False"

definition copy_name :: "bytes \<Rightarrow> nat \<Rightarrow> bytes" where
  "copy_name src cap = take (cap - 1) src"

definition make_short_name :: "bytes \<Rightarrow> bytes" where
  "make_short_name raw =
     cstr (takeWhile (\<lambda>b. b \<noteq> 0x20) (take 8 raw) @
       (if raw ! 8 \<noteq> 0x20 then 0x2E # takeWhile (\<lambda>b. b \<noteq> 0x20) (take 3 (drop 8 raw)) else []))"

text \<open>The three return values of \<^verbatim>\<open>parse_entry\<close>: 0, -1 and 1 with the entry.\<close>

datatype dir_parse = DirEnd | DirSkip | DirEntry Fat32DirEntry

definition parse_entry :: "bytes \<Rightarrow> dir_parse" where
  "parse_entry raw =
     (if raw ! 0 = 0x00 then DirEnd
      else if raw ! 0 = 0xE5 then DirSkip
      else if raw ! 11 AND FAT32_ATTR_LONG_NAME = FAT32_ATTR_LONG_NAME then DirSkip
      else DirEntry \<lparr>entry_name = make_short_name raw, attributes = raw ! 11,
        first_cluster = push_bit 16 (ucast (le16 raw 20)) OR ucast (le16 raw 26), entry_size = le32 raw 28\<rparr>)"

definition clear_lfn :: "bytes \<Rightarrow> bytes" where
  "clear_lfn lfn = lfn[0 := 0]"

definition lfn_offsets :: "nat list" where
  "lfn_offsets = [1, 3, 5, 7, 9, 14, 16, 18, 20, 22, 24, 28, 30]"

text \<open>The copying loop of \<^verbatim>\<open>parse_lfn_entry\<close>, over the offsets still to visit; \<open>k\<close> is
  \<^verbatim>\<open>base + i\<close>.\<close>

fun lfn_loop :: "bytes \<Rightarrow> nat \<Rightarrow> nat list \<Rightarrow> bytes \<Rightarrow> bytes" where
  "lfn_loop raw k [] lfn = lfn"
| "lfn_loop raw k (off # offs) lfn =
     (if k + 1 < length lfn then
        let ch = le16 raw off
        in if ch = 0x0000 \<or> ch = 0xFFFF then lfn[k := 0]
           else lfn_loop raw (k + 1) offs (lfn[k := (if ch < 128 then ucast ch else 0x3F), k + 1 := 0])
      else lfn)"

definition parse_lfn_entry :: "bytes \<Rightarrow> bytes \<Rightarrow> bytes" where
  "parse_lfn_entry raw lfn =
     (let seq = raw ! 0 AND 0x1F
      in if length lfn = 0 \<or> seq = 0 then lfn
         else let lfn1 = (if raw ! 0 AND 0x40 \<noteq> 0 then clear_lfn lfn else lfn)
              in lfn_loop raw ((unat seq - 1) * 13) lfn_offsets lfn1)"

section \<open>Clusters\<close>

definition cluster_lba :: "Fat32Volume \<Rightarrow> u32 \<Rightarrow> u32" where
  "cluster_lba v cluster = data_start_lba v + (cluster - 2) * ucast (sectors_per_cluster v)"

definition read_cluster :: "Fat32Volume \<Rightarrow> 'd BlockDevice option \<Rightarrow> u32 \<Rightarrow> bytes option" where
  "read_cluster v disk cluster = block_read disk (ucast (cluster_lba v cluster)) (ucast (sectors_per_cluster v))"

definition write_cluster :: "Fat32Volume \<Rightarrow> 'd BlockDevice option \<Rightarrow> u32 \<Rightarrow> bytes \<Rightarrow> 'd BlockDevice option \<times> int" where
  "write_cluster v disk cluster buffer =
     block_write disk (ucast (cluster_lba v cluster)) (ucast (sectors_per_cluster v)) buffer"

definition next_cluster :: "Fat32Volume \<Rightarrow> 'd BlockDevice option \<Rightarrow> u32 \<Rightarrow> u32" where
  "next_cluster v disk cluster =
     (let fat_offset = (if fat_type v = PEANUT_FAT12 then cluster + cluster div 2
            else if fat_type v = PEANUT_FAT16 then cluster * 2 else cluster * 4);
          sector_index = fat_offset div 512;
          entry_offset = unat (fat_offset mod 512)
      in case block_read disk (ucast (fat_start_lba v + sector_index)) 1 of
           None \<Rightarrow> FAT32_EOC
         | Some sector \<Rightarrow>
             if fat_type v = PEANUT_FAT12 then
               (case (if entry_offset = 511
                      then map_option (\<lambda>nxt. ucast (sector ! entry_offset) OR push_bit 8 (ucast (nxt ! 0)))
                        (block_read disk (ucast (fat_start_lba v + sector_index + 1)) 1)
                      else Some (le16 sector entry_offset)) of
                  None \<Rightarrow> ucast FAT12_EOC
                | Some val \<Rightarrow>
                    let val' = (if cluster AND 1 \<noteq> 0 then drop_bit 4 val else val AND 0x0FFF)
                    in if FAT12_EOC \<le> val' then FAT32_EOC else ucast val')
             else if fat_type v = PEANUT_FAT16 then
               (let val = le16 sector entry_offset in if FAT16_EOC \<le> val then FAT32_EOC else ucast val)
             else le32 sector entry_offset AND 0x0FFFFFFF)"

section \<open>Mounting\<close>

definition fat32_mount :: "'d BlockDevice option \<Rightarrow> Partition \<Rightarrow> Fat32Volume option" where
  "fat32_mount disk part =
     (if \<not> partition_is_fat part then None
      else case block_read disk (first_lba part) 1 of
        None \<Rightarrow> None
      | Some sector \<Rightarrow>
          if sector ! 510 \<noteq> 0x55 \<or> sector ! 511 \<noteq> 0xAA then None
          else if le16 sector 11 \<noteq> 512 then None
          else
            let spc = sector ! 13;
                reserved_sectors = le16 sector 14;
                fat_count = sector ! 16;
                root_entries = le16 sector 17;
                total16 = le16 sector 19;
                total32 = le32 sector 32;
                spf16 = le16 sector 22;
                spf32 = le32 sector 36;
                spf = (if spf16 \<noteq> 0 then ucast spf16 else spf32);
                total_sectors = (if total16 \<noteq> 0 then ucast total16 else total32);
                root_sectors = (ucast root_entries * 32 + 512 - 1) div 512;
                root_cl = (if root_entries \<noteq> 0 then 0 else le32 sector 44)
            in if spc = 0 \<or> fat_count = 0 \<or> spf = 0 \<or> total_sectors = 0 then None
               else
                 let data_sectors = total_sectors - (ucast reserved_sectors + ucast fat_count * spf + root_sectors);
                     cluster_count = data_sectors div ucast spc;
                     ftype = (if cluster_count < 4085 then PEANUT_FAT12
                       else if cluster_count < 65525 then PEANUT_FAT16 else PEANUT_FAT32)
                 in if ftype = PEANUT_FAT32 \<and> root_cl < 2 then None
                    else
                      let fat_start = ucast (first_lba part + ucast reserved_sectors);
                          root_lba = fat_start + ucast fat_count * spf
                      in Some \<lparr>fat_part = part, fat_type = ftype, fat_start_lba = fat_start, data_start_lba = root_lba + root_sectors,
                           root_dir_lba = root_lba, root_dir_sectors = root_sectors, root_cluster = root_cl,
                           sectors_per_fat = spf, sectors_per_cluster = spc, root_entry_count = root_entries\<rparr>)"

section \<open>Directories\<close>

text \<open>The loop over the 32-byte records of a buffer.  The result is the entries so far, the
  long-name buffer, and whether the end-of-directory record was met.\<close>

function scan_dir :: "bytes \<Rightarrow> nat \<Rightarrow> nat \<Rightarrow> nat \<Rightarrow> bytes \<Rightarrow> Fat32DirEntry list \<Rightarrow> Fat32DirEntry list \<times> bytes \<times> bool" where
  "scan_dir buf limit max_e off lfn out =
     (if off < limit \<and> length out < max_e then
        let raw = drop off buf
        in if raw ! 11 AND FAT32_ATTR_LONG_NAME = FAT32_ATTR_LONG_NAME
           then scan_dir buf limit max_e (off + 32) (parse_lfn_entry raw lfn) out
           else case parse_entry raw of
               DirEnd \<Rightarrow> (out, lfn, True)
             | DirSkip \<Rightarrow> scan_dir buf limit max_e (off + 32) (clear_lfn lfn) out
             | DirEntry e \<Rightarrow>
                 if lfn ! 0 \<noteq> 0
                 then scan_dir buf limit max_e (off + 32) (clear_lfn lfn)
                        (out @ [e\<lparr>entry_name := copy_name (cstr lfn) FAT32_MAX_NAME\<rparr>])
                 else scan_dir buf limit max_e (off + 32) lfn (out @ [e])
      else (out, lfn, False))"
  by pat_completeness auto
termination by (relation "measure (\<lambda>(buf, limit, max_e, off, lfn, out). limit - off)") auto

declare scan_dir.simps [simp del]

definition empty_lfn :: bytes where
  "empty_lfn = clear_lfn (replicate FAT32_MAX_NAME 0)"

function list_fixed_root ::
  "Fat32Volume \<Rightarrow> 'd BlockDevice option \<Rightarrow> nat \<Rightarrow> nat \<Rightarrow> bytes \<Rightarrow> Fat32DirEntry list \<Rightarrow> Fat32DirEntry list" where
  "list_fixed_root v disk max_e s lfn out =
     (if s < unat (root_dir_sectors v) \<and> length out < max_e then
        (case block_read disk (ucast (root_dir_lba v + of_nat s)) 1 of
           None \<Rightarrow> out
         | Some sector \<Rightarrow>
             let (out', lfn', stop) = scan_dir sector 512 max_e 0 lfn out
             in if stop then out' else list_fixed_root v disk max_e (s + 1) lfn' out')
      else out)"
  by pat_completeness auto
termination by (relation "measure (\<lambda>(v, disk, max_e, s, lfn, out). unat (root_dir_sectors v) - s)") auto

declare list_fixed_root.simps [simp del]

definition cluster_bytes :: "Fat32Volume \<Rightarrow> nat" where
  "cluster_bytes v = unat (sectors_per_cluster v) * 512"

partial_function (option) list_chain ::
  "Fat32Volume \<Rightarrow> 'd BlockDevice option \<Rightarrow> nat \<Rightarrow> u32 \<Rightarrow> Fat32DirEntry list \<Rightarrow> Fat32DirEntry list option" where
  "list_chain v disk max_e cluster out =
     (if cluster < FAT32_EOC \<and> length out < max_e then
        (case read_cluster v disk cluster of
           None \<Rightarrow> Some out
         | Some buf \<Rightarrow>
             let (out', lfn', stop) = scan_dir buf (cluster_bytes v) max_e 0 empty_lfn out
             in if stop then Some out' else list_chain v disk max_e (next_cluster v disk cluster) out')
      else Some out)"

declare list_chain.simps [code]

definition fat32_list_root :: "Fat32Volume \<Rightarrow> 'd BlockDevice option \<Rightarrow> nat \<Rightarrow> Fat32DirEntry list option" where
  "fat32_list_root v disk max_e =
     (if max_e = 0 \<or> 8 < sectors_per_cluster v then Some []
      else if fat_type v \<noteq> PEANUT_FAT32 then Some (list_fixed_root v disk max_e 0 empty_lfn [])
      else list_chain v disk max_e (root_cluster v) [])"

definition list_cluster_entries :: "Fat32Volume \<Rightarrow> 'd BlockDevice option \<Rightarrow> u32 \<Rightarrow> nat \<Rightarrow> Fat32DirEntry list option" where
  "list_cluster_entries v disk cluster max_e =
     (if 8 < sectors_per_cluster v then Some [] else list_chain v disk max_e cluster [])"

text \<open>Finding: the outer option is None when the listing does not return, the inner one when
  the source answers -1.\<close>

definition fat32_find_dir_in_root :: "Fat32Volume \<Rightarrow> 'd BlockDevice option \<Rightarrow> bytes \<Rightarrow> Fat32DirEntry option option" where
  "fat32_find_dir_in_root v disk dirname =
     map_option (find (\<lambda>e. attributes e AND FAT32_ATTR_DIRECTORY \<noteq> 0 \<and> streq_ci (entry_name e) dirname))
       (fat32_list_root v disk 64)"

definition fat32_find_in_dir :: "Fat32Volume \<Rightarrow> 'd BlockDevice option \<Rightarrow> u32 \<Rightarrow> bytes \<Rightarrow> Fat32DirEntry option option" where
  "fat32_find_in_dir v disk dir_cluster name =
     map_option (find (\<lambda>e. streq_ci (entry_name e) name)) (list_cluster_entries v disk dir_cluster 64)"

definition is_slash :: "u8 \<Rightarrow> bool" where
  "is_slash c \<longleftrightarrow> c = 0x2F \<or> c = 0x5C"

lemma path_rest_shorter:
  "p \<noteq> [] \<Longrightarrow> length (dropWhile is_slash (dropWhile (\<lambda>c. \<not> is_slash c) p)) < length p"
proof (cases p)
  case (Cons c cs)
  note le = length_dropWhile_le
  have "length (dropWhile is_slash (dropWhile (\<lambda>c. \<not> is_slash c) cs)) \<le> length cs"
    using le [of is_slash "dropWhile (\<lambda>c. \<not> is_slash c) cs"] le [of "\<lambda>c. \<not> is_slash c" cs] by (rule order_trans)
  then show ?thesis using Cons le [of is_slash cs] by (cases "is_slash c") (simp_all add: less_Suc_eq_le)
qed simp

function find_path :: "Fat32Volume \<Rightarrow> 'd BlockDevice option \<Rightarrow> bool \<Rightarrow> u32 \<Rightarrow> bytes \<Rightarrow> Fat32DirEntry option option" where
  "find_path v disk in_root dir_cluster p =
     (if p = [] then Some None
      else
        let component = takeWhile (\<lambda>c. \<not> is_slash c) p;
            rest = dropWhile is_slash (dropWhile (\<lambda>c. \<not> is_slash c) p)
        in if FAT32_MAX_NAME \<le> length component then Some None
           else case (if in_root
                  then map_option (find (\<lambda>e. streq_ci (entry_name e) component)) (fat32_list_root v disk 64)
                  else fat32_find_in_dir v disk dir_cluster component) of
               None \<Rightarrow> None
             | Some None \<Rightarrow> Some None
             | Some (Some current) \<Rightarrow>
                 if rest = [] then Some (Some current)
                 else if attributes current AND FAT32_ATTR_DIRECTORY = 0 then Some None
                 else find_path v disk False (first_cluster current) rest)"
  by pat_completeness auto
termination by (relation "measure (\<lambda>(v, disk, in_root, dir_cluster, p). length p)") (auto simp: path_rest_shorter)

declare find_path.simps [simp del]

definition fat32_find_root :: "Fat32Volume \<Rightarrow> 'd BlockDevice option \<Rightarrow> bytes \<Rightarrow> Fat32DirEntry option option" where
  "fat32_find_root v disk path = find_path v disk True (root_cluster v) (dropWhile is_slash path)"

section \<open>File data\<close>

text \<open>The copy loops.  \<open>None\<close> is the return value -1.\<close>

function read_chain :: "Fat32Volume \<Rightarrow> 'd BlockDevice option \<Rightarrow> u32 \<Rightarrow> u32 \<Rightarrow> bytes \<Rightarrow> bytes option" where
  "read_chain v disk fsize cluster out =
     (if cluster < FAT32_EOC \<and> length out < unat fsize then
        (case read_cluster v disk cluster of
           None \<Rightarrow> None
         | Some buf \<Rightarrow>
             let left = unat fsize - length out;
                 to_copy = (if left < cluster_bytes v then left else cluster_bytes v)
             in read_chain v disk fsize (next_cluster v disk cluster) (out @ map ((!) buf) [0..<to_copy]))
      else Some out)"
  by pat_completeness auto

lemma read_cluster_spc: "read_cluster v disk c = Some buf \<Longrightarrow> 0 < cluster_bytes v"
proof -
  assume "read_cluster v disk c = Some buf"
  then have "(ucast (sectors_per_cluster v) :: u32) \<noteq> 0"
    by (auto simp: read_cluster_def block_read_def split: option.splits if_splits)
  then have "sectors_per_cluster v \<noteq> 0" by auto
  then show ?thesis by (simp add: cluster_bytes_def unat_gt_0)
qed

termination read_chain
  by (relation "measure (\<lambda>(v, disk, fsize, cluster, out). unat fsize - length out)") (auto dest: read_cluster_spc)

declare read_chain.simps [simp del]

definition fat32_read_file :: "Fat32Volume \<Rightarrow> 'd BlockDevice option \<Rightarrow> bytes \<Rightarrow> u32 \<Rightarrow> bytes option option" where
  "fat32_read_file v disk name buffer_size =
     (case fat32_find_root v disk name of
        None \<Rightarrow> None
      | Some None \<Rightarrow> Some None
      | Some (Some file) \<Rightarrow>
          if attributes file AND FAT32_ATTR_DIRECTORY \<noteq> 0 then Some None
          else if buffer_size < entry_size file \<or> 8 < sectors_per_cluster v then Some None
          else Some (read_chain v disk (entry_size file) (first_cluster file) []))"

text \<open>\<open>copied\<close> counts the bytes already written; the device is the one after those writes.\<close>

function write_chain ::
  "Fat32Volume \<Rightarrow> 'd BlockDevice option \<Rightarrow> bytes \<Rightarrow> nat \<Rightarrow> u32 \<Rightarrow> nat \<Rightarrow> 'd BlockDevice option \<times> int" where
  "write_chain v disk data fsize cluster copied =
     (if cluster < FAT32_EOC \<and> copied < fsize then
        (case read_cluster v disk cluster of
           None \<Rightarrow> (disk, -1)
         | Some buf \<Rightarrow>
             let left = fsize - copied;
                 to_copy = (if left < cluster_bytes v then left else cluster_bytes v);
                 buf' = map (\<lambda>i. data ! (copied + i)) [0..<to_copy] @ drop to_copy buf;
                 (disk', r) = write_cluster v disk cluster buf'
             in if r \<noteq> 0 then (disk', -1)
                else write_chain v disk' data fsize (next_cluster v disk' cluster) (copied + to_copy))
      else (disk, if copied = fsize then 0 else -1))"
  by pat_completeness auto

termination write_chain
  by (relation "measure (\<lambda>(v, disk, data, fsize, cluster, copied). fsize - copied)") (auto dest: read_cluster_spc)

declare write_chain.simps [simp del]

definition fat32_write_file ::
  "Fat32Volume \<Rightarrow> 'd BlockDevice option \<Rightarrow> bytes \<Rightarrow> bytes \<Rightarrow> u32 \<Rightarrow> ('d BlockDevice option \<times> int) option" where
  "fat32_write_file v disk name buffer fsize =
     (case fat32_find_root v disk name of
        None \<Rightarrow> None
      | Some None \<Rightarrow> Some (disk, -1)
      | Some (Some file) \<Rightarrow>
          if attributes file AND FAT32_ATTR_DIRECTORY \<noteq> 0 then Some (disk, -1)
          else if entry_size file < fsize \<or> 8 < sectors_per_cluster v then Some (disk, -1)
          else Some (write_chain v disk buffer (unat fsize) (first_cluster file) 0))"

end
