(* ===== verification/Fat32_Data.thy ===== *)
theory Fat32_Data
  imports Fat32
begin

text \<open>
  The file-data paths of \<^verbatim>\<open>src/src/fs/fat32.c\<close>: reading a file returns the bytes of its
  cluster chain, and overwriting it changes those clusters only, so that directories, the
  allocation table and the name lookup stay as they were and a later read returns what was
  written.

  \<open>chain_from\<close> is a prefix of a cluster chain; \<open>cluster_ok\<close> and \<open>fat_ok\<close> say
  that a cluster and its table entry lie where the mounted geometry puts them, so that the
  32-bit sector arithmetic does not wrap.
\<close>

section \<open>Geometry\<close>

definition spc :: "Fat32Volume \<Rightarrow> nat" where
  "spc v = unat (sectors_per_cluster v)"

definition cluster_ok :: "Fat32Volume \<Rightarrow> u32 \<Rightarrow> bool" where
  "cluster_ok v c \<longleftrightarrow> 2 \<le> unat c \<and> unat (data_start_lba v) + (unat c - 2) * spc v + spc v \<le> 2 ^ 32"

definition cluster_sectors :: "Fat32Volume \<Rightarrow> u32 \<Rightarrow> nat set" where
  "cluster_sectors v c =
     {unat (data_start_lba v) + (unat c - 2) * spc v ..< unat (data_start_lba v) + (unat c - 2) * spc v + spc v}"

definition fat_index :: "Fat32Volume \<Rightarrow> u32 \<Rightarrow> u32" where
  "fat_index v c = (if fat_type v = PEANUT_FAT12 then c + c div 2
     else if fat_type v = PEANUT_FAT16 then c * 2 else c * 4) div 512"

definition fat_ok :: "Fat32Volume \<Rightarrow> u32 \<Rightarrow> bool" where
  "fat_ok v c \<longleftrightarrow> unat (fat_start_lba v) + unat (fat_index v c) + 1 < unat (data_start_lba v)"

lemma unat_ucast_32_64 [simp]: "unat (ucast (x :: u32) :: u64) = unat x"
  using unat_u32 [of x] by (simp add: unsigned_ucast_eq take_bit_nat_eq_self_iff)

lemma unat_ucast_8_32 [simp]: "unat (ucast (x :: u8) :: u32) = unat x"
  using unat_u8 [of x] by (simp add: unsigned_ucast_eq take_bit_nat_eq_self_iff)

lemma unat_cluster_lba:
  assumes "cluster_ok v c" and "0 < spc v"
  shows "unat (cluster_lba v c) = unat (data_start_lba v) + (unat c - 2) * spc v"
proof -
  have c: "unat (c - 2) = unat c - 2" using assms(1) by (simp add: cluster_ok_def unat_sub word_le_nat_alt)
  have "unat ((c - 2) * ucast (sectors_per_cluster v)) = (unat c - 2) * spc v"
    using assms by (simp add: cluster_ok_def unat_word_ariths c spc_def)
  then show ?thesis using assms by (simp add: cluster_lba_def unat_word_ariths cluster_ok_def)
qed

lemma cluster_sectors_disjoint:
  assumes "2 \<le> unat b" "2 \<le> unat c" "b \<noteq> c"
  shows "cluster_sectors v b \<inter> cluster_sectors v c = {}"
proof -
  have "unat b < unat c \<or> unat c < unat b" using assms(3) by (metis nat_neq_iff unsigned_word_eqI)
  then have "unat b - 2 < unat c - 2 \<or> unat c - 2 < unat b - 2" using assms by linarith
  then have "Suc (unat b - 2) * spc v \<le> (unat c - 2) * spc v \<or> Suc (unat c - 2) * spc v \<le> (unat b - 2) * spc v"
    by (meson Suc_leI mult_le_mono1)
  then show ?thesis by (auto simp: cluster_sectors_def)
qed

section \<open>Reading and writing one cluster\<close>

definition cdata :: "('d \<Rightarrow> u64 \<Rightarrow> bytes) \<Rightarrow> Fat32Volume \<Rightarrow> 'd BlockDevice \<Rightarrow> u32 \<Rightarrow> bytes" where
  "cdata sect v dev c = sectors sect (driver_data dev) (ucast (cluster_lba v c)) (spc v)"

lemma length_cdata: "disk_laws sect dev \<Longrightarrow> length (cdata sect v dev c) = cluster_bytes v"
  by (simp add: cdata_def length_sectors cluster_bytes_def spc_def)

lemma read_cluster_ok:
  "disk_laws sect dev \<Longrightarrow> 0 < spc v \<Longrightarrow> read_cluster v (Some dev) c = Some (cdata sect v dev c)"
proof -
  assume a: "disk_laws sect dev" "0 < spc v"
  then have "(ucast (sectors_per_cluster v) :: u32) \<noteq> 0" by (metis spc_def unat_ucast_8_32 unat_0 less_irrefl)
  then show ?thesis using block_read_ok [OF a(1)] by (simp add: read_cluster_def cdata_def spc_def)
qed

lemma write_cluster_ok:
  assumes laws: "disk_laws sect dev" and spc: "0 < spc v" and c: "cluster_ok v c" and len: "length buf = cluster_bytes v"
  shows "\<exists>dev'. write_cluster v (Some dev) c buf = (Some dev', 0) \<and> disk_laws sect dev' \<and>
    agree_off sect (cluster_sectors v c) (driver_data dev) (driver_data dev') \<and> cdata sect v dev' c = buf"
proof -
  let ?n = "ucast (sectors_per_cluster v) :: u32" and ?lba = "ucast (cluster_lba v c) :: u64"
  have n: "?n \<noteq> 0" using spc by (metis spc_def unat_ucast_8_32 unat_0 less_irrefl)
  have l: "unat ?lba = unat (data_start_lba v) + (unat c - 2) * spc v" using unat_cluster_lba [OF c spc] by simp
  then have "unat ?lba + unat ?n \<le> 2 ^ 64" using c by (simp add: cluster_ok_def spc_def)
  moreover have "length buf = 512 * unat ?n" using len by (simp add: cluster_bytes_def)
  ultimately obtain dev' where "block_write (Some dev) ?lba ?n buf = (Some dev', 0)" "disk_laws sect dev'"
      "agree_off sect {unat ?lba ..< unat ?lba + unat ?n} (driver_data dev) (driver_data dev')"
      "sectors sect (driver_data dev') ?lba (unat ?n) = buf"
    using block_write_effect [OF laws n] by blast
  moreover have "{unat ?lba ..< unat ?lba + unat ?n} = cluster_sectors v c"
    unfolding l cluster_sectors_def by (simp add: spc_def)
  ultimately show ?thesis by (auto simp: write_cluster_def cdata_def spc_def)
qed

lemma cdata_agree:
  assumes "agree_off sect A (driver_data dev) (driver_data dev')" "cluster_sectors v c \<inter> A = {}" "cluster_ok v c" "0 < spc v"
  shows "cdata sect v dev' c = cdata sect v dev c"
  unfolding cdata_def using assms(1)
proof (rule agree_off_sectors)
  have l: "unat (ucast (cluster_lba v c) :: u64) = unat (data_start_lba v) + (unat c - 2) * spc v"
    using unat_cluster_lba [OF assms(3,4)] by simp
  show "{unat (ucast (cluster_lba v c) :: u64) ..< unat (ucast (cluster_lba v c) :: u64) + spc v} \<inter> A = {}"
    using assms(2) unfolding l cluster_sectors_def .
  show "unat (ucast (cluster_lba v c) :: u64) + spc v \<le> 2 ^ 64" unfolding l using assms(3) by (simp add: cluster_ok_def)
qed

text \<open>The two sectors a table lookup may read.\<close>

lemma next_cluster_agree:
  assumes laws: "disk_laws sect dev" "disk_laws sect dev'" and c: "fat_ok v c"
    and agree: "agree_off sect A (driver_data dev) (driver_data dev')" and A: "A \<subseteq> {unat (data_start_lba v) ..}"
  shows "next_cluster v (Some dev') c = next_cluster v (Some dev) c"
proof -
  have rd: "block_read (Some dev') (ucast l) 1 = block_read (Some dev) (ucast l) 1"
    if "unat l < unat (data_start_lba v)" for l :: u32
  proof -
    have "sectors sect (driver_data dev') (ucast l) 1 = sectors sect (driver_data dev) (ucast l) 1"
      using agree by (rule agree_off_sectors) (use that A unat_u32 [of l] in auto)
    then show ?thesis using block_read_ok [OF laws(1), of 1] block_read_ok [OF laws(2), of 1] by simp
  qed
  have s: "unat (fat_start_lba v + fat_index v c) = unat (fat_start_lba v) + unat (fat_index v c)"
      "unat (fat_start_lba v + fat_index v c + 1) = unat (fat_start_lba v) + unat (fat_index v c) + 1"
    using c unat_u32 [of "data_start_lba v"] by (simp_all add: fat_ok_def unat_word_ariths)
  have "block_read (Some dev') (ucast (fat_start_lba v + fat_index v c)) 1 = block_read (Some dev) (ucast (fat_start_lba v + fat_index v c)) 1"
    "block_read (Some dev') (ucast (fat_start_lba v + fat_index v c + 1)) 1 = block_read (Some dev) (ucast (fat_start_lba v + fat_index v c + 1)) 1"
    using c s by (intro rd; simp add: fat_ok_def)+
  then show ?thesis unfolding next_cluster_def Let_def fat_index_def by (simp only:)
qed

section \<open>Reading a file\<close>

fun chain_from :: "Fat32Volume \<Rightarrow> 'd BlockDevice option \<Rightarrow> u32 \<Rightarrow> u32 list \<Rightarrow> bool" where
  "chain_from v disk c [] \<longleftrightarrow> True"
| "chain_from v disk c (x # xs) \<longleftrightarrow> x = c \<and> c < FAT32_EOC \<and> chain_from v disk (next_cluster v disk c) xs"

definition content :: "('d \<Rightarrow> u64 \<Rightarrow> bytes) \<Rightarrow> Fat32Volume \<Rightarrow> 'd BlockDevice \<Rightarrow> u32 list \<Rightarrow> bytes" where
  "content sect v dev cs = concat (map (cdata sect v dev) cs)"

lemma length_content: "disk_laws sect dev \<Longrightarrow> length (content sect v dev cs) = length cs * cluster_bytes v"
  by (induction cs) (simp_all add: content_def length_cdata)

lemma map_nth_take: "k \<le> length xs \<Longrightarrow> map ((!) xs) [0..<k] = take k xs"
  by (rule nth_equalityI) simp_all

lemma read_chain_content:
  assumes laws: "disk_laws sect dev" and spc: "0 < spc v"
  shows "chain_from v (Some dev) c cs \<Longrightarrow> unat fsize \<le> length out + length cs * cluster_bytes v \<Longrightarrow>
    read_chain v (Some dev) fsize c out = Some (out @ take (unat fsize - length out) (content sect v dev cs))"
proof (induction cs arbitrary: c out)
  case Nil
  then show ?case by (subst read_chain.simps) simp
next
  case (Cons x cs)
  let ?b = "cluster_bytes v"
  show ?case
  proof (cases "length out < unat fsize")
    case False
    then show ?thesis by (subst read_chain.simps) simp
  next
    case True
    define k where "k = (if unat fsize - length out < ?b then unat fsize - length out else ?b)"
    have k: "k \<le> ?b" "k = min (unat fsize - length out) ?b" by (auto simp: k_def)
    let ?out = "out @ take k (cdata sect v dev c)"
    have len: "length ?out = length out + k" using k(1) length_cdata [OF laws] by simp
    have "read_chain v (Some dev) fsize c out = read_chain v (Some dev) fsize (next_cluster v (Some dev) c) ?out"
      using True Cons.prems(1) read_cluster_ok [OF laws spc] length_cdata [OF laws, of v c] k
      by (subst read_chain.simps) (simp add: k_def [symmetric] map_nth_take)
    also have "\<dots> = Some (?out @ take (unat fsize - length ?out) (content sect v dev cs))"
    proof (rule Cons.IH)
      show "unat fsize \<le> length ?out + length cs * ?b" using Cons.prems(2) True k(2) unfolding len by auto
    qed (use Cons.prems(1) in simp)
    also have "\<dots> = Some (out @ take (unat fsize - length out) (content sect v dev (x # cs)))"
      unfolding len using Cons.prems(1) length_cdata [OF laws, of v c] True k(2) by (auto simp: content_def min_def)
    finally show ?thesis .
  qed
qed

section \<open>Overwriting a file\<close>

definition file_clusters_ok :: "Fat32Volume \<Rightarrow> u32 list \<Rightarrow> bool" where
  "file_clusters_ok v cs \<longleftrightarrow> distinct cs \<and> (\<forall>c \<in> set cs. cluster_ok v c \<and> fat_ok v c)"

definition file_sectors :: "Fat32Volume \<Rightarrow> u32 list \<Rightarrow> nat set" where
  "file_sectors v cs = (\<Union>c \<in> set cs. cluster_sectors v c)"

lemma file_sectors_data: "file_sectors v cs \<subseteq> {unat (data_start_lba v) ..}"
  by (auto simp: file_sectors_def cluster_sectors_def)

lemma chain_from_agree:
  assumes "disk_laws sect dev" "disk_laws sect dev'" "agree_off sect A (driver_data dev) (driver_data dev')"
    and "A \<subseteq> {unat (data_start_lba v) ..}"
  shows "\<forall>c \<in> set cs. fat_ok v c \<Longrightarrow> chain_from v (Some dev) c cs \<Longrightarrow> chain_from v (Some dev') c cs"
  using next_cluster_agree [OF assms(1,2) _ assms(3,4)] by (induction cs arbitrary: c) auto

lemma content_agree:
  assumes "agree_off sect A (driver_data dev) (driver_data dev')" "0 < spc v"
    and "\<forall>c \<in> set cs. cluster_ok v c \<and> cluster_sectors v c \<inter> A = {}"
  shows "content sect v dev' cs = content sect v dev cs"
  using assms(3) cdata_agree [OF assms(1) _ _ assms(2)] by (simp add: content_def cong: map_cong)

lemma file_sectors_apart:
  assumes "file_clusters_ok v (c # cs)"
  shows "\<forall>x \<in> set cs. cluster_ok v x \<and> cluster_sectors v x \<inter> cluster_sectors v c = {}"
    and "cluster_sectors v c \<inter> file_sectors v cs = {}"
proof -
  show x: "\<forall>x \<in> set cs. cluster_ok v x \<and> cluster_sectors v x \<inter> cluster_sectors v c = {}"
  proof
    fix x assume "x \<in> set cs"
    then show "cluster_ok v x \<and> cluster_sectors v x \<inter> cluster_sectors v c = {}"
      using assms cluster_sectors_disjoint [of x c v] by (auto simp: file_clusters_ok_def cluster_ok_def)
  qed
  then show "cluster_sectors v c \<inter> file_sectors v cs = {}" by (auto simp: file_sectors_def)
qed

lemma map_nth_slice: "c + k \<le> length xs \<Longrightarrow> map (\<lambda>i. xs ! (c + i)) [0..<k] = take k (drop c xs)"
  by (rule nth_equalityI) simp_all

text \<open>One round of the write loop: the cluster holds the next bytes of the buffer, followed by
  what it held before.\<close>

lemma write_chain_step:
  assumes laws: "disk_laws sect dev" and spc: "0 < spc v" and c: "cluster_ok v c" "c < FAT32_EOC"
    and n: "n \<le> length data" "copied < n"
  defines "k \<equiv> min (n - copied) (cluster_bytes v)"
  shows "\<exists>dev'. disk_laws sect dev' \<and> agree_off sect (cluster_sectors v c) (driver_data dev) (driver_data dev') \<and>
    cdata sect v dev' c = take k (drop copied data) @ drop k (cdata sect v dev c) \<and>
    write_chain v (Some dev) data n c copied = write_chain v (Some dev') data n (next_cluster v (Some dev') c) (copied + k)"
proof -
  let ?buf = "take k (drop copied data) @ drop k (cdata sect v dev c)"
  have k: "copied + k \<le> length data" "k \<le> cluster_bytes v" using n by (auto simp: k_def)
  then have len: "length ?buf = cluster_bytes v" using length_cdata [OF laws, of v c] by simp
  obtain dev' where dev': "write_cluster v (Some dev) c ?buf = (Some dev', 0)" "disk_laws sect dev'"
      "agree_off sect (cluster_sectors v c) (driver_data dev) (driver_data dev')" "cdata sect v dev' c = ?buf"
    using write_cluster_ok [OF laws spc c(1) len] by blast
  have if_min: "(if n - copied < cluster_bytes v then n - copied else cluster_bytes v) = k" by (auto simp: k_def)
  have "write_chain v (Some dev) data n c copied = write_chain v (Some dev') data n (next_cluster v (Some dev') c) (copied + k)"
    using c(2) n(2) read_cluster_ok [OF laws spc, of c] dev'(1) map_nth_slice [OF k(1)]
    by (subst write_chain.simps) (simp add: if_min Let_def)
  with dev' show ?thesis by blast
qed

lemma splice_split:
  assumes "k = min m (length a)"
  shows "(take k d @ drop k a) @ take (m - k) (drop k d) @ drop (m - k) r = take m d @ drop m (a @ r)"
proof (cases "m \<le> length a")
  case False
  then have "take m d = take (length a) d @ take (m - length a) (drop (length a) d)"
    using take_add [of "length a" "m - length a" d] by simp
  then show ?thesis using False assms by simp
qed (use assms in simp)

lemma write_chain_ok:
  assumes spc: "0 < spc v" and n: "n \<le> length data"
  shows "disk_laws sect dev \<Longrightarrow> chain_from v (Some dev) c cs \<Longrightarrow> file_clusters_ok v cs \<Longrightarrow> copied \<le> n \<Longrightarrow>
    n \<le> copied + length cs * cluster_bytes v \<Longrightarrow>
    \<exists>dev'. write_chain v (Some dev) data n c copied = (Some dev', 0) \<and> disk_laws sect dev' \<and>
      agree_off sect (file_sectors v cs) (driver_data dev) (driver_data dev') \<and>
      content sect v dev' cs = take (n - copied) (drop copied data) @ drop (n - copied) (content sect v dev cs)"
proof (induction cs arbitrary: dev c copied)
  case Nil
  then show ?case by (subst write_chain.simps) (auto simp: content_def)
next
  case (Cons x cs)
  let ?b = "cluster_bytes v" and ?k = "min (n - copied) (cluster_bytes v)"
  show ?case
  proof (cases "copied < n")
    case False
    then show ?thesis using Cons.prems by (subst write_chain.simps) (auto simp: content_def)
  next
    case True
    have x: "x = c" "c < FAT32_EOC" "cluster_ok v c" "fat_ok v c" "file_clusters_ok v cs"
      using Cons.prems(2,3) by (auto simp: file_clusters_ok_def)
    obtain dev1 where dev1: "disk_laws sect dev1" "agree_off sect (cluster_sectors v c) (driver_data dev) (driver_data dev1)"
        "cdata sect v dev1 c = take ?k (drop copied data) @ drop ?k (cdata sect v dev c)"
        "write_chain v (Some dev) data n c copied = write_chain v (Some dev1) data n (next_cluster v (Some dev1) c) (copied + ?k)"
      using write_chain_step [OF Cons.prems(1) spc x(3,2) n True] by blast
    have A: "cluster_sectors v c \<subseteq> {unat (data_start_lba v) ..}" by (auto simp: cluster_sectors_def)
    have "next_cluster v (Some dev1) c = next_cluster v (Some dev) c"
      using next_cluster_agree [OF Cons.prems(1) dev1(1) x(4) dev1(2) A] .
    then have ch: "chain_from v (Some dev1) (next_cluster v (Some dev1) c) cs"
      using chain_from_agree [OF Cons.prems(1) dev1(1,2) A] Cons.prems(2) x(5) by (simp add: file_clusters_ok_def)
    have le: "copied + ?k \<le> n" "n \<le> copied + ?k + length cs * ?b" using Cons.prems(5) True by auto
    obtain dev' where dev': "write_chain v (Some dev1) data n (next_cluster v (Some dev1) c) (copied + ?k) = (Some dev', 0)"
        "disk_laws sect dev'" "agree_off sect (file_sectors v cs) (driver_data dev1) (driver_data dev')"
        "content sect v dev' cs = take (n - (copied + ?k)) (drop (copied + ?k) data) @ drop (n - (copied + ?k)) (content sect v dev1 cs)"
      using Cons.IH [OF dev1(1) ch x(5) le] by blast
    note apart = file_sectors_apart [OF Cons.prems(3), unfolded x(1)]
    have "content sect v dev1 cs = content sect v dev cs" by (rule content_agree [OF dev1(2) spc apart(1)])
    moreover have "cdata sect v dev' c = cdata sect v dev1 c" by (rule cdata_agree [OF dev'(3) apart(2) x(3) spc])
    ultimately have "content sect v dev' (x # cs) =
        take (n - copied) (drop copied data) @ drop (n - copied) (content sect v dev (x # cs))"
      using dev'(4) dev1(3) length_cdata [OF Cons.prems(1), of v c] x(1)
        splice_split [of ?k "n - copied" "cdata sect v dev c" "drop copied data" "content sect v dev cs"]
      by (simp add: content_def add.commute diff_diff_left [symmetric] del: diff_diff_left)
    moreover have "agree_off sect (file_sectors v (x # cs)) (driver_data dev) (driver_data dev')"
      by (rule agree_off_trans [OF dev1(2) dev'(3)]) (simp add: file_sectors_def x(1))
    ultimately show ?thesis using dev' dev1(4) by auto
  qed
qed

section \<open>The lookup reads directories only\<close>

text \<open>\<open>S\<close> holds the clusters of every directory: it is closed under the chains and under
  the directories listed in it.\<close>

definition dirs_closed :: "Fat32Volume \<Rightarrow> 'd BlockDevice option \<Rightarrow> u32 set \<Rightarrow> bool" where
  "dirs_closed v disk S \<longleftrightarrow>
     (fat_type v = PEANUT_FAT32 \<longrightarrow> root_cluster v \<in> S) \<and>
     (\<forall>c \<in> S. c < FAT32_EOC \<longrightarrow> next_cluster v disk c \<in> S) \<and>
     (\<forall>es e. fat32_list_root v disk 64 = Some es \<longrightarrow> e \<in> set es \<longrightarrow>
        attributes e AND FAT32_ATTR_DIRECTORY \<noteq> 0 \<longrightarrow> first_cluster e \<in> S) \<and>
     (\<forall>c \<in> S. \<forall>es e. list_cluster_entries v disk c 64 = Some es \<longrightarrow> e \<in> set es \<longrightarrow>
        attributes e AND FAT32_ATTR_DIRECTORY \<noteq> 0 \<longrightarrow> first_cluster e \<in> S)"

definition same_dirs :: "Fat32Volume \<Rightarrow> u32 set \<Rightarrow> 'd BlockDevice option \<Rightarrow> 'd BlockDevice option \<Rightarrow> bool" where
  "same_dirs v S disk disk' \<longleftrightarrow>
     (\<forall>c \<in> S. c < FAT32_EOC \<longrightarrow> read_cluster v disk' c = read_cluster v disk c \<and>
        next_cluster v disk' c = next_cluster v disk c \<and> next_cluster v disk c \<in> S) \<and>
     (\<forall>s < unat (root_dir_sectors v).
        block_read disk' (ucast (root_dir_lba v + of_nat s)) 1 = block_read disk (ucast (root_dir_lba v + of_nat s)) 1)"

lemma same_dirs_sym: "same_dirs v S disk disk' \<Longrightarrow> same_dirs v S disk' disk"
  by (simp add: same_dirs_def)

lemma list_chain_agree_Some:
  assumes "list_chain v disk m c out = Some r"
  shows "same_dirs v S disk disk' \<Longrightarrow> c \<in> S \<Longrightarrow> list_chain v disk' m c out = Some r"
proof (rule list_chain.raw_induct [where
      P = "\<lambda>v disk m c out r. same_dirs v S disk disk' \<longrightarrow> c \<in> S \<longrightarrow> list_chain v disk' m c out = Some r",
      OF _ assms, rule_format])
  fix f v disk m c out r
  assume IH: "\<And>v disk m c out r. f v disk m c out = Some r \<Longrightarrow>
      same_dirs v S disk disk' \<Longrightarrow> c \<in> S \<Longrightarrow> list_chain v disk' m c out = Some r"
    and step: "(if c < FAT32_EOC \<and> length out < m then
        (case read_cluster v disk c of
           None \<Rightarrow> Some out
         | Some buf \<Rightarrow>
             let (out', lfn', stop) = scan_dir buf (cluster_bytes v) m 0 empty_lfn out
             in if stop then Some out' else f v disk m (next_cluster v disk c) out')
      else Some out) = Some r"
    and S: "same_dirs v S disk disk'" "c \<in> S"
  show "list_chain v disk' m c out = Some r"
    using step S IH
    by (subst list_chain.simps) (auto simp: same_dirs_def split: if_splits option.splits prod.splits)
qed

lemma list_chain_agree:
  assumes "same_dirs v S disk disk'" "c \<in> S"
  shows "list_chain v disk' m c out = list_chain v disk m c out"
proof (cases "list_chain v disk m c out")
  case None
  then show ?thesis
    using list_chain_agree_Some [OF _ same_dirs_sym [OF assms(1)] assms(2), of m out]
    by (cases "list_chain v disk' m c out") auto
next
  case (Some r)
  then show ?thesis using list_chain_agree_Some [OF Some assms] by simp
qed

lemma list_fixed_root_agree:
  assumes "same_dirs v S disk disk'"
  shows "list_fixed_root v disk' m s lfn out = list_fixed_root v disk m s lfn out"
  using assms
proof (induction v disk m s lfn out rule: list_fixed_root.induct)
  case (1 v disk m s lfn out)
  then show ?case
    by (subst (1 2) list_fixed_root.simps) (auto simp: same_dirs_def split: option.splits prod.splits)
qed

lemma list_root_agree:
  "same_dirs v S disk disk' \<Longrightarrow> dirs_closed v disk S \<Longrightarrow> fat32_list_root v disk' m = fat32_list_root v disk m"
  by (simp add: fat32_list_root_def dirs_closed_def list_chain_agree list_fixed_root_agree)

text \<open>What follows a lookup of one component.\<close>

fun path_next :: "Fat32Volume \<Rightarrow> 'd BlockDevice option \<Rightarrow> bytes \<Rightarrow> Fat32DirEntry option option \<Rightarrow> Fat32DirEntry option option" where
  "path_next v disk rest None = None"
| "path_next v disk rest (Some None) = Some None"
| "path_next v disk rest (Some (Some e)) =
     (if rest = [] then Some (Some e)
      else if attributes e AND FAT32_ATTR_DIRECTORY = 0 then Some None
      else find_path v disk False (first_cluster e) rest)"

lemma find_path_next:
  assumes "p \<noteq> []" "\<not> FAT32_MAX_NAME \<le> length (takeWhile (\<lambda>c. \<not> is_slash c) p)"
  shows "find_path v disk in_root dir p =
    path_next v disk (dropWhile is_slash (dropWhile (\<lambda>c. \<not> is_slash c) p))
      (if in_root then map_option (find (\<lambda>e. streq_ci (entry_name e) (takeWhile (\<lambda>c. \<not> is_slash c) p))) (fat32_list_root v disk 64)
       else fat32_find_in_dir v disk dir (takeWhile (\<lambda>c. \<not> is_slash c) p))"
  using assms by (subst find_path.simps) (simp add: Let_def split: option.split)

lemma path_next_cong:
  "(\<And>e. l = Some (Some e) \<Longrightarrow> rest \<noteq> [] \<Longrightarrow> attributes e AND FAT32_ATTR_DIRECTORY \<noteq> 0 \<Longrightarrow>
      find_path v disk' False (first_cluster e) rest = find_path v disk False (first_cluster e) rest) \<Longrightarrow>
   path_next v disk' rest l = path_next v disk rest l"
  by (cases "(v, disk, rest, l)" rule: path_next.cases) auto

lemma find_path_agree:
  assumes "same_dirs v S disk disk'" "dirs_closed v disk S"
  shows "in_root \<or> dir \<in> S \<Longrightarrow> find_path v disk' in_root dir p = find_path v disk in_root dir p"
  using assms
proof (induction v disk in_root dir p rule: find_path.induct)
  case (1 v disk in_root dir p)
  let ?comp = "takeWhile (\<lambda>c. \<not> is_slash c) p" and ?rest = "dropWhile is_slash (dropWhile (\<lambda>c. \<not> is_slash c) p)"
  let ?look = "\<lambda>d. if in_root then map_option (find (\<lambda>e. streq_ci (entry_name e) ?comp)) (fat32_list_root v d 64)
    else fat32_find_in_dir v d dir ?comp"
  have look: "?look disk' = ?look disk"
    using 1 list_root_agree [of v S disk disk' 64] list_chain_agree [of v S disk disk' dir 64 "[]"]
    by (auto simp: fat32_find_in_dir_def list_cluster_entries_def)
  have rec: "find_path v disk' False (first_cluster e) ?rest = find_path v disk False (first_cluster e) ?rest"
    if q: "p \<noteq> []" "\<not> FAT32_MAX_NAME \<le> length ?comp" "?look disk = Some (Some e)" "?rest \<noteq> []"
      "attributes e AND FAT32_ATTR_DIRECTORY \<noteq> 0" for e
  proof (rule "1.IH" [OF q(1) refl refl q(2,3) refl q(4)])
    obtain es where es: "e \<in> set es" "fat32_list_root v disk 64 = Some es \<or> dir \<in> S \<and> list_cluster_entries v disk dir 64 = Some es"
      using q(3) 1(2) by (auto simp: fat32_find_in_dir_def find_Some_iff split: if_splits dest!: nth_mem)
    have "first_cluster e \<in> S" using es q(5) 1(4) unfolding dirs_closed_def by blast
    then show "False \<or> first_cluster e \<in> S" by simp
  qed (use 1 q in simp_all)
  show ?case
  proof (cases "p = [] \<or> FAT32_MAX_NAME \<le> length ?comp")
    case True
    then show ?thesis by (subst (1 2) find_path.simps) (elim disjE; simp add: Let_def)
  next
    case False
    then have p: "p \<noteq> []" "\<not> FAT32_MAX_NAME \<le> length ?comp" by simp_all
    show ?thesis
      by (simp only: find_path_next [OF p] look) (rule path_next_cong, rule rec [OF p])
  qed
qed

end
