(* ===== verification/Fat32_Props.thy ===== *)
theory Fat32_Props
  imports Fat32_Data
begin

text \<open>
  The properties of \<^verbatim>\<open>src/src/fs/fat32.c\<close>: what a write leaves on the volume and what a
  later read gives back, the listing of a chain, the comparison of names, and what the
  long-name parser makes of a name of two entries.
\<close>

section \<open>Overwriting a file\<close>

definition dirs_apart :: "Fat32Volume \<Rightarrow> u32 set \<Rightarrow> u32 list \<Rightarrow> bool" where
  "dirs_apart v S cs \<longleftrightarrow>
     unat (root_dir_lba v) + unat (root_dir_sectors v) \<le> unat (data_start_lba v) \<and>
     (\<forall>c \<in> S. c < FAT32_EOC \<longrightarrow> cluster_ok v c \<and> fat_ok v c \<and> c \<notin> set cs)"

lemma cluster_apart:
  assumes "file_clusters_ok v cs" "cluster_ok v c" "c \<notin> set cs"
  shows "cluster_sectors v c \<inter> file_sectors v cs = {}"
proof -
  have "cluster_sectors v c \<inter> cluster_sectors v x = {}" if "x \<in> set cs" for x
    using assms that by (intro cluster_sectors_disjoint) (auto simp: file_clusters_ok_def cluster_ok_def)
  then show ?thesis by (auto simp: file_sectors_def)
qed

lemma root_read_agree:
  assumes "disk_laws sect dev" "disk_laws sect dev'" "agree_off sect A (driver_data dev) (driver_data dev')"
    and "A \<subseteq> {unat (data_start_lba v) ..}" "s < unat (root_dir_sectors v)"
    and "unat (root_dir_lba v) + unat (root_dir_sectors v) \<le> unat (data_start_lba v)"
  shows "block_read (Some dev') (ucast (root_dir_lba v + of_nat s)) 1 =
    block_read (Some dev) (ucast (root_dir_lba v + of_nat s)) 1"
proof -
  let ?l = "ucast (root_dir_lba v + of_nat s) :: u64"
  have "unat (root_dir_lba v + of_nat s) = unat (root_dir_lba v) + s"
    using assms(5,6) unat_u32 [of "data_start_lba v"] by (simp add: unat_word_ariths unat_of_nat)
  then have l: "unat ?l < unat (data_start_lba v)" using assms(5,6) by simp
  then have "sectors sect (driver_data dev') ?l 1 = sectors sect (driver_data dev) ?l 1"
    using assms(4) unat_u64 [of ?l] by (intro agree_off_sectors [OF assms(3)]) auto
  then show ?thesis using block_read_ok [OF assms(1), of 1 ?l] block_read_ok [OF assms(2), of 1 ?l] by simp
qed

lemma same_dirs_agree:
  assumes laws: "disk_laws sect dev" "disk_laws sect dev'"
    and agree: "agree_off sect (file_sectors v cs) (driver_data dev) (driver_data dev')"
    and ok: "file_clusters_ok v cs" "0 < spc v" "dirs_apart v S cs" "dirs_closed v (Some dev) S"
  shows "same_dirs v S (Some dev) (Some dev')"
  unfolding same_dirs_def
proof (intro conjI ballI allI impI)
  fix c assume c: "c \<in> S" "c < FAT32_EOC"
  then have "cluster_ok v c" "fat_ok v c" "c \<notin> set cs" using ok(3) by (auto simp: dirs_apart_def)
  then show "read_cluster v (Some dev') c = read_cluster v (Some dev) c"
    using laws ok(2) cdata_agree [OF agree cluster_apart [OF ok(1)]] by (simp add: read_cluster_ok)
  show "next_cluster v (Some dev') c = next_cluster v (Some dev) c"
    using next_cluster_agree [OF laws \<open>fat_ok v c\<close> agree file_sectors_data] .
  show "next_cluster v (Some dev) c \<in> S" using c ok(4) by (simp add: dirs_closed_def)
next
  fix s assume "s < unat (root_dir_sectors v)"
  then show "block_read (Some dev') (ucast (root_dir_lba v + of_nat s)) 1 =
    block_read (Some dev) (ucast (root_dir_lba v + of_nat s)) 1"
    using root_read_agree [OF laws agree file_sectors_data] ok(3) by (simp add: dirs_apart_def)
qed

text \<open>A regular file with its chain, on a volume whose directories lie apart from it.\<close>

definition file_at :: "('d \<Rightarrow> u64 \<Rightarrow> bytes) \<Rightarrow> Fat32Volume \<Rightarrow> u32 set \<Rightarrow> 'd BlockDevice \<Rightarrow> bytes \<Rightarrow> Fat32DirEntry \<Rightarrow> u32 list \<Rightarrow> bool" where
  "file_at sect v S dev name e cs \<longleftrightarrow>
     disk_laws sect dev \<and> 0 < sectors_per_cluster v \<and> sectors_per_cluster v \<le> 8 \<and>
     fat32_find_root v (Some dev) name = Some (Some e) \<and> attributes e AND FAT32_ATTR_DIRECTORY = 0 \<and>
     chain_from v (Some dev) (first_cluster e) cs \<and> file_clusters_ok v cs \<and>
     unat (entry_size e) \<le> length cs * cluster_bytes v \<and>
     dirs_closed v (Some dev) S \<and> dirs_apart v S cs"

lemma file_at_spc: "file_at sect v S dev name e cs \<Longrightarrow> 0 < spc v"
  by (simp add: file_at_def spc_def word_less_nat_alt)

lemma file_at_read:
  assumes f: "file_at sect v S dev name e cs" and b: "entry_size e \<le> b"
  shows "fat32_read_file v (Some dev) name b = Some (Some (take (unat (entry_size e)) (content sect v dev cs)))"
proof -
  have "read_chain v (Some dev) (entry_size e) (first_cluster e) [] = Some (take (unat (entry_size e)) (content sect v dev cs))"
    using f read_chain_content [where sect = sect, OF _ file_at_spc [OF f], of dev "first_cluster e" cs "entry_size e" "[]"]
    by (simp add: file_at_def)
  then show ?thesis using f b by (simp add: fat32_read_file_def file_at_def not_less)
qed

lemma file_at_write:
  assumes f: "file_at sect v S dev name e cs" and n: "n \<le> entry_size e" "unat n \<le> length data"
  shows "\<exists>dev'. fat32_write_file v (Some dev) name data n = Some (Some dev', 0) \<and>
    disk_laws sect dev' \<and> agree_off sect (file_sectors v cs) (driver_data dev) (driver_data dev') \<and>
    content sect v dev' cs = take (unat n) data @ drop (unat n) (content sect v dev cs) \<and>
    (\<forall>path. fat32_find_root v (Some dev') path = fat32_find_root v (Some dev) path)"
proof -
  note f' = f [unfolded file_at_def]
  have "unat n \<le> length cs * cluster_bytes v" using n(1) f' by (simp add: word_le_nat_alt)
  then obtain dev' where dev': "write_chain v (Some dev) data (unat n) (first_cluster e) 0 = (Some dev', 0)"
      "disk_laws sect dev'" "agree_off sect (file_sectors v cs) (driver_data dev) (driver_data dev')"
      "content sect v dev' cs = take (unat n) data @ drop (unat n) (content sect v dev cs)"
    using write_chain_ok [where sect = sect, OF file_at_spc [OF f] n(2), of dev "first_cluster e" cs 0] f' by auto
  have "same_dirs v S (Some dev) (Some dev')"
    using f' dev'(2,3) file_at_spc [OF f] by (intro same_dirs_agree [where sect = sect and cs = cs]) auto
  then have "fat32_find_root v (Some dev') path = fat32_find_root v (Some dev) path" for path
    using f' unfolding fat32_find_root_def by (intro find_path_agree [where S = S]) auto
  moreover have "fat32_write_file v (Some dev) name data n = Some (Some dev', 0)"
    using f' n dev'(1) by (simp add: fat32_write_file_def not_less)
  ultimately show ?thesis using dev' by blast
qed

lemma file_at_agree:
  assumes f: "file_at sect v S dev name e cs" and laws: "disk_laws sect dev'"
    and agree: "agree_off sect (file_sectors v ds) (driver_data dev) (driver_data dev')"
    and ds: "file_clusters_ok v ds" "dirs_apart v S ds"
    and find: "\<forall>path. fat32_find_root v (Some dev') path = fat32_find_root v (Some dev) path"
  shows "file_at sect v S dev' name e cs"
proof -
  note f' = f [unfolded file_at_def]
  have same: "same_dirs v S (Some dev) (Some dev')"
    using f' laws agree ds file_at_spc [OF f] by (intro same_dirs_agree [where sect = sect and cs = ds]) auto
  have "dirs_closed v (Some dev') S"
    unfolding dirs_closed_def
  proof (intro conjI ballI allI impI)
    have cl: "dirs_closed v (Some dev) S" using f' by simp
    show "root_cluster v \<in> S" if "fat_type v = PEANUT_FAT32" using that cl by (simp add: dirs_closed_def)
    show "next_cluster v (Some dev') c \<in> S" if "c \<in> S" "c < FAT32_EOC" for c
      using that cl same by (simp add: dirs_closed_def same_dirs_def)
    show "first_cluster e \<in> S"
      if "fat32_list_root v (Some dev') 64 = Some es" "e \<in> set es" "attributes e AND FAT32_ATTR_DIRECTORY \<noteq> 0" for es e
      using that cl list_root_agree [OF same cl, of 64] unfolding dirs_closed_def by auto
    show "first_cluster e \<in> S"
      if "c \<in> S" "list_cluster_entries v (Some dev') c 64 = Some es" "e \<in> set es" "attributes e AND FAT32_ATTR_DIRECTORY \<noteq> 0"
      for c es e
    proof -
      have "list_cluster_entries v (Some dev) c 64 = Some es"
        using that(1,2) list_chain_agree [OF same] by (simp add: list_cluster_entries_def split: if_splits)
      then show ?thesis using that cl unfolding dirs_closed_def by blast
    qed
  qed
  moreover have "chain_from v (Some dev') (first_cluster e) cs"
    using f' chain_from_agree [OF _ laws agree file_sectors_data] by (simp add: file_clusters_ok_def)
  ultimately show ?thesis using f' laws find by (simp add: file_at_def)
qed

section \<open>Listing a directory\<close>

text \<open>A listing never holds more than the entries asked for, and it ends on a chain that ends.\<close>

lemma scan_dir_length: "length out \<le> m \<Longrightarrow> length (fst (scan_dir buf limit m off lfn out)) \<le> m"
proof (induction buf limit m off lfn out rule: scan_dir.induct)
  case (1 buf limit m off lfn out)
  then show ?case by (subst scan_dir.simps) (auto simp: Let_def split: dir_parse.split)
qed

lemma list_fixed_root_length: "length out \<le> m \<Longrightarrow> length (list_fixed_root v disk m s lfn out) \<le> m"
proof (induction v disk m s lfn out rule: list_fixed_root.induct)
  case (1 v disk m s lfn out)
  then show ?case
    using scan_dir_length [OF "1.prems"]
    by (subst list_fixed_root.simps) (auto split: option.split prod.split, (metis fst_conv)+)
qed

fun full_chain :: "Fat32Volume \<Rightarrow> 'd BlockDevice option \<Rightarrow> u32 \<Rightarrow> u32 list \<Rightarrow> bool" where
  "full_chain v disk c [] \<longleftrightarrow> FAT32_EOC \<le> c"
| "full_chain v disk c (x # xs) \<longleftrightarrow> x = c \<and> full_chain v disk (next_cluster v disk c) xs"

lemma list_chain_returns:
  "full_chain v disk c cs \<Longrightarrow> length out \<le> m \<Longrightarrow> \<exists>es. list_chain v disk m c out = Some es \<and> length es \<le> m"
proof (induction cs arbitrary: c out)
  case Nil
  then show ?case by (subst list_chain.simps) (auto simp: not_less [symmetric])
next
  case (Cons x cs)
  show ?case
  proof (cases "read_cluster v disk c")
    case None
    then show ?thesis using Cons.prems by (subst list_chain.simps) simp
  next
    case (Some buf)
    obtain out' lfn' stop where s: "scan_dir buf (cluster_bytes v) m 0 empty_lfn out = (out', lfn', stop)"
      by (metis prod_cases3)
    have "length out' \<le> m" using scan_dir_length [OF Cons.prems(2), of buf "cluster_bytes v" 0 empty_lfn] by (simp add: s)
    then show ?thesis using Cons by (subst list_chain.simps) (auto simp: Some s)
  qed
qed

lemma list_chain_loops:
  assumes "c < FAT32_EOC" "next_cluster v disk c = c" "read_cluster v disk c = Some buf" "length out < m"
    and "scan_dir buf (cluster_bytes v) m 0 empty_lfn out = (out, lfn, False)"
  shows "list_chain v disk m c out = None"
proof (rule ccontr)
  assume "list_chain v disk m c out \<noteq> None"
  then obtain r where "list_chain v disk m c out = Some r" by auto
  then have "\<not> (v = v \<and> disk = disk \<and> m = m \<and> c = c \<and> out = out)"
    by (rule list_chain.raw_induct [rotated, where
        P = "\<lambda>v' disk' m' c' out' r. \<not> (v' = v \<and> disk' = disk \<and> m' = m \<and> c' = c \<and> out' = out)"])
      (use assms in \<open>fastforce split: if_splits\<close>)
  then show False by simp
qed

section \<open>Long names\<close>

lemma lfn_loop_effect:
  assumes "\<forall>off \<in> set offs. le16 raw off \<noteq> 0 \<and> le16 raw off < 128"
  shows "k + length offs < length lfn \<Longrightarrow> offs \<noteq> [] \<Longrightarrow>
    take (k + length offs + 1) (lfn_loop raw k offs lfn) = take k lfn @ map (\<lambda>off. ucast (le16 raw off)) offs @ [0]"
  using assms
proof (induction offs arbitrary: k lfn)
  case (Cons off offs)
  let ?lfn = "lfn[k := ucast (le16 raw off), k + 1 := 0]"
  have ch: "le16 raw off \<noteq> 0" "le16 raw off < 128" "le16 raw off \<noteq> 0xFFFF" using Cons.prems by auto
  have k: "k + 1 < length lfn" using Cons.prems by simp
  then have step: "lfn_loop raw k (off # offs) lfn = lfn_loop raw (k + 1) offs ?lfn" using ch by (simp add: Let_def)
  have pre: "take (k + 1) ?lfn = take k lfn @ [ucast (le16 raw off)]"
    using k by (simp add: take_update_swap take_Suc_conv_app_nth list_update_append)
  show ?case
  proof (cases "offs = []")
    case True
    have "take (k + 2) ?lfn = take (k + 1) ?lfn @ [?lfn ! (k + 1)]"
      using k by (simp add: take_Suc_conv_app_nth)
    then show ?thesis using k step pre by (simp add: True)
  next
    case False
    have "take ((k + 1) + length offs + 1) (lfn_loop raw (k + 1) offs ?lfn) = take (k + 1) ?lfn @ map (\<lambda>off. ucast (le16 raw off)) offs @ [0]"
      using Cons.prems False by (intro Cons.IH) auto
    then show ?thesis using step pre by simp
  qed
qed simp

section \<open>A volume to run the code on\<close>

text \<open>A FAT12 volume with a fixed root directory of one sector: the files A of five bytes in
  cluster 2 and B of three bytes in cluster 3.\<close>

definition demo_entry :: "u8 \<Rightarrow> u8 \<Rightarrow> u8 \<Rightarrow> bytes" where
  "demo_entry name cluster sz = name # replicate 11 0x20 @ replicate 14 0 @ [cluster, 0, sz, 0, 0, 0]"

definition demo_fat :: "u64 \<Rightarrow> bytes" where
  "demo_fat l = (if l = 1 then replicate 512 0xFF
     else if l = 3 then demo_entry 0x41 2 5 @ demo_entry 0x42 3 3 else [])"

definition demo_fat_volume :: Fat32Volume where
  "demo_fat_volume = \<lparr>fat_part = \<lparr>part_type = 1, first_lba = 0, part_sectors = 64\<rparr>, fat_type = PEANUT_FAT12, fat_start_lba = 1, data_start_lba = 4, root_dir_lba = 3,
     root_dir_sectors = 1, root_cluster = 0, sectors_per_fat = 1, sectors_per_cluster = 1, root_entry_count = 16\<rparr>"

definition demo_file :: "u8 \<Rightarrow> u32 \<Rightarrow> u32 \<Rightarrow> Fat32DirEntry" where
  "demo_file name cluster sz = \<lparr>entry_name = [name], attributes = 0x20, first_cluster = cluster, entry_size = sz\<rparr>"

abbreviation "demo_disk \<equiv> ram_disk demo_fat"

lemma demo_list:
  "fat32_list_root demo_fat_volume (Some demo_disk) 64 = Some [demo_file 0x41 2 5, demo_file 0x42 3 3]"
  by code_simp

lemma demo_dirs:
  "dirs_closed demo_fat_volume (Some demo_disk) {}" "dirs_apart demo_fat_volume {} cs"
proof -
  have "fat_type demo_fat_volume \<noteq> PEANUT_FAT32" by code_simp
  moreover have "attributes e AND FAT32_ATTR_DIRECTORY = 0" if "e \<in> set [demo_file 0x41 2 5, demo_file 0x42 3 3]" for e
    using that by (auto simp: demo_file_def FAT32_ATTR_DIRECTORY_def)
  ultimately show "dirs_closed demo_fat_volume (Some demo_disk) {}"
    unfolding dirs_closed_def demo_list by auto
  show "dirs_apart demo_fat_volume {} cs" by (simp add: dirs_apart_def demo_fat_volume_def)
qed

lemma demo_file_at:
  "file_at ram_sect demo_fat_volume {} demo_disk [0x41] (demo_file 0x41 2 5) [2]"
  "file_at ram_sect demo_fat_volume {} demo_disk [0x62] (demo_file 0x42 3 3) [3]"
proof -
  have "fat32_find_root demo_fat_volume (Some demo_disk) [0x41] = Some (Some (demo_file 0x41 2 5))"
      "fat32_find_root demo_fat_volume (Some demo_disk) [0x62] = Some (Some (demo_file 0x42 3 3))"
      "chain_from demo_fat_volume (Some demo_disk) (first_cluster (demo_file 0x41 2 5)) [2]"
      "chain_from demo_fat_volume (Some demo_disk) (first_cluster (demo_file 0x42 3 3)) [3]"
    by code_simp+
  moreover have "file_clusters_ok demo_fat_volume [2]" "file_clusters_ok demo_fat_volume [3]"
    by (simp_all add: file_clusters_ok_def cluster_ok_def fat_ok_def fat_index_def spc_def demo_fat_volume_def fat_consts)
  ultimately show "file_at ram_sect demo_fat_volume {} demo_disk [0x41] (demo_file 0x41 2 5) [2]"
      "file_at ram_sect demo_fat_volume {} demo_disk [0x62] (demo_file 0x42 3 3) [3]"
    by (simp_all only: file_at_def ram_disk_laws demo_dirs)
      (simp_all add: demo_file_def demo_fat_volume_def cluster_bytes_def FAT32_ATTR_DIRECTORY_def)
qed

definition demo_fat32_volume :: Fat32Volume where
  "demo_fat32_volume = demo_fat_volume\<lparr>fat_type := PEANUT_FAT32, root_cluster := 2\<rparr>"

text \<open>A FAT32 volume whose root cluster holds only deleted entries and is its own successor.\<close>

definition demo_loop :: "u64 \<Rightarrow> bytes" where
  "demo_loop l = (if l = 1 then replicate 8 0 @ [2] else if l = 4 then replicate 512 0xE5 else [])"

text \<open>The record with sequence number 1 of a long name.\<close>

definition demo_lfn :: bytes where
  "demo_lfn = 1 # concat (replicate 5 [0x61, 0]) @ [15, 0, 0] @ concat (replicate 6 [0x61, 0]) @ [0, 0, 0x61, 0, 0x61, 0]"

section \<open>Properties\<close>

text \<open>C6. Overwriting a regular file that is on the volume succeeds, and reading it back gives
  the bytes written followed by the old bytes past them: the size of the file is kept.\<close>

theorem fat32_write_read:
  assumes "file_at sect v S dev name e cs" and "n \<le> entry_size e" and "unat n \<le> length data" and "entry_size e \<le> b"
  shows "\<exists>dev' old. fat32_read_file v (Some dev) name b = Some (Some old) \<and> length old = unat (entry_size e) \<and>
    fat32_write_file v (Some dev) name data n = Some (Some dev', 0) \<and>
    fat32_read_file v (Some dev') name b = Some (Some (take (unat n) data @ drop (unat n) old))"
proof -
  note f = assms(1) [unfolded file_at_def]
  obtain dev' where dev': "fat32_write_file v (Some dev) name data n = Some (Some dev', 0)"
      "disk_laws sect dev'" "agree_off sect (file_sectors v cs) (driver_data dev) (driver_data dev')"
      "content sect v dev' cs = take (unat n) data @ drop (unat n) (content sect v dev cs)"
      "\<forall>path. fat32_find_root v (Some dev') path = fat32_find_root v (Some dev) path"
    using file_at_write [OF assms(1-3)] by blast
  have f': "file_at sect v S dev' name e cs"
    using f by (intro file_at_agree [OF assms(1) dev'(2,3) _ _ dev'(5)]) auto
  have "length (content sect v dev cs) = length cs * cluster_bytes v" using f by (simp add: length_content)
  then have "length (take (unat (entry_size e)) (content sect v dev cs)) = unat (entry_size e)" using f by simp
  moreover have "take (unat (entry_size e)) (content sect v dev' cs) =
      take (unat n) data @ drop (unat n) (take (unat (entry_size e)) (content sect v dev cs))"
    using assms(2,3) by (simp add: dev'(4) word_le_nat_alt drop_take min_def)
  ultimately show ?thesis
    using file_at_read [OF assms(1,4)] file_at_read [OF f' assms(4)] dev'(1) by auto
qed

theorem fat32_write_read_witness:
  "\<exists>dev'. fat32_write_file demo_fat_volume (Some demo_disk) [0x41] [7, 8] 2 = Some (Some dev', 0) \<and>
    fat32_read_file demo_fat_volume (Some dev') [0x41] 16 = Some (Some [7, 8, 0, 0, 0])"
proof -
  have old: "fat32_read_file demo_fat_volume (Some demo_disk) [0x41] 16 = Some (Some [0, 0, 0, 0, 0])"
    by code_simp
  show ?thesis
    using fat32_write_read [OF demo_file_at(1), of 2 "[7, 8]" 16] unfolding old by (simp add: demo_file_def)
qed

text \<open>C18. A write leaves every other file as it was: a file whose clusters are none of the
  written ones reads the same before and after.\<close>

theorem fat32_write_others:
  assumes "file_at sect v S dev name e cs" and "n \<le> entry_size e" and "unat n \<le> length data"
    and "file_at sect v S dev other e' ds" and "set cs \<inter> set ds = {}" and "entry_size e' \<le> b"
  shows "\<exists>dev'. fat32_write_file v (Some dev) name data n = Some (Some dev', 0) \<and>
    fat32_read_file v (Some dev') other b = fat32_read_file v (Some dev) other b"
proof -
  note f = assms(1) [unfolded file_at_def] and g = assms(4) [unfolded file_at_def]
  obtain dev' where dev': "fat32_write_file v (Some dev) name data n = Some (Some dev', 0)"
      "disk_laws sect dev'" "agree_off sect (file_sectors v cs) (driver_data dev) (driver_data dev')"
      "\<forall>path. fat32_find_root v (Some dev') path = fat32_find_root v (Some dev) path"
    using file_at_write [OF assms(1-3)] by blast
  have g': "file_at sect v S dev' other e' ds"
    using f by (intro file_at_agree [OF assms(4) dev'(2,3) _ _ dev'(4)]) auto
  have "\<forall>c \<in> set ds. cluster_ok v c \<and> cluster_sectors v c \<inter> file_sectors v cs = {}"
    using f g assms(5) cluster_apart [of v cs] unfolding file_clusters_ok_def by blast
  then have "content sect v dev' ds = content sect v dev ds"
    by (rule content_agree [OF dev'(3) file_at_spc [OF assms(1)]])
  then show ?thesis
    using file_at_read [OF assms(4,6)] file_at_read [OF g' assms(6)] dev'(1) by auto
qed

theorem fat32_write_others_witness:
  "\<exists>dev'. fat32_write_file demo_fat_volume (Some demo_disk) [0x41] [7, 8] 2 = Some (Some dev', 0) \<and>
    fat32_read_file demo_fat_volume (Some dev') [0x62] 16 = Some (Some [0, 0, 0])"
proof -
  have old: "fat32_read_file demo_fat_volume (Some demo_disk) [0x62] 16 = Some (Some [0, 0, 0])"
    by code_simp
  show ?thesis
    using fat32_write_others [OF demo_file_at(1) _ _ demo_file_at(2), of 2 "[7, 8]" 16] unfolding old
    by (simp add: demo_file_def)
qed

text \<open>Names are compared as if both were written in upper case.\<close>

lemma streq_ci_upper: "streq_ci a b \<longleftrightarrow> map upper_ascii a = map upper_ascii b"
  by (induction a b rule: streq_ci.induct) auto

text \<open>C19. Listing the root directory of a FAT32 volume returns when its cluster chain reaches an
  end marker, with at most as many entries as were asked for.\<close>

theorem fat32_list_root_returns:
  assumes "fat_type v = PEANUT_FAT32 \<longrightarrow> full_chain v disk (root_cluster v) cs"
  shows "\<exists>es. fat32_list_root v disk m = Some es \<and> length es \<le> m"
  using assms list_chain_returns [of v disk "root_cluster v" cs "[]" m] list_fixed_root_length [of "[]" m v disk 0 empty_lfn]
  by (auto simp: fat32_list_root_def)

theorem fat32_list_root_returns_witness:
  "full_chain demo_fat32_volume (Some demo_disk) 2 [2] \<and>
   (\<exists>es. fat32_list_root demo_fat32_volume (Some demo_disk) 4 = Some es \<and> length es \<le> 4)"
proof -
  have "full_chain demo_fat32_volume (Some demo_disk) (root_cluster demo_fat32_volume) [2]" by code_simp
  then show ?thesis
    using fat32_list_root_returns [of demo_fat32_volume "Some demo_disk" "[2]" 4] by (simp add: demo_fat32_volume_def)
qed

text \<open>C20. A damaged chain is not detected: when a root cluster holding only deleted entries is its
  own successor, listing the root never returns.\<close>

theorem fat32_list_root_hangs:
  assumes "fat_type v = PEANUT_FAT32" and "sectors_per_cluster v \<le> 8" and "0 < m"
    and "root_cluster v < FAT32_EOC" "next_cluster v disk (root_cluster v) = root_cluster v"
    and "read_cluster v disk (root_cluster v) = Some buf" 
    and "scan_dir buf (cluster_bytes v) m 0 empty_lfn [] = ([], lfn, False)"
  shows "fat32_list_root v disk m = None"
  using assms list_chain_loops [of "root_cluster v" v disk buf "[]" m lfn] by (simp add: fat32_list_root_def not_less)

theorem fat32_list_root_hangs_witness: "fat32_list_root demo_fat32_volume (Some (ram_disk demo_loop)) 8 = None"
proof (rule fat32_list_root_hangs)
  show "read_cluster demo_fat32_volume (Some (ram_disk demo_loop)) (root_cluster demo_fat32_volume) = Some (replicate 512 0xE5)"
    by code_simp
  show "scan_dir (replicate 512 0xE5) (cluster_bytes demo_fat32_volume) 8 0 empty_lfn [] = ([], empty_lfn, False)"
    by code_simp
  show "next_cluster demo_fat32_volume (Some (ram_disk demo_loop)) (root_cluster demo_fat32_volume) = root_cluster demo_fat32_volume"
    by code_simp
qed (simp_all add: demo_fat32_volume_def demo_fat_volume_def FAT32_EOC_def)

text \<open>A long file name is cut after 13 characters: the last record met is the one with
  sequence number 1, and copying its 13 characters puts a terminator over the first character
  of the part already copied from record 2.\<close>

theorem parse_lfn_truncates:
  assumes "length lfn = FAT32_MAX_NAME" and "raw ! 0 = 1"
    and "\<forall>off \<in> set lfn_offsets. le16 raw off \<noteq> 0 \<and> le16 raw off < 128"
  shows "cstr (parse_lfn_entry raw lfn) = map (\<lambda>off. ucast (le16 raw off)) lfn_offsets"
proof -
  let ?cs = "map (\<lambda>off. ucast (le16 raw off)) lfn_offsets :: bytes"
  have "parse_lfn_entry raw lfn = lfn_loop raw 0 lfn_offsets lfn"
    using assms by (simp add: parse_lfn_entry_def FAT32_MAX_NAME_def Let_def)
  moreover have offs: "length lfn_offsets = 13" "lfn_offsets \<noteq> []" by (simp_all add: lfn_offsets_def)
  have "take 14 (lfn_loop raw 0 lfn_offsets lfn) = ?cs @ [0]"
    using lfn_loop_effect [OF assms(3), of 0 lfn] assms(1) offs by (simp add: FAT32_MAX_NAME_def)
  then obtain r where r: "lfn_loop raw 0 lfn_offsets lfn = ?cs @ [0] @ r"
    by (metis append_take_drop_id append_assoc)
  have nz: "b \<noteq> 0" if b: "b \<in> set ?cs" for b
  proof -
    obtain off where off: "off \<in> set lfn_offsets" "b = ucast (le16 raw off)" using b by auto
    then have "le16 raw off \<noteq> 0" "unat (le16 raw off) < 128" using assms(3) by (auto simp: word_less_nat_alt)
    then have "unat b = unat (le16 raw off)" unfolding off(2) unsigned_ucast_eq by (simp add: take_bit_nat_eq_self_iff)
    then show ?thesis using \<open>le16 raw off \<noteq> 0\<close> by (auto simp: unat_eq_0)
  qed
  have "takeWhile (\<lambda>b. b \<noteq> 0) (?cs @ [0] @ r) = ?cs"
    using takeWhile_append2 [of ?cs "\<lambda>b. b \<noteq> 0" "[0] @ r", OF nz] by simp
  ultimately show ?thesis by (simp only: cstr_def r)
qed

theorem parse_lfn_truncates_witness: "cstr (parse_lfn_entry demo_lfn (replicate 64 0x62)) = replicate 13 0x61"
proof -
  have "\<forall>off \<in> set lfn_offsets. le16 demo_lfn off \<noteq> 0 \<and> le16 demo_lfn off < 128" by code_simp
  moreover have "map (\<lambda>off. ucast (le16 demo_lfn off)) lfn_offsets = replicate 13 (0x61 :: u8)" by code_simp
  ultimately show ?thesis
    using parse_lfn_truncates [of "replicate 64 0x62" demo_lfn] by (simp add: FAT32_MAX_NAME_def demo_lfn_def)
qed

end
