(* ===== verification/Extfs.thy ===== *)
theory Extfs
  imports Partition
begin

text \<open>
  \<^verbatim>\<open>src/src/fs/extfs.c\<close>: byte-granular access to a partition, mounting an ext2/3/4
  volume, inodes, the direct, indirect and extent maps from a file's block number to the
  volume's, directories, paths, and reading and overwriting files.

  An inode buffer is the list of the bytes read.  The source never looks at an inode past byte
  128, which every accepted inode size covers, except through an extent header with more than
  four entries, where it reads past what it loaded; the model leaves those bytes unspecified, as
  it does for a directory record whose name runs past its block, and for a block size exponent of
  32 or more (an undefined shift in C) it takes the shift to give 0, which is refused.

  An extent tree read from the disk may be cyclic, and then the recursion of the source does not
  end: \<open>map_extents_recurse\<close> is a partial function and everything that maps a block
  returns an option, None meaning it does not return.
\<close>

definition EXT_SUPERBLOCK_OFFSET :: u64 where "EXT_SUPERBLOCK_OFFSET = 1024"
definition EXT_SUPER_MAGIC :: u16 where "EXT_SUPER_MAGIC = 0xEF53"
definition EXT_INODE_MODE_DIR :: u32 where "EXT_INODE_MODE_DIR = 0x4000"
definition EXT_INODE_MODE_REG :: u32 where "EXT_INODE_MODE_REG = 0x8000"
definition EXT_FEATURE_INCOMPAT_64BIT :: u32 where "EXT_FEATURE_INCOMPAT_64BIT = 0x80"
definition EXT_FEATURE_INCOMPAT_META_CSUM :: u32 where "EXT_FEATURE_INCOMPAT_META_CSUM = 0x10"
definition EXT4_EXTENTS_FL :: u32 where "EXT4_EXTENTS_FL = 0x80000"

lemmas ext_consts = EXT_SUPERBLOCK_OFFSET_def EXT_SUPER_MAGIC_def EXT_INODE_MODE_DIR_def EXT_INODE_MODE_REG_def
  EXT_FEATURE_INCOMPAT_64BIT_def EXT_FEATURE_INCOMPAT_META_CSUM_def EXT4_EXTENTS_FL_def

record ExtVolume =
  ext_part :: Partition
  block_size :: u32
  blocks_per_group :: u32
  inodes_per_group :: u32
  inode_size :: u32
  first_data_block :: u32
  group_desc_lba :: u32
  group_desc_off :: u32
  groups :: u32

section \<open>Bytes of a partition\<close>

definition part_bytes_to_lba :: "u64 \<Rightarrow> u64 \<Rightarrow> u64" where
  "part_bytes_to_lba first byte_off = first + byte_off div 512"

lemma unat_mod_512: "unat (pos mod 512 :: u64) < 512"
  by (simp add: unat_mod)

text \<open>\<open>out\<close> holds the bytes read so far, \<open>done\<close> of the source being its length.\<close>

function read_loop :: "'d BlockDevice option \<Rightarrow> u64 \<Rightarrow> u64 \<Rightarrow> nat \<Rightarrow> bytes \<Rightarrow> bytes option" where
  "read_loop d first pos len out =
     (if length out < len then
        case block_read d (part_bytes_to_lba first pos) 1 of
          None \<Rightarrow> None
        | Some sec \<Rightarrow>
            let inn = unat (pos mod 512);
                tk = (if 512 - inn > len - length out then len - length out else 512 - inn)
            in read_loop d first (pos + of_nat tk) len (out @ map (\<lambda>i. sec ! (inn + i)) [0..<tk])
      else Some out)"
  by pat_completeness auto
termination
  by (relation "measure (\<lambda>(d, first, pos, len, out). len - length out)") (auto intro!: diff_less_mono2 simp: unat_mod_512)

definition read_bytes :: "'d BlockDevice option \<Rightarrow> u64 \<Rightarrow> u64 \<Rightarrow> nat \<Rightarrow> bytes option" where
  "read_bytes d first off len = read_loop d first off len []"

text \<open>A sector that is overwritten as a whole is not read first; what the source's buffer holds
  then does not matter.\<close>

function write_loop :: "'d BlockDevice option \<Rightarrow> u64 \<Rightarrow> u64 \<Rightarrow> bytes \<Rightarrow> nat \<Rightarrow> nat \<Rightarrow> 'd BlockDevice option \<times> int" where
  "write_loop d first pos src len don =
     (if don < len then
        let lba = part_bytes_to_lba first pos;
            inn = unat (pos mod 512);
            tk = (if 512 - inn > len - don then len - don else 512 - inn)
        in case (if tk \<noteq> 512 then block_read d lba 1 else Some (replicate 512 0)) of
             None \<Rightarrow> (d, -1)
           | Some sec \<Rightarrow>
               let sec' = take inn sec @ map (\<lambda>i. src ! (don + i)) [0..<tk] @ drop (inn + tk) sec;
                   (d', r) = block_write d lba 1 sec'
               in if r \<noteq> 0 then (d', -1)
                  else write_loop d' first (pos + of_nat tk) src len (don + tk)
      else (d, 0))"
  by pat_completeness auto
termination
  by (relation "measure (\<lambda>(d, first, pos, src, len, don). len - don)") (auto intro!: diff_less_mono2 simp: unat_mod_512)

definition write_bytes :: "'d BlockDevice option \<Rightarrow> u64 \<Rightarrow> u64 \<Rightarrow> bytes \<Rightarrow> nat \<Rightarrow> 'd BlockDevice option \<times> int" where
  "write_bytes d first off src len = write_loop d first off src len 0"

declare read_loop.simps [simp del] write_loop.simps [simp del]

section \<open>Mounting\<close>

definition extfs_probe :: "'d BlockDevice option \<Rightarrow> u64 \<Rightarrow> bool" where
  "extfs_probe disk first =
     (\<not> Option.is_none disk \<and>
      (case read_bytes disk first EXT_SUPERBLOCK_OFFSET 1024 of
         None \<Rightarrow> False
       | Some sb \<Rightarrow> le16 sb 56 = EXT_SUPER_MAGIC))"

definition extfs_mount :: "'d BlockDevice option \<Rightarrow> Partition \<Rightarrow> ExtVolume option" where
  "extfs_mount disk p =
     (if Option.is_none disk then None
      else case read_bytes disk (first_lba p) EXT_SUPERBLOCK_OFFSET 1024 of
        None \<Rightarrow> None
      | Some sb \<Rightarrow>
          if le16 sb 56 \<noteq> EXT_SUPER_MAGIC then None
          else
            let log_block = le32 sb 24;
                bs = push_bit (unat log_block) 1024 :: u32;
                bpg = le32 sb 32;
                ipg = le32 sb 40;
                isz = le16 sb 88;
                fdb = le32 sb 20;
                total_blocks = le32 sb 4;
                feature_incompat = le32 sb 96
            in if bs < 1024 \<or> 4096 < bs then None
               else if isz < 128 \<or> 512 < isz then None
               else if bpg = 0 \<or> ipg = 0 \<or> total_blocks = 0 then None
               else if feature_incompat AND (EXT_FEATURE_INCOMPAT_64BIT OR EXT_FEATURE_INCOMPAT_META_CSUM) \<noteq> 0 then None
               else
                 let gd_table_byte = ucast (fdb + 1) * ucast bs :: u64
                 in Some \<lparr>ext_part = p, block_size = bs, blocks_per_group = bpg, inodes_per_group = ipg,
                      inode_size = ucast isz, first_data_block = fdb,
                      group_desc_lba = ucast (first_lba p + gd_table_byte div 512),
                      group_desc_off = ucast (gd_table_byte mod 512),
                      groups = (total_blocks + bpg - 1) div bpg\<rparr>)"

section \<open>Inodes\<close>

definition read_group_desc :: "ExtVolume \<Rightarrow> 'd BlockDevice option \<Rightarrow> u32 \<Rightarrow> bytes option" where
  "read_group_desc v disk grp =
     (let off = ucast (group_desc_off v) + ucast grp * 32
      in read_bytes disk (first_lba (ext_part v)) ((ucast (group_desc_lba v) - first_lba (ext_part v)) * 512 + off) 32)"

definition read_inode_raw :: "ExtVolume \<Rightarrow> 'd BlockDevice option \<Rightarrow> u32 \<Rightarrow> u32 \<Rightarrow> bytes option" where
  "read_inode_raw v disk inode out_len =
     (if inode = 0 then None
      else
        let idx = inode - 1;
            grp = idx div inodes_per_group v;
            index = idx mod inodes_per_group v
        in if groups v \<le> grp then None
           else case read_group_desc v disk grp of
               None \<Rightarrow> None
             | Some gd \<Rightarrow>
                 let inode_table_byte = ucast (le32 gd 8) * ucast (block_size v) :: u64;
                     inode_off = inode_table_byte + ucast index * ucast (inode_size v);
                     need = (if out_len < inode_size v then out_len else inode_size v)
                 in read_bytes disk (first_lba (ext_part v)) inode_off (unat need))"

definition inode_mode :: "bytes \<Rightarrow> u32" where "inode_mode i = ucast (le16 i 0)"
definition inode_flags :: "bytes \<Rightarrow> u32" where "inode_flags i = le32 i 32"

definition inode_size_bytes :: "bytes \<Rightarrow> u64" where
  "inode_size_bytes i = ucast (le32 i 4) OR push_bit 32 (ucast (le32 i 108))"

definition inode_block_ptr :: "bytes \<Rightarrow> u32 \<Rightarrow> u32" where
  "inode_block_ptr i k = le32 i (40 + unat (k * 4))"

section \<open>Block maps\<close>

definition read_u32_block :: "ExtVolume \<Rightarrow> 'd BlockDevice option \<Rightarrow> u32 \<Rightarrow> u32 \<Rightarrow> u32" where
  "read_u32_block v disk block idx =
     (let per_sec = 512 div 4;
          which_sec = idx div per_sec;
          off = (idx mod per_sec) * 4;
          byte = ucast block * ucast (block_size v) + ucast which_sec * 512 :: u64
      in case read_bytes disk (first_lba (ext_part v)) byte 512 of
           None \<Rightarrow> 0
         | Some sec \<Rightarrow> le32 sec (unat off))"

definition map_indirect :: "ExtVolume \<Rightarrow> 'd BlockDevice option \<Rightarrow> bytes \<Rightarrow> u32 \<Rightarrow> u32" where
  "map_indirect v disk inode lbn =
     (let per = block_size v div 4
      in if lbn < 12 then inode_block_ptr inode lbn
         else let lbn1 = lbn - 12
         in if lbn1 < per then
              let ib = inode_block_ptr inode 12
              in if ib = 0 then 0 else read_u32_block v disk ib lbn1
            else let lbn2 = lbn1 - per
            in if lbn2 < per * per then
                 let dib = inode_block_ptr inode 13
                 in if dib = 0 then 0
                    else let a = read_u32_block v disk dib (lbn2 div per)
                    in if a = 0 then 0 else read_u32_block v disk a (lbn2 mod per)
               else let lbn3 = lbn2 - per * per; tib = inode_block_ptr inode 14
               in if tib = 0 then 0
                  else let a = read_u32_block v disk tib (lbn3 div (per * per))
                  in if a = 0 then 0
                     else let b = read_u32_block v disk a ((lbn3 div per) mod per)
                     in if b = 0 then 0 else read_u32_block v disk b (lbn3 mod per))"

definition read_block_full :: "ExtVolume \<Rightarrow> 'd BlockDevice option \<Rightarrow> u32 \<Rightarrow> bytes option" where
  "read_block_full v disk block =
     read_bytes disk (first_lba (ext_part v)) (ucast block * ucast (block_size v)) (unat (block_size v))"

record ext4_extent_header =
  eh_magic :: u16
  eh_entries :: u16
  eh_max :: u16
  eh_depth :: u16
  eh_gen :: u32

record ext4_extent =
  ee_block :: u32
  ee_len :: u16
  ee_start_hi :: u16
  ee_start_lo :: u32

record ext4_extent_idx =
  ei_block :: u32
  ei_leaf_lo :: u32
  ei_leaf_hi :: u16
  ei_unused :: u16

text \<open>The overlays of the structures on a node: the header of 12 bytes, then entries of 12.\<close>

definition extent_header :: "bytes \<Rightarrow> ext4_extent_header" where
  "extent_header node = \<lparr>eh_magic = le16 node 0, eh_entries = le16 node 2, eh_max = le16 node 4,
     eh_depth = le16 node 6, eh_gen = le32 node 8\<rparr>"

definition extent_at :: "bytes \<Rightarrow> nat \<Rightarrow> ext4_extent" where
  "extent_at node i = \<lparr>ee_block = le32 node (12 + 12 * i), ee_len = le16 node (12 + 12 * i + 4),
     ee_start_hi = le16 node (12 + 12 * i + 6), ee_start_lo = le32 node (12 + 12 * i + 8)\<rparr>"

definition extent_idx_at :: "bytes \<Rightarrow> nat \<Rightarrow> ext4_extent_idx" where
  "extent_idx_at node i = \<lparr>ei_block = le32 node (12 + 12 * i), ei_leaf_lo = le32 node (12 + 12 * i + 4),
     ei_leaf_hi = le16 node (12 + 12 * i + 8), ei_unused = le16 node (12 + 12 * i + 10)\<rparr>"

fun find_extent :: "ext4_extent list \<Rightarrow> u32 \<Rightarrow> u32" where
  "find_extent [] lbn = 0"
| "find_extent (ex # exs) lbn =
     (let start = ee_block ex; len = ucast (ee_len ex) AND 0x7FFF
      in if lbn < start \<or> start + len \<le> lbn then find_extent exs lbn
         else (ee_start_lo ex OR push_bit 16 (ucast (ee_start_hi ex))) + (lbn - start))"

definition pick_idx :: "bytes \<Rightarrow> nat \<Rightarrow> u32 \<Rightarrow> nat" where
  "pick_idx node n lbn = fold (\<lambda>i pick. if ei_block (extent_idx_at node i) \<le> lbn then i else pick) [0..<n] 0"

partial_function (option) map_extents_recurse :: "ExtVolume \<Rightarrow> 'd BlockDevice option \<Rightarrow> bytes \<Rightarrow> u32 \<Rightarrow> u32 option" where
  "map_extents_recurse v disk node lbn =
     (let h = extent_header node; n = unat (eh_entries h)
      in if eh_magic h \<noteq> 0xF30A then Some 0
         else if eh_depth h = 0 then Some (find_extent (map (extent_at node) [0..<n]) lbn)
         else
           let ix = extent_idx_at node (pick_idx node n lbn);
               leaf = ei_leaf_lo ix OR push_bit 16 (ucast (ei_leaf_hi ix))
           in if 4096 < block_size v then Some 0
              else case read_block_full v disk leaf of
                  None \<Rightarrow> Some 0
                | Some buf \<Rightarrow> map_extents_recurse v disk buf lbn)"

declare map_extents_recurse.simps [code]

definition map_block :: "ExtVolume \<Rightarrow> 'd BlockDevice option \<Rightarrow> bytes \<Rightarrow> u32 \<Rightarrow> u32 option" where
  "map_block v disk inode lbn =
     (if inode_flags inode AND EXT4_EXTENTS_FL \<noteq> 0 then map_extents_recurse v disk (drop 40 inode) lbn
      else Some (map_indirect v disk inode lbn))"

section \<open>Directories and paths\<close>

text \<open>The loop over the records of a directory block.  None: it ends without a match; \<open>Some r\<close>:
  the function returns \<open>r\<close>, None being -1.\<close>

function scan_block :: "ExtVolume \<Rightarrow> 'd BlockDevice option \<Rightarrow> bytes \<Rightarrow> bool \<Rightarrow> bytes \<Rightarrow> nat \<Rightarrow> u32 option option" where
  "scan_block v disk name want_dir blk off =
     (if off + 8 \<le> unat (block_size v) then
        let ino = le32 blk off;
            rec = unat (le16 blk (off + 4));
            nlen = unat (blk ! (off + 6));
            tmp = cstr (map (\<lambda>i. blk ! (off + 8 + i)) [0..<nlen])
        in if rec < 8 \<or> unat (block_size v) < off + rec then None
           else if ino \<noteq> 0 \<and> nlen \<noteq> 0 \<and> streq tmp name then
             (if want_dir then
                (case read_inode_raw v disk ino 256 of
                   None \<Rightarrow> Some None
                 | Some child \<Rightarrow>
                     if inode_mode child AND EXT_INODE_MODE_DIR = 0 then Some None else Some (Some ino))
              else Some (Some ino))
           else scan_block v disk name want_dir blk (off + rec)
      else None)"
  by pat_completeness auto
termination
  by (relation "measure (\<lambda>(v, disk, name, want_dir, blk, off). unat (block_size v) - off)") auto

declare scan_block.simps [simp del]

text \<open>The loop over the blocks of a directory.\<close>

function scan_blocks :: "ExtVolume \<Rightarrow> 'd BlockDevice option \<Rightarrow> bytes \<Rightarrow> bytes \<Rightarrow> bool \<Rightarrow> nat \<Rightarrow> nat \<Rightarrow> u32 option option" where
  "scan_blocks v disk inode name want_dir blocks b =
     (if b < blocks then
        (case map_block v disk inode (of_nat b) of
           None \<Rightarrow> None
         | Some pb \<Rightarrow>
             if pb = 0 then Some None
             else (case read_block_full v disk pb of
                 None \<Rightarrow> Some None
               | Some blk \<Rightarrow>
                   (case scan_block v disk name want_dir blk 0 of
                      Some r \<Rightarrow> Some r
                    | None \<Rightarrow> scan_blocks v disk inode name want_dir blocks (b + 1))))
      else Some None)"
  by pat_completeness auto
termination
  by (relation "measure (\<lambda>(v, disk, inode, name, want_dir, blocks, b). blocks - b)") auto

declare scan_blocks.simps [simp del]

text \<open>The number of blocks of a file, as the source computes it in three places.\<close>

definition inode_blocks :: "ExtVolume \<Rightarrow> u64 \<Rightarrow> nat" where
  "inode_blocks v sz = unat (ucast ((sz + ucast (block_size v) - 1) div ucast (block_size v)) :: u32)"

definition read_dir_entries :: "ExtVolume \<Rightarrow> 'd BlockDevice option \<Rightarrow> u32 \<Rightarrow> bytes \<Rightarrow> bool \<Rightarrow> u32 option option" where
  "read_dir_entries v disk dir_inode name want_dir =
     (case read_inode_raw v disk dir_inode 256 of
        None \<Rightarrow> Some None
      | Some i \<Rightarrow>
          if inode_mode i AND EXT_INODE_MODE_DIR = 0 then Some None
          else if 4096 < block_size v then Some None
          else scan_blocks v disk i name want_dir (inode_blocks v (inode_size_bytes i)) 0)"

abbreviation slash :: u8 where "slash \<equiv> 0x2F"

lemma ext_path_shorter:
  "p \<noteq> [] \<Longrightarrow> length (dropWhile ((=) slash) (dropWhile (\<lambda>c. c \<noteq> slash) p)) < length p"
proof (cases p)
  case (Cons c cs)
  have "length (dropWhile ((=) slash) (dropWhile (\<lambda>c. c \<noteq> slash) cs)) \<le> length cs"
    using length_dropWhile_le le_trans by blast
  moreover have "length (dropWhile ((=) slash) cs) \<le> length cs" by (rule length_dropWhile_le)
  ultimately show ?thesis using Cons by (auto simp: less_Suc_eq_le)
qed simp

function ext_walk :: "ExtVolume \<Rightarrow> 'd BlockDevice option \<Rightarrow> u32 \<Rightarrow> bytes \<Rightarrow> u32 option option" where
  "ext_walk v disk cur p =
     (if p = [] then Some (Some cur)
      else
        let comp = takeWhile (\<lambda>c. c \<noteq> slash) p;
            rest = dropWhile ((=) slash) (dropWhile (\<lambda>c. c \<noteq> slash) p)
        in if 256 \<le> length comp then Some None
           else case read_dir_entries v disk cur comp (rest \<noteq> []) of
               None \<Rightarrow> None
             | Some None \<Rightarrow> Some None
             | Some (Some nxt) \<Rightarrow> ext_walk v disk nxt rest)"
  by pat_completeness auto
termination
  by (relation "measure (\<lambda>(v, disk, cur, p). length p)") (simp_all add: ext_path_shorter)

declare ext_walk.simps [simp del]

definition extfs_find_root :: "ExtVolume \<Rightarrow> 'd BlockDevice option \<Rightarrow> bytes \<Rightarrow> u32 option option" where
  "extfs_find_root v disk path =
     ext_walk v disk 2 (case path of [] \<Rightarrow> [] | c # cs \<Rightarrow> if c = slash then cs else path)"

section \<open>Files\<close>

text \<open>The prologue the four operations share: the inode of a path.\<close>

definition find_inode :: "ExtVolume \<Rightarrow> 'd BlockDevice option \<Rightarrow> bytes \<Rightarrow> bytes option option" where
  "find_inode v disk path =
     (case extfs_find_root v disk path of
        None \<Rightarrow> None
      | Some None \<Rightarrow> Some None
      | Some (Some ino) \<Rightarrow> Some (read_inode_raw v disk ino 256))"

definition extfs_stat :: "ExtVolume \<Rightarrow> 'd BlockDevice option \<Rightarrow> bytes \<Rightarrow> (u64 \<times> bool) option option" where
  "extfs_stat v disk path =
     map_option (map_option (\<lambda>i. (inode_size_bytes i, inode_mode i AND EXT_INODE_MODE_DIR \<noteq> 0))) (find_inode v disk path)"

definition extfs_dir_exists :: "ExtVolume \<Rightarrow> 'd BlockDevice option \<Rightarrow> bytes \<Rightarrow> bool option" where
  "extfs_dir_exists v disk path =
     map_option (\<lambda>r. case r of None \<Rightarrow> False | Some i \<Rightarrow> inode_mode i AND EXT_INODE_MODE_DIR \<noteq> 0) (find_inode v disk path)"

function ext_read_loop :: "ExtVolume \<Rightarrow> 'd BlockDevice option \<Rightarrow> bytes \<Rightarrow> u64 \<Rightarrow> nat \<Rightarrow> nat \<Rightarrow> bytes \<Rightarrow> bytes option option" where
  "ext_read_loop v disk inode sz blocks b out =
     (if b < blocks then
        (case map_block v disk inode (of_nat b) of
           None \<Rightarrow> None
         | Some pb \<Rightarrow>
             if pb = 0 then Some None
             else case read_block_full v disk pb of
                 None \<Rightarrow> Some None
               | Some blk \<Rightarrow>
                   let bs = unat (block_size v);
                       tk = (if unat sz < length out + bs then unat sz - length out else bs)
                   in ext_read_loop v disk inode sz blocks (b + 1) (out @ map ((!) blk) [0..<tk]))
      else Some (Some out))"
  by pat_completeness auto
termination
  by (relation "measure (\<lambda>(v, disk, inode, sz, blocks, b, out). blocks - b)") auto

declare ext_read_loop.simps [simp del]

definition extfs_read_file :: "ExtVolume \<Rightarrow> 'd BlockDevice option \<Rightarrow> bytes \<Rightarrow> u32 \<Rightarrow> bytes option option" where
  "extfs_read_file v disk path buffer_size =
     (case find_inode v disk path of
        None \<Rightarrow> None
      | Some None \<Rightarrow> Some None
      | Some (Some i) \<Rightarrow>
          let sz = inode_size_bytes i
          in if inode_mode i AND EXT_INODE_MODE_REG = 0 then Some None
             else if ucast buffer_size < sz then Some None
             else if 4096 < block_size v then Some None
             else ext_read_loop v disk i sz (inode_blocks v sz) 0 [])"

text \<open>\<open>written\<close> counts the bytes of the file passed so far; the blocks hold what the buffer
  has for them, and keep their bytes past the end of the buffer.\<close>

function ext_write_loop ::
  "ExtVolume \<Rightarrow> 'd BlockDevice option \<Rightarrow> bytes \<Rightarrow> bytes \<Rightarrow> nat \<Rightarrow> u64 \<Rightarrow> nat \<Rightarrow> nat \<Rightarrow> nat \<Rightarrow> ('d BlockDevice option \<times> int) option" where
  "ext_write_loop v disk inode buffer n sz blocks b written =
     (if b < blocks then
        (case map_block v disk inode (of_nat b) of
           None \<Rightarrow> None
         | Some pb \<Rightarrow>
             if pb = 0 then Some (disk, -1)
             else
               let bs = unat (block_size v);
                   tk = (if unat sz < written + bs then unat sz - written else bs)
               in case read_block_full v disk pb of
                    None \<Rightarrow> Some (disk, -1)
                  | Some blk \<Rightarrow>
                      let k = (if n - written < tk then n - written else tk);
                          blk' = map (\<lambda>j. buffer ! (written + j)) [0..<k] @ drop k blk;
                          (disk', r) = write_bytes disk (first_lba (ext_part v)) (ucast pb * ucast (block_size v)) blk' bs
                      in if r \<noteq> 0 then Some (disk', -1)
                         else if n \<le> written + tk then Some (disk', if written + tk = n then 0 else -1)
                         else ext_write_loop v disk' inode buffer n sz blocks (b + 1) (written + tk))
      else Some (disk, if written = n then 0 else -1))"
  by pat_completeness auto
termination
  by (relation "measure (\<lambda>(v, disk, inode, buffer, n, sz, blocks, b, written). blocks - b)") auto

declare ext_write_loop.simps [simp del]

definition extfs_write_file ::
  "ExtVolume \<Rightarrow> 'd BlockDevice option \<Rightarrow> bytes \<Rightarrow> bytes \<Rightarrow> u32 \<Rightarrow> ('d BlockDevice option \<times> int) option" where
  "extfs_write_file v disk path buffer buffer_size =
     (case find_inode v disk path of
        None \<Rightarrow> None
      | Some None \<Rightarrow> Some (disk, -1)
      | Some (Some i) \<Rightarrow>
          let sz = inode_size_bytes i
          in if inode_mode i AND EXT_INODE_MODE_REG = 0 then Some (disk, -1)
             else if sz < ucast buffer_size then Some (disk, -1)
             else if sz = 0 then Some (disk, if buffer_size = 0 then 0 else -1)
             else if 4096 < block_size v then Some (disk, -1)
             else ext_write_loop v disk i buffer (unat buffer_size) sz (inode_blocks v sz) 0 0)"

end
