(* ===== verification/Extfs_Props.thy ===== *)
theory Extfs_Props
  imports Extfs
begin

text \<open>
  The properties of \<^verbatim>\<open>src/src/fs/extfs.c\<close>.  A partition is a flat array of bytes
  (\<open>part_byte\<close>), which the sector-wise transfers implement; a file is the sequence of the
  bytes of its blocks.
\<close>

section \<open>A partition as an array of bytes\<close>

definition part_byte :: "('d \<Rightarrow> u64 \<Rightarrow> bytes) \<Rightarrow> 'd BlockDevice \<Rightarrow> u64 \<Rightarrow> nat \<Rightarrow> u8" where
  "part_byte sect dev first p = sect (driver_data dev) (first + of_nat (p div 512)) ! (p mod 512)"

lemma sectors_one: "sectors sect d lba 1 = sect d lba"
  by (simp add: sectors_def)

lemma same_sector:
  fixes q :: nat
  assumes "i < 512 - q mod 512"
  shows "(q + i) div 512 = q div 512" "(q + i) mod 512 = q mod 512 + i"
proof -
  have e: "q + i = q div 512 * 512 + (q mod 512 + i)" by simp
  have r: "q mod 512 + i < 512" using assms by (simp add: less_diff_conv add.commute)
  show "(q + i) div 512 = q div 512" by (subst e, subst div_mult_self3) (simp_all add: r)
  show "(q + i) mod 512 = q mod 512 + i" by (subst e, subst mod_mult_self3) (simp add: r)
qed

lemma lba_of_pos: "part_bytes_to_lba first pos = first + of_nat (unat pos div 512)"
proof -
  have "unat (pos div 512) = unat pos div 512" by (simp add: unat_div)
  then have "of_nat (unat pos div 512) = pos div 512" by (metis of_nat_unat ucast_id)
  then show ?thesis by (simp add: part_bytes_to_lba_def)
qed

lemma unat_mod512: "unat (pos mod 512 :: u64) = unat pos mod 512"
  by (simp add: unat_mod)

lemma slice_bytes:
  assumes "tk \<le> 512 - unat pos mod 512"
  shows "map (\<lambda>i. sect (driver_data dev) (part_bytes_to_lba first pos) ! (unat (pos mod 512) + i)) [0..<tk] =
    map (part_byte sect dev first) [unat pos..<unat pos + tk]"
proof (rule nth_equalityI)
  fix i assume "i < length (map (\<lambda>i. sect (driver_data dev) (part_bytes_to_lba first pos) ! (unat (pos mod 512) + i)) [0..<tk])"
  then have "i < tk" by simp
  then show "map (\<lambda>i. sect (driver_data dev) (part_bytes_to_lba first pos) ! (unat (pos mod 512) + i)) [0..<tk] ! i =
      map (part_byte sect dev first) [unat pos..<unat pos + tk] ! i"
    using assms same_sector [of i "unat pos"] by (simp add: part_byte_def lba_of_pos unat_mod512)
qed simp

lemma unat_plus_small: "unat pos + k < 2 ^ 64 \<Longrightarrow> unat (pos + of_nat k :: u64) = unat pos + k"
  using unat_offset [of pos 0 k] by simp

lemma read_loop_bytes:
  assumes "disk_laws sect dev"
  shows "length out \<le> len \<Longrightarrow> unat pos + (len - length out) < 2 ^ 64 \<Longrightarrow>
    read_loop (Some dev) first pos len out =
      Some (out @ map (part_byte sect dev first) [unat pos..<unat pos + (len - length out)])"
proof (induction "len - length out" arbitrary: pos out rule: less_induct)
  case less
  show ?case
  proof (cases "length out < len")
    case True
    define tk where "tk = (if 512 - unat (pos mod 512) > len - length out then len - length out else 512 - unat (pos mod 512))"
    let ?new = "map (part_byte sect dev first) [unat pos..<unat pos + tk]"
    have tk: "0 < tk" "tk \<le> len - length out" "tk \<le> 512 - unat pos mod 512"
      using True unat_mod_512 [of pos] by (auto simp: tk_def unat_mod512)
    have pos: "unat (pos + of_nat tk) = unat pos + tk" using less.prems tk by (intro unat_plus_small) linarith
    have "read_loop (Some dev) first pos len out = read_loop (Some dev) first (pos + of_nat tk) len (out @ ?new)"
      using True slice_bytes [OF tk(3), of sect dev first] block_read_ok [OF assms, of 1 "part_bytes_to_lba first pos"]
      by (subst read_loop.simps) (simp add: Let_def tk_def [symmetric] sectors_one [simplified])
    also have "\<dots> = Some ((out @ ?new) @ map (part_byte sect dev first)
        [unat (pos + of_nat tk)..<unat (pos + of_nat tk) + (len - length (out @ ?new))])"
      using less.prems tk pos True by (intro less.hyps) auto
    also have "[unat (pos + of_nat tk)..<unat (pos + of_nat tk) + (len - length (out @ ?new))] =
        [unat pos + tk..<unat pos + (len - length out)]" using tk pos by simp
    finally show ?thesis
      using tk upt_add_eq_append [of "unat pos" "unat pos + tk" "len - length out - tk"] by simp
  next
    case False
    then show ?thesis using less.prems by (subst read_loop.simps) simp
  qed
qed

lemma read_bytes_ok:
  "disk_laws sect dev \<Longrightarrow> unat off + len < 2 ^ 64 \<Longrightarrow>
    read_bytes (Some dev) first off len = Some (map (part_byte sect dev first) [unat off..<unat off + len])"
  by (simp add: read_bytes_def read_loop_bytes)

lemma nth_splice:
  assumes "a + k \<le> length xs" "length ys = k"
  shows "(take a xs @ ys @ drop (a + k) xs) ! j = (if a \<le> j \<and> j < a + k then ys ! (j - a) else xs ! j)"
proof -
  consider "j < a" | "a \<le> j" "j < a + k" | "a + k \<le> j" by linarith
  then show ?thesis
  proof cases
    case 3
    then have "drop (a + k) xs ! (j - a - k) = xs ! j" "\<not> j - a < k" using assms by (simp_all add: nth_drop)
    then show ?thesis using 3 assms by (simp add: nth_append)
  next
    case 2
    then have "j - a < k" by linarith
    then show ?thesis using 2 assms by (simp add: nth_append)
  qed (use assms in \<open>simp add: nth_append\<close>)
qed

definition bytes_written :: "('d \<Rightarrow> u64 \<Rightarrow> bytes) \<Rightarrow> u64 \<Rightarrow> nat \<Rightarrow> nat \<Rightarrow> (nat \<Rightarrow> u8) \<Rightarrow> 'd BlockDevice \<Rightarrow> 'd BlockDevice \<Rightarrow> bool" where
  "bytes_written sect first q k new dev dev' \<longleftrightarrow>
     (\<forall>p < 2 ^ 64. part_byte sect dev' first p = (if q \<le> p \<and> p < q + k then new (p - q) else part_byte sect dev first p))"

lemma bytes_written_append:
  assumes "bytes_written sect first q a new dev dev1" "bytes_written sect first (q + a) b (\<lambda>i. new (a + i)) dev1 dev2"
  shows "bytes_written sect first q (a + b) new dev dev2"
  unfolding bytes_written_def
proof (intro allI impI)
  fix p :: nat assume p: "p < 2 ^ 64"
  consider "p < q" | "q \<le> p" "p < q + a" | "q + a \<le> p" "p < q + a + b" | "q + a + b \<le> p" by linarith
  then show "part_byte sect dev2 first p = (if q \<le> p \<and> p < q + (a + b) then new (p - q) else part_byte sect dev first p)"
    using assms [unfolded bytes_written_def, rule_format, OF p] by cases auto
qed

text \<open>One sector written back with part of it replaced.\<close>

lemma write_sector_bytes:
  assumes laws: "disk_laws sect dev" and tk: "tk \<le> 512 - unat pos mod 512" and new: "length new = tk"
    and sec: "tk \<noteq> 512 \<longrightarrow> sec = sect (driver_data dev) (part_bytes_to_lba first pos)" "length sec = 512"
  shows "\<exists>dev'. block_write (Some dev) (part_bytes_to_lba first pos) 1
        (take (unat (pos mod 512)) sec @ new @ drop (unat (pos mod 512) + tk) sec) = (Some dev', 0) \<and>
    disk_laws sect dev' \<and>
    bytes_written sect first (unat pos) tk ((!) new) dev dev'"
proof -
  let ?q = "unat pos" and ?in = "unat pos mod 512" and ?lba = "part_bytes_to_lba first pos"
  let ?sec = "take ?in sec @ new @ drop (?in + tk) sec"
  have in_tk: "?in + tk \<le> 512" using tk mod_less_divisor [of 512 ?q] by linarith
  then have len: "length ?sec = 512" using sec(2) new by simp
  obtain dev' where dev': "block_write (Some dev) ?lba 1 ?sec = (Some dev', 0)" "disk_laws sect dev'"
      "\<forall>l. sect (driver_data dev') l =
        (if unat (l - ?lba) < unat (1 :: u32) then take 512 (drop (512 * unat (l - ?lba)) ?sec) else sect (driver_data dev) l)"
    using block_write_ok [OF laws, of 1 ?sec ?lba] len by auto
  have sect': "sect (driver_data dev') l = (if l = ?lba then ?sec else sect (driver_data dev) l)" for l
    using dev'(3) len by (simp add: unat_eq_0)
  have "part_byte sect dev' first p =
      (if ?q \<le> p \<and> p < ?q + tk then new ! (p - ?q) else part_byte sect dev first p)" if "p < 2 ^ 64" for p
  proof (cases "p div 512 = ?q div 512")
    case True
    have p: "p = ?q div 512 * 512 + p mod 512" using True by (metis div_mult_mod_eq)
    have q: "?q = ?q div 512 * 512 + ?in" by simp
    have "?q \<le> p \<and> p < ?q + tk \<longleftrightarrow> ?in \<le> p mod 512 \<and> p mod 512 < ?in + tk" "p - ?q = p mod 512 - ?in"
      using p q by linarith+
    moreover have "part_byte sect dev' first p = ?sec ! (p mod 512)" by (simp add: part_byte_def True lba_of_pos sect')
    moreover have "sec ! (p mod 512) = part_byte sect dev first p" if "tk \<noteq> 512"
      using sec(1) that by (simp add: part_byte_def True lba_of_pos)
    moreover have "?in = 0" if "tk = 512" using that in_tk by simp
    ultimately show ?thesis using nth_splice [of ?in tk sec new "p mod 512"] in_tk new sec(2)
      by (cases "tk = 512") auto
  next
    case False
    have "p div 512 < 2 ^ 64" "?q div 512 < 2 ^ 64" using that unat_u64 [of pos] by (auto intro: le_less_trans [OF div_le_dividend])
    then have "unat (of_nat (p div 512) :: u64) \<noteq> unat (of_nat (?q div 512) :: u64)"
      using False by (simp add: unat_of_nat)
    then have "(of_nat (p div 512) :: u64) \<noteq> of_nat (?q div 512)" by metis
    then have "part_byte sect dev' first p = part_byte sect dev first p" by (simp add: part_byte_def sect' lba_of_pos)
    moreover have "\<not> (?q \<le> p \<and> p < ?q + tk)"
    proof
      assume "?q \<le> p \<and> p < ?q + tk"
      then have "p - ?q < 512 - ?in" "?q + (p - ?q) = p" using tk by linarith+
      then show False using False same_sector(1) [of "p - ?q" ?q] by simp
    qed
    ultimately show ?thesis by (simp only: if_False)
  qed
  then show ?thesis using dev'(1,2) unfolding bytes_written_def unat_mod512 by blast
qed

lemma write_loop_bytes:
  "disk_laws sect dev \<Longrightarrow> don \<le> len \<Longrightarrow> unat pos + (len - don) < 2 ^ 64 \<Longrightarrow>
    \<exists>dev'. write_loop (Some dev) first pos src len don = (Some dev', 0) \<and> disk_laws sect dev' \<and>
      bytes_written sect first (unat pos) (len - don) (\<lambda>i. src ! (don + i)) dev dev'"
proof (induction "len - don" arbitrary: pos don dev rule: less_induct)
  case less
  show ?case
  proof (cases "don < len")
    case True
    define tk where "tk = (if 512 - unat (pos mod 512) > len - don then len - don else 512 - unat (pos mod 512))"
    let ?new = "map (\<lambda>i. src ! (don + i)) [0..<tk]" and ?lba = "part_bytes_to_lba first pos"
    define sec where "sec = (if tk \<noteq> 512 then sect (driver_data dev) ?lba else replicate 512 0)"
    have tk: "0 < tk" "tk \<le> len - don" "tk \<le> 512 - unat pos mod 512"
      using True unat_mod_512 [of pos] by (auto simp: tk_def unat_mod512)
    have pos: "unat (pos + of_nat tk) = unat pos + tk" using less.prems tk by (intro unat_plus_small) linarith
    have "length sec = 512" using less.prems(1) by (simp add: sec_def disk_laws_def)
    then obtain dev1 where dev1: "block_write (Some dev) ?lba 1
          (take (unat (pos mod 512)) sec @ ?new @ drop (unat (pos mod 512) + tk) sec) = (Some dev1, 0)" "disk_laws sect dev1"
        "bytes_written sect first (unat pos) tk ((!) ?new) dev dev1"
      using write_sector_bytes [OF less.prems(1) tk(3), of ?new sec first] by (auto simp: sec_def)
    have rd: "(if tk \<noteq> 512 then block_read (Some dev) ?lba 1 else Some (replicate 512 0)) = Some sec"
      using block_read_ok [OF less.prems(1), of 1 ?lba] by (simp add: sec_def sectors_one [simplified])
    have step: "write_loop (Some dev) first pos src len don = write_loop (Some dev1) first (pos + of_nat tk) src len (don + tk)"
      using True dev1(1) by (subst write_loop.simps) (simp add: Let_def tk_def [symmetric] rd)
    have lens: "len - (don + tk) < len - don" "don + tk \<le> len" "unat (pos + of_nat tk) + (len - (don + tk)) < 2 ^ 64"
      using less.prems tk True pos by linarith+
    obtain dev2 where dev2: "write_loop (Some dev1) first (pos + of_nat tk) src len (don + tk) = (Some dev2, 0)" "disk_laws sect dev2"
        "bytes_written sect first (unat pos + tk) (len - (don + tk)) (\<lambda>i. src ! (don + tk + i)) dev1 dev2"
      using less.hyps [OF lens(1) dev1(2) lens(2,3)] unfolding pos by blast
    have "bytes_written sect first (unat pos) tk (\<lambda>i. src ! (don + i)) dev dev1"
      using dev1(3) unfolding bytes_written_def by auto
    then have "bytes_written sect first (unat pos) (tk + (len - (don + tk))) (\<lambda>i. src ! (don + i)) dev dev2"
      using dev2(3) by (intro bytes_written_append [of sect first "unat pos" tk]) (simp_all add: add.assoc)
    moreover have "tk + (len - (don + tk)) = len - don" using tk True by linarith
    ultimately show ?thesis using step dev2(1,2) by auto
  next
    case False
    then show ?thesis using less.prems by (subst write_loop.simps) (auto simp: bytes_written_def)
  qed
qed

lemma write_bytes_ok:
  "disk_laws sect dev \<Longrightarrow> unat off + len < 2 ^ 64 \<Longrightarrow>
    \<exists>dev'. write_bytes (Some dev) first off src len = (Some dev', 0) \<and> disk_laws sect dev' \<and>
      bytes_written sect first (unat off) len ((!) src) dev dev'"
  using write_loop_bytes [of sect dev 0 len off first src] by (simp add: write_bytes_def)

section \<open>The block tree\<close>

text \<open>The position of a file block in the tree: the pointer of the inode, then an index per level.\<close>

definition block_path :: "nat \<Rightarrow> nat \<Rightarrow> nat list" where
  "block_path per lbn =
     (if lbn < 12 then [lbn]
      else if lbn < 12 + per then [12, lbn - 12]
      else if lbn < 12 + per + per\<^sup>2 then let k = lbn - 12 - per in [13, k div per, k mod per]
      else let k = lbn - 12 - per - per\<^sup>2 in [14, k div per\<^sup>2, k div per mod per, k mod per])"

fun walk_tree :: "ExtVolume \<Rightarrow> 'd BlockDevice option \<Rightarrow> u32 \<Rightarrow> nat list \<Rightarrow> u32" where
  "walk_tree v disk block [] = block"
| "walk_tree v disk block (i # is) = (if block = 0 then 0 else walk_tree v disk (read_u32_block v disk block (of_nat i)) is)"

lemma of_nat_word32: "unat w = n \<Longrightarrow> (of_nat n :: u32) = w"
  by (metis of_nat_unat ucast_id)

lemma map_indirect_walk:
  assumes bs: "1024 \<le> block_size v" "block_size v \<le> 4096"
  defines "per \<equiv> unat (block_size v) div 4"
  shows "map_indirect v disk inode lbn =
    walk_tree v disk (inode_block_ptr inode (of_nat (hd (block_path per (unat lbn))))) (tl (block_path per (unat lbn)))"
proof -
  let ?P = "block_size v div 4" and ?n = "unat lbn"
  have P: "unat ?P = per" by (simp add: per_def unat_div)
  have per: "256 \<le> per" "per \<le> 1024" using bs by (auto simp: per_def word_le_nat_alt)
  have "per * per \<le> 1024 * 1024" using per(2) by (intro mult_mono) auto
  then have PP: "unat (?P * ?P) = per\<^sup>2" by (simp add: unat_mult_lem [THEN iffD1] P power2_eq_square)
  consider "?n < 12" | "12 \<le> ?n" "?n < 12 + per" | "12 + per \<le> ?n" "?n < 12 + per + per\<^sup>2" | "12 + per + per\<^sup>2 \<le> ?n"
    by linarith
  then show ?thesis
  proof cases
    case 1
    then have "lbn < 12" by (simp add: word_less_nat_alt)
    then show ?thesis using 1 by (simp add: map_indirect_def block_path_def Let_def)
  next
    case 2
    then have l: "unat (lbn - 12) = ?n - 12" "\<not> lbn < 12" by (simp_all add: unat_sub word_le_nat_alt word_less_nat_alt)
    then have "lbn - 12 < ?P" using 2 P by (simp add: word_less_nat_alt)
    then show ?thesis using 2 l of_nat_word32 [OF l(1)] by (simp add: map_indirect_def block_path_def Let_def)
  next
    case 3
    have l: "unat (lbn - 12) = ?n - 12" "\<not> lbn < 12" using 3 by (simp_all add: unat_sub word_le_nat_alt word_less_nat_alt)
    then have l2: "unat (lbn - 12 - ?P) = ?n - 12 - per" "\<not> lbn - 12 < ?P"
      using 3 P by (simp_all add: unat_sub word_le_nat_alt word_less_nat_alt)
    then have "lbn - 12 - ?P < ?P * ?P" using 3 PP by (simp add: word_less_nat_alt)
    moreover have "of_nat ((?n - 12 - per) div per) = (lbn - 12 - ?P) div ?P" "of_nat ((?n - 12 - per) mod per) = (lbn - 12 - ?P) mod ?P"
      using l2 P by (intro of_nat_word32; simp add: unat_div unat_mod)+
    ultimately show ?thesis using 3 l l2 by (simp add: map_indirect_def block_path_def Let_def)
  next
    case 4
    have l: "unat (lbn - 12) = ?n - 12" "\<not> lbn < 12" using 4 by (simp_all add: unat_sub word_le_nat_alt word_less_nat_alt)
    then have l2: "unat (lbn - 12 - ?P) = ?n - 12 - per" "\<not> lbn - 12 < ?P"
      using 4 P by (simp_all add: unat_sub word_le_nat_alt word_less_nat_alt)
    then have l3: "unat (lbn - 12 - ?P - ?P * ?P) = ?n - 12 - per - per\<^sup>2" "\<not> lbn - 12 - ?P < ?P * ?P"
      using 4 PP by (simp_all add: unat_sub word_le_nat_alt word_less_nat_alt)
    let ?k = "?n - 12 - per - per\<^sup>2" and ?w = "lbn - 12 - ?P - ?P * ?P"
    have "of_nat (?k div per\<^sup>2) = ?w div (?P * ?P)" "of_nat (?k div per mod per) = ?w div ?P mod ?P" "of_nat (?k mod per) = ?w mod ?P"
      using l3(1) P PP by (intro of_nat_word32; simp add: unat_div unat_mod)+
    then show ?thesis using 4 l l2 l3 by (simp add: map_indirect_def block_path_def Let_def)
  qed
qed

text \<open>The file block of a position.\<close>

fun path_block :: "nat \<Rightarrow> nat list \<Rightarrow> nat" where
  "path_block per [k] = k"
| "path_block per [k, i] = 12 + i"
| "path_block per [k, i, j] = 12 + per + (i * per + j)"
| "path_block per [k, h, i, j] = 12 + per + per\<^sup>2 + ((h * per + i) * per + j)"
| "path_block per _ = 0"

lemma path_block_path: "path_block per (block_path per n) = n"
proof -
  have "k div per\<^sup>2 * per + k div per mod per = k div per" for k
    by (simp add: power2_eq_square div_mult2_eq)
  then have "(k div per\<^sup>2 * per + k div per mod per) * per + k mod per = k" for k by simp
  then show ?thesis by (simp add: block_path_def Let_def)
qed

section \<open>Files\<close>

abbreviation bsz :: "ExtVolume \<Rightarrow> nat" where "bsz v \<equiv> unat (block_size v)"

definition volume_ok :: "ExtVolume \<Rightarrow> bool" where
  "volume_ok v \<longleftrightarrow> 1024 \<le> block_size v \<and> block_size v \<le> 4096"

lemma volume_okD: "volume_ok v \<Longrightarrow> 0 < bsz v" "volume_ok v \<Longrightarrow> bsz v \<le> 4096" "volume_ok v \<Longrightarrow> \<not> 4096 < block_size v"
  by (auto simp: volume_ok_def word_le_nat_alt not_less)

text \<open>Byte \<open>p\<close> of a file whose blocks are \<open>pb\<close> is byte \<open>file_pos\<close> of the partition.\<close>

definition file_pos :: "ExtVolume \<Rightarrow> (nat \<Rightarrow> u32) \<Rightarrow> nat \<Rightarrow> nat" where
  "file_pos v pb p = unat (pb (p div bsz v)) * bsz v + p mod bsz v"

definition file_byte :: "('d \<Rightarrow> u64 \<Rightarrow> bytes) \<Rightarrow> ExtVolume \<Rightarrow> (nat \<Rightarrow> u32) \<Rightarrow> 'd BlockDevice \<Rightarrow> nat \<Rightarrow> u8" where
  "file_byte sect v pb dev p = part_byte sect dev (first_lba (ext_part v)) (file_pos v pb p)"

lemma block_byte:
  assumes "volume_ok v"
  shows "unat (ucast (b :: u32) * ucast (block_size v) :: u64) = unat b * bsz v" "unat b * bsz v + bsz v < 2 ^ 64"
proof -
  have b: "unat b < 2 ^ 32" by (rule unat_u32)
  then have "unat b * bsz v \<le> 2 ^ 32 * 4096" using volume_okD(2) [OF assms] by (intro mult_mono) auto
  then show s: "unat b * bsz v + bsz v < 2 ^ 64" using volume_okD(2) [OF assms] by simp
  have "unat (ucast b :: u64) = unat b" "unat (ucast (block_size v) :: u64) = bsz v"
    using b unat_u32 [of "block_size v"] by (simp_all add: unsigned_ucast_eq take_bit_nat_eq_self_iff)
  then show "unat (ucast b * ucast (block_size v) :: u64) = unat b * bsz v" using s by (simp add: unat_word_ariths)
qed

lemma file_pos_bound: "volume_ok v \<Longrightarrow> file_pos v pb p < 2 ^ 64"
  using block_byte(2) [of v "pb (p div bsz v)"] mod_less_divisor [OF volume_okD(1), of v p]
  by (simp add: file_pos_def)

lemma read_block_full_ok:
  assumes "disk_laws sect dev" "volume_ok v"
  shows "read_block_full v (Some dev) b =
    Some (map (part_byte sect dev (first_lba (ext_part v))) [unat b * bsz v..<unat b * bsz v + bsz v])"
  using read_bytes_ok [OF assms(1), of "ucast b * ucast (block_size v)" "bsz v"] block_byte [OF assms(2), of b]
  by (simp add: read_block_full_def)

lemma file_bytes_block:
  assumes "k \<le> bsz v" "volume_ok v"
  shows "map ((!) (map (part_byte sect dev (first_lba (ext_part v))) [unat (pb b) * bsz v..<unat (pb b) * bsz v + bsz v])) [0..<k] =
    map (file_byte sect v pb dev) [b * bsz v..<b * bsz v + k]"
proof (rule nth_equalityI)
  fix j assume "j < length (map ((!) (map (part_byte sect dev (first_lba (ext_part v)))
    [unat (pb b) * bsz v..<unat (pb b) * bsz v + bsz v])) [0..<k])"
  then have "j < bsz v" "j < k" using assms(1) by auto
  then show "map ((!) (map (part_byte sect dev (first_lba (ext_part v))) [unat (pb b) * bsz v..<unat (pb b) * bsz v + bsz v])) [0..<k] ! j =
    map (file_byte sect v pb dev) [b * bsz v..<b * bsz v + k] ! j"
    by (simp add: file_byte_def file_pos_def)
qed simp

lemma inode_blocks_ceil:
  assumes "volume_ok v" "unat sz < 2 ^ 32"
  shows "inode_blocks v sz = (unat sz + bsz v - 1) div bsz v"
proof -
  let ?bs = "ucast (block_size v) :: u64"
  have bs: "unat ?bs = bsz v" "0 < bsz v" "bsz v \<le> 4096"
    using unat_u32 [of "block_size v"] volume_okD [OF assms(1)] by (simp_all add: unsigned_ucast_eq take_bit_nat_eq_self_iff)
  have add: "unat (sz + ?bs) = unat sz + bsz v" using bs assms(2) by (simp add: unat_word_ariths)
  have "1 \<le> sz + ?bs" using add bs by (simp add: word_le_nat_alt)
  then have "unat (sz + ?bs - 1) = unat sz + bsz v - 1" using add by (simp add: unat_sub)
  then have q: "unat ((sz + ?bs - 1) div ?bs) = (unat sz + bsz v - 1) div bsz v" using bs by (simp add: unat_div)
  have "(unat sz + bsz v - 1) div bsz v \<le> (unat sz + bsz v - 1) div 1024"
    using assms(1) by (intro div_le_mono2) (auto simp: volume_ok_def word_le_nat_alt)
  also have "\<dots> < 2 ^ 32" using assms(2) bs(3) by (auto simp: less_mult_imp_div_less)
  finally show ?thesis unfolding inode_blocks_def unsigned_ucast_eq q by (simp add: take_bit_nat_eq_self_iff)
qed

text \<open>Blocks below the number of blocks start inside the file.\<close>

lemma block_in_file: "0 < m \<Longrightarrow> b < (s + m - 1) div m \<longleftrightarrow> b * m < (s :: nat)"
proof -
  assume m: "0 < m"
  have "b < (s + m - 1) div m \<longleftrightarrow> Suc b * m \<le> s + m - 1" using m by (simp add: Suc_le_eq [symmetric] less_eq_div_iff_mult_less_eq)
  also have "\<dots> \<longleftrightarrow> b * m < s" using m by auto
  finally show ?thesis .
qed

text \<open>The file of an inode: its blocks are mapped.\<close>

definition blocks_mapped :: "ExtVolume \<Rightarrow> 'd BlockDevice option \<Rightarrow> bytes \<Rightarrow> nat \<Rightarrow> (nat \<Rightarrow> u32) \<Rightarrow> bool" where
  "blocks_mapped v disk i s pb \<longleftrightarrow> (\<forall>b. b * bsz v < s \<longrightarrow> map_block v disk i (of_nat b) = Some (pb b) \<and> pb b \<noteq> 0)"

lemma ext_read_loop_ok:
  assumes "disk_laws sect dev" "volume_ok v" "blocks_mapped v (Some dev) i (unat sz) pb" "unat sz < 2 ^ 32"
  shows "b \<le> inode_blocks v sz \<Longrightarrow>
    ext_read_loop v (Some dev) i sz (inode_blocks v sz) b (map (file_byte sect v pb dev) [0..<min (b * bsz v) (unat sz)]) =
      Some (Some (map (file_byte sect v pb dev) [0..<unat sz]))"
proof (induction "inode_blocks v sz - b" arbitrary: b)
  case 0
  then have "\<not> b * bsz v < unat sz"
    using block_in_file [OF volume_okD(1) [OF assms(2)], of b "unat sz"] inode_blocks_ceil [OF assms(2,4)] by simp
  then show ?case using 0 by (subst ext_read_loop.simps) (simp add: min_def)
next
  case (Suc x)
  then have lt: "b < inode_blocks v sz" by simp
  then have b: "b * bsz v < unat sz"
    using block_in_file [OF volume_okD(1) [OF assms(2)], of b "unat sz"] inode_blocks_ceil [OF assms(2,4)] by simp
  define tk where "tk = (if unat sz < b * bsz v + bsz v then unat sz - b * bsz v else bsz v)"
  have tk: "tk \<le> bsz v" "b * bsz v + tk = min (Suc b * bsz v) (unat sz)" using b by (auto simp: tk_def)
  have mp: "map_block v (Some dev) i (of_nat b) = Some (pb b)" "pb b \<noteq> 0" using assms(3) b by (auto simp: blocks_mapped_def)
  have "ext_read_loop v (Some dev) i sz (inode_blocks v sz) b (map (file_byte sect v pb dev) [0..<b * bsz v]) =
      ext_read_loop v (Some dev) i sz (inode_blocks v sz) (b + 1)
        (map (file_byte sect v pb dev) [0..<b * bsz v] @ map (file_byte sect v pb dev) [b * bsz v..<b * bsz v + tk])"
    using lt mp read_block_full_ok [OF assms(1,2), of "pb b"] file_bytes_block [OF tk(1) assms(2), of sect dev pb b]
    by (subst ext_read_loop.simps) (cases "unat sz < b * bsz v + bsz v"; simp add: Let_def tk_def)
  also have "map (file_byte sect v pb dev) [0..<b * bsz v] @ map (file_byte sect v pb dev) [b * bsz v..<b * bsz v + tk] =
      map (file_byte sect v pb dev) [0..<min (Suc b * bsz v) (unat sz)]"
    using upt_add_eq_append [of 0 "b * bsz v" tk] unfolding tk(2) [symmetric] by simp
  finally show ?case using Suc.hyps(1) [of "b + 1"] Suc.hyps(2) lt b by simp
qed

text \<open>A device that differs at most in the data blocks of the file, and the separation every
  consistent volume has: the directories and inodes on the path and the indirect and extent
  blocks of the file do not lie in its data blocks.  Whatever those hold, the path leads to the
  inode \<open>i\<close> and block \<open>b\<close> of the file is block \<open>pb b\<close> of the volume.\<close>

definition in_block :: "ExtVolume \<Rightarrow> u32 \<Rightarrow> nat \<Rightarrow> bool" where
  "in_block v blk q \<longleftrightarrow> unat blk * bsz v \<le> q \<and> q < unat blk * bsz v + bsz v"

definition same_outside :: "('d \<Rightarrow> u64 \<Rightarrow> bytes) \<Rightarrow> ExtVolume \<Rightarrow> (nat \<Rightarrow> u32) \<Rightarrow> nat \<Rightarrow> 'd BlockDevice \<Rightarrow> 'd BlockDevice \<Rightarrow> bool" where
  "same_outside sect v pb s dev dev' \<longleftrightarrow> disk_laws sect dev' \<and>
     (\<forall>q < 2 ^ 64. (\<forall>b. b * bsz v < s \<longrightarrow> \<not> in_block v (pb b) q) \<longrightarrow>
        part_byte sect dev' (first_lba (ext_part v)) q = part_byte sect dev (first_lba (ext_part v)) q)"

definition ext_file :: "('d \<Rightarrow> u64 \<Rightarrow> bytes) \<Rightarrow> ExtVolume \<Rightarrow> 'd BlockDevice \<Rightarrow> bytes \<Rightarrow> bytes \<Rightarrow> (nat \<Rightarrow> u32) \<Rightarrow> bool" where
  "ext_file sect v dev path i pb \<longleftrightarrow>
     inj_on pb {b. b * bsz v < unat (inode_size_bytes i)} \<and>
     (\<forall>dev'. same_outside sect v pb (unat (inode_size_bytes i)) dev dev' \<longrightarrow>
        find_inode v (Some dev') path = Some (Some i) \<and> blocks_mapped v (Some dev') i (unat (inode_size_bytes i)) pb)"

lemma same_outside_refl: "disk_laws sect dev \<Longrightarrow> same_outside sect v pb s dev dev"
  by (simp add: same_outside_def)

lemma same_outside_trans:
  "same_outside sect v pb s dev0 dev \<Longrightarrow> same_outside sect v pb s dev dev' \<Longrightarrow> same_outside sect v pb s dev0 dev'"
  by (simp add: same_outside_def)

lemma file_pos_in_block:
  assumes inj: "inj_on pb {b. b * bsz v < s}" and v: "volume_ok v" and p: "p < s" "b * bsz v < s"
  shows "unat (pb b) * bsz v \<le> file_pos v pb p \<and> file_pos v pb p < unat (pb b) * bsz v + bsz v \<longleftrightarrow> p div bsz v = b"
proof -
  have m: "p mod bsz v < bsz v" using volume_okD(1) [OF v] by simp
  have "p div bsz v * bsz v < s" using p(1) by (meson div_times_less_eq_dividend le_less_trans)
  then have eq: "pb (p div bsz v) = pb b \<longleftrightarrow> p div bsz v = b" using inj p(2) by (auto simp: inj_on_def)
  have "file_pos v pb p div bsz v = unat (pb (p div bsz v))" using m by (simp add: file_pos_def)
  moreover have "unat (pb b) * bsz v \<le> q \<and> q < unat (pb b) * bsz v + bsz v \<longleftrightarrow> q div bsz v = unat (pb b)" for q
    using volume_okD(1) [OF v] by (metis add.commute div_nat_eqI dividend_less_div_times mult.commute mult_Suc_right times_div_less_eq_dividend)
  ultimately show ?thesis using eq by (metis unsigned_word_eqI)
qed

text \<open>Writing back block \<open>b\<close> with the bytes the buffer has for it.\<close>

lemma write_block_file:
  assumes laws: "disk_laws sect dev" and v: "volume_ok v" and inj: "inj_on pb {b. b * bsz v < s}" and b: "b * bsz v < s"
    and k: "k \<le> bsz v" "b * bsz v + k = min n (min (Suc b * bsz v) s) \<or> k = 0 \<and> n \<le> b * bsz v"
  defines "blk \<equiv> map (part_byte sect dev (first_lba (ext_part v))) [unat (pb b) * bsz v..<unat (pb b) * bsz v + bsz v]"
  shows "\<exists>dev'. write_bytes (Some dev) (first_lba (ext_part v)) (ucast (pb b) * ucast (block_size v))
      (map (\<lambda>j. buffer ! (b * bsz v + j)) [0..<k] @ drop k blk) (bsz v) = (Some dev', 0) \<and> disk_laws sect dev' \<and>
    same_outside sect v pb s dev dev' \<and>
    (\<forall>p < s. file_byte sect v pb dev' p = (if p div bsz v = b \<and> p < n then buffer ! p else file_byte sect v pb dev p))"
proof -
  let ?q = "unat (pb b) * bsz v" and ?new = "map (\<lambda>j. buffer ! (b * bsz v + j)) [0..<k] @ drop k blk"
  obtain dev' where dev': "write_bytes (Some dev) (first_lba (ext_part v)) (ucast (pb b) * ucast (block_size v)) ?new (bsz v) = (Some dev', 0)"
      "disk_laws sect dev'" "bytes_written sect (first_lba (ext_part v)) ?q (bsz v) ((!) ?new) dev dev'"
    using write_bytes_ok [OF laws, of "ucast (pb b) * ucast (block_size v)" "bsz v"] block_byte [OF v, of "pb b"] by metis
  have "file_byte sect v pb dev' p = (if p div bsz v = b \<and> p < n then buffer ! p else file_byte sect v pb dev p)" if p: "p < s" for p
  proof (cases "p div bsz v = b")
    case True
    let ?j = "p mod bsz v"
    have pj: "p = b * bsz v + ?j" using True by (metis div_mult_mod_eq)
    have j: "?j < bsz v" using volume_okD(1) [OF v] by simp
    have "file_pos v pb p = ?q + ?j" by (simp add: file_pos_def True)
    then have "file_byte sect v pb dev' p = ?new ! ?j"
      using dev'(3) file_pos_bound [OF v, of pb p] j by (simp add: file_byte_def bytes_written_def)
    moreover have "?new ! ?j = (if ?j < k then buffer ! p else blk ! ?j)"
      using j k(1) pj by (simp add: nth_append blk_def)
    moreover have "blk ! ?j = file_byte sect v pb dev p" using j by (simp add: blk_def file_byte_def file_pos_def True)
    moreover have "?j < k \<longleftrightarrow> p < n" using k(2) p pj j by auto
    ultimately show ?thesis using True by simp
  next
    case False
    then have "\<not> (?q \<le> file_pos v pb p \<and> file_pos v pb p < ?q + bsz v)" using file_pos_in_block [OF inj v p b] by simp
    then show ?thesis using False dev'(3) file_pos_bound [OF v, of pb p] by (simp only: file_byte_def bytes_written_def) simp
  qed
  moreover have "same_outside sect v pb s dev dev'"
    using dev'(2,3) b by (auto simp: same_outside_def bytes_written_def in_block_def)
  ultimately show ?thesis using dev'(1,2) by blast
qed

text \<open>The code the loop returns with after the block \<open>b\<close>.\<close>

lemma last_block_exact:
  assumes "n \<le> s" "b * m < n \<or> b = 0" "n \<le> min (Suc b * m) s" "0 < m"
  shows "min (Suc b * m) s = n \<longleftrightarrow> n = s \<or> 0 < n \<and> m dvd (n :: nat)"
proof
  assume "min (Suc b * m) s = n"
  then show "n = s \<or> 0 < n \<and> m dvd n"
    using assms(4) by (cases "n = s") (auto simp: min_def split: if_splits)
next
  assume "n = s \<or> 0 < n \<and> m dvd n"
  then show "min (Suc b * m) s = n"
  proof
    assume "n = s"
    then show ?thesis using assms by auto
  next
    assume n: "0 < n \<and> m dvd n"
    then obtain c where c: "n = m * c" by blast
    then have "b < c" using assms(2) n by (auto simp: mult.commute [of b])
    moreover have "c \<le> Suc b" using assms(3) c n by (simp add: mult.commute [of m]) (metis mult_Suc mult_le_cancel2 gr_zeroI mult_0_right)
    ultimately have "c = Suc b" by simp
    then show ?thesis using c assms(1) by (simp add: min_def mult.commute)
  qed
qed

lemma ext_write_loop_ok:
  assumes v: "volume_ok v" and inj: "inj_on pb {b. b * bsz v < unat sz}"
    and sz: "unat sz < 2 ^ 32" and n: "n \<le> unat sz"
    and stable: "\<And>dev'. same_outside sect v pb (unat sz) dev0 dev' \<Longrightarrow> blocks_mapped v (Some dev') i (unat sz) pb"
  shows "disk_laws sect dev \<Longrightarrow> same_outside sect v pb (unat sz) dev0 dev \<Longrightarrow> b * bsz v < unat sz \<Longrightarrow> b * bsz v < n \<or> b = 0 \<Longrightarrow>
    \<exists>dev' r. ext_write_loop v (Some dev) i buffer n sz (inode_blocks v sz) b (b * bsz v) = Some (Some dev', r) \<and>
      (r = 0 \<longleftrightarrow> n = unat sz \<or> 0 < n \<and> bsz v dvd n) \<and> same_outside sect v pb (unat sz) dev0 dev' \<and>
      (\<forall>p < unat sz. file_byte sect v pb dev' p = (if b * bsz v \<le> p \<and> p < n then buffer ! p else file_byte sect v pb dev p))"
proof (induction "inode_blocks v sz - b" arbitrary: b dev rule: less_induct)
  case less
  let ?s = "unat sz" and ?m = "bsz v" and ?w = "b * bsz v"
  have lt: "b < inode_blocks v sz"
    using block_in_file [OF volume_okD(1) [OF v], of b ?s] inode_blocks_ceil [OF v sz] less.prems(3) by simp
  have mp: "map_block v (Some dev) i (of_nat b) = Some (pb b)" "pb b \<noteq> 0" using stable [OF less.prems(2)] less.prems(3) by (auto simp: blocks_mapped_def)
  define tk where "tk = (if ?s < ?w + ?m then ?s - ?w else ?m)"
  define k where "k = (if n - ?w < tk then n - ?w else tk)"
  let ?blk = "map (part_byte sect dev (first_lba (ext_part v))) [unat (pb b) * ?m..<unat (pb b) * ?m + ?m]"
  have tk: "?w + tk = min (Suc b * ?m) ?s" using less.prems(3) by (auto simp: tk_def)
  have k: "k \<le> ?m" "?w + k = min n (min (Suc b * ?m) ?s) \<or> k = 0 \<and> n \<le> ?w"
    using tk less.prems(3,4) by (auto simp: k_def tk_def)
  obtain dev1 where dev1: "write_bytes (Some dev) (first_lba (ext_part v)) (ucast (pb b) * ucast (block_size v))
        (map (\<lambda>j. buffer ! (?w + j)) [0..<k] @ drop k ?blk) ?m = (Some dev1, 0)" "disk_laws sect dev1" "same_outside sect v pb ?s dev dev1"
      "\<forall>p < ?s. file_byte sect v pb dev1 p = (if p div ?m = b \<and> p < n then buffer ! p else file_byte sect v pb dev p)"
    using write_block_file [OF less.prems(1) v inj less.prems(3) k] by blast
  note same = same_outside_trans [OF less.prems(2) dev1(3)]
  have step: "ext_write_loop v (Some dev) i buffer n sz (inode_blocks v sz) b ?w =
      (if n \<le> ?w + tk then Some (Some dev1, if ?w + tk = n then 0 else -1)
       else ext_write_loop v (Some dev1) i buffer n sz (inode_blocks v sz) (b + 1) (?w + tk))"
    unfolding tk_def using lt mp read_block_full_ok [OF less.prems(1) v, of "pb b"] dev1(1) [unfolded k_def tk_def]
    by (subst ext_write_loop.simps) (cases "?s < ?w + ?m"; simp add: Let_def)
  have div: "p div ?m = b \<longleftrightarrow> ?w \<le> p \<and> p < ?w + ?m" for p
    using volume_okD(1) [OF v] by (metis add.commute div_nat_eqI dividend_less_div_times mult.commute mult_Suc_right times_div_less_eq_dividend)
  show ?case
  proof (cases "n \<le> ?w + tk")
    case True
    then have "p < ?w + ?m" if "p < n" for p using that tk by simp
    then have "\<forall>p < ?s. file_byte sect v pb dev1 p = (if ?w \<le> p \<and> p < n then buffer ! p else file_byte sect v pb dev p)"
      using dev1(4) by (auto simp: div)
    moreover have "?w + tk = n \<longleftrightarrow> n = ?s \<or> 0 < n \<and> ?m dvd n"
      using last_block_exact [OF n less.prems(4) _ volume_okD(1) [OF v]] True unfolding tk by blast
    ultimately show ?thesis using step True same by auto
  next
    case False
    then have nxt: "?w + tk = Suc b * ?m" "Suc b * ?m < n" "Suc b * ?m < ?s" using tk n by auto
    obtain dev2 r where dev2: "ext_write_loop v (Some dev1) i buffer n sz (inode_blocks v sz) (Suc b) (Suc b * ?m) = Some (Some dev2, r)"
        "r = 0 \<longleftrightarrow> n = ?s \<or> 0 < n \<and> ?m dvd n" "same_outside sect v pb ?s dev0 dev2"
        "\<forall>p < ?s. file_byte sect v pb dev2 p = (if Suc b * ?m \<le> p \<and> p < n then buffer ! p else file_byte sect v pb dev1 p)"
      using less.hyps [of "Suc b", OF diff_less_mono2 [OF lessI lt] dev1(2) same nxt(3)] nxt(2) by blast
    have "\<forall>p < ?s. file_byte sect v pb dev2 p = (if ?w \<le> p \<and> p < n then buffer ! p else file_byte sect v pb dev p)"
      using dev1(4) dev2(4) nxt by (auto simp: div)
    then show ?thesis using step False dev2(1-3) nxt(1) by (simp del: mult_Suc)
  qed
qed

section \<open>Properties\<close>

text \<open>C10. The sector-wise transfers implement an array of bytes: reading gives the bytes of the
  range, and writing succeeds and replaces exactly the bytes of the range, whatever the
  alignment.\<close>

theorem ext_bytes_refine:
  assumes "disk_laws sect dev" and "unat off + len < 2 ^ 64"
  shows "read_bytes (Some dev) first off len = Some (map (part_byte sect dev first) [unat off..<unat off + len]) \<and>
    (\<exists>dev'. write_bytes (Some dev) first off src len = (Some dev', 0) \<and> disk_laws sect dev' \<and>
      bytes_written sect first (unat off) len ((!) src) dev dev')"
  using read_bytes_ok [OF assms] write_bytes_ok [OF assms] by blast

theorem ext_bytes_refine_witness:
  "read_bytes (Some (ram_disk (\<lambda>l. [1, 2, 3]))) 0 1 2 = Some [2, 3] \<and>
   (\<exists>dev'. write_bytes (Some (ram_disk (\<lambda>l. [1, 2, 3]))) 0 1 [7, 8] 2 = (Some dev', 0) \<and>
      part_byte ram_sect dev' 0 1 = 7 \<and> part_byte ram_sect dev' 0 3 = 0)"
proof -
  have b: "map (part_byte ram_sect (ram_disk (\<lambda>l. [1, 2, 3])) 0) [unat (1 :: u64)..<unat (1 :: u64) + 2] = [2, 3]"
      "part_byte ram_sect (ram_disk (\<lambda>l. [1, 2, 3])) 0 3 = 0"
    by (simp_all add: upt_rec part_byte_def ram_sect_def ram_disk_def)
  obtain dev' where "read_bytes (Some (ram_disk (\<lambda>l. [1, 2, 3]))) 0 1 2 =
      Some (map (part_byte ram_sect (ram_disk (\<lambda>l. [1, 2, 3])) 0) [unat (1 :: u64)..<unat (1 :: u64) + 2])"
      "write_bytes (Some (ram_disk (\<lambda>l. [1, 2, 3]))) 0 1 [7, 8] 2 = (Some dev', 0)"
      "bytes_written ram_sect 0 (unat (1 :: u64)) 2 ((!) [7, 8]) (ram_disk (\<lambda>l. [1, 2, 3])) dev'"
    using ext_bytes_refine [OF ram_disk_laws, of 1 2 "\<lambda>l. [1, 2, 3]" 0 "[7, 8]"] by auto
  then show ?thesis unfolding b(1) using b(2) by (auto simp: bytes_written_def)
qed

text \<open>C21. The block map of an inode without extents is the walk down the block tree along the
  position of the block, and different blocks have different positions.\<close>

theorem map_indirect_tree:
  assumes "1024 \<le> block_size v" "block_size v \<le> 4096"
  shows "map_indirect v disk inode lbn =
      walk_tree v disk (inode_block_ptr inode (of_nat (hd (block_path (unat (block_size v) div 4) (unat lbn)))))
        (tl (block_path (unat (block_size v) div 4) (unat lbn))) \<and>
    inj (block_path (unat (block_size v) div 4))"
  using map_indirect_walk [OF assms] path_block_path by (metis injI)

definition demo_ext_volume :: ExtVolume where
  "demo_ext_volume = \<lparr>ext_part = \<lparr>part_type = 0x83, first_lba = 0, part_sectors = 64\<rparr>, block_size = 1024,
     blocks_per_group = 8192, inodes_per_group = 16, inode_size = 128, first_data_block = 1,
     group_desc_lba = 4, group_desc_off = 0, groups = 1\<rparr>"

text \<open>A volume whose root directory holds the file a of 12298 bytes in the blocks 20 to 32, the
  last one reached through the indirect block 9.\<close>

definition demo_ext_inode :: bytes where
  "demo_ext_inode = [0, 0x80, 0, 0, 0x0A, 0x30] @ replicate 34 0 @
     concat (map (\<lambda>b. [20 + of_nat b, 0, 0, 0]) [0..<12]) @ [9] @ replicate 39 0"

definition demo_ext :: "u64 \<Rightarrow> bytes" where
  "demo_ext l =
     (if l = 4 then replicate 8 0 @ [4]
      else if l = 8 then replicate 128 0 @ [0, 0x40, 0, 0, 0, 4] @ replicate 34 0 @ [8]
      else if l = 10 then replicate 256 0 @ demo_ext_inode
      else if l = 16 then [11, 0, 0, 0, 0, 4, 1, 1, 0x61]
      else if l = 18 then [32] else [])"

theorem map_indirect_tree_witness:
  "map_indirect demo_ext_volume (Some (ram_disk demo_ext)) demo_ext_inode 12 =
     walk_tree demo_ext_volume (Some (ram_disk demo_ext)) 9 [0] \<and>
   map_indirect demo_ext_volume (Some (ram_disk demo_ext)) demo_ext_inode 12 = 32 \<and>
   map_indirect demo_ext_volume (Some (ram_disk demo_ext)) demo_ext_inode 300 =
     walk_tree demo_ext_volume (Some (ram_disk demo_ext)) 0 [0, 32]"
proof -
  have "block_path 256 12 = [12, 0]" "block_path 256 300 = [13, 0, 32]" by (simp_all add: block_path_def)
  moreover have "inode_block_ptr demo_ext_inode 12 = 9" "inode_block_ptr demo_ext_inode 13 = 0"
      "map_indirect demo_ext_volume (Some (ram_disk demo_ext)) demo_ext_inode 12 = 32"
    by code_simp+
  ultimately show ?thesis
    using map_indirect_tree [of demo_ext_volume "Some (ram_disk demo_ext)" demo_ext_inode 12]
      map_indirect_tree [of demo_ext_volume "Some (ram_disk demo_ext)" demo_ext_inode 300]
    by (simp add: demo_ext_volume_def)
qed

text \<open>C22. Overwriting a regular file of any block map (direct, indirect or extents): after
  \<^verbatim>\<open>extfs_write_file\<close> the file read through \<^verbatim>\<open>extfs_read_file\<close> is the bytes of the buffer followed
  by its old bytes past them.  The call reports success only when the buffer is as long as the
  file or ends on a block boundary; any other shorter one is written and answered -1.  The file is
  below 4 GiB, its blocks are mapped (no holes), distinct, and hold none of the metadata that
  leads to them.\<close>

theorem extfs_write_effect:
  assumes "disk_laws sect dev" "volume_ok v" "ext_file sect v dev path i pb"
    and "inode_mode i AND EXT_INODE_MODE_REG \<noteq> 0" "0 < inode_size_bytes i" "inode_size_bytes i \<le> ucast (buffer_size :: u32)"
    and "ucast n \<le> inode_size_bytes i" "unat n \<le> length buffer"
  shows "\<exists>dev' r old. extfs_write_file v (Some dev) path buffer n = Some (Some dev', r) \<and>
    (r = 0 \<longleftrightarrow> unat n = unat (inode_size_bytes i) \<or> 0 < unat n \<and> bsz v dvd unat n) \<and>
    extfs_read_file v (Some dev) path buffer_size = Some (Some old) \<and>
    extfs_read_file v (Some dev') path buffer_size = Some (Some (take (unat n) buffer @ drop (unat n) old))"
proof -
  let ?sz = "inode_size_bytes i"
  have un: "unat (ucast m :: u64) = unat m" for m :: u32
    using unat_u32 [of m] by (simp add: unsigned_ucast_eq take_bit_nat_eq_self_iff)
  then have n: "unat n \<le> unat ?sz" using assms(7) by (simp add: word_le_nat_alt)
  have s: "0 * bsz v < unat ?sz" using assms(5) by (simp add: word_less_nat_alt)
  have big: "unat ?sz < 2 ^ 32" using assms(6) un [of buffer_size] unat_u32 [of buffer_size] by (simp add: word_le_nat_alt)
  note f = assms(3) [unfolded ext_file_def]
  have read: "extfs_read_file v (Some d) path buffer_size = Some (Some (map (file_byte sect v pb d) [0..<unat ?sz]))"
    if d: "same_outside sect v pb (unat ?sz) dev d" for d
  proof -
    have "find_inode v (Some d) path = Some (Some i)" "blocks_mapped v (Some d) i (unat ?sz) pb" "disk_laws sect d"
      using f d by (auto simp: same_outside_def)
    then show ?thesis
      using ext_read_loop_ok [OF _ assms(2) _ big, of sect d i pb 0] assms(4,6) volume_okD(3) [OF assms(2)]
      by (simp add: extfs_read_file_def Let_def not_less)
  qed
  note self = same_outside_refl [OF assms(1), of v pb "unat ?sz"]
  obtain dev' r where dev': "ext_write_loop v (Some dev) i buffer (unat n) ?sz (inode_blocks v ?sz) 0 (0 * bsz v) = Some (Some dev', r)"
      "r = 0 \<longleftrightarrow> unat n = unat ?sz \<or> 0 < unat n \<and> bsz v dvd unat n" "same_outside sect v pb (unat ?sz) dev dev'"
      "\<forall>p < unat ?sz. file_byte sect v pb dev' p = (if 0 * bsz v \<le> p \<and> p < unat n then buffer ! p else file_byte sect v pb dev p)"
    using ext_write_loop_ok [OF assms(2) _ big n _ assms(1) self s] f by blast
  have "map (file_byte sect v pb dev') [0..<unat ?sz] = take (unat n) buffer @ drop (unat n) (map (file_byte sect v pb dev) [0..<unat ?sz])"
    using dev'(4) n assms(8) by (intro nth_equalityI) (auto simp: nth_append)
  moreover have "\<not> ?sz < ucast n" "?sz \<noteq> 0" using assms(5,7) by auto
  then have "extfs_write_file v (Some dev) path buffer n = Some (Some dev', r)"
    using f self assms(4) dev'(1) volume_okD(3) [OF assms(2)] by (simp add: extfs_write_file_def Let_def)
  ultimately show ?thesis using dev'(2) read [OF self] read [OF dev'(3)] by auto
qed

lemma demo_ext_reads:
  assumes "same_outside ram_sect demo_ext_volume (\<lambda>b. 20 + of_nat b) 12298 (ram_disk demo_ext) dev" "unat off + len \<le> 20480"
  shows "read_bytes (Some dev) 0 off len = read_bytes (Some (ram_disk demo_ext)) 0 off len"
proof -
  have "\<not> in_block demo_ext_volume (20 + of_nat b) q" if "b * bsz demo_ext_volume < 12298" "q < 20480" for b q
  proof -
    have "b < 13" using that(1) by (simp add: demo_ext_volume_def)
    then have "unat (20 + of_nat b :: u32) = 20 + b" by (simp add: unat_word_ariths unat_of_nat)
    then show ?thesis using that(2) by (simp add: in_block_def demo_ext_volume_def)
  qed
  then have "part_byte ram_sect dev 0 q = part_byte ram_sect (ram_disk demo_ext) 0 q" if "q < 20480" for q
    using assms(1) that by (simp add: same_outside_def demo_ext_volume_def)
  moreover have "disk_laws ram_sect dev" using assms(1) by (simp add: same_outside_def)
  ultimately show ?thesis
    using read_bytes_ok [of ram_sect dev off len 0] read_bytes_ok [OF ram_disk_laws, of off len demo_ext 0] assms(2) by simp
qed

lemma demo_ext_path:
  assumes "same_outside ram_sect demo_ext_volume (\<lambda>b. 20 + of_nat b) 12298 (ram_disk demo_ext) dev"
  shows "find_inode demo_ext_volume (Some dev) [0x61] = Some (Some demo_ext_inode)"
proof -
  let ?v = demo_ext_volume
  define root where "root = [0, 0x40, 0, 0, 0, 4] @ replicate 34 0 @ [8 :: u8] @ replicate 87 0"
  define blk where "blk = [11, 0, 0, 0, 0, 4, 1, 1, 0x61 :: u8] @ replicate 1015 0"
  define gd where "gd = replicate 8 0 @ [4 :: u8] @ replicate 23 0"
  note reads = demo_ext_reads [OF assms]
  have ram: "read_bytes (Some (ram_disk demo_ext)) 0 2048 32 = Some gd" "read_bytes (Some (ram_disk demo_ext)) 0 4224 128 = Some root"
      "read_bytes (Some (ram_disk demo_ext)) 0 5376 128 = Some demo_ext_inode" "read_bytes (Some (ram_disk demo_ext)) 0 8192 1024 = Some blk"
    unfolding gd_def root_def blk_def by code_simp+
  have "read_group_desc ?v (Some dev) 0 = Some gd"
    using ram(1) by (simp add: read_group_desc_def demo_ext_volume_def Let_def reads)
  moreover have "le32 gd 8 = 4" unfolding gd_def by code_simp
  ultimately have inode: "read_inode_raw ?v (Some dev) 2 256 = Some root" "read_inode_raw ?v (Some dev) 11 256 = Some demo_ext_inode"
    using ram(2,3) by (simp_all add: read_inode_raw_def demo_ext_volume_def Let_def reads)
  have "read_block_full ?v (Some dev) 8 = Some blk"
    using ram(4) by (simp add: read_block_full_def demo_ext_volume_def reads)
  moreover have "map_block ?v (Some dev) root 0 = Some 8" unfolding root_def by code_simp
  moreover have "scan_block ?v (Some dev) [0x61] False blk 0 = Some (Some 11)" unfolding blk_def by code_simp
  ultimately have "scan_blocks ?v (Some dev) root [0x61] False 1 0 = Some (Some 11)"
    by (subst scan_blocks.simps) simp
  moreover have "inode_mode root AND EXT_INODE_MODE_DIR \<noteq> 0" "inode_blocks ?v (inode_size_bytes root) = 1" "block_size ?v = 1024"
    unfolding root_def by code_simp+
  ultimately have "read_dir_entries ?v (Some dev) 2 [0x61] False = Some (Some 11)"
    using inode by (simp add: read_dir_entries_def)
  then have "ext_walk ?v (Some dev) 2 [0x61] = Some (Some 11)"
    by (subst ext_walk.simps) (simp add: ext_walk.simps [of _ _ _ "[]"])
  then show ?thesis using inode by (simp add: find_inode_def extfs_find_root_def)
qed

lemma demo_ext_blocks:
  assumes "same_outside ram_sect demo_ext_volume (\<lambda>b. 20 + of_nat b) 12298 (ram_disk demo_ext) dev"
  shows "blocks_mapped demo_ext_volume (Some dev) demo_ext_inode 12298 (\<lambda>b. 20 + of_nat b)"
  unfolding blocks_mapped_def
proof (intro allI impI)
  fix b assume "b * bsz demo_ext_volume < 12298"
  then have b: "b \<in> set [0..<12] \<or> b = 12" by (auto simp: demo_ext_volume_def)
  have small: "list_all (\<lambda>b. map_block demo_ext_volume (Some dev) demo_ext_inode (of_nat b) = Some (20 + of_nat b)) [0..<12]"
    by code_simp
  have "read_bytes (Some (ram_disk demo_ext)) 0 9216 512 = Some ([32] @ replicate 511 0)" "le32 ([32] @ replicate 511 0) 0 = 32"
      "inode_block_ptr demo_ext_inode 12 = 9" "inode_flags demo_ext_inode AND EXT4_EXTENTS_FL = 0"
    by code_simp+
  then have "map_block demo_ext_volume (Some dev) demo_ext_inode 12 = Some 32"
    by (simp add: map_block_def map_indirect_def read_u32_block_def demo_ext_volume_def Let_def demo_ext_reads [OF assms])
  then have "map_block demo_ext_volume (Some dev) demo_ext_inode (of_nat b) = Some (20 + of_nat b)"
    using b small unfolding list_all_iff by auto
  moreover have "unat (20 + of_nat b :: u32) = 20 + b" using b by (auto simp: unat_word_ariths unat_of_nat)
  then have "20 + of_nat b \<noteq> (0 :: u32)" by (metis add_is_0 unsigned_0 zero_neq_numeral)
  ultimately show "map_block demo_ext_volume (Some dev) demo_ext_inode (of_nat b) = Some (20 + of_nat b) \<and> 20 + of_nat b \<noteq> (0 :: u32)"
    by blast
qed

lemma demo_ext_file: "ext_file ram_sect demo_ext_volume (ram_disk demo_ext) [0x61] demo_ext_inode (\<lambda>b. 20 + of_nat b)"
proof -
  have sz: "unat (inode_size_bytes demo_ext_inode) = 12298" by code_simp
  have "inj_on (\<lambda>b. 20 + of_nat b :: u32) {b. b * bsz demo_ext_volume < 12298}"
    by (rule inj_onI) (auto simp: demo_ext_volume_def word_of_nat_eq_iff take_bit_nat_def)
  then show ?thesis unfolding ext_file_def sz using demo_ext_path demo_ext_blocks by blast
qed

theorem extfs_write_effect_witness:
  "\<exists>dev' r old. extfs_write_file demo_ext_volume (Some (ram_disk demo_ext)) [0x61] (replicate 12290 7) 12290 = Some (Some dev', r) \<and> r \<noteq> 0 \<and>
    extfs_read_file demo_ext_volume (Some (ram_disk demo_ext)) [0x61] 65535 = Some (Some old) \<and>
    extfs_read_file demo_ext_volume (Some dev') [0x61] 65535 = Some (Some (replicate 12290 7 @ drop 12290 old))"
proof -
  have ev: "inode_mode demo_ext_inode AND EXT_INODE_MODE_REG \<noteq> 0" "inode_size_bytes demo_ext_inode = 12298" by code_simp+
  have "volume_ok demo_ext_volume" by (simp add: demo_ext_volume_def volume_ok_def)
  then show ?thesis
    using extfs_write_effect [OF ram_disk_laws _ demo_ext_file ev(1), of 65535 12290 "replicate 12290 7"] ev(2)
    by (auto simp: demo_ext_volume_def)
qed

end
