(* ===== verification/Exfat.thy ===== *)
theory Exfat
  imports Fat32
begin

text \<open>
  \<^verbatim>\<open>src/src/fs/exfat.c\<close>: recognising and mounting an exFAT volume, its cluster chains,
  directory entry sets, paths, and reading and overwriting files.  The helpers the source repeats
  from \<^verbatim>\<open>fat32.c\<close> (\<^verbatim>\<open>le16\<close>, \<^verbatim>\<open>le32\<close>, \<^verbatim>\<open>le64\<close>,
  \<^verbatim>\<open>streq_ci\<close>) are the ones of the prelude and of \<open>Fat32\<close>; functions with a
  name of that file carry the prefix \<open>exfat\<close>.
\<close>

definition EXFAT_EOC :: u32 where "EXFAT_EOC = 0xFFFFFFFF"
definition EXFAT_ENTRY_FILE :: u8 where "EXFAT_ENTRY_FILE = 0x85"
definition EXFAT_ENTRY_STREAM :: u8 where "EXFAT_ENTRY_STREAM = 0xC0"
definition EXFAT_ENTRY_FILENAME :: u8 where "EXFAT_ENTRY_FILENAME = 0xC1"
definition EXFAT_MAX_CLUSTER_SECTORS :: u8 where "EXFAT_MAX_CLUSTER_SECTORS = 8"
definition EXFAT_MAX_NAME :: nat where "EXFAT_MAX_NAME = 256"
definition EXFAT_ATTR_DIRECTORY :: u8 where "EXFAT_ATTR_DIRECTORY = 0x10"

record ExfatVolume =
  ex_part :: Partition
  ex_fat_start_lba :: u32
  cluster_heap_lba :: u32
  ex_root_cluster :: u32
  cluster_count :: u32
  ex_sectors_per_cluster :: u8

record ExfatDirEntry =
  ex_name :: bytes
  ex_attributes :: u8
  ex_first_cluster :: u32
  ex_size :: u64

section \<open>Mounting and clusters\<close>

definition exfat_sig :: bytes where
  "exfat_sig = [0x45, 0x58, 0x46, 0x41, 0x54, 0x20, 0x20, 0x20]"

definition exfat_probe_boot :: "'d BlockDevice option \<Rightarrow> u64 \<Rightarrow> bool" where
  "exfat_probe_boot disk first =
     (case disk of
        None \<Rightarrow> False
      | Some d \<Rightarrow>
          (case block_read disk first 1 of
             None \<Rightarrow> False
           | Some s \<Rightarrow>
               if s ! 510 \<noteq> 0x55 \<or> s ! 511 \<noteq> 0xAA then False
               else list_all (\<lambda>i. s ! (3 + i) = exfat_sig ! i) [0..<8]))"

definition cluster_first_lba :: "ExfatVolume \<Rightarrow> u32 \<Rightarrow> u32" where
  "cluster_first_lba v cluster =
     (if cluster < 2 \<or> cluster_count v < cluster then 0
      else cluster_heap_lba v + (cluster - 2) * ucast (ex_sectors_per_cluster v))"

definition exfat_read_cluster :: "ExfatVolume \<Rightarrow> 'd BlockDevice option \<Rightarrow> u32 \<Rightarrow> bytes option" where
  "exfat_read_cluster v disk cluster =
     (let lba = cluster_first_lba v cluster
      in if lba = 0 then None else block_read disk (ucast lba) (ucast (ex_sectors_per_cluster v)))"

definition exfat_next_cluster :: "ExfatVolume \<Rightarrow> 'd BlockDevice option \<Rightarrow> u32 \<Rightarrow> u32" where
  "exfat_next_cluster v disk cluster =
     (let fat_byte = ucast cluster * 4 :: u64;
          sec = fat_byte div 512;
          off = unat (fat_byte mod 512)
      in case block_read disk (ucast (ex_fat_start_lba v) + sec) 1 of
           None \<Rightarrow> EXFAT_EOC
         | Some s \<Rightarrow> let val = le32 s off in if 0xFFFFFFF8 \<le> val then EXFAT_EOC else val)"

definition exfat_mount :: "'d BlockDevice option \<Rightarrow> Partition \<Rightarrow> ExfatVolume option" where
  "exfat_mount disk part =
     (if \<not> exfat_probe_boot disk (first_lba part) then None
      else case block_read disk (first_lba part) 1 of
        None \<Rightarrow> None
      | Some s \<Rightarrow>
          let bps_shift = s ! 108;
              spc_shift = s ! 109;
              fat_off = le32 s 80;
              fat_len = le32 s 84;
              heap_off = le32 s 88;
              ccount = le32 s 92;
              root = le32 s 96;
              num_fats = s ! 110
          in if bps_shift \<noteq> 9 then None
             else if 7 < spc_shift \<or> num_fats < 1 \<or> fat_len = 0 \<or> ccount < 2 \<or> root < 2 then None
             else
               let spc = push_bit (unat spc_shift) 1 :: u8
               in if EXFAT_MAX_CLUSTER_SECTORS < spc then None
                  else Some \<lparr>ex_part = part, ex_fat_start_lba = ucast (first_lba part + ucast fat_off),
                         cluster_heap_lba = ucast (first_lba part + ucast heap_off), ex_root_cluster = root,
                         cluster_count = ccount, ex_sectors_per_cluster = spc\<rparr>)"

section \<open>Directories\<close>

text \<open>The characters of the file-name entries of a set, over the secondary entries still to visit.\<close>

fun name_loop :: "bytes \<Rightarrow> nat \<Rightarrow> nat \<Rightarrow> nat \<Rightarrow> nat list \<Rightarrow> u16 list \<Rightarrow> u16 list" where
  "name_loop buf bs off name_len [] acc = acc"
| "name_loop buf bs off name_len (si # sis) acc =
     (if length acc < name_len \<and> length acc < EXFAT_MAX_NAME then
        let e = off + 32 * si
        in if bs < e + 32 then acc
           else if buf ! e \<noteq> EXFAT_ENTRY_FILENAME then name_loop buf bs off name_len sis acc
           else name_loop buf bs off name_len sis
                  (acc @ take (min (name_len - length acc) (EXFAT_MAX_NAME - 1 - length acc))
                           (map (\<lambda>k. le16 buf (e + 2 + k * 2)) [0..<15]))
      else acc)"

definition ascii_char :: "u16 \<Rightarrow> u8" where
  "ascii_char c = (if c < 128 then ucast c else 0x3F)"

definition parse_entry_set :: "bytes \<Rightarrow> nat \<Rightarrow> nat \<Rightarrow> ExfatDirEntry option" where
  "parse_entry_set buf bs off =
     (if bs < off + 32 then None
      else if buf ! off \<noteq> EXFAT_ENTRY_FILE then None
      else
        let secondary = unat (buf ! (off + 1))
        in if secondary < 1 \<or> bs < off + (secondary + 1) * 32 then None
           else
             let attrs = le16 buf (off + 4); stream = off + 32
             in if buf ! stream \<noteq> EXFAT_ENTRY_STREAM then None
                else
                  let name_len = unat (buf ! (stream + 3));
                      name_u = name_loop buf bs off name_len [2..<secondary + 1] []
                  in Some \<lparr>ex_name = cstr (map ascii_char (take (EXFAT_MAX_NAME - 1) name_u)),
                       ex_attributes = ucast (attrs AND 0xFF), ex_first_cluster = le32 buf (stream + 20),
                       ex_size = le64 buf (stream + 24)\<rparr>)"

text \<open>The loop over the records of a cluster; the flag tells that the end record was met.\<close>

function exfat_scan :: "bytes \<Rightarrow> nat \<Rightarrow> nat \<Rightarrow> nat \<Rightarrow> ExfatDirEntry list \<Rightarrow> ExfatDirEntry list \<times> bool" where
  "exfat_scan buf bs max_e off out =
     (if off < bs \<and> length out < max_e then
        if buf ! off = 0 then (out, True)
        else if buf ! off = 0x80 \<or> buf ! off = 0x81 then exfat_scan buf bs max_e (off + 32) out
        else if buf ! off \<noteq> EXFAT_ENTRY_FILE then exfat_scan buf bs max_e (off + 32) out
        else case parse_entry_set buf bs off of
            None \<Rightarrow> exfat_scan buf bs max_e (off + 32) out
          | Some ent \<Rightarrow> exfat_scan buf bs max_e (off + 32 * (unat (buf ! (off + 1)) + 1)) (out @ [ent])
      else (out, False))"
  by pat_completeness auto
termination by (relation "measure (\<lambda>(buf, bs, max_e, off, out). bs - off)") auto

declare exfat_scan.simps [simp del]

definition exfat_cluster_bytes :: "ExfatVolume \<Rightarrow> nat" where
  "exfat_cluster_bytes v = unat (ex_sectors_per_cluster v) * 512"

partial_function (option) list_cluster ::
  "ExfatVolume \<Rightarrow> 'd BlockDevice option \<Rightarrow> nat \<Rightarrow> u32 \<Rightarrow> ExfatDirEntry list \<Rightarrow> ExfatDirEntry list option" where
  "list_cluster v disk max_e cluster out =
     (if 2 \<le> cluster \<and> cluster < EXFAT_EOC \<and> length out < max_e then
        (case exfat_read_cluster v disk cluster of
           None \<Rightarrow> Some out
         | Some buf \<Rightarrow>
             let (out', stop) = exfat_scan buf (exfat_cluster_bytes v) max_e 0 out
             in if stop then Some out' else list_cluster v disk max_e (exfat_next_cluster v disk cluster) out')
      else Some out)"

declare list_cluster.simps [code]

definition find_in_cluster_chain ::
  "ExfatVolume \<Rightarrow> 'd BlockDevice option \<Rightarrow> u32 \<Rightarrow> bytes \<Rightarrow> ExfatDirEntry option option" where
  "find_in_cluster_chain v disk cluster name =
     map_option (find (\<lambda>e. streq_ci (ex_name e) name)) (list_cluster v disk 64 cluster [])"

function exfat_walk :: "ExfatVolume \<Rightarrow> 'd BlockDevice option \<Rightarrow> u32 \<Rightarrow> bytes \<Rightarrow> ExfatDirEntry option option" where
  "exfat_walk v disk dir_cluster p =
     (if p = [] then Some None
      else
        let component = takeWhile (\<lambda>c. \<not> is_slash c) p;
            rest = dropWhile is_slash (dropWhile (\<lambda>c. \<not> is_slash c) p)
        in if EXFAT_MAX_NAME \<le> length component then Some None
           else case find_in_cluster_chain v disk dir_cluster component of
               None \<Rightarrow> None
             | Some None \<Rightarrow> Some None
             | Some (Some current) \<Rightarrow>
                 if rest = [] then Some (Some current)
                 else if ex_attributes current AND EXFAT_ATTR_DIRECTORY = 0 then Some None
                 else exfat_walk v disk (ex_first_cluster current) rest)"
  by pat_completeness auto
termination by (relation "measure (\<lambda>(v, disk, dir_cluster, p). length p)") (auto simp: path_rest_shorter)

declare exfat_walk.simps [simp del]

definition exfat_find_root :: "ExfatVolume \<Rightarrow> 'd BlockDevice option \<Rightarrow> bytes \<Rightarrow> ExfatDirEntry option option" where
  "exfat_find_root v disk path = exfat_walk v disk (ex_root_cluster v) (dropWhile is_slash path)"

definition exfat_dir_exists :: "ExfatVolume \<Rightarrow> 'd BlockDevice option \<Rightarrow> bytes \<Rightarrow> bool option" where
  "exfat_dir_exists v disk dirname =
     map_option (\<lambda>r. case r of None \<Rightarrow> False | Some e \<Rightarrow> ex_attributes e AND EXFAT_ATTR_DIRECTORY \<noteq> 0)
       (exfat_find_root v disk dirname)"

section \<open>Files\<close>

lemma exfat_read_cluster_bytes: "exfat_read_cluster v disk c = Some buf \<Longrightarrow> 0 < exfat_cluster_bytes v"
proof -
  assume "exfat_read_cluster v disk c = Some buf"
  then have "(ucast (ex_sectors_per_cluster v) :: u32) \<noteq> 0"
    by (auto simp: exfat_read_cluster_def block_read_def Let_def split: option.splits if_splits)
  then have "ex_sectors_per_cluster v \<noteq> 0" by auto
  then show ?thesis by (simp add: exfat_cluster_bytes_def unat_gt_0)
qed

text \<open>None is the return value -1.\<close>

function exfat_read_loop :: "ExfatVolume \<Rightarrow> 'd BlockDevice option \<Rightarrow> nat \<Rightarrow> u32 \<Rightarrow> bytes \<Rightarrow> bytes option" where
  "exfat_read_loop v disk fsize cluster out =
     (if 2 \<le> cluster \<and> cluster < EXFAT_EOC \<and> length out < fsize then
        (case exfat_read_cluster v disk cluster of
           None \<Rightarrow> None
         | Some buf \<Rightarrow>
             let left = fsize - length out;
                 to_copy = (if left < exfat_cluster_bytes v then left else exfat_cluster_bytes v)
             in exfat_read_loop v disk fsize (exfat_next_cluster v disk cluster) (out @ map ((!) buf) [0..<to_copy]))
      else if length out = fsize then Some out else None)"
  by pat_completeness auto
termination
  by (relation "measure (\<lambda>(v, disk, fsize, cluster, out). fsize - length out)") (auto dest: exfat_read_cluster_bytes)

declare exfat_read_loop.simps [simp del]

definition exfat_read_file :: "ExfatVolume \<Rightarrow> 'd BlockDevice option \<Rightarrow> bytes \<Rightarrow> u32 \<Rightarrow> bytes option option" where
  "exfat_read_file v disk name buffer_size =
     (case exfat_find_root v disk name of
        None \<Rightarrow> None
      | Some None \<Rightarrow> Some None
      | Some (Some file) \<Rightarrow>
          if ex_attributes file AND EXFAT_ATTR_DIRECTORY \<noteq> 0 then Some None
          else if ucast buffer_size < ex_size file then Some None
          else Some (exfat_read_loop v disk (unat (ex_size file)) (ex_first_cluster file) []))"

function exfat_write_loop ::
  "ExfatVolume \<Rightarrow> 'd BlockDevice option \<Rightarrow> bytes \<Rightarrow> nat \<Rightarrow> u32 \<Rightarrow> nat \<Rightarrow> 'd BlockDevice option \<times> int" where
  "exfat_write_loop v disk src n cluster written =
     (if 2 \<le> cluster \<and> cluster < EXFAT_EOC \<and> written < n then
        (case exfat_read_cluster v disk cluster of
           None \<Rightarrow> (disk, -1)
         | Some buf \<Rightarrow>
             let left = n - written;
                 to_copy = (if left < exfat_cluster_bytes v then left else exfat_cluster_bytes v);
                 buf' = map (\<lambda>i. src ! (written + i)) [0..<to_copy] @ drop to_copy buf;
                 lba = cluster_first_lba v cluster
             in if lba = 0 then (disk, -1)
                else let (disk', r) = block_write disk (ucast lba) (ucast (ex_sectors_per_cluster v)) buf'
                  in if r \<noteq> 0 then (disk', -1)
                     else exfat_write_loop v disk' src n (exfat_next_cluster v disk' cluster) (written + to_copy))
      else (disk, if written = n then 0 else -1))"
  by pat_completeness auto
termination
  by (relation "measure (\<lambda>(v, disk, src, n, cluster, written). n - written)") (auto dest: exfat_read_cluster_bytes)

declare exfat_write_loop.simps [simp del]

definition exfat_write_file ::
  "ExfatVolume \<Rightarrow> 'd BlockDevice option \<Rightarrow> bytes \<Rightarrow> bytes \<Rightarrow> u32 \<Rightarrow> ('d BlockDevice option \<times> int) option" where
  "exfat_write_file v disk name buffer buffer_size =
     (case exfat_find_root v disk name of
        None \<Rightarrow> None
      | Some None \<Rightarrow> Some (disk, -1)
      | Some (Some file) \<Rightarrow>
          if ex_attributes file AND EXFAT_ATTR_DIRECTORY \<noteq> 0 then Some (disk, -1)
          else if ex_size file < ucast buffer_size then Some (disk, -1)
          else Some (exfat_write_loop v disk buffer (unat buffer_size) (ex_first_cluster file) 0))"

section \<open>Properties\<close>

lemma spc_shift_bound:
  assumes "\<not> 7 < (w :: u8)" "\<not> 8 < (push_bit (unat w) 1 :: u8)"
  shows "(push_bit (unat w) 1 :: u8) \<in> {1, 2, 4, 8}"
proof -
  have "unat w \<le> 7" using assms(1) by (simp add: word_less_nat_alt)
  then have "unat w \<in> {0, 1, 2, 3, 4, 5, 6, 7}" by auto
  then show ?thesis using assms(2) by auto
qed

text \<open>A volume with one cluster per root directory, holding one file.\<close>

definition demo_exfat_boot :: bytes where
  "demo_exfat_boot = [0, 0, 0] @ exfat_sig @ replicate 69 0 @ [1, 0, 0, 0, 1, 0, 0, 0, 2, 0, 0, 0, 4, 0, 0, 0, 2, 0, 0, 0] @
     replicate 8 0 @ [9, 0, 1] @ replicate 399 0 @ [0x55, 0xAA]"

definition demo_exfat_root :: bytes where
  "demo_exfat_root = [0x85, 2, 0, 0, 0x20] @ replicate 27 0 @ [0xC0, 0, 0, 1] @ replicate 16 0 @ [3, 0, 0, 0, 4] @
     replicate 7 0 @ [0xC1, 0, 0x61, 0] @ replicate 28 0"

definition demo_exfat :: "u64 \<Rightarrow> bytes" where
  "demo_exfat l = (if l = 0 then demo_exfat_boot else if l = 1 then replicate 512 0xFF
     else if l = 2 then demo_exfat_root else if l = 3 then [1, 2, 3, 4] else [])"

definition demo_exfat_volume :: ExfatVolume where
  "demo_exfat_volume = \<lparr>ex_part = \<lparr>part_type = 7, first_lba = 0, part_sectors = 64\<rparr>, ex_fat_start_lba = 1, cluster_heap_lba = 2,
     ex_root_cluster = 2, cluster_count = 4, ex_sectors_per_cluster = 1\<rparr>"

text \<open>C23. A mounted exFAT volume has clusters of 1, 2, 4 or 8 sectors, which fit the 4096-byte
  cluster buffers of the listing, reading and writing code, at least two clusters, and a root
  directory that is a data cluster.\<close>

theorem exfat_mount_geometry:
  assumes "exfat_mount disk part = Some v"
  shows "ex_sectors_per_cluster v \<in> {1, 2, 4, 8} \<and> exfat_cluster_bytes v \<le> 4096 \<and>
    2 \<le> cluster_count v \<and> 2 \<le> ex_root_cluster v \<and> ex_part v = part"
proof -
  obtain s where s: "block_read disk (first_lba part) 1 = Some s" "\<not> 7 < s ! 109" "\<not> 8 < (push_bit (unat (s ! 109)) 1 :: u8)"
      "\<not> le32 s 92 < 2" "\<not> le32 s 96 < 2" "ex_sectors_per_cluster v = push_bit (unat (s ! 109)) 1"
      "cluster_count v = le32 s 92" "ex_root_cluster v = le32 s 96" "ex_part v = part"
    using assms by (auto simp: exfat_mount_def Let_def EXFAT_MAX_CLUSTER_SECTORS_def split: if_splits option.splits)
  have spc: "ex_sectors_per_cluster v \<in> {1, 2, 4, 8}" using spc_shift_bound [OF s(2,3)] s(6) by simp
  then have "exfat_cluster_bytes v \<le> 4096" by (auto simp: exfat_cluster_bytes_def)
  then show ?thesis using spc s by (simp add: not_less)
qed

theorem exfat_mount_geometry_witness:
  "exfat_mount (Some (ram_disk demo_exfat)) (ex_part demo_exfat_volume) = Some demo_exfat_volume \<and>
   exfat_cluster_bytes demo_exfat_volume \<le> 4096"
proof -
  have "exfat_mount (Some (ram_disk demo_exfat)) (ex_part demo_exfat_volume) = Some demo_exfat_volume" by code_simp
  then show ?thesis using exfat_mount_geometry [of "Some (ram_disk demo_exfat)"] by blast
qed

lemma name_loop_length:
  "length acc \<le> min name_len (EXFAT_MAX_NAME - 1) \<Longrightarrow>
    length (name_loop buf bs off name_len sis acc) \<le> min name_len (EXFAT_MAX_NAME - 1)"
proof (induction sis arbitrary: acc)
  case (Cons si sis)
  have grow: "a + min c (min (m - a) (k - a)) \<le> min m k" if "a \<le> min m k" for a c m k :: nat
    using that by linarith
  let ?new = "take (min (name_len - length acc) (EXFAT_MAX_NAME - 1 - length acc))
    (map (\<lambda>k. le16 buf (off + 32 * si + 2 + k * 2)) [0..<15])"
  have "length (acc @ ?new) \<le> min name_len (EXFAT_MAX_NAME - 1)"
    using grow [OF Cons.prems, of 15] by (simp add: min.commute)
  then show ?case using Cons.IH [of "acc @ ?new"] Cons.IH [of acc] Cons.prems by (simp add: Let_def)
qed simp

text \<open>The name of a parsed entry set fits the 256-byte name field with its terminator, is no
  longer than the stream entry says, and holds only ASCII characters.\<close>

theorem exfat_name_bounds:
  assumes "parse_entry_set buf bs off = Some e"
  shows "length (ex_name e) < EXFAT_MAX_NAME \<and> length (ex_name e) \<le> unat (buf ! (off + 35)) \<and>
    (\<forall>c \<in> set (ex_name e). c \<noteq> 0 \<and> c < 128)"
proof -
  obtain sis where e: "ex_name e = cstr (map ascii_char (take (EXFAT_MAX_NAME - 1)
      (name_loop buf bs off (unat (buf ! (off + 35))) sis [])))"
    using assms by (auto simp: parse_entry_set_def Let_def add.assoc simp del: upt_Suc split: if_splits)
  let ?u = "name_loop buf bs off (unat (buf ! (off + 35))) sis []"
  have "length ?u \<le> min (unat (buf ! (off + 35))) 255"
    using name_loop_length [of "[]" "unat (buf ! (off + 35))"] by (simp add: EXFAT_MAX_NAME_def)
  moreover have "length (ex_name e) \<le> length ?u"
    unfolding e cstr_def by (rule le_trans [OF length_takeWhile_le]) simp
  moreover have "ascii_char c < 128" for c
  proof (cases "c < 128")
    case True
    then have "unat (ucast c :: u8) = unat c" unfolding unsigned_ucast_eq by (simp add: word_less_nat_alt take_bit_nat_eq_self_iff)
    then show ?thesis using True by (simp add: ascii_char_def word_less_nat_alt)
  qed (simp add: ascii_char_def)
  ultimately show ?thesis unfolding e cstr_def by (auto simp: EXFAT_MAX_NAME_def dest!: set_takeWhileD)
qed

theorem exfat_name_bounds_witness:
  "\<exists>e. parse_entry_set demo_exfat_root 512 0 = Some e \<and> length (ex_name e) \<le> 1"
proof -
  have "parse_entry_set demo_exfat_root 512 0 =
      Some \<lparr>ex_name = [0x61], ex_attributes = 0x20, ex_first_cluster = 3, ex_size = 4\<rparr>" by code_simp
  moreover have "unat (demo_exfat_root ! 35) = 1" by code_simp
  ultimately show ?thesis using exfat_name_bounds [of demo_exfat_root 512 0] by fastforce
qed

lemma exfat_read_loop_length: "exfat_read_loop v disk n c out = Some bs \<Longrightarrow> length bs = n"
proof (induction v disk n c out rule: exfat_read_loop.induct)
  case (1 v disk n c out)
  show ?case
    using "1.prems" "1.IH" unfolding exfat_read_loop.simps [of v disk n c out]
    by (auto simp: Let_def split: if_splits option.splits)
qed

text \<open>A file that is read successfully is read completely: the bytes delivered are as many as
  the directory entry says, and they fit the caller's buffer.  A chain that ends early is an error,
  not a short read.\<close>

theorem exfat_read_complete:
  assumes "exfat_read_file v disk name b = Some (Some bs)"
  shows "\<exists>e. exfat_find_root v disk name = Some (Some e) \<and> ex_attributes e AND EXFAT_ATTR_DIRECTORY = 0 \<and>
    length bs = unat (ex_size e) \<and> length bs \<le> unat b"
proof -
  obtain e where e: "exfat_find_root v disk name = Some (Some e)" "ex_attributes e AND EXFAT_ATTR_DIRECTORY = 0"
      "\<not> ucast b < ex_size e" "exfat_read_loop v disk (unat (ex_size e)) (ex_first_cluster e) [] = Some bs"
    using assms by (auto simp: exfat_read_file_def split: option.splits if_splits)
  have "unat (ucast b :: u64) = unat b" using unat_u32 [of b] by (simp add: unsigned_ucast_eq take_bit_nat_eq_self_iff)
  then show ?thesis using e exfat_read_loop_length [OF e(4)] by (auto simp: word_less_nat_alt)
qed

theorem exfat_read_complete_witness:
  "exfat_read_file demo_exfat_volume (Some (ram_disk demo_exfat)) [0x41] 16 = Some (Some [1, 2, 3, 4]) \<and>
   (\<exists>e. exfat_find_root demo_exfat_volume (Some (ram_disk demo_exfat)) [0x41] = Some (Some e) \<and> unat (ex_size e) = 4)"
proof -
  have "exfat_read_file demo_exfat_volume (Some (ram_disk demo_exfat)) [0x41] 16 = Some (Some [1, 2, 3, 4])" by code_simp
  then show ?thesis
    using exfat_read_complete [of demo_exfat_volume "Some (ram_disk demo_exfat)" "[0x41]" 16 "[1, 2, 3, 4]"] by auto
qed

end
