(* ===== verification/Devices.thy ===== *)
theory Devices
  imports Prelude
begin

text \<open>
  The sources of the pseudo devices: the entropy pool of \<^verbatim>\<open>src/src/drivers/entropy.c\<close>
  and the keyboard and mouse of \<^verbatim>\<open>src/src/drivers/input/ps2.c\<close>.

  The processor's random and time-stamp instructions and the ports of the devices are
  hardware: they are fields of the record \<open>hardware\<close>, functions on a hardware state that a
  read may change.  The instructions that may fail give an option.
\<close>

record 'h hardware =
  hw :: 'h
  inb_fn :: "u16 \<Rightarrow> 'h \<Rightarrow> u8 \<times> 'h"
  outb_fn :: "u16 \<Rightarrow> u8 \<Rightarrow> 'h \<Rightarrow> 'h"
  inw_fn :: "u16 \<Rightarrow> 'h \<Rightarrow> u16 \<times> 'h"
  outw_fn :: "u16 \<Rightarrow> u16 \<Rightarrow> 'h \<Rightarrow> 'h"
  inl_fn :: "u16 \<Rightarrow> 'h \<Rightarrow> u32 \<times> 'h"
  outl_fn :: "u16 \<Rightarrow> u32 \<Rightarrow> 'h \<Rightarrow> 'h"
  rdrand_fn :: "'h \<Rightarrow> u64 option \<times> 'h"
  rdseed_fn :: "'h \<Rightarrow> u64 option \<times> 'h"
  rdtsc_fn :: "'h \<Rightarrow> u64 \<times> 'h"
  cpuid_fn :: "u32 \<Rightarrow> u32 \<Rightarrow> u32 \<times> u32 \<times> u32 \<times> u32"

definition inb :: "u16 \<Rightarrow> ('h, 'z) hardware_scheme \<Rightarrow> u8 \<times> ('h, 'z) hardware_scheme" where
  "inb port s = (let (v, h) = inb_fn s port (hw s) in (v, s\<lparr>hw := h\<rparr>))"

definition hw_outb :: "u16 \<Rightarrow> u8 \<Rightarrow> ('h, 'z) hardware_scheme \<Rightarrow> ('h, 'z) hardware_scheme" where
  "hw_outb port v s = s\<lparr>hw := outb_fn s port v (hw s)\<rparr>"

definition inw :: "u16 \<Rightarrow> ('h, 'z) hardware_scheme \<Rightarrow> u16 \<times> ('h, 'z) hardware_scheme" where
  "inw port s = (let (v, h) = inw_fn s port (hw s) in (v, s\<lparr>hw := h\<rparr>))"

definition outw :: "u16 \<Rightarrow> u16 \<Rightarrow> ('h, 'z) hardware_scheme \<Rightarrow> ('h, 'z) hardware_scheme" where
  "outw port v s = s\<lparr>hw := outw_fn s port v (hw s)\<rparr>"

definition inl :: "u16 \<Rightarrow> ('h, 'z) hardware_scheme \<Rightarrow> u32 \<times> ('h, 'z) hardware_scheme" where
  "inl port s = (let (v, h) = inl_fn s port (hw s) in (v, s\<lparr>hw := h\<rparr>))"

definition outl :: "u16 \<Rightarrow> u32 \<Rightarrow> ('h, 'z) hardware_scheme \<Rightarrow> ('h, 'z) hardware_scheme" where
  "outl port v s = s\<lparr>hw := outl_fn s port v (hw s)\<rparr>"

definition rdrand64 :: "('h, 'z) hardware_scheme \<Rightarrow> u64 option \<times> ('h, 'z) hardware_scheme" where
  "rdrand64 s = (let (v, h) = rdrand_fn s (hw s) in (v, s\<lparr>hw := h\<rparr>))"

definition rdseed64 :: "('h, 'z) hardware_scheme \<Rightarrow> u64 option \<times> ('h, 'z) hardware_scheme" where
  "rdseed64 s = (let (v, h) = rdseed_fn s (hw s) in (v, s\<lparr>hw := h\<rparr>))"

definition rdtsc :: "('h, 'z) hardware_scheme \<Rightarrow> u64 \<times> ('h, 'z) hardware_scheme" where
  "rdtsc s = (let (v, h) = rdtsc_fn s (hw s) in (v, s\<lparr>hw := h\<rparr>))"

section \<open>Entropy\<close>

record 'h entropy = "'h hardware" +
  entropy_state :: u64
  has_rdrand :: bool
  has_rdseed :: bool

definition mix64 :: "u64 \<Rightarrow> u64 \<Rightarrow> u64" where
  "mix64 st value =
     (let s1 = st XOR (value + 0x9E3779B97F4A7C15 + push_bit 6 st + drop_bit 2 st);
          s2 = s1 XOR drop_bit 30 s1;
          s3 = s2 * 0xBF58476D1CE4E5B9;
          s4 = s3 XOR drop_bit 27 s3;
          s5 = s4 * 0x94D049BB133111EB
      in s5 XOR drop_bit 31 s5)"

definition entropy_mix :: "u64 \<Rightarrow> ('h, 'z) entropy_scheme \<Rightarrow> ('h, 'z) entropy_scheme" where
  "entropy_mix value s = s\<lparr>entropy_state := mix64 (entropy_state s) value\<rparr>"

definition entropy_init :: "('h, 'z) entropy_scheme \<Rightarrow> ('h, 'z) entropy_scheme" where
  "entropy_init s =
     (let (_, _, c, _) = cpuid_fn s 1 0;
          (_, b, _, _) = cpuid_fn s 7 0;
          s1 = s\<lparr>has_rdrand := (c AND push_bit 30 1 \<noteq> 0), has_rdseed := (b AND push_bit 18 1 \<noteq> 0)\<rparr>;
          (t, s2) = rdtsc s1
      in entropy_mix t s2)"

definition entropy_has_hardware_rng :: "('h, 'z) entropy_scheme \<Rightarrow> bool" where
  "entropy_has_hardware_rng s \<longleftrightarrow> has_rdrand s \<or> has_rdseed s"

text \<open>Up to \<open>n\<close> attempts with an instruction that may fail.\<close>

primrec try_rng :: "nat \<Rightarrow> ('s \<Rightarrow> u64 option \<times> 's) \<Rightarrow> 's \<Rightarrow> u64 option \<times> 's" where
  "try_rng 0 rng s = (None, s)"
| "try_rng (Suc n) rng s =
     (case rng s of (Some x, s') \<Rightarrow> (Some x, s') | (None, s') \<Rightarrow> try_rng n rng s')"

definition entropy_random_byte :: "('h, 'z) entropy_scheme \<Rightarrow> u8 \<times> ('h, 'z) entropy_scheme" where
  "entropy_random_byte s =
     (let (r1, s1) = (if has_rdseed s then try_rng 64 rdseed64 s else (None, s))
      in case r1 of
           Some x \<Rightarrow> (ucast x, entropy_mix x s1)
         | None \<Rightarrow>
             let (r2, s2) = (if has_rdrand s1 then try_rng 16 rdrand64 s1 else (None, s1))
             in case r2 of
                  Some x \<Rightarrow> (ucast x, entropy_mix x s2)
                | None \<Rightarrow>
                    let (t, s3) = rdtsc s2; s4 = entropy_mix t s3
                    in (ucast (drop_bit 56 (entropy_state s4)), s4))"

definition xorshift64 :: "u64 \<Rightarrow> u64" where
  "xorshift64 x =
     (let x1 = x XOR push_bit 13 x; x2 = x1 XOR drop_bit 7 x1 in x2 XOR push_bit 17 x2)"

definition entropy_urandom_byte :: "('h, 'z) entropy_scheme \<Rightarrow> u8 \<times> ('h, 'z) entropy_scheme" where
  "entropy_urandom_byte s =
     (let (r, s1) = (if has_rdrand s then rdrand64 s else (None, s));
          s2 = (case r of Some x \<Rightarrow> entropy_mix x s1 | None \<Rightarrow> let (t, s') = rdtsc s1 in entropy_mix t s');
          s3 = s2\<lparr>entropy_state := xorshift64 (entropy_state s2)\<rparr>
      in (ucast (drop_bit 56 (entropy_state s3)), s3))"

section \<open>Keyboard and mouse\<close>

text \<open>The mouse keeps the bytes of the packet being assembled.\<close>

record 'h ps2 = "'h entropy" +
  mouse_bytes :: bytes
  mouse_pos :: nat

definition PS2_DATA_PORT :: u16 where "PS2_DATA_PORT = 0x60"
definition PS2_STATUS_PORT :: u16 where "PS2_STATUS_PORT = 0x64"
definition PS2_CMD_PORT :: u16 where "PS2_CMD_PORT = 0x64"

definition ps2_data_ready :: "('h, 'z) hardware_scheme \<Rightarrow> bool \<times> ('h, 'z) hardware_scheme" where
  "ps2_data_ready s = (let (v, s') = inb PS2_STATUS_PORT s in (v AND 1 \<noteq> 0, s'))"

definition ps2_output_is_mouse :: "('h, 'z) hardware_scheme \<Rightarrow> bool \<times> ('h, 'z) hardware_scheme" where
  "ps2_output_is_mouse s = (let (v, s') = inb PS2_STATUS_PORT s in (v AND 0x20 \<noteq> 0, s'))"

primrec wait_input_clear :: "nat \<Rightarrow> ('h, 'z) hardware_scheme \<Rightarrow> ('h, 'z) hardware_scheme" where
  "wait_input_clear 0 s = s"
| "wait_input_clear (Suc n) s =
     (let (v, s') = inb PS2_STATUS_PORT s in if v AND 2 \<noteq> 0 then wait_input_clear n s' else s')"

definition ps2_wait_input_clear :: "('h, 'z) hardware_scheme \<Rightarrow> ('h, 'z) hardware_scheme" where
  "ps2_wait_input_clear s = wait_input_clear 100000 s"

text \<open>The table of \<^verbatim>\<open>scancode_to_char\<close>, 58 characters; 0 marks keys without one.\<close>

definition scancode_map :: bytes where
  "scancode_map = map (\<lambda>c. of_nat (of_char c))
     ([CHR 0x00, CHR 0x00] @ ''1234567890-='' @ [CHR 0x00, CHR 0x00] @ ''qwertyuiop[]'' @ [CHR 0x0A, CHR 0x00] @
      ''asdfghjkl;'' @ [CHR 0x27, CHR 0x60, CHR 0x00, CHR 0x5C] @ ''zxcvbnm,./'' @ [CHR 0x00] @ ''*'' @ [CHR 0x00] @ '' '')"

definition scancode_to_char :: "u8 \<Rightarrow> u8" where
  "scancode_to_char scancode =
     (if scancode AND 0x80 \<noteq> 0 then 0
      else if unat scancode < length scancode_map then scancode_map ! unat scancode
      else 0)"

text \<open>Draining the controller goes on as long as it has data.\<close>

partial_function (option) ps2_drain :: "('h, 'z) hardware_scheme \<Rightarrow> ('h, 'z) hardware_scheme option" where
  "ps2_drain s =
     (let (ready, s1) = ps2_data_ready s
      in if ready then ps2_drain (snd (inb PS2_DATA_PORT s1)) else Some s1)"

primrec wait_data :: "nat \<Rightarrow> ('h, 'z) hardware_scheme \<Rightarrow> ('h, 'z) hardware_scheme" where
  "wait_data 0 s = s"
| "wait_data (Suc n) s = (let (ready, s') = ps2_data_ready s in if ready then s' else wait_data n s')"

definition ps2_init :: "('h, 'z) hardware_scheme \<Rightarrow> ('h, 'z) hardware_scheme option" where
  "ps2_init s =
     (case ps2_drain s of
        None \<Rightarrow> None
      | Some s0 \<Rightarrow>
          let s1 = hw_outb PS2_CMD_PORT 0xA8 (ps2_wait_input_clear s0);
              s2 = hw_outb PS2_CMD_PORT 0xD4 (ps2_wait_input_clear s1);
              s3 = hw_outb PS2_DATA_PORT 0xF4 (ps2_wait_input_clear s2);
              s4 = wait_data 100000 s3;
              (ready, s5) = ps2_data_ready s4
          in Some (if ready then snd (inb PS2_DATA_PORT s5) else s5))"

definition ps2_poll_char :: "('h, 'z) hardware_scheme \<Rightarrow> u8 option \<times> ('h, 'z) hardware_scheme" where
  "ps2_poll_char s =
     (let (ready, s1) = ps2_data_ready s
      in if \<not> ready then (None, s1)
         else let (mouse, s2) = ps2_output_is_mouse s1
         in if mouse then (None, s2)
            else let (scancode, s3) = inb PS2_DATA_PORT s2; c = scancode_to_char scancode
            in if c = 0 then (None, s3) else (Some c, s3))"

partial_function (option) ps2_get_char :: "('h, 'z) hardware_scheme \<Rightarrow> (u8 \<times> ('h, 'z) hardware_scheme) option" where
  "ps2_get_char s =
     (let (r, s') = ps2_poll_char s in case r of Some c \<Rightarrow> Some (c, s') | None \<Rightarrow> ps2_get_char s')"

definition ps2_poll_mouse_packet :: "('h, 'z) ps2_scheme \<Rightarrow> bytes option \<times> ('h, 'z) ps2_scheme" where
  "ps2_poll_mouse_packet s =
     (let (ready, s1) = ps2_data_ready s
      in if \<not> ready then (None, s1)
         else let (mouse, s2) = ps2_output_is_mouse s1
         in if \<not> mouse then (None, s2)
            else let (b, s3) = inb PS2_DATA_PORT s2
            in if mouse_pos s3 = 0 \<and> b AND 0x08 = 0 then (None, s3)
               else
                 let bs = (mouse_bytes s3)[mouse_pos s3 := b]; p = mouse_pos s3 + 1
                 in if p < 3 then (None, s3\<lparr>mouse_bytes := bs, mouse_pos := p\<rparr>)
                    else (Some [bs ! 0, bs ! 1, bs ! 2], s3\<lparr>mouse_bytes := bs, mouse_pos := 0\<rparr>))"

declare ps2_drain.simps [code] ps2_get_char.simps [code]

section \<open>Mixing loses nothing\<close>

lemma xorshift_right_inj:
  fixes x y :: u64
  assumes "0 < k" "x XOR drop_bit k x = y XOR drop_bit k y"
  shows "x = y"
proof (rule bit_eqI)
  fix n
  show "bit x n = bit y n"
  proof (induction "64 - n" arbitrary: n rule: less_induct)
    case less
    show ?case
    proof (cases "n < 64")
      case True
      then have "bit x (n + k) = bit y (n + k)" using less assms(1) by simp
      moreover have "bit (x XOR drop_bit k x) n = bit (y XOR drop_bit k y) n" using assms(2) by simp
      ultimately show ?thesis by (auto simp: bit_simps add.commute)
    qed (simp add: bit_word.rep_eq not_less bit_imp_le_length)
  qed
qed

lemma xorshift_left_inj:
  fixes x y :: u64
  assumes "0 < k" "x XOR push_bit k x = y XOR push_bit k y"
  shows "x = y"
proof (rule bit_eqI)
  fix n
  show "bit x n = bit y n"
  proof (induction n rule: less_induct)
    case (less n)
    have "k \<le> n \<Longrightarrow> bit x (n - k) = bit y (n - k)" using less assms(1) by simp
    moreover have "bit (x XOR push_bit k x) n = bit (y XOR push_bit k y) n" using assms(2) by simp
    ultimately show ?case by (auto simp: bit_simps dest: bit_imp_le_length)
  qed
qed

lemma mult_unit_inj:
  fixes a b c d :: u64
  assumes "c * d = 1" "a * c = b * c"
  shows "a = b"
proof -
  have "a * c * d = b * c * d" using assms(2) by simp
  then show ?thesis using assms(1) by (simp add: mult.assoc)
qed

lemma mix_stage_inj:
  fixes x y c d :: u64
  assumes "(x XOR drop_bit k x) * c = (y XOR drop_bit k y) * c" "0 < k" "c * d = 1"
  shows "x = y"
  by (rule xorshift_right_inj [OF assms(2) mult_unit_inj [OF assms(3,1)]])

lemma mix64_inj: "mix64 st v = mix64 st w \<Longrightarrow> v = w"
proof -
  define a b where "a = st XOR (v + 0x9E3779B97F4A7C15 + push_bit 6 st + drop_bit 2 st)"
    and "b = st XOR (w + 0x9E3779B97F4A7C15 + push_bit 6 st + drop_bit 2 st)"
  define a' b' where "a' = (a XOR drop_bit 30 a) * 0xBF58476D1CE4E5B9" and "b' = (b XOR drop_bit 30 b) * 0xBF58476D1CE4E5B9"
  define a'' b'' where "a'' = (a' XOR drop_bit 27 a') * 0x94D049BB133111EB" and "b'' = (b' XOR drop_bit 27 b') * 0x94D049BB133111EB"
  assume "mix64 st v = mix64 st w"
  then have "a'' XOR drop_bit 31 a'' = b'' XOR drop_bit 31 b''"
    unfolding mix64_def Let_def a_def [symmetric] b_def [symmetric] a'_def [symmetric] b'_def [symmetric]
      a''_def [symmetric] b''_def [symmetric] .
  then have "a'' = b''" by (rule xorshift_right_inj [rotated]) simp
  then have "a' = b'" unfolding a''_def b''_def
    by (rule mix_stage_inj [where d = "0x319642b2d24d8ec3"]) simp_all
  then have "a = b" unfolding a'_def b'_def
    by (rule mix_stage_inj [where d = "0x96de1b173f119089"]) simp_all
  then have "st XOR a = st XOR b" by simp
  then have "v + 0x9E3779B97F4A7C15 + push_bit 6 st + drop_bit 2 st = w + 0x9E3779B97F4A7C15 + push_bit 6 st + drop_bit 2 st"
    unfolding a_def b_def by (simp only: xor.assoc [symmetric] xor_self_eq xor.left_neutral)
  then show ?thesis by (simp only: add_right_cancel)
qed

lemma xorshift64_inj: "xorshift64 x = xorshift64 y \<Longrightarrow> x = y"
  unfolding xorshift64_def Let_def
  by (drule xorshift_left_inj [rotated], simp, drule xorshift_right_inj [rotated], simp,
      erule xorshift_left_inj [rotated], simp)

text \<open>C24. Stirring a sample into the pool loses nothing of the sample: from one state, different
  samples give different states.  In the state it is not injective: a sample is given for which
  two states have the same successor.  The extra scrambling before a byte of \<^verbatim>\<open>/dev/urandom\<close> is
  a permutation of the states.\<close>

theorem entropy_mix_injective:
  "(entropy_state (entropy_mix v s) = entropy_state (entropy_mix w s) \<longleftrightarrow> v = w) \<and>
   entropy_state (entropy_mix 0x61C8864680B5832E (s\<lparr>entropy_state := 0x693BB3194BE3AB04\<rparr>)) =
     entropy_state (entropy_mix 0x61C8864680B5832E (s\<lparr>entropy_state := 3\<rparr>)) \<and>
   bij xorshift64"
proof (intro conjI)
  show "entropy_state (entropy_mix v s) = entropy_state (entropy_mix w s) \<longleftrightarrow> v = w"
    using mix64_inj by (auto simp: entropy_mix_def)
  have "mix64 0x693BB3194BE3AB04 0x61C8864680B5832E = mix64 3 0x61C8864680B5832E" by code_simp
  then show "entropy_state (entropy_mix 0x61C8864680B5832E (s\<lparr>entropy_state := 0x693BB3194BE3AB04\<rparr>)) =
     entropy_state (entropy_mix 0x61C8864680B5832E (s\<lparr>entropy_state := 3\<rparr>))"
    by (simp add: entropy_mix_def)
  have "inj xorshift64" using xorshift64_inj by (rule injI)
  then show "bij xorshift64" using finite_UNIV_inj_surj [of xorshift64] by (simp add: bij_def)
qed

section \<open>Mouse packets\<close>

definition mouse_inv :: "('h, 'z) ps2_scheme \<Rightarrow> bool" where
  "mouse_inv s \<longleftrightarrow> length (mouse_bytes s) = 3 \<and> mouse_pos s < 3 \<and> (0 < mouse_pos s \<longrightarrow> mouse_bytes s ! 0 AND 0x08 \<noteq> 0)"

lemma mouse_frame:
  "mouse_bytes (snd (inb p s)) = mouse_bytes s" "mouse_pos (snd (inb p s)) = mouse_pos s"
  by (simp_all add: inb_def Let_def split: prod.split)

lemma mouse_frame_status:
  "mouse_bytes (snd (ps2_data_ready s)) = mouse_bytes s" "mouse_pos (snd (ps2_data_ready s)) = mouse_pos s"
  "mouse_bytes (snd (ps2_output_is_mouse s)) = mouse_bytes s" "mouse_pos (snd (ps2_output_is_mouse s)) = mouse_pos s"
  using mouse_frame [of PS2_STATUS_PORT s]
  by (auto simp: ps2_data_ready_def ps2_output_is_mouse_def Let_def split: prod.splits)

text \<open>The mouse stays in step: whatever bytes the controller delivers, the packet position stays
  in range, and a packet handed out has three bytes of which the first has its marker bit set.\<close>

theorem mouse_packets_aligned:
  assumes "mouse_inv s" and "ps2_poll_mouse_packet s = (r, s')"
  shows "mouse_inv s' \<and> (\<forall>p. r = Some p \<longrightarrow> length p = 3 \<and> p ! 0 AND 0x08 \<noteq> 0)"
proof -
  obtain ready s1 where 1: "ps2_data_ready s = (ready, s1)" by force
  obtain mouse s2 where 2: "ps2_output_is_mouse s1 = (mouse, s2)" by force
  obtain b s3 where 3: "inb PS2_DATA_PORT s2 = (b, s3)" by force
  have f: "mouse_bytes s1 = mouse_bytes s" "mouse_pos s1 = mouse_pos s" "mouse_bytes s2 = mouse_bytes s" "mouse_pos s2 = mouse_pos s"
      "mouse_bytes s3 = mouse_bytes s" "mouse_pos s3 = mouse_pos s"
    using mouse_frame_status [of s] mouse_frame_status [of s1] mouse_frame [of PS2_DATA_PORT s2] 1 2 3 by auto
  have inv: "mouse_inv s1" "mouse_inv s2" "mouse_inv s3" using assms(1) f by (simp_all add: mouse_inv_def)
  have "mouse_pos s = 0 \<or> mouse_pos s = 1 \<or> mouse_pos s = 2" using assms(1) by (auto simp: mouse_inv_def)
  then show ?thesis
    using assms f inv unfolding ps2_poll_mouse_packet_def 1 2 3 Let_def
    by (auto simp: mouse_inv_def 2 3 split: if_splits)
qed

text \<open>A controller that always has the byte 5 from the mouse.\<close>

definition demo_ps2 :: "unit ps2" where
  "demo_ps2 = \<lparr>hw = (), inb_fn = (\<lambda>p h. (if p = PS2_STATUS_PORT then 0x21 else 5, h)), outb_fn = (\<lambda>p v h. h),
     inw_fn = (\<lambda>p h. (0, h)), outw_fn = (\<lambda>p v h. h), inl_fn = (\<lambda>p h. (0xFFFFFFFF, h)), outl_fn = (\<lambda>p v h. h),
     rdrand_fn = (\<lambda>h. (None, h)), rdseed_fn = (\<lambda>h. (None, h)), rdtsc_fn = (\<lambda>h. (0, h)), cpuid_fn = (\<lambda>_ _. (0, 0, 0, 0)),
     entropy_state = 0, has_rdrand = False, has_rdseed = False, mouse_bytes = [8, 1, 0], mouse_pos = 2\<rparr>"

theorem mouse_packets_aligned_witness:
  "\<exists>s'. ps2_poll_mouse_packet demo_ps2 = (Some [8, 1, 5], s') \<and> mouse_inv s'"
proof -
  have "mouse_inv demo_ps2" by (simp add: mouse_inv_def demo_ps2_def)
  moreover have "ps2_poll_mouse_packet demo_ps2 = (Some [8, 1, 5], demo_ps2\<lparr>mouse_bytes := [8, 1, 5], mouse_pos := 0\<rparr>)"
    by (simp add: ps2_poll_mouse_packet_def ps2_data_ready_def ps2_output_is_mouse_def inb_def demo_ps2_def
        PS2_STATUS_PORT_def PS2_DATA_PORT_def Let_def)
  ultimately show ?thesis using mouse_packets_aligned [of demo_ps2] by blast
qed

end
