(* ===== verification/Vfs.thy ===== *)
theory Vfs
  imports Devices
begin

text \<open>
  The pseudo file systems: \<^verbatim>\<open>src/src/fs/devtmpfs.c\<close>, \<^verbatim>\<open>src/src/fs/vfs.c\<close> and
  \<^verbatim>\<open>src/src/users.c\<close>, which reads \<^verbatim>\<open>/etc/passwd\<close> through them.

  A read gives the bytes stored in the caller's buffer, None for the return value -1; the count
  stored through \<^verbatim>\<open>out\<close> is their number.  Console messages are left out.  The text behind
  \<^verbatim>\<open>/sys/devices/hdmi\<close> is composed by the display driver when it starts and is a field of the
  state.
\<close>

record 'h vfs = "'h ps2" +
  dev_state_mounted :: bool
  dev_mounted :: bool
  hdmi_status :: bytes
  multi_user_enabled :: bool

definition ascii :: "string \<Rightarrow> bytes" where
  "ascii s = map (\<lambda>c. of_nat (of_char c)) s"

abbreviation nl :: string where "nl \<equiv> [CHR 0x0A]"

section \<open>devtmpfs\<close>

fun dev_prefix :: "bytes \<Rightarrow> bytes \<Rightarrow> bool" where
  "dev_prefix path [] \<longleftrightarrow> path = [] \<or> hd path = 0x2F"
| "dev_prefix [] (p # ps) \<longleftrightarrow> False"
| "dev_prefix (c # cs) (p # ps) \<longleftrightarrow> c = p \<and> dev_prefix cs ps"

definition copy_text :: "bytes \<Rightarrow> u32 \<Rightarrow> u32 \<Rightarrow> bytes" where
  "copy_text s off len =
     (if length s \<le> unat off then []
      else let tk = (if unat len < length s - unat off then unat len else length s - unat off)
           in map (\<lambda>i. s ! (unat off + i)) [0..<tk])"

definition devtmpfs_mount :: "('h, 'z) vfs_scheme \<Rightarrow> ('h, 'z) vfs_scheme" where
  "devtmpfs_mount s = s\<lparr>dev_state_mounted := True\<rparr>"

definition devtmpfs_is_path :: "('h, 'z) vfs_scheme \<Rightarrow> bytes \<Rightarrow> bool" where
  "devtmpfs_is_path s path \<longleftrightarrow> dev_state_mounted s \<and> dev_prefix path (ascii ''/dev'')"

definition dev_listing :: bytes where
  "dev_listing = ascii (''zero'' @ nl @ ''random'' @ nl @ ''urandom'' @ nl @ ''kbd'' @ nl @ ''mouse'' @ nl @ ''fstab'' @ nl)"

definition fstab_text :: bytes where
  "fstab_text = ascii (''devtmpfs /dev devtmpfs rw 0 0'' @ nl @ ''proc /proc proc ro 0 0'' @ nl @ ''sysfs /sys sysfs ro 0 0'' @ nl)"

text \<open>The loops that fill the buffer byte by byte from a generator.\<close>

primrec fill_bytes :: "nat \<Rightarrow> ('s \<Rightarrow> u8 \<times> 's) \<Rightarrow> 's \<Rightarrow> bytes \<times> 's" where
  "fill_bytes 0 gen s = ([], s)"
| "fill_bytes (Suc n) gen s = (let (b, s') = gen s; (bs, s'') = fill_bytes n gen s' in (b # bs, s''))"

text \<open>The keyboard loop; \<open>out\<close> holds the characters so far, \<^verbatim>\<open>got\<close> being their number.\<close>

function kbd_loop :: "nat \<Rightarrow> ('h, 'z) vfs_scheme \<Rightarrow> bytes \<Rightarrow> bytes \<times> ('h, 'z) vfs_scheme" where
  "kbd_loop len s out =
     (if length out < len then
        let (r, s') = ps2_poll_char s
        in case r of
             None \<Rightarrow> (out, s')
           | Some c \<Rightarrow> kbd_loop len (entropy_mix (push_bit 32 (ucast c) XOR of_nat (length out + 1)) s') (out @ [c])
      else (out, s))"
  by pat_completeness auto
termination by (relation "measure (\<lambda>(len, s, out). len - length out)") auto

function mouse_loop :: "nat \<Rightarrow> ('h, 'z) vfs_scheme \<Rightarrow> bytes \<Rightarrow> bytes \<times> ('h, 'z) vfs_scheme" where
  "mouse_loop len s out =
     (if length out + 3 \<le> len then
        let (r, s') = ps2_poll_mouse_packet s
        in case r of
             None \<Rightarrow> (out, s')
           | Some p \<Rightarrow>
               mouse_loop len
                 (entropy_mix (push_bit 16 (ucast (p ! 0)) OR push_bit 8 (ucast (p ! 1)) OR ucast (p ! 2)) s')
                 (out @ [p ! 0, p ! 1, p ! 2])
      else (out, s))"
  by pat_completeness auto
termination by (relation "measure (\<lambda>(len, s, out). len - length out)") auto

declare kbd_loop.simps [simp del] mouse_loop.simps [simp del]

definition devtmpfs_pread :: "('h, 'z) vfs_scheme \<Rightarrow> bytes \<Rightarrow> u32 \<Rightarrow> u32 \<Rightarrow> bytes option \<times> ('h, 'z) vfs_scheme" where
  "devtmpfs_pread s path off len =
     (if \<not> dev_state_mounted s then (None, s)
      else if streq path (ascii ''/dev'') then (Some (copy_text dev_listing off len), s)
      else if streq path (ascii ''/dev/zero'') then (Some (replicate (unat len) 0), s)
      else if streq path (ascii ''/dev/random'') then
        let (bs, s') = fill_bytes (unat len) entropy_random_byte s in (Some bs, s')
      else if streq path (ascii ''/dev/urandom'') then
        let (bs, s') = fill_bytes (unat len) entropy_urandom_byte s in (Some bs, s')
      else if streq path (ascii ''/dev/kbd'') then
        let (bs, s') = kbd_loop (unat len) s [] in (Some bs, s')
      else if streq path (ascii ''/dev/mouse'') then
        let (bs, s') = mouse_loop (unat len) s [] in (Some bs, s')
      else if streq path (ascii ''/dev/fstab'') then (Some (copy_text fstab_text off len), s)
      else (None, s))"

section \<open>vfs\<close>

fun path_has_prefix :: "bytes \<Rightarrow> bytes \<Rightarrow> bool" where
  "path_has_prefix path [] \<longleftrightarrow> path = [] \<or> hd path = 0x2F"
| "path_has_prefix [] (p # ps) \<longleftrightarrow> False"
| "path_has_prefix (c # cs) (p # ps) \<longleftrightarrow> c = p \<and> path_has_prefix cs ps"

definition vfs_init :: "('h, 'z) vfs_scheme \<Rightarrow> ('h, 'z) vfs_scheme" where
  "vfs_init s = entropy_init s"

definition vfs_mount_devtmpfs :: "('h, 'z) vfs_scheme \<Rightarrow> ('h, 'z) vfs_scheme" where
  "vfs_mount_devtmpfs s = (devtmpfs_mount s)\<lparr>dev_mounted := True\<rparr>"

definition vfs_is_pseudo_path :: "bytes \<Rightarrow> bool" where
  "vfs_is_pseudo_path path \<longleftrightarrow>
     path \<noteq> [] \<and> hd path = 0x2F \<and>
     (path_has_prefix path (ascii ''/proc'') \<or> path_has_prefix path (ascii ''/sys'') \<or>
      path_has_prefix path (ascii ''/dev'') \<or> path_has_prefix path (ascii ''/etc''))"

definition pseudo_copy :: "bytes \<Rightarrow> u32 \<Rightarrow> u32 \<Rightarrow> bytes" where
  "pseudo_copy s off len =
     (if length s \<le> unat off then []
      else let tk = (if unat len < length s - unat off then unat len else length s - unat off)
           in map (\<lambda>i. s ! (unat off + i)) [0..<tk])"

definition proc_version_text :: bytes where "proc_version_text = ascii (''Peanut kernel pseudo proc'' @ nl)"
definition kernel_name_text :: bytes where "kernel_name_text = ascii (''Peanut'' @ nl)"

definition passwd_text :: bytes where
  "passwd_text = ascii (''root:x:0:0:root:/root:/sbin/init'' @ nl @
     ''user:x:1000:1000:Peanut User:/home/user:/bin/sh'' @ nl)"

definition vfs_pseudo_pread :: "('h, 'z) vfs_scheme \<Rightarrow> bytes \<Rightarrow> u32 \<Rightarrow> u32 \<Rightarrow> bytes option \<times> ('h, 'z) vfs_scheme" where
  "vfs_pseudo_pread s path off len =
     (if dev_mounted s \<and> devtmpfs_is_path s path then devtmpfs_pread s path off len
      else if path_has_prefix path (ascii ''/proc/version'') then (Some (pseudo_copy proc_version_text off len), s)
      else if path_has_prefix path (ascii ''/sys/kernel/name'') then (Some (pseudo_copy kernel_name_text off len), s)
      else if path_has_prefix path (ascii ''/sys/devices/hdmi'') then (Some (pseudo_copy (hdmi_status s) off len), s)
      else if path_has_prefix path (ascii ''/etc/passwd'') then (Some (pseudo_copy passwd_text off len), s)
      else if path_has_prefix path (ascii ''/etc/fstab'') then (Some (pseudo_copy fstab_text off len), s)
      else (None, s))"

definition vfs_pseudo_read :: "('h, 'z) vfs_scheme \<Rightarrow> bytes \<Rightarrow> u32 \<Rightarrow> bytes option \<times> ('h, 'z) vfs_scheme" where
  "vfs_pseudo_read s path len = vfs_pseudo_pread s path 0 len"

definition users_init :: "('h, 'z) vfs_scheme \<Rightarrow> ('h, 'z) vfs_scheme" where
  "users_init s =
     (let (r, s') = vfs_pseudo_read (s\<lparr>multi_user_enabled := False\<rparr>) (ascii ''/etc/passwd'') 255
      in case r of
           Some bs \<Rightarrow> if 0 < length bs then s'\<lparr>multi_user_enabled := True\<rparr> else s'
         | None \<Rightarrow> s')"

definition users_enabled :: "('h, 'z) vfs_scheme \<Rightarrow> bool" where
  "users_enabled s = multi_user_enabled s"

section \<open>Properties\<close>

lemma text_slice:
  "copy_text s off len = take (unat len) (drop (unat off) s)" "pseudo_copy s off len = take (unat len) (drop (unat off) s)"
  by (auto simp: copy_text_def pseudo_copy_def Let_def intro!: nth_equalityI)

lemma length_fill_bytes: "length (fst (fill_bytes n gen s)) = n"
proof (induction n arbitrary: s)
  case (Suc n)
  obtain b s' where "gen s = (b, s')" by force
  moreover obtain bs s'' where "fill_bytes n gen s' = (bs, s'')" by force
  ultimately show ?case using Suc.IH [of s'] by simp
qed simp

lemma length_kbd_loop: "length out \<le> len \<Longrightarrow> length (fst (kbd_loop len s out)) \<le> len"
proof (induction len s out rule: kbd_loop.induct)
  case (1 len s out)
  show ?case
    using 1 by (subst kbd_loop.simps) (auto simp: Let_def split: prod.split option.split)
qed

lemma length_mouse_loop: "length out \<le> len \<Longrightarrow> length (fst (mouse_loop len s out)) \<le> len"
proof (induction len s out rule: mouse_loop.induct)
  case (1 len s out)
  show ?case
    using 1 by (subst mouse_loop.simps) (auto simp: Let_def split: prod.split option.split)
qed

lemma devtmpfs_pread_length:
  "devtmpfs_pread s path off len = (Some bs, s') \<Longrightarrow> length bs \<le> unat len"
  using length_fill_bytes [of "unat len" entropy_random_byte s] length_fill_bytes [of "unat len" entropy_urandom_byte s]
    length_kbd_loop [of "[]" "unat len" s] length_mouse_loop [of "[]" "unat len" s]
  by (auto simp: devtmpfs_pread_def text_slice split: if_splits prod.splits)

text \<open>Reading a pseudo file never stores more bytes than the caller asked for, whatever the path,
  the offset and the devices deliver.\<close>

theorem vfs_pread_fits:
  assumes "vfs_pseudo_pread s path off len = (Some bs, s')"
  shows "length bs \<le> unat len"
  using assms devtmpfs_pread_length [of s path off len bs s']
  by (auto simp: vfs_pseudo_pread_def text_slice split: if_splits)

definition demo_vfs :: "unit vfs" where
  "demo_vfs = ps2.extend demo_ps2 (vfs.fields True True (ascii ''display=none'') False)"

theorem vfs_pread_fits_witness:
  "\<exists>bs s'. vfs_pseudo_pread demo_vfs (ascii ''/dev/zero'') 0 4 = (Some bs, s') \<and> length bs \<le> 4"
proof -
  have "fst (vfs_pseudo_pread demo_vfs (ascii ''/dev/zero'') 0 4) = Some [0, 0, 0, 0]" by code_simp
  then obtain s' where "vfs_pseudo_pread demo_vfs (ascii ''/dev/zero'') 0 4 = (Some [0, 0, 0, 0], s')"
    by (metis prod.collapse)
  then show ?thesis using vfs_pread_fits [of demo_vfs "ascii ''/dev/zero''" 0 4] by fastforce
qed

lemma chunks_text:
  "concat (map (\<lambda>i. take n (drop (i * n) s)) [0..<k]) = take (k * n) s"
proof (induction k)
  case (Suc k)
  have "take (Suc k * n) s = take (k * n) s @ take n (drop (k * n) s)" by (simp add: take_add [symmetric] add.commute)
  then show ?case using Suc by simp
qed simp

text \<open>Reading \<^verbatim>\<open>/etc/passwd\<close> in consecutive chunks gives the file: the chunks at the offsets
  0, n, 2n and so on, as long as the offsets stay below 4 GiB, are a prefix of its text, and no read
  changes the state.\<close>

lemma vfs_passwd_chunks:
  assumes "unat n * k < 2 ^ 32"
  shows "map (\<lambda>i. vfs_pseudo_pread s (ascii ''/etc/passwd'') (of_nat i * n) n) [0..<k] =
      map (\<lambda>i. (Some (take (unat n) (drop (i * unat n) passwd_text)), s)) [0..<k] \<and>
    concat (map (\<lambda>i. the (fst (vfs_pseudo_pread s (ascii ''/etc/passwd'') (of_nat i * n) n))) [0..<k]) = take (k * unat n) passwd_text"
proof -
  have "path_has_prefix (ascii ''/etc/passwd'') (ascii ''/etc/passwd'')" "\<not> dev_prefix (ascii ''/etc/passwd'') (ascii ''/dev'')"
      "\<not> path_has_prefix (ascii ''/etc/passwd'') (ascii ''/proc/version'')" "\<not> path_has_prefix (ascii ''/etc/passwd'') (ascii ''/sys/kernel/name'')"
      "\<not> path_has_prefix (ascii ''/etc/passwd'') (ascii ''/sys/devices/hdmi'')"
    by code_simp+
  then have rd: "vfs_pseudo_pread s (ascii ''/etc/passwd'') off n = (Some (take (unat n) (drop (unat off) passwd_text)), s)" for off
    by (simp add: vfs_pseudo_pread_def devtmpfs_is_path_def text_slice)
  have "unat (of_nat i * n) = i * unat n" if "i < k" for i
  proof -
    have "i * unat n \<le> unat n * k" using that by (simp add: mult.commute)
    then have "i * unat n < 2 ^ 32" using assms by linarith
    moreover have "of_nat i * n = of_nat (i * unat n)" by simp
    ultimately show ?thesis by (simp only: unat_of_nat) simp
  qed
  then have eq: "map (\<lambda>i. vfs_pseudo_pread s (ascii ''/etc/passwd'') (of_nat i * n) n) [0..<k] =
      map (\<lambda>i. (Some (take (unat n) (drop (i * unat n) passwd_text)), s)) [0..<k]" by (simp add: rd)
  then have "map (the \<circ> fst) (map (\<lambda>i. vfs_pseudo_pread s (ascii ''/etc/passwd'') (of_nat i * n) n) [0..<k]) =
      map (the \<circ> fst) (map (\<lambda>i. (Some (take (unat n) (drop (i * unat n) passwd_text)), s)) [0..<k])" by (rule arg_cong)
  then have "map (\<lambda>i. the (fst (vfs_pseudo_pread s (ascii ''/etc/passwd'') (of_nat i * n) n))) [0..<k] =
      map (\<lambda>i. take (unat n) (drop (i * unat n) passwd_text)) [0..<k]" by (simp only: map_map comp_def fst_conv option.sel)
  then show ?thesis using eq chunks_text [of "unat n" passwd_text k] by (simp only: simp_thms)
qed

end
