(* ===== verification/Storage.thy ===== *)
theory Storage
  imports Exfat Extfs Vfs
begin

text \<open>
  \<^verbatim>\<open>src/src/storage.c\<close>: mounting the first volume of a disk, choosing the root volume among
  the disks, and checking that it has the directories of the file-system hierarchy.

  The disks the IDE and AHCI drivers found are parameters.  The disk a volume was mounted from,
  in the source a field of its partition, is \<open>pv_disk\<close>.  A panic stops the kernel and is a
  result of its own; None is a walk through a damaged directory that does not return.

  A mount that fails leaves the volume record as it was; in the source it may have filled part of
  the member of that file system, which nothing reads before another mount fills it again,
  because the members are used only according to \<^verbatim>\<open>fs_kind\<close>.
\<close>

record 'd PeanutVolume =
  fs_kind :: nat
  pv_disk :: "'d BlockDevice option"
  fat32 :: Fat32Volume
  exfat :: ExfatVolume
  ext :: ExtVolume

definition PEANUT_FS_FAT32 :: nat where "PEANUT_FS_FAT32 = 0"
definition PEANUT_FS_EXFAT :: nat where "PEANUT_FS_EXFAT = 1"
definition PEANUT_FS_EXT :: nat where "PEANUT_FS_EXT = 2"

lemmas fs_kinds = PEANUT_FS_FAT32_def PEANUT_FS_EXFAT_def PEANUT_FS_EXT_def

datatype 'a boot = Panic string | Running 'a

section \<open>The hierarchy check\<close>

definition fhs_dir_exists_fat32 :: "Fat32Volume \<Rightarrow> 'd BlockDevice option \<Rightarrow> bytes \<Rightarrow> bool option" where
  "fhs_dir_exists_fat32 v disk name =
     map_option (\<lambda>r. case r of None \<Rightarrow> False | Some e \<Rightarrow> attributes e AND FAT32_ATTR_DIRECTORY \<noteq> 0)
       (fat32_find_root v disk name)"

definition fhs_dir_exists_ext :: "ExtVolume \<Rightarrow> 'd BlockDevice option \<Rightarrow> bytes \<Rightarrow> bool option" where
  "fhs_dir_exists_ext v disk name = extfs_dir_exists v disk (slash # take 14 name)"

text \<open>The conjunctions of \<^verbatim>\<open>validate_fhs\<close>, which stop at the first missing directory.\<close>

fun all_exist :: "(bytes \<Rightarrow> bool option) \<Rightarrow> bytes list \<Rightarrow> bool option" where
  "all_exist f [] = Some True"
| "all_exist f (n # ns) =
     (case f n of None \<Rightarrow> None | Some False \<Rightarrow> Some False | Some True \<Rightarrow> all_exist f ns)"

definition fhs_dirs :: "bytes list" where
  "fhs_dirs = [ascii ''BOOT'', ascii ''BIN'', ascii ''USR'', ascii ''LIB'']"

definition validate_fhs :: "'d PeanutVolume \<Rightarrow> bool option" where
  "validate_fhs pv =
     (if fs_kind pv = PEANUT_FS_EXFAT then all_exist (exfat_dir_exists (exfat pv) (pv_disk pv)) fhs_dirs
      else if fs_kind pv = PEANUT_FS_EXT then all_exist (fhs_dir_exists_ext (ext pv) (pv_disk pv)) fhs_dirs
      else all_exist (fhs_dir_exists_fat32 (fat32 pv) (pv_disk pv)) fhs_dirs)"

section \<open>Mounting\<close>

text \<open>The partitions a disk is searched through: those of its master boot record, or else the
  whole disk.\<close>

definition disk_partitions :: "'d BlockDevice \<Rightarrow> Partition list" where
  "disk_partitions dev =
     (let (count, ps) = partition_scan_mbr (Some dev) (of_nat PARTITION_MAX)
      in if count \<le> 0 then [\<lparr>part_type = 0, first_lba = 0, part_sectors = sector_count dev\<rparr>] else ps)"

fun first_mount :: "(Partition \<Rightarrow> 'v option) \<Rightarrow> Partition list \<Rightarrow> 'v option" where
  "first_mount f [] = None"
| "first_mount f (p # ps) = (case f p of Some v \<Rightarrow> Some v | None \<Rightarrow> first_mount f ps)"

definition mount_first_fs :: "'d BlockDevice \<Rightarrow> 'd PeanutVolume \<Rightarrow> 'd PeanutVolume option" where
  "mount_first_fs dev out =
     (let ps = disk_partitions dev; disk = Some dev
      in case first_mount (\<lambda>p. if partition_is_fat p then fat32_mount disk p else None) ps of
           Some v \<Rightarrow> Some (out\<lparr>fs_kind := PEANUT_FS_FAT32, pv_disk := disk, fat32 := v\<rparr>)
         | None \<Rightarrow>
             (case first_mount (\<lambda>p. if exfat_probe_boot disk (first_lba p) then exfat_mount disk p else None) ps of
                Some v \<Rightarrow> Some (out\<lparr>fs_kind := PEANUT_FS_EXFAT, pv_disk := disk, exfat := v\<rparr>)
              | None \<Rightarrow>
                  (case first_mount (\<lambda>p. if extfs_probe disk (first_lba p) then extfs_mount disk p else None) ps of
                     Some v \<Rightarrow> Some (out\<lparr>fs_kind := PEANUT_FS_EXT, pv_disk := disk, ext := v\<rparr>)
                   | None \<Rightarrow> None)))"

fun mount_any :: "'d BlockDevice list \<Rightarrow> 'd PeanutVolume \<Rightarrow> 'd PeanutVolume option" where
  "mount_any [] out = None"
| "mount_any (d # ds) out = (case mount_first_fs d out of Some v \<Rightarrow> Some v | None \<Rightarrow> mount_any ds out)"

definition storage_init_required ::
  "'d BlockDevice list \<Rightarrow> 'd BlockDevice list \<Rightarrow> 'd PeanutVolume \<Rightarrow> 'd PeanutVolume boot option" where
  "storage_init_required ahci ide root_volume =
     (if ide = [] \<and> ahci = [] then Some (Panic ''[Peanut kernel - panic - no drives found!]'')
      else case (case mount_any ahci root_volume of Some v \<Rightarrow> Some v | None \<Rightarrow> mount_any ide root_volume) of
          None \<Rightarrow> Some (Panic ''[Peanut kernel - panic - no mountable filesystem volume!]'')
        | Some v \<Rightarrow>
            (case validate_fhs v of
               None \<Rightarrow> None
             | Some ok \<Rightarrow> Some (if ok then Running v else Panic ''[Peanut kernel - panic - FHS not working! Could not find /bin, /usr, /lib or /boot.]'')))"

definition storage_get_root_volume :: "'d PeanutVolume boot option \<Rightarrow> 'd PeanutVolume option" where
  "storage_get_root_volume r = (case r of Some (Running v) \<Rightarrow> Some v | _ \<Rightarrow> None)"

section \<open>Properties\<close>

lemma mount_any_append:
  "mount_any (ds @ es) out = (case mount_any ds out of Some v \<Rightarrow> Some v | None \<Rightarrow> mount_any es out)"
  by (induction ds) (auto split: option.split)

lemma all_exist_True: "all_exist f ns = Some True \<longleftrightarrow> (\<forall>n \<in> set ns. f n = Some True)"
  by (induction ns) (auto split: option.split bool.split)

text \<open>What the search is to find: a partition a file system accepts, a disk with such a partition,
  and on the volume a directory of each of the four names.\<close>

definition fat_here :: "'d BlockDevice \<Rightarrow> Partition \<Rightarrow> bool" where
  "fat_here d p \<longleftrightarrow> partition_is_fat p \<and> fat32_mount (Some d) p \<noteq> None"

definition exfat_here :: "'d BlockDevice \<Rightarrow> Partition \<Rightarrow> bool" where
  "exfat_here d p \<longleftrightarrow> exfat_probe_boot (Some d) (first_lba p) \<and> exfat_mount (Some d) p \<noteq> None"

definition ext_here :: "'d BlockDevice \<Rightarrow> Partition \<Rightarrow> bool" where
  "ext_here d p \<longleftrightarrow> extfs_probe (Some d) (first_lba p) \<and> extfs_mount (Some d) p \<noteq> None"

definition mountable :: "'d BlockDevice \<Rightarrow> bool" where
  "mountable d \<longleftrightarrow> (\<exists>p \<in> set (disk_partitions d). fat_here d p \<or> exfat_here d p \<or> ext_here d p)"

definition fat_dir :: "Fat32Volume \<Rightarrow> 'd BlockDevice \<Rightarrow> string \<Rightarrow> bool" where
  "fat_dir v d n \<longleftrightarrow> (\<exists>e. fat32_find_root v (Some d) (ascii n) = Some (Some e) \<and> attributes e AND FAT32_ATTR_DIRECTORY \<noteq> 0)"

definition exfat_dir :: "ExfatVolume \<Rightarrow> 'd BlockDevice \<Rightarrow> string \<Rightarrow> bool" where
  "exfat_dir v d n \<longleftrightarrow> (\<exists>e. exfat_find_root v (Some d) (ascii n) = Some (Some e) \<and> ex_attributes e AND EXFAT_ATTR_DIRECTORY \<noteq> 0)"

definition ext_dir :: "ExtVolume \<Rightarrow> 'd BlockDevice \<Rightarrow> string \<Rightarrow> bool" where
  "ext_dir v d n \<longleftrightarrow> (\<exists>i. find_inode v (Some d) (ascii (''/'' @ n)) = Some (Some i) \<and> inode_mode i AND EXT_INODE_MODE_DIR \<noteq> 0)"

lemma first_mount_find:
  "first_mount (\<lambda>p. if P p then f p else None) ps = Option.bind (find (\<lambda>p. P p \<and> f p \<noteq> None) ps) f"
  by (induction ps) (auto split: option.split)

lemma found_mounts:
  "find (fat_here d) ps = Some p \<Longrightarrow> \<exists>w. fat32_mount (Some d) p = Some w"
  "find (exfat_here d) ps = Some p \<Longrightarrow> \<exists>w. exfat_mount (Some d) p = Some w"
  "find (ext_here d) ps = Some p \<Longrightarrow> \<exists>w. extfs_mount (Some d) p = Some w"
  by (auto simp: find_Some_iff fat_here_def exfat_here_def ext_here_def)

lemma mount_first_fs_iff:
  "mount_first_fs d out = Some v \<longleftrightarrow>
     (\<exists>p w. find (fat_here d) (disk_partitions d) = Some p \<and> fat32_mount (Some d) p = Some w \<and>
        v = out\<lparr>fs_kind := PEANUT_FS_FAT32, pv_disk := Some d, fat32 := w\<rparr>) \<or>
     find (fat_here d) (disk_partitions d) = None \<and>
     (\<exists>p w. find (exfat_here d) (disk_partitions d) = Some p \<and> exfat_mount (Some d) p = Some w \<and>
        v = out\<lparr>fs_kind := PEANUT_FS_EXFAT, pv_disk := Some d, exfat := w\<rparr>) \<or>
     find (fat_here d) (disk_partitions d) = None \<and> find (exfat_here d) (disk_partitions d) = None \<and>
     (\<exists>p w. find (ext_here d) (disk_partitions d) = Some p \<and> extfs_mount (Some d) p = Some w \<and>
        v = out\<lparr>fs_kind := PEANUT_FS_EXT, pv_disk := Some d, ext := w\<rparr>)"
proof -
  have fs: "(\<lambda>p. partition_is_fat p \<and> fat32_mount (Some d) p \<noteq> None) = fat_here d"
      "(\<lambda>p. exfat_probe_boot (Some d) (first_lba p) \<and> exfat_mount (Some d) p \<noteq> None) = exfat_here d"
      "(\<lambda>p. extfs_probe (Some d) (first_lba p) \<and> extfs_mount (Some d) p \<noteq> None) = ext_here d"
    by (simp_all add: fun_eq_iff fat_here_def exfat_here_def ext_here_def)
  show ?thesis
    unfolding mount_first_fs_def Let_def first_mount_find fs
    using found_mounts [of d "disk_partitions d"]
    by (cases "find (fat_here d) (disk_partitions d)"; cases "find (exfat_here d) (disk_partitions d)";
        cases "find (ext_here d) (disk_partitions d)") (auto; blast?)+
qed

lemma mount_first_fs_None: "mount_first_fs d out = None \<longleftrightarrow> \<not> mountable d"
proof -
  have "mountable d \<longleftrightarrow> find (fat_here d) (disk_partitions d) \<noteq> None \<or> find (exfat_here d) (disk_partitions d) \<noteq> None \<or>
      find (ext_here d) (disk_partitions d) \<noteq> None"
    by (auto simp: mountable_def find_None_iff)
  also have "\<dots> \<longleftrightarrow> (\<exists>v. mount_first_fs d out = Some v)"
    unfolding mount_first_fs_iff using found_mounts [of d "disk_partitions d"]
    by (cases "find (fat_here d) (disk_partitions d)"; cases "find (exfat_here d) (disk_partitions d)";
        cases "find (ext_here d) (disk_partitions d)") auto
  finally show ?thesis by auto
qed

lemma mount_any_find: "mount_any ds out = Option.bind (find mountable ds) (\<lambda>d. mount_first_fs d out)"
proof (induction ds)
  case (Cons d ds)
  then show ?case using mount_first_fs_None [of d out] by (cases "mount_first_fs d out") auto
qed simp

lemma fhs_dirs_iff:
  "all_exist (fhs_dir_exists_fat32 w (Some d)) fhs_dirs = Some True \<longleftrightarrow> (\<forall>n \<in> {''BOOT'', ''BIN'', ''USR'', ''LIB''}. fat_dir w d n)"
  "all_exist (exfat_dir_exists x (Some d)) fhs_dirs = Some True \<longleftrightarrow> (\<forall>n \<in> {''BOOT'', ''BIN'', ''USR'', ''LIB''}. exfat_dir x d n)"
  "all_exist (fhs_dir_exists_ext y (Some d)) fhs_dirs = Some True \<longleftrightarrow> (\<forall>n \<in> {''BOOT'', ''BIN'', ''USR'', ''LIB''}. ext_dir y d n)"
proof -
  have "fhs_dir_exists_fat32 w (Some d) (ascii n) = Some True \<longleftrightarrow> fat_dir w d n" for n
    by (auto simp: fhs_dir_exists_fat32_def fat_dir_def split: option.splits)
  then show "all_exist (fhs_dir_exists_fat32 w (Some d)) fhs_dirs = Some True \<longleftrightarrow> (\<forall>n \<in> {''BOOT'', ''BIN'', ''USR'', ''LIB''}. fat_dir w d n)"
    unfolding all_exist_True fhs_dirs_def by simp
  have "exfat_dir_exists x (Some d) (ascii n) = Some True \<longleftrightarrow> exfat_dir x d n" for n
    by (auto simp: exfat_dir_exists_def exfat_dir_def split: option.splits)
  then show "all_exist (exfat_dir_exists x (Some d)) fhs_dirs = Some True \<longleftrightarrow> (\<forall>n \<in> {''BOOT'', ''BIN'', ''USR'', ''LIB''}. exfat_dir x d n)"
    unfolding all_exist_True fhs_dirs_def by simp
  have "fhs_dir_exists_ext y (Some d) (ascii n) = Some True \<longleftrightarrow> ext_dir y d n" if "n \<in> {''BOOT'', ''BIN'', ''USR'', ''LIB''}" for n
  proof -
    have "slash # take 14 (ascii n) = ascii (''/'' @ n)" using that by (auto simp: ascii_def)
    then show ?thesis by (auto simp: fhs_dir_exists_ext_def extfs_dir_exists_def ext_dir_def split: option.splits)
  qed
  then show "all_exist (fhs_dir_exists_ext y (Some d)) fhs_dirs = Some True \<longleftrightarrow> (\<forall>n \<in> {''BOOT'', ''BIN'', ''USR'', ''LIB''}. ext_dir y d n)"
    unfolding all_exist_True fhs_dirs_def by simp
qed

lemma validate_root:
  "validate_fhs (out\<lparr>fs_kind := PEANUT_FS_FAT32, pv_disk := Some d, fat32 := w\<rparr>) = Some True \<longleftrightarrow>
    (\<forall>n \<in> {''BOOT'', ''BIN'', ''USR'', ''LIB''}. fat_dir w d n)"
  "validate_fhs (out\<lparr>fs_kind := PEANUT_FS_EXFAT, pv_disk := Some d, exfat := x\<rparr>) = Some True \<longleftrightarrow>
    (\<forall>n \<in> {''BOOT'', ''BIN'', ''USR'', ''LIB''}. exfat_dir x d n)"
  "validate_fhs (out\<lparr>fs_kind := PEANUT_FS_EXT, pv_disk := Some d, ext := y\<rparr>) = Some True \<longleftrightarrow>
    (\<forall>n \<in> {''BOOT'', ''BIN'', ''USR'', ''LIB''}. ext_dir y d n)"
  unfolding fhs_dirs_iff [symmetric] by (simp_all add: validate_fhs_def fs_kinds)


text \<open>An exFAT disk with the four directories.\<close>

definition demo_dir :: "string \<Rightarrow> bytes" where
  "demo_dir name = [0x85, 2, 0, 0, 0x10] @ replicate 27 0 @ [0xC0, 0, 0, of_nat (length name)] @ replicate 16 0 @ [4, 0, 0, 0] @
     replicate 8 0 @ take 32 ([0xC1, 0] @ concat (map (\<lambda>c. [c, 0]) (ascii name)) @ replicate 32 0)"

definition demo_root_disk :: "u64 \<Rightarrow> bytes" where
  "demo_root_disk l = (if l = 2 then concat (map demo_dir [''boot'', ''bin'', ''usr'', ''lib'']) else demo_exfat l)"

definition demo_no_volume :: "(u64 \<Rightarrow> bytes) PeanutVolume" where
  "demo_no_volume = \<lparr>fs_kind = 0, pv_disk = None,
     fat32 = \<lparr>fat_part = ex_part demo_exfat_volume, fat_type = 0, fat_start_lba = 0, data_start_lba = 0, root_dir_lba = 0, root_dir_sectors = 0, root_cluster = 0,
       sectors_per_fat = 0, sectors_per_cluster = 0, root_entry_count = 0\<rparr>,
     exfat = demo_exfat_volume,
     ext = \<lparr>ext_part = ex_part demo_exfat_volume, block_size = 0, blocks_per_group = 0, inodes_per_group = 0, inode_size = 0,
       first_data_block = 0, group_desc_lba = 0, group_desc_off = 0, groups = 0\<rparr>\<rparr>"


text \<open>A disk without a partition table is never mounted as FAT: the partition made up for the
  whole disk has type 0, which is not a FAT type.\<close>

lemma raw_disk_never_fat:
  assumes "fst (partition_scan_mbr (Some d) (of_nat PARTITION_MAX)) \<le> 0" and "mount_first_fs d out = Some v"
  shows "fs_kind v \<noteq> PEANUT_FS_FAT32"
proof -
  have "disk_partitions d = [\<lparr>part_type = 0, first_lba = 0, part_sectors = sector_count d\<rparr>]"
    using assms(1) by (auto simp: disk_partitions_def Let_def split: prod.split)
  moreover have "\<not> partition_is_fat \<lparr>part_type = 0, first_lba = 0, part_sectors = sector_count d\<rparr>"
    by (simp add: partition_is_fat_def partition_is_fat32_def)
  ultimately show ?thesis using assms(2) by (auto simp: mount_first_fs_def Let_def fs_kinds split: option.splits)
qed

end
