(* ===== verification/Elf.thy ===== *)
theory Elf
  imports Storage Kalloc Sched
begin

text \<open>
  \<^verbatim>\<open>src/src/programs/elf.c\<close>: reading a program from the root volume into a heap buffer,
  scripts and dynamic linkers, which load another program in its place, copying the segments of
  an ELF file to their addresses, and building the first user stack.

  The program's structures are overlays on the byte memory, re-read where the source dereferences
  them again, since a segment may be loaded over the buffer it comes from.  The address of the
  static user stack, like the kernel image, is a parameter.  When a file cannot be read completely
  the model leaves the buffer, which is then freed, as it was; the source may have stored a part.
  A script that names itself as its interpreter makes the loader recurse without end: it is a
  partial function, None meaning that it does not return.
\<close>

record kproc = kheap +
  ksched :: sched

record elf_image = vm_image +
  test_user_stack :: u64

definition ELF_MAGIC :: u32 where "ELF_MAGIC = 0x464C457F"
definition PT_LOAD :: u32 where "PT_LOAD = 1"
definition PT_INTERP :: u32 where "PT_INTERP = 3"

record Elf64Header =
  e_ident :: u32
  e_entry :: u64
  e_phoff :: u64
  e_phnum :: u16

record Elf64Phdr =
  p_type :: u32
  p_offset :: u64
  p_vaddr :: u64
  p_filesz :: u64
  p_memsz :: u64

definition elf_header :: "mem \<Rightarrow> u64 \<Rightarrow> Elf64Header" where
  "elf_header m a = \<lparr>e_ident = load m a, e_entry = load m (a + 24), e_phoff = load m (a + 32), e_phnum = load m (a + 56)\<rparr>"

definition elf_phdr :: "mem \<Rightarrow> u64 \<Rightarrow> Elf64Phdr" where
  "elf_phdr m a = \<lparr>p_type = load m a, p_offset = load m (a + 8), p_vaddr = load m (a + 16),
     p_filesz = load m (a + 32), p_memsz = load m (a + 40)\<rparr>"

section \<open>Names\<close>

text \<open>A copy into a buffer of \<open>cap\<close> bytes keeps at most \<open>cap - 1\<close> characters.\<close>

definition kstrlcpy :: "bytes \<Rightarrow> nat \<Rightarrow> bytes" where
  "kstrlcpy s cap = take (cap - 1) s"

definition is_blank :: "u8 \<Rightarrow> bool" where "is_blank c \<longleftrightarrow> c = 0x20 \<or> c = 0x09"
definition is_eol :: "u8 \<Rightarrow> bool" where "is_eol c \<longleftrightarrow> c = 0x0A \<or> c = 0x0D"

definition parse_shebang_line :: "bytes \<Rightarrow> nat \<Rightarrow> nat \<Rightarrow> (bytes \<times> bytes) option" where
  "parse_shebang_line data interp_sz arg_sz =
     (if length data < 2 \<or> data ! 0 \<noteq> 0x23 \<or> data ! 1 \<noteq> 0x21 then None
      else
        let d1 = dropWhile is_blank (drop 2 data);
            interp = takeWhile (\<lambda>c. \<not> is_eol c \<and> \<not> is_blank c) d1;
            d2 = dropWhile is_blank (drop (length interp) d1)
        in if interp_sz \<le> length interp then None
           else if interp = [] then None
           else Some (cstr interp, cstr (take (arg_sz - 1) (takeWhile (\<lambda>c. \<not> is_eol c) d2))))"

definition fat_path_from_fs :: "bytes \<Rightarrow> nat \<Rightarrow> bytes" where
  "fat_path_from_fs fs_path out_sz =
     (case fs_path of
        c # cs \<Rightarrow> if c = slash then map upper_ascii (take (out_sz - 1) cs) else map upper_ascii (take (out_sz - 1) fs_path)
      | [] \<Rightarrow> [])"

definition starts_slash :: "bytes \<Rightarrow> bool" where
  "starts_slash p \<longleftrightarrow> (case p of c # _ \<Rightarrow> c = slash | [] \<Rightarrow> False)"

definition fat_exec_path :: "bytes \<Rightarrow> bytes" where
  "fat_exec_path path = (if starts_slash path then fat_path_from_fs path 160 else path)"

definition ext_exec_path :: "bytes \<Rightarrow> bytes" where
  "ext_exec_path path = (if starts_slash path then kstrlcpy path 160 else slash # kstrlcpy path 159)"

section \<open>Reading the file\<close>

text \<open>The outer option is None when a directory walk does not return, the inner one for -1.\<close>

definition elf_file_size :: "'d PeanutVolume \<Rightarrow> bytes \<Rightarrow> u64 option option" where
  "elf_file_size vol path =
     (if fs_kind vol = PEANUT_FS_FAT32 then
        map_option (\<lambda>r. case r of
            None \<Rightarrow> None
          | Some e \<Rightarrow> if attributes e AND FAT32_ATTR_DIRECTORY \<noteq> 0 then None else Some (ucast (entry_size e)))
          (fat32_find_root (fat32 vol) (pv_disk vol) (fat_exec_path path))
      else if fs_kind vol = PEANUT_FS_EXFAT then
        map_option (\<lambda>r. case r of
            None \<Rightarrow> None
          | Some e \<Rightarrow> if ex_attributes e AND EXFAT_ATTR_DIRECTORY \<noteq> 0 then None else Some (ex_size e))
          (exfat_find_root (exfat vol) (pv_disk vol) (fat_exec_path path))
      else
        map_option (\<lambda>r. case r of
            None \<Rightarrow> None
          | Some (sz, is_dir) \<Rightarrow> if is_dir then None else Some sz)
          (extfs_stat (ext vol) (pv_disk vol) (ext_exec_path path)))"

definition elf_read_file :: "'d PeanutVolume \<Rightarrow> bytes \<Rightarrow> u32 \<Rightarrow> bytes option option" where
  "elf_read_file vol path file_size =
     (if fs_kind vol = PEANUT_FS_FAT32 then fat32_read_file (fat32 vol) (pv_disk vol) (fat_exec_path path) file_size
      else if fs_kind vol = PEANUT_FS_EXFAT then exfat_read_file (exfat vol) (pv_disk vol) (fat_exec_path path) file_size
      else extfs_read_file (ext vol) (pv_disk vol) (ext_exec_path path) file_size)"

section \<open>Segments\<close>

text \<open>The two copying loops of a segment, from index \<open>j\<close> on; the header is read from memory
  in every round.\<close>

lemma next_below: "j < (n :: u64) \<Longrightarrow> 2 ^ 64 - unat (j + 1) < 2 ^ 64 - unat j"
proof -
  assume "j < n"
  then have "unat j < unat n" by (simp add: word_less_nat_alt)
  then have "unat j + 1 < 2 ^ 64" using unat_u64 [of n] by linarith
  then have "unat (j + 1) = unat j + 1" using unat_offset [of j 0 1] by simp
  then show ?thesis using \<open>unat j + 1 < 2 ^ 64\<close> by simp
qed

function copy_file :: "u64 \<Rightarrow> u64 \<Rightarrow> u64 \<Rightarrow> u64 \<Rightarrow> mem \<Rightarrow> mem" where
  "copy_file ph dest src j m =
     (if j < p_filesz (elf_phdr m ph) then copy_file ph dest src (j + 1) (m(dest + j := m (src + j))) else m)"
  by pat_completeness auto
termination
  by (relation "measure (\<lambda>(ph, dest, src, j, m). 2 ^ 64 - unat j)") (use next_below in auto)

function zero_rest :: "u64 \<Rightarrow> u64 \<Rightarrow> u64 \<Rightarrow> mem \<Rightarrow> mem" where
  "zero_rest ph dest j m =
     (if j < p_memsz (elf_phdr m ph) then zero_rest ph dest (j + 1) (m(dest + j := 0)) else m)"
  by pat_completeness auto
termination
  by (relation "measure (\<lambda>(ph, dest, j, m). 2 ^ 64 - unat j)") (use next_below in auto)

declare copy_file.simps [simp del] zero_rest.simps [simp del]

definition load_segment :: "u64 \<Rightarrow> u64 \<Rightarrow> mem \<Rightarrow> mem" where
  "load_segment buf ph m =
     (let dest = p_vaddr (elf_phdr m ph);
          src = buf + p_offset (elf_phdr m ph);
          m1 = copy_file ph dest src 0 m
      in if p_filesz (elf_phdr m1 ph) < p_memsz (elf_phdr m1 ph)
         then zero_rest ph dest (p_filesz (elf_phdr m1 ph)) m1 else m1)"

function load_segments :: "u64 \<Rightarrow> u64 \<Rightarrow> nat \<Rightarrow> mem \<Rightarrow> mem" where
  "load_segments buf phdr i m =
     (if i < unat (e_phnum (elf_header m buf)) then
        let ph = phdr + 56 * of_nat i
        in load_segments buf phdr (i + 1) (if p_type (elf_phdr m ph) = PT_LOAD then load_segment buf ph m else m)
      else m)"
  by pat_completeness auto
termination
proof (relation "measure (\<lambda>(buf, phdr, i, m). 2 ^ 16 - i)")
  fix buf phdr ph :: u64 and i :: nat and m :: mem
  assume "i < unat (e_phnum (elf_header m buf))" "ph = phdr + 56 * of_nat i"
  then show "((buf, phdr, i + 1, if p_type (elf_phdr m ph) = PT_LOAD then load_segment buf ph m else m), buf, phdr, i, m)
      \<in> measure (\<lambda>(buf, phdr, i, m). 2 ^ 16 - i)"
    using unat_u16 [of "e_phnum (elf_header m buf)"] by simp
qed simp

declare load_segments.simps [simp del]

text \<open>The path of the dynamic linker, when a program header names one.\<close>

definition find_interp :: "mem \<Rightarrow> u64 \<Rightarrow> u64 \<Rightarrow> u64 option" where
  "find_interp m buf phdr =
     map_option (\<lambda>i. buf + p_offset (elf_phdr m (phdr + 56 * of_nat i)))
       (first_index (\<lambda>i. p_type (elf_phdr m (phdr + 56 * of_nat i)) = PT_INTERP) [0..<unat (e_phnum (elf_header m buf))])"

definition mem_cstr :: "mem \<Rightarrow> u64 \<Rightarrow> nat \<Rightarrow> bytes" where
  "mem_cstr m a cap = cstr (mem_read m a (cap - 1))"

section \<open>Entering the program\<close>

datatype exec_result = ExecFail | ExecPanic | EnterRing3 u64 u64

definition build_user_stack :: "u64 \<Rightarrow> bytes \<Rightarrow> bytes option \<Rightarrow> mem \<Rightarrow> mem \<times> u64" where
  "build_user_stack stack argv0 argv1_opt m =
     (let top = (stack + 4096) AND NOT 15;
          str_base = top - 512;
          m1 = mem_copy_in m str_base (kstrlcpy argv0 256 @ [0]);
          arg1 = (case argv1_opt of None \<Rightarrow> [] | Some a \<Rightarrow> a);
          have1 = (arg1 \<noteq> []);
          m2 = (if have1 then mem_copy_in m1 (str_base + 256) (kstrlcpy arg1 256 @ [0]) else m1);
          argc = (if have1 then 2 else 1) :: u64;
          m3 = store m2 (top - 8) (0 :: u64);
          m4 = store m3 (top - 16) (0 :: u64);
          m5 = store m4 (top - 24) (0 :: u64);
          (m6, sp) = (if have1 then (store m5 (top - 32) (str_base + 256), top - 32) else (m5, top - 24));
          m7 = store m6 (sp - 8) str_base;
          m8 = store m7 (sp - 16) argc
      in (m8, (sp - 16) AND NOT 15))"

definition jump_to_ring3 ::
  "u64 \<Rightarrow> u64 \<Rightarrow> bytes \<Rightarrow> bytes option \<Rightarrow> 'z kproc_scheme \<Rightarrow> 'z kproc_scheme \<times> exec_result" where
  "jump_to_ring3 stack entry argv0 argv1_opt s =
     (let (m, rsp) = build_user_stack stack argv0 argv1_opt (slab_mem s);
          s1 = set_mem m s;
          (r, sch) = sched_create_user (ksched s1) entry rsp
      in if r < 0 then (s1\<lparr>ksched := sch\<rparr>, ExecPanic)
         else (s1\<lparr>ksched := sched_mark_user_live (sched_arm_user_preempt sch)\<rparr>, EnterRing3 entry rsp))"

section \<open>The loader\<close>

partial_function (option) elf_load_and_run_inner ::
  "elf_image \<Rightarrow> 'd PeanutVolume \<Rightarrow> bytes \<Rightarrow> bytes \<Rightarrow> bytes option \<Rightarrow> 'z kproc_scheme \<Rightarrow> ('z kproc_scheme \<times> exec_result) option" where
  "elf_load_and_run_inner k vol path argv0 argv1_opt s =
     (case elf_file_size vol path of
        None \<Rightarrow> None
      | Some None \<Rightarrow> Some (s, ExecFail)
      | Some (Some file_size) \<Rightarrow>
          if file_size = 0 \<or> 16777216 < file_size then Some (s, ExecFail)
          else
            (case kalloc (vm_image.truncate k) file_size s of
               None \<Rightarrow> None
             | Some (s1, buf) \<Rightarrow>
                 if buf = 0 then Some (s1, ExecFail)
                 else
                   (case elf_read_file vol path (ucast file_size) of
                      None \<Rightarrow> None
                    | Some None \<Rightarrow> Some (kfree buf s1, ExecFail)
                    | Some (Some data) \<Rightarrow>
                        let s2 = set_mem (mem_copy_in (slab_mem s1) buf data) s1; m = slab_mem s2
                        in if length data \<noteq> unat file_size then Some (kfree buf s2, ExecFail)
                           else if 2 \<le> length data \<and> data ! 0 = 0x23 \<and> data ! 1 = 0x21 then
                             (case parse_shebang_line data 128 128 of
                                None \<Rightarrow> Some (kfree buf s2, ExecFail)
                              | Some (interp, arg) \<Rightarrow>
                                  let ip = (if fs_kind vol \<noteq> PEANUT_FS_EXT then fat_path_from_fs interp 144 else interp);
                                      sp = (if fs_kind vol \<noteq> PEANUT_FS_EXT then fat_path_from_fs path 144 else path)
                                  in elf_load_and_run_inner k vol ip ip (Some sp) (kfree buf s2))
                           else if e_ident (elf_header m buf) \<noteq> ELF_MAGIC then Some (kfree buf s2, ExecFail)
                           else
                             let phdr = buf + e_phoff (elf_header m buf)
                             in (case find_interp m buf phdr of
                                   Some ia \<Rightarrow>
                                     let ic = mem_cstr m ia 256;
                                         ip = (if fs_kind vol \<noteq> PEANUT_FS_EXT then fat_path_from_fs ic 144 else ic)
                                     in elf_load_and_run_inner k vol ip ip (Some path) (kfree buf s2)
                                 | None \<Rightarrow>
                                     let s3 = set_mem (load_segments buf phdr 0 m) s2;
                                         entry = e_entry (elf_header (slab_mem s3) buf)
                                     in Some (jump_to_ring3 (test_user_stack k) entry argv0 argv1_opt (kfree buf s3))))))"

declare elf_load_and_run_inner.simps [code]

definition elf_load_and_run :: "elf_image \<Rightarrow> 'd PeanutVolume \<Rightarrow> bytes \<Rightarrow> 'z kproc_scheme \<Rightarrow> ('z kproc_scheme \<times> exec_result) option" where
  "elf_load_and_run k vol path s = elf_load_and_run_inner k vol path path None s"

definition elf_load_and_run_exec ::
  "elf_image \<Rightarrow> 'd PeanutVolume \<Rightarrow> bytes \<Rightarrow> bytes option \<Rightarrow> bytes option \<Rightarrow> 'z kproc_scheme \<Rightarrow> ('z kproc_scheme \<times> exec_result) option" where
  "elf_load_and_run_exec k vol path argv0 argv1_opt s =
     elf_load_and_run_inner k vol path (case argv0 of None \<Rightarrow> path | Some a \<Rightarrow> a) argv1_opt s"

section \<open>Loading a segment\<close>

definition ph_bytes :: "u64 \<Rightarrow> u64 set" where
  "ph_bytes ph = (\<lambda>j. ph + of_nat j) ` {..<56}"

lemma load_ph_cong:
  assumes "\<And>x. x \<in> ph_bytes ph \<Longrightarrow> m x = m' x" and "k + LENGTH('a) div 8 \<le> 56"
  shows "load m (ph + of_nat k) = (load m' (ph + of_nat k) :: 'a::len word)"
proof (rule load_cong)
  fix i assume "i < LENGTH('a) div 8"
  then have "ph + of_nat (k + i) \<in> ph_bytes ph" unfolding ph_bytes_def using assms(2) by (intro imageI) simp
  then show "m (ph + of_nat k + of_nat i) = m' (ph + of_nat k + of_nat i)" using assms(1) by (simp add: add.assoc)
qed

lemma elf_phdr_cong:
  assumes "\<And>x. x \<in> ph_bytes ph \<Longrightarrow> m x = m' x"
  shows "elf_phdr m ph = elf_phdr m' ph"
  using load_ph_cong [where ph = ph and m = m and m' = m' and k = 0 and 'a = 32, OF assms] load_ph_cong [where ph = ph and m = m and m' = m' and k = 8 and 'a = 64, OF assms]
    load_ph_cong [where ph = ph and m = m and m' = m' and k = 16 and 'a = 64, OF assms] load_ph_cong [where ph = ph and m = m and m' = m' and k = 32 and 'a = 64, OF assms]
    load_ph_cong [where ph = ph and m = m and m' = m' and k = 40 and 'a = 64, OF assms]
  by (simp add: elf_phdr_def)

lemma offset_eq: "unat (x - dest) = i \<longleftrightarrow> x = dest + of_nat i \<and> i < 2 ^ 64" for x dest :: u64
proof
  assume "unat (x - dest) = i"
  then have "x - dest = of_nat i" "i < 2 ^ 64" using unat_u64 [of "x - dest"] by (auto simp: of_nat_unat)
  then show "x = dest + of_nat i \<and> i < 2 ^ 64" by (simp add: algebra_simps)
qed (auto simp: unat_of_nat)

lemma in_ph_bytes: "x \<in> ph_bytes ph \<longleftrightarrow> unat (x - ph) < 56"
proof
  assume "x \<in> ph_bytes ph"
  then obtain j where "x = ph + of_nat j" "j < 56" by (auto simp: ph_bytes_def)
  then show "unat (x - ph) < 56" by (simp add: unat_of_nat)
next
  assume "unat (x - ph) < 56"
  moreover have "x = ph + of_nat (unat (x - ph))" by simp
  ultimately show "x \<in> ph_bytes ph" unfolding ph_bytes_def by blast
qed

lemma copy_file_effect:
  assumes N: "N = unat (p_filesz (elf_phdr m ph))"
    and hdr: "\<forall>i < N. dest + of_nat i \<notin> ph_bytes ph"
    and src: "\<forall>i < N. \<forall>k < N. dest + of_nat i \<noteq> src + of_nat k"
  shows "i \<le> N \<Longrightarrow> copy_file ph dest src (of_nat i) m =
    (\<lambda>x. if i \<le> unat (x - dest) \<and> unat (x - dest) < N then m (src + (x - dest)) else m x)"
  using N
proof (induction "N - i" arbitrary: i m)
  case 0
  then have "\<not> (of_nat i :: u64) < p_filesz (elf_phdr m ph)"
    using unat_u64 [of "p_filesz (elf_phdr m ph)"] by (simp add: word_less_nat_alt unat_of_nat)
  then show ?case using 0 by (subst copy_file.simps) (auto intro!: ext)
next
  case (Suc d)
  let ?j = "of_nat i :: u64"
  let ?m = "m(dest + ?j := m (src + ?j))"
  have i: "i < N" "N < 2 ^ 64" using Suc unat_u64 [of "p_filesz (elf_phdr m ph)"] by auto
  have j: "?j < p_filesz (elf_phdr m ph)" using Suc.prems(2) i by (simp add: word_less_nat_alt unat_of_nat)
  have "elf_phdr ?m ph = elf_phdr m ph" using hdr i by (intro elf_phdr_cong) auto
  then have IH: "copy_file ph dest src (of_nat (Suc i)) ?m =
      (\<lambda>x. if Suc i \<le> unat (x - dest) \<and> unat (x - dest) < N then ?m (src + (x - dest)) else ?m x)"
    using Suc by (intro Suc.hyps(1)) auto
  have "copy_file ph dest src ?j m = copy_file ph dest src (of_nat (Suc i)) ?m"
    using j by (subst copy_file.simps) (simp add: add.commute)
  also have "\<dots> = (\<lambda>x. if i \<le> unat (x - dest) \<and> unat (x - dest) < N then m (src + (x - dest)) else m x)"
  proof
    fix x
    have "src + (x - dest) \<noteq> dest + ?j" if "unat (x - dest) < N"
      using that src i(1) by (metis of_nat_unat ucast_id)
    moreover have "x = dest + ?j \<longleftrightarrow> unat (x - dest) = i" using i offset_eq [of x dest i] by auto
    moreover have "src + (x - dest) = src + ?j" if "x = dest + ?j" using that by simp
    ultimately show "copy_file ph dest src (of_nat (Suc i)) ?m x =
        (if i \<le> unat (x - dest) \<and> unat (x - dest) < N then m (src + (x - dest)) else m x)"
      unfolding IH using i(1) by (auto simp: not_less_eq_eq le_less_Suc_eq)
  qed
  finally show ?case .
qed

lemma zero_rest_effect:
  assumes N: "N = unat (p_memsz (elf_phdr m ph))" and hdr: "\<forall>i < N. dest + of_nat i \<notin> ph_bytes ph"
  shows "i \<le> N \<Longrightarrow> zero_rest ph dest (of_nat i) m = (\<lambda>x. if i \<le> unat (x - dest) \<and> unat (x - dest) < N then 0 else m x)"
  using N
proof (induction "N - i" arbitrary: i m)
  case 0
  then have "\<not> (of_nat i :: u64) < p_memsz (elf_phdr m ph)"
    using unat_u64 [of "p_memsz (elf_phdr m ph)"] by (simp add: word_less_nat_alt unat_of_nat)
  then show ?case using 0 by (subst zero_rest.simps) (auto intro!: ext)
next
  case (Suc d)
  let ?j = "of_nat i :: u64"
  let ?m = "m(dest + ?j := 0)"
  have i: "i < N" "N < 2 ^ 64" using Suc unat_u64 [of "p_memsz (elf_phdr m ph)"] by auto
  have j: "?j < p_memsz (elf_phdr m ph)" using Suc.prems(2) i by (simp add: word_less_nat_alt unat_of_nat)
  have "elf_phdr ?m ph = elf_phdr m ph" using hdr i by (intro elf_phdr_cong) auto
  then have IH: "zero_rest ph dest (of_nat (Suc i)) ?m = (\<lambda>x. if Suc i \<le> unat (x - dest) \<and> unat (x - dest) < N then 0 else ?m x)"
    using Suc by (intro Suc.hyps(1)) auto
  have "zero_rest ph dest ?j m = zero_rest ph dest (of_nat (Suc i)) ?m"
    using j by (subst zero_rest.simps) (simp add: add.commute)
  moreover have "x = dest + ?j \<longleftrightarrow> unat (x - dest) = i" for x using i offset_eq [of x dest i] by auto
  ultimately show ?case unfolding IH using i(1) by (auto simp: not_less_eq_eq le_less_Suc_eq intro!: ext)
qed

text \<open>C26. Loading a segment that does not overlap its own program header or its part of the file
  puts the bytes of the file at its address, zeros after them up to its size in memory, and changes
  nothing else.\<close>

theorem elf_segment_loaded:
  assumes "\<forall>i < max (unat (p_filesz (elf_phdr m ph))) (unat (p_memsz (elf_phdr m ph))).
      p_vaddr (elf_phdr m ph) + of_nat i \<notin> ph_bytes ph"
    and "\<forall>i < unat (p_filesz (elf_phdr m ph)). \<forall>k < unat (p_filesz (elf_phdr m ph)).
      p_vaddr (elf_phdr m ph) + of_nat i \<noteq> buf + p_offset (elf_phdr m ph) + of_nat k"
  shows "load_segment buf ph m x =
    (let off = x - p_vaddr (elf_phdr m ph)
     in if off < p_filesz (elf_phdr m ph) then m (buf + p_offset (elf_phdr m ph) + off)
        else if off < p_memsz (elf_phdr m ph) then 0 else m x)"
proof -
  define h dest src where "h = elf_phdr m ph" and "dest = p_vaddr h" and "src = buf + p_offset h"
  define m1 where "m1 = copy_file ph dest src 0 m"
  have m1: "m1 = (\<lambda>x. if unat (x - dest) < unat (p_filesz h) then m (src + (x - dest)) else m x)"
    using copy_file_effect [of "unat (p_filesz h)" m ph dest src 0] assms by (simp add: m1_def h_def dest_def src_def)
  have "unat (x - dest) = i \<Longrightarrow> x = dest + of_nat i" for x i using offset_eq [of x dest i] by auto
  then have "m1 x = m x" if "x \<in> ph_bytes ph" for x
    using assms(1) that unfolding m1 h_def [symmetric] dest_def [symmetric] by (metis less_max_iff_disj)
  then have h1: "elf_phdr m1 ph = h" unfolding h_def by (rule elf_phdr_cong)
  have z: "zero_rest ph dest (p_filesz h) m1 =
      (\<lambda>x. if unat (p_filesz h) \<le> unat (x - dest) \<and> unat (x - dest) < unat (p_memsz h) then 0 else m1 x)"
    if "p_filesz h < p_memsz h"
    using zero_rest_effect [of "unat (p_memsz h)" m1 ph dest "unat (p_filesz h)"] assms(1) that h1
    by (simp add: h_def [symmetric] dest_def [symmetric] word_less_nat_alt)
  have "load_segment buf ph m = (if p_filesz h < p_memsz h then zero_rest ph dest (p_filesz h) m1 else m1)"
    by (simp add: load_segment_def Let_def h_def [symmetric] dest_def [symmetric] src_def [symmetric] m1_def [symmetric] h1)
  then show ?thesis
    unfolding h_def [symmetric] dest_def [symmetric] src_def [symmetric] Let_def using z
    by (auto simp: m1 word_less_nat_alt)
qed

text \<open>A segment of two bytes at 0x2100, loaded at 0x4000 with two zero bytes after it.\<close>

definition demo_elf_mem :: mem where
  "demo_elf_mem = mem_copy_in (mem_copy_in (\<lambda>_. 9) 0x1000
     ([1, 0, 0, 0, 0, 0, 0, 0, 0, 1] @ replicate 7 0 @ [0x40] @ replicate 14 0 @ [2] @ replicate 7 0 @ [4] @ replicate 15 0)) 0x2100 [7, 8]"

lemma all_below: "(\<forall>i < 2. P (i :: nat)) \<longleftrightarrow> P 0 \<and> P 1" "(\<forall>i < 4. P (i :: nat)) \<longleftrightarrow> P 0 \<and> P 1 \<and> P 2 \<and> P 3"
proof -
  have "i < 2 \<longleftrightarrow> i = 0 \<or> i = 1" "i < 4 \<longleftrightarrow> i = 0 \<or> i = 1 \<or> i = 2 \<or> i = 3" for i :: nat by linarith+
  then show "(\<forall>i < 2. P (i :: nat)) \<longleftrightarrow> P 0 \<and> P 1" "(\<forall>i < 4. P (i :: nat)) \<longleftrightarrow> P 0 \<and> P 1 \<and> P 2 \<and> P 3"
    by metis+
qed

theorem elf_segment_loaded_witness:
  "map (load_segment 0x2000 0x1000 demo_elf_mem) [0x3FFF, 0x4000, 0x4001, 0x4002, 0x4003, 0x4004] = [9, 7, 8, 0, 0, 9]"
proof -
  have h: "elf_phdr demo_elf_mem 0x1000 = \<lparr>p_type = 1, p_offset = 0x100, p_vaddr = 0x4000, p_filesz = 2, p_memsz = 4\<rparr>"
    by code_simp
  have "\<forall>i < 4. (0x4000 :: u64) + of_nat i \<notin> ph_bytes 0x1000" by (simp add: all_below(2) in_ph_bytes)
  then have a: "\<forall>i < max (unat (p_filesz (elf_phdr demo_elf_mem 0x1000))) (unat (p_memsz (elf_phdr demo_elf_mem 0x1000))).
      p_vaddr (elf_phdr demo_elf_mem 0x1000) + of_nat i \<notin> ph_bytes 0x1000" by (simp add: h)
  have "\<forall>i < 2. \<forall>k < 2. (0x4000 :: u64) + of_nat i \<noteq> 0x2100 + of_nat k" by (simp add: all_below(1))
  then have b: "\<forall>i < unat (p_filesz (elf_phdr demo_elf_mem 0x1000)). \<forall>k < unat (p_filesz (elf_phdr demo_elf_mem 0x1000)).
      p_vaddr (elf_phdr demo_elf_mem 0x1000) + of_nat i \<noteq> 0x2000 + p_offset (elf_phdr demo_elf_mem 0x1000) + of_nat k" by (simp add: h)
  have m: "demo_elf_mem 0x3FFF = 9" "demo_elf_mem 0x2100 = 7" "demo_elf_mem 0x2101 = 8" "demo_elf_mem 0x4004 = 9" by code_simp+
  show ?thesis using m unfolding list.map elf_segment_loaded [OF a b] h Let_def Elf64Phdr.select_convs by simp
qed

section \<open>The first user stack\<close>

lemma low4: "(15 :: u64) = mask 4"
  by (simp add: mask_eq_exp_minus_1)

lemma aligned_16: "(t :: u64) AND 15 = 0 \<Longrightarrow> (t - 48) AND 15 = 0"
proof -
  assume "t AND 15 = 0"
  then have "take_bit 4 t = 0" by (simp add: low4 take_bit_eq_mask)
  then have "t = push_bit 4 (drop_bit 4 t)" using bits_ident [of 4 t] by simp
  then have "t - 48 = push_bit 4 (drop_bit 4 t - 3)" by (simp add: push_bit_eq_mult algebra_simps)
  then show ?thesis by (simp add: low4 take_bit_push_bit flip: take_bit_eq_mask)
qed

lemma mask_16:
  assumes "(a :: u64) AND 15 = 0"
  shows "a AND NOT 15 = a" "(a + 8) AND NOT 15 = a"
proof -
  have b: "\<not> bit a n" if "n < 4" for n
  proof -
    have "bit (a AND mask 4) n = bit (0 :: u64) n" using assms by (simp add: low4)
    then show ?thesis using that by (simp add: bit_simps)
  qed
  show "a AND NOT 15 = a" unfolding low4 by (rule bit_eqI) (auto simp: bit_simps dest: b)
  have "(8 :: u64) = push_bit 3 1" by simp
  then have e8: "bit (8 :: u64) n \<longleftrightarrow> n = 3" for n by (auto simp only: bit_simps) auto
  then have "a + 8 = a OR 8" using b e8 by (intro disjunctive_add) auto
  then show "(a + 8) AND NOT 15 = a" unfolding low4 by (intro bit_eqI) (auto simp only: bit_and_iff bit_or_iff bit_not_iff bit_mask_iff e8, auto dest: b simp: bit_imp_le_length)
qed

lemma load_copy_in_apart:
  assumes "length bs \<le> unat (b - a)" "unat (b - a) + LENGTH('a) div 8 \<le> 2 ^ 64"
  shows "load (mem_copy_in m a bs) b = (load m b :: 'a::len word)"
proof (rule load_cong)
  fix i assume "i < LENGTH('a) div 8"
  then have "unat (b + of_nat i - a) = unat (b - a) + i" using assms(2) by (intro unat_offset) simp
  then show "mem_copy_in m a bs (b + of_nat i) = m (b + of_nat i)"
    using assms by (subst mem_copy_in_apply) (auto intro: order_trans)
qed

text \<open>The first user stack.  With two arguments the stack pointer is 16-byte aligned and points
  at the count 2, followed by the two argument pointers and a null.  With one argument the final
  alignment moves the pointer one word below the count, so a program that reads its argument count
  at the stack pointer finds whatever the memory held there.\<close>

theorem ring3_stack_layout:
  fixes stack :: u64
  defines "tp \<equiv> (stack + 4096) AND NOT 15"
  shows "(let (m', rsp) = build_user_stack stack a0 (Some (c # cs)) m
      in rsp = tp - 48 \<and> load m' rsp = (2 :: u64) \<and> load m' (rsp + 8) = tp - 512 \<and>
         load m' (rsp + 16) = tp - 256 \<and> load m' (rsp + 24) = (0 :: u64)) \<and>
    (let (m', rsp) = build_user_stack stack a0 None m
      in rsp = tp - 48 \<and> load m' rsp = (load m rsp :: u64) \<and> load m' (rsp + 8) = (1 :: u64) \<and> load m' (rsp + 16) = tp - 512)"
proof -
  have "tp AND 15 = 0" unfolding tp_def by (metis and.assoc and.commute bit.conj_cancel_left and_zero_eq zero_and_eq)
  then have "(tp - 48) AND 15 = 0" by (rule aligned_16)
  then have sp: "(tp - 48) AND - 16 = tp - 48" "(tp - 40) AND - 16 = tp - 48"
    using mask_16 [of "tp - 48"] by (simp_all add: algebra_simps)
  show ?thesis
    unfolding build_user_stack_def Let_def tp_def [symmetric] kstrlcpy_def
    by (simp add: sp load_store_apart load_copy_in_apart)
qed

end
