(* ===== verification/Ide.thy ===== *)
theory Ide
  imports Devices Block
begin

text \<open>
  \<^verbatim>\<open>src/src/drivers/block/ide.c\<close>: the driver of ATA disks on the two legacy channels, one sector
  at a time through the data port.

  A read gives the bytes stored in the caller's buffer, None for the return value -1.  What a
  drive does with the port accesses is not part of the program: \<open>ata_drive\<close> states what the ATA
  standard promises of a drive on a channel in terms of its registers (the task file, the command
  and status port, the data port) and independently of the driver, and the lemmas rest on it.
\<close>

definition ATA_REG_DATA :: u16 where "ATA_REG_DATA = 0x00"
definition ATA_REG_SECCOUNT0 :: u16 where "ATA_REG_SECCOUNT0 = 0x02"
definition ATA_REG_LBA0 :: u16 where "ATA_REG_LBA0 = 0x03"
definition ATA_REG_LBA1 :: u16 where "ATA_REG_LBA1 = 0x04"
definition ATA_REG_LBA2 :: u16 where "ATA_REG_LBA2 = 0x05"
definition ATA_REG_HDDEVSEL :: u16 where "ATA_REG_HDDEVSEL = 0x06"
definition ATA_REG_COMMAND :: u16 where "ATA_REG_COMMAND = 0x07"
definition ATA_REG_STATUS :: u16 where "ATA_REG_STATUS = 0x07"
definition ATA_SR_BSY :: u8 where "ATA_SR_BSY = 0x80"
definition ATA_SR_DRQ :: u8 where "ATA_SR_DRQ = 0x08"
definition ATA_SR_ERR :: u8 where "ATA_SR_ERR = 0x01"
definition ATA_CMD_IDENTIFY :: u8 where "ATA_CMD_IDENTIFY = 0xEC"
definition ATA_CMD_READ_SECTORS :: u8 where "ATA_CMD_READ_SECTORS = 0x20"
definition ATA_CMD_WRITE_SECTORS :: u8 where "ATA_CMD_WRITE_SECTORS = 0x30"
definition ATA_CMD_CACHE_FLUSH :: u8 where "ATA_CMD_CACHE_FLUSH = 0xE7"
definition IDE_MAX_DEVICES :: nat where "IDE_MAX_DEVICES = 4"

record IdeDeviceData =
  io_base :: u16
  ctrl_base :: u16
  slave :: u8

definition ide_delay :: "IdeDeviceData \<Rightarrow> ('h, 'z) hardware_scheme \<Rightarrow> ('h, 'z) hardware_scheme" where
  "ide_delay ide s =
     (let s1 = snd (inb (ctrl_base ide) s);
          s2 = snd (inb (ctrl_base ide) s1);
          s3 = snd (inb (ctrl_base ide) s2)
      in snd (inb (ctrl_base ide) s3))"

primrec ide_wait_loop :: "nat \<Rightarrow> IdeDeviceData \<Rightarrow> bool \<Rightarrow> ('h, 'z) hardware_scheme \<Rightarrow> int \<times> ('h, 'z) hardware_scheme" where
  "ide_wait_loop 0 ide want_drq s = (-1, s)"
| "ide_wait_loop (Suc n) ide want_drq s =
     (let (status, s1) = inb (io_base ide + ATA_REG_STATUS) s
      in if status AND ATA_SR_ERR \<noteq> 0 then (-1, s1)
         else if status AND ATA_SR_BSY = 0 \<and> (\<not> want_drq \<or> status AND ATA_SR_DRQ \<noteq> 0) then (0, s1)
         else ide_wait_loop n ide want_drq s1)"

definition ide_wait :: "IdeDeviceData \<Rightarrow> bool \<Rightarrow> ('h, 'z) hardware_scheme \<Rightarrow> int \<times> ('h, 'z) hardware_scheme" where
  "ide_wait ide want_drq s = ide_wait_loop 100000 ide want_drq s"

text \<open>The string instructions: \<open>n\<close> words between the port and memory.\<close>

primrec insw :: "nat \<Rightarrow> u16 \<Rightarrow> ('h, 'z) hardware_scheme \<Rightarrow> u16 list \<times> ('h, 'z) hardware_scheme" where
  "insw 0 port s = ([], s)"
| "insw (Suc n) port s = (let (w, s1) = inw port s; (ws, s2) = insw n port s1 in (w # ws, s2))"

definition outsw :: "u16 list \<Rightarrow> u16 \<Rightarrow> ('h, 'z) hardware_scheme \<Rightarrow> ('h, 'z) hardware_scheme" where
  "outsw ws port s = fold (outw port) ws s"

definition word_bytes :: "u16 list \<Rightarrow> bytes" where
  "word_bytes ws = concat (map (\<lambda>w. [ucast w, ucast (drop_bit 8 w)]) ws)"

fun bytes_word :: "bytes \<Rightarrow> u16 list" where
  "bytes_word (a # b # bs) = (ucast a OR push_bit 8 (ucast b)) # bytes_word bs"
| "bytes_word _ = []"

definition ide_identify :: "IdeDeviceData \<Rightarrow> ('h, 'z) hardware_scheme \<Rightarrow> u16 list option \<times> ('h, 'z) hardware_scheme" where
  "ide_identify ide s =
     (let s1 = hw_outb (io_base ide + ATA_REG_HDDEVSEL) (0xA0 OR push_bit 4 (slave ide)) s;
          s2 = ide_delay ide s1;
          s3 = hw_outb (io_base ide + ATA_REG_SECCOUNT0) 0 s2;
          s4 = hw_outb (io_base ide + ATA_REG_LBA0) 0 s3;
          s5 = hw_outb (io_base ide + ATA_REG_LBA1) 0 s4;
          s6 = hw_outb (io_base ide + ATA_REG_LBA2) 0 s5;
          s7 = hw_outb (io_base ide + ATA_REG_COMMAND) ATA_CMD_IDENTIFY s6;
          s8 = ide_delay ide s7;
          (status, s9) = inb (io_base ide + ATA_REG_STATUS) s8
      in if status = 0 then (None, s9)
         else let (r, s10) = ide_wait ide True s9
         in if r \<noteq> 0 then (None, s10)
            else let (ws, s11) = insw 256 (io_base ide + ATA_REG_DATA) s10 in (Some ws, s11))"

text \<open>Addressing one sector and giving a command.\<close>

definition ide_command :: "IdeDeviceData \<Rightarrow> u32 \<Rightarrow> u8 \<Rightarrow> ('h, 'z) hardware_scheme \<Rightarrow> ('h, 'z) hardware_scheme" where
  "ide_command ide current_lba cmd s =
     (let s1 = hw_outb (io_base ide + ATA_REG_HDDEVSEL)
                 (0xE0 OR push_bit 4 (slave ide) OR (ucast (drop_bit 24 current_lba) AND 0x0F)) s;
          s2 = hw_outb (io_base ide + ATA_REG_SECCOUNT0) 1 s1;
          s3 = hw_outb (io_base ide + ATA_REG_LBA0) (ucast current_lba) s2;
          s4 = hw_outb (io_base ide + ATA_REG_LBA1) (ucast (drop_bit 8 current_lba)) s3;
          s5 = hw_outb (io_base ide + ATA_REG_LBA2) (ucast (drop_bit 16 current_lba)) s4
      in hw_outb (io_base ide + ATA_REG_COMMAND) cmd s5)"

fun ide_read_loop :: "IdeDeviceData \<Rightarrow> u64 \<Rightarrow> nat list \<Rightarrow> ('h, 'z) hardware_scheme \<Rightarrow> bytes option \<times> ('h, 'z) hardware_scheme" where
  "ide_read_loop ide lba [] s = (Some [], s)"
| "ide_read_loop ide lba (sector # rest) s =
     (let current_lba = (ucast (lba + of_nat sector) :: u32);
          (r, s1) = ide_wait ide False s
      in if r \<noteq> 0 then (None, s1)
         else let (r2, s2) = ide_wait ide True (ide_command ide current_lba ATA_CMD_READ_SECTORS s1)
         in if r2 \<noteq> 0 then (None, s2)
            else let (ws, s3) = insw 256 (io_base ide + ATA_REG_DATA) s2;
                     (bs, s4) = ide_read_loop ide lba rest s3
              in (map_option ((@) (word_bytes ws)) bs, s4))"

definition ide_read :: "IdeDeviceData \<Rightarrow> u64 \<Rightarrow> u32 \<Rightarrow> ('h, 'z) hardware_scheme \<Rightarrow> bytes option \<times> ('h, 'z) hardware_scheme" where
  "ide_read ide lba count s =
     (if lba > 0x0FFFFFFF \<or> count > 255 then (None, s) else ide_read_loop ide lba [0..<unat count] s)"

fun ide_write_loop :: "IdeDeviceData \<Rightarrow> u64 \<Rightarrow> bytes \<Rightarrow> nat list \<Rightarrow> ('h, 'z) hardware_scheme \<Rightarrow> int \<times> ('h, 'z) hardware_scheme" where
  "ide_write_loop ide lba inp [] s =
     ide_wait ide False (hw_outb (io_base ide + ATA_REG_COMMAND) ATA_CMD_CACHE_FLUSH s)"
| "ide_write_loop ide lba inp (sector # rest) s =
     (let current_lba = (ucast (lba + of_nat sector) :: u32);
          (r, s1) = ide_wait ide False s
      in if r \<noteq> 0 then (-1, s1)
         else let (r2, s2) = ide_wait ide True (ide_command ide current_lba ATA_CMD_WRITE_SECTORS s1)
         in if r2 \<noteq> 0 then (-1, s2)
            else ide_write_loop ide lba inp rest
                   (outsw (bytes_word (take 512 (drop (sector * BLOCK_SECTOR_SIZE) inp))) (io_base ide + ATA_REG_DATA) s2))"

definition ide_write :: "IdeDeviceData \<Rightarrow> u64 \<Rightarrow> u32 \<Rightarrow> bytes \<Rightarrow> ('h, 'z) hardware_scheme \<Rightarrow> int \<times> ('h, 'z) hardware_scheme" where
  "ide_write ide lba count buffer s =
     (if lba > 0x0FFFFFFF \<or> count > 255 then (-1, s) else ide_write_loop ide lba buffer [0..<unat count] s)"

text \<open>The table of drives found: what the driver keeps of each and its number of sectors.\<close>

fun ide_probe :: "IdeDeviceData list \<Rightarrow> (IdeDeviceData \<times> u64) list \<Rightarrow> ('h, 'z) hardware_scheme \<Rightarrow>
    (IdeDeviceData \<times> u64) list \<times> ('h, 'z) hardware_scheme" where
  "ide_probe [] found s = (found, s)"
| "ide_probe (probe # rest) found s =
     (if IDE_MAX_DEVICES \<le> length found then (found, s)
      else let (r, s1) = ide_identify probe s
      in case r of
           None \<Rightarrow> ide_probe rest found s1
         | Some identify \<Rightarrow>
             ide_probe rest (found @ [(probe, ucast (push_bit 16 (ucast (identify ! 61)) OR ucast (identify ! 60) :: u32))]) s1)"

definition ide_init :: "('h, 'z) hardware_scheme \<Rightarrow> (IdeDeviceData \<times> u64) list \<times> ('h, 'z) hardware_scheme" where
  "ide_init s =
     ide_probe (map (\<lambda>(io, ctrl, sl). \<lparr>io_base = io, ctrl_base = ctrl, slave = sl\<rparr>)
       [(0x1F0, 0x3F6, 0), (0x1F0, 0x3F6, 1), (0x170, 0x376, 0), (0x170, 0x376, 1)]) [] s"

definition ide_device_count :: "(IdeDeviceData \<times> u64) list \<Rightarrow> u32" where
  "ide_device_count found = of_nat (length found)"

definition ide_get_device :: "(IdeDeviceData \<times> u64) list \<Rightarrow> u32 \<Rightarrow> (IdeDeviceData \<times> u64) option" where
  "ide_get_device found index = (if ide_device_count found \<le> index then None else Some (found ! unat index))"

section \<open>What a drive promises\<close>

text \<open>Reading the status port of the channel at \<open>base\<close> again and again.\<close>

primrec poll_state :: "nat \<Rightarrow> u16 \<Rightarrow> ('h, 'z) hardware_scheme \<Rightarrow> ('h, 'z) hardware_scheme" where
  "poll_state 0 base s = s"
| "poll_state (Suc n) base s = poll_state n base (snd (inb (base + 7) s))"

definition status_of :: "u16 \<Rightarrow> ('h, 'z) hardware_scheme \<Rightarrow> u8" where
  "status_of base s = fst (inb (base + 7) s)"

text \<open>The drive is busy (bit 7) for fewer than 100000 reads of its status and then ready without an
  error (bit 0), with a data request (bit 3) if that is what the host waits for.\<close>

definition settles :: "u16 \<Rightarrow> bool \<Rightarrow> ('h, 'z) hardware_scheme \<Rightarrow> ('h, 'z) hardware_scheme \<Rightarrow> bool" where
  "settles base want s s' \<longleftrightarrow> (\<exists>k < 100000. s' = poll_state (Suc k) base s \<and>
     (\<forall>i < k. \<not> bit (status_of base (poll_state i base s)) 0 \<and> bit (status_of base (poll_state i base s)) 7) \<and>
     \<not> bit (status_of base (poll_state k base s)) 0 \<and> \<not> bit (status_of base (poll_state k base s)) 7 \<and>
     (want \<longrightarrow> bit (status_of base (poll_state k base s)) 3))"

text \<open>The registers a command takes its parameters from, at the offsets 2 to 6 of the channel, and
  the sector a 28-bit command addresses.\<close>

record task_file =
  tf_count :: u8
  tf_low :: u8
  tf_mid :: u8
  tf_high :: u8
  tf_device :: u8

definition task_write :: "u16 \<Rightarrow> u8 \<Rightarrow> task_file \<Rightarrow> task_file" where
  "task_write r v t =
     (if r = 2 then t\<lparr>tf_count := v\<rparr> else if r = 3 then t\<lparr>tf_low := v\<rparr> else if r = 4 then t\<lparr>tf_mid := v\<rparr>
      else if r = 5 then t\<lparr>tf_high := v\<rparr> else if r = 6 then t\<lparr>tf_device := v\<rparr> else t)"

definition task_lba :: "task_file \<Rightarrow> nat" where
  "task_lba t = unat (tf_low t) + 2 ^ 8 * unat (tf_mid t) + 2 ^ 16 * unat (tf_high t) + 2 ^ 24 * (unat (tf_device t) mod 16)"

text \<open>The device register selects the drive by bit 4 and linear addressing by bit 6.\<close>

definition one_sector_of :: "bool \<Rightarrow> task_file \<Rightarrow> bool" where
  "one_sector_of second t \<longleftrightarrow> tf_count t = 1 \<and> bit (tf_device t) 6 \<and> (bit (tf_device t) 4 \<longleftrightarrow> second)"

text \<open>A drive with the sectors \<open>sect s\<close> and the task file \<open>task s\<close>, as second or first drive of the
  channel, in the states \<open>idle\<close> between commands: it settles; writing a register changes the
  task file; the command 0x20 delivers the words of the addressed sector at the data port, 0x30
  stores the words written there, and 0xE7 (flush) changes nothing that can be seen.\<close>

definition ata_drive ::
  "u16 \<Rightarrow> bool \<Rightarrow> (('h, 'z) hardware_scheme \<Rightarrow> bool) \<Rightarrow> (('h, 'z) hardware_scheme \<Rightarrow> task_file) \<Rightarrow>
    (('h, 'z) hardware_scheme \<Rightarrow> nat \<Rightarrow> bytes) \<Rightarrow> bool" where
  "ata_drive base second idle task sect \<longleftrightarrow>
     (\<forall>s. idle s \<longrightarrow> (\<exists>s'. settles base False s s' \<and> idle s' \<and> task s' = task s \<and> sect s' = sect s)) \<and>
     (\<forall>s r v. idle s \<longrightarrow> r \<in> {2, 3, 4, 5, 6} \<longrightarrow>
        idle (hw_outb (base + r) v s) \<and> task (hw_outb (base + r) v s) = task_write r v (task s) \<and>
        sect (hw_outb (base + r) v s) = sect s) \<and>
     (\<forall>s. idle s \<longrightarrow> one_sector_of second (task s) \<longrightarrow>
        (\<exists>s1 s2 ws. settles base True (hw_outb (base + 7) 0x20 s) s1 \<and> insw 256 base s1 = (ws, s2) \<and>
           word_bytes ws = sect s (task_lba (task s)) \<and> idle s2 \<and> sect s2 = sect s)) \<and>
     (\<forall>s ws. idle s \<longrightarrow> one_sector_of second (task s) \<longrightarrow> length ws = 256 \<longrightarrow>
        (\<exists>s1. settles base True (hw_outb (base + 7) 0x30 s) s1 \<and> idle (outsw ws base s1) \<and>
           tf_device (task (outsw ws base s1)) = tf_device (task s) \<and>
           sect (outsw ws base s1) = (sect s)(task_lba (task s) := word_bytes ws))) \<and>
     (\<forall>s. idle s \<longrightarrow> (bit (tf_device (task s)) 4 \<longleftrightarrow> second) \<longrightarrow>
        (\<exists>s'. settles base False (hw_outb (base + 7) 0xE7 s) s' \<and> idle s' \<and> sect s' = sect s))"

section \<open>Transfers\<close>

lemma bytes_word_bytes: "length bs mod 2 = 0 \<Longrightarrow> word_bytes (bytes_word bs) = bs"
proof (induction bs rule: bytes_word.induct)
  case (1 a b bs)
  have "ucast (ucast a OR push_bit 8 (ucast b) :: u16) = a" "ucast (drop_bit 8 (ucast a OR push_bit 8 (ucast b) :: u16)) = b"
    by (rule bit_word_eqI; auto simp: bit_simps dest: bit_imp_le_length)+
  then show ?case using 1 by (simp add: word_bytes_def)
qed (simp_all add: word_bytes_def)

lemma length_bytes_word: "length (bytes_word bs) = length bs div 2"
  by (induction bs rule: bytes_word.induct) auto

lemma status_bits:
  "st AND ATA_SR_ERR = 0 \<longleftrightarrow> \<not> bit st 0" "st AND ATA_SR_BSY = 0 \<longleftrightarrow> \<not> bit st 7" "st AND ATA_SR_DRQ = 0 \<longleftrightarrow> \<not> bit st 3"
  using and_exp_eq_0_iff_not_bit [of st 0] and_exp_eq_0_iff_not_bit [of st 7] and_exp_eq_0_iff_not_bit [of st 3]
  by (simp_all add: ATA_SR_ERR_def ATA_SR_BSY_def ATA_SR_DRQ_def)

lemma ide_wait_settles:
  assumes "settles (io_base ide) want s s'"
  shows "ide_wait ide want s = (0, s')"
proof -
  let ?st = "\<lambda>s. status_of (io_base ide) s" and ?poll = "\<lambda>n s. poll_state n (io_base ide) s"
  obtain k where k: "k < 100000" "s' = ?poll (Suc k) s"
    and busy: "\<forall>i < k. \<not> bit (?st (?poll i s)) 0 \<and> bit (?st (?poll i s)) 7"
    and fin: "\<not> bit (?st (?poll k s)) 0" "\<not> bit (?st (?poll k s)) 7" "want \<longrightarrow> bit (?st (?poll k s)) 3"
    using assms unfolding settles_def by blast
  have "ide_wait_loop n ide want s = (0, ?poll (Suc k) s)" if "k < n" for n
    using that busy fin
  proof (induction k arbitrary: n s)
    case 0
    then obtain n' where "n = Suc n'" by (cases n) auto
    then show ?case using 0 by (simp add: status_of_def case_prod_beta status_bits ATA_REG_STATUS_def)
  next
    case (Suc k)
    then obtain n' where n: "n = Suc n'" "k < n'" by (cases n) auto
    let ?s = "snd (inb (io_base ide + 7) s)"
    have "ide_wait_loop n' ide want ?s = (0, ?poll (Suc k) ?s)"
    proof (rule Suc.IH)
      show "\<forall>i < k. \<not> bit (?st (?poll i ?s)) 0 \<and> bit (?st (?poll i ?s)) 7"
        using Suc.prems(2) by (metis Suc_mono poll_state.simps(2))
    qed (use Suc.prems n in simp_all)
    moreover have "\<not> bit (?st s) 0" "bit (?st s) 7" using Suc.prems(2) by fastforce+
    ultimately show ?case using n by (simp add: status_of_def case_prod_beta status_bits ATA_REG_STATUS_def)
  qed
  then show ?thesis using k by (simp add: ide_wait_def)
qed

lemma ata_driveD:
  assumes "ata_drive base second idle task sect" "idle s"
  shows "\<exists>s'. settles base False s s' \<and> idle s' \<and> task s' = task s \<and> sect s' = sect s"
    and "r \<in> {2, 3, 4, 5, 6} \<Longrightarrow> idle (hw_outb (base + r) v s) \<and> task (hw_outb (base + r) v s) = task_write r v (task s) \<and>
      sect (hw_outb (base + r) v s) = sect s"
    and "one_sector_of second (task s) \<Longrightarrow> \<exists>s1 s2 ws. settles base True (hw_outb (base + 7) 0x20 s) s1 \<and> insw 256 base s1 = (ws, s2) \<and>
      word_bytes ws = sect s (task_lba (task s)) \<and> idle s2 \<and> sect s2 = sect s"
    and "one_sector_of second (task s) \<Longrightarrow> length ws = 256 \<Longrightarrow> \<exists>s1. settles base True (hw_outb (base + 7) 0x30 s) s1 \<and>
      idle (outsw ws base s1) \<and> tf_device (task (outsw ws base s1)) = tf_device (task s) \<and>
      sect (outsw ws base s1) = (sect s)(task_lba (task s) := word_bytes ws)"
    and "bit (tf_device (task s)) 4 \<longleftrightarrow> second \<Longrightarrow> \<exists>s'. settles base False (hw_outb (base + 7) 0xE7 s) s' \<and> idle s' \<and> sect s' = sect s"
proof -
  note laws = assms(1) [unfolded ata_drive_def]
  show "\<exists>s'. settles base False s s' \<and> idle s' \<and> task s' = task s \<and> sect s' = sect s"
    by (rule laws [THEN conjunct1, rule_format, OF assms(2)])
  show "r \<in> {2, 3, 4, 5, 6} \<Longrightarrow> idle (hw_outb (base + r) v s) \<and> task (hw_outb (base + r) v s) = task_write r v (task s) \<and>
      sect (hw_outb (base + r) v s) = sect s"
    by (rule laws [THEN conjunct2, THEN conjunct1, rule_format, OF assms(2)])
  show "one_sector_of second (task s) \<Longrightarrow> \<exists>s1 s2 ws. settles base True (hw_outb (base + 7) 0x20 s) s1 \<and> insw 256 base s1 = (ws, s2) \<and>
      word_bytes ws = sect s (task_lba (task s)) \<and> idle s2 \<and> sect s2 = sect s"
    by (rule laws [THEN conjunct2, THEN conjunct2, THEN conjunct1, rule_format, OF assms(2)])
  show "one_sector_of second (task s) \<Longrightarrow> length ws = 256 \<Longrightarrow> \<exists>s1. settles base True (hw_outb (base + 7) 0x30 s) s1 \<and>
      idle (outsw ws base s1) \<and> tf_device (task (outsw ws base s1)) = tf_device (task s) \<and>
      sect (outsw ws base s1) = (sect s)(task_lba (task s) := word_bytes ws)"
    by (rule laws [THEN conjunct2, THEN conjunct2, THEN conjunct2, THEN conjunct1, rule_format, OF assms(2)])
  show "bit (tf_device (task s)) 4 \<longleftrightarrow> second \<Longrightarrow> \<exists>s'. settles base False (hw_outb (base + 7) 0xE7 s) s' \<and> idle s' \<and> sect s' = sect s"
    by (rule laws [THEN conjunct2, THEN conjunct2, THEN conjunct2, THEN conjunct2, rule_format, OF assms(2)])
qed

definition ide_lba :: "u64 \<Rightarrow> nat \<Rightarrow> nat" where
  "ide_lba lba i = (unat lba + i) mod 2 ^ 28"

lemma lba_digits:
  "n mod 2 ^ 8 + 2 ^ 8 * (n div 2 ^ 8 mod 2 ^ 8) + 2 ^ 16 * (n div 2 ^ 16 mod 2 ^ 8) + 2 ^ 24 * (n div 2 ^ 24 mod 2 ^ 4) = n mod (2 ^ 28 :: nat)"
  using mod_mult2_eq [of n "2 ^ 8" "2 ^ 8"] mod_mult2_eq [of n "2 ^ 16" "2 ^ 8"] mod_mult2_eq [of n "2 ^ 24" "2 ^ 4"] by simp

text \<open>The registers as the driver loads them address the sector it means.\<close>

lemma task_loaded:
  fixes l :: u32
  assumes "slave ide \<le> 1" "tf_device t = 0xE0 OR push_bit 4 (slave ide) OR (ucast (drop_bit 24 l) AND 0x0F)"
    and "tf_count t = 1" "tf_low t = ucast l" "tf_mid t = ucast (drop_bit 8 l)" "tf_high t = ucast (drop_bit 16 l)"
  shows "one_sector_of (slave ide = 1) t" "task_lba t = unat l mod 2 ^ 28"
proof -
  have "unat (slave ide) = unat (0 :: u8) \<or> unat (slave ide) = unat (1 :: u8)" using assms(1) by (auto simp: word_le_nat_alt)
  then have sl: "slave ide = 0 \<or> slave ide = 1" by (metis unsigned_word_eqI)
  then show "one_sector_of (slave ide = 1) t"
    using assms(2,3) by (auto simp: one_sector_of_def bit_simps)
  have n: "unat (0xE0 OR push_bit 4 (slave ide) OR (x AND 0x0F)) mod 16 = unat x mod 16" for x :: u8
  proof -
    have m: "(0x0F :: u8) = mask 4" by (simp add: mask_eq_exp_minus_1)
    define y where "y = 0xE0 OR push_bit 4 (slave ide) OR (x AND 0x0F)"
    have "take_bit 4 y = take_bit 4 x"
      unfolding y_def m by (rule bit_word_eqI) (auto simp: bit_simps)
    then have "unat (take_bit 4 y) = unat (take_bit 4 x)" by simp
    then show ?thesis unfolding y_def [symmetric] by (simp add: unsigned_take_bit_eq take_bit_nat_def)
  qed
  have u: "unat (ucast (drop_bit k l) :: u8) = unat l div 2 ^ k mod 256" for k
    using unat_u32 [of l] by (simp add: unsigned_ucast_eq take_bit_nat_def unsigned_drop_bit_eq drop_bit_nat_def)
  show "task_lba t = unat l mod 2 ^ 28"
    unfolding task_lba_def assms(2,4-6) n u using u [of 0] lba_digits [of "unat l"] by (simp add: mod_mod_cancel)
qed

lemma ide_command_task:
  assumes d: "ata_drive (io_base ide) (slave ide = 1) idle task sect" and sl: "slave ide \<le> 1" and s: "idle s"
  obtains t where "ide_command ide l cmd s = hw_outb (io_base ide + 7) cmd t" "idle t" "sect t = sect s"
    "one_sector_of (slave ide = 1) (task t)" "task_lba (task t) = unat l mod 2 ^ 28"
proof -
  let ?b = "io_base ide" and ?dev = "0xE0 OR push_bit 4 (slave ide) OR (ucast (drop_bit 24 l) AND 0x0F)"
  define s1 where "s1 = hw_outb (?b + 6) ?dev s"
  define s2 where "s2 = hw_outb (?b + 2) 1 s1"
  define s3 where "s3 = hw_outb (?b + 3) (ucast l) s2"
  define s4 where "s4 = hw_outb (?b + 4) (ucast (drop_bit 8 l)) s3"
  define s5 where "s5 = hw_outb (?b + 5) (ucast (drop_bit 16 l)) s4"
  have 1: "idle s1" "task s1 = task_write 6 ?dev (task s)" "sect s1 = sect s" using ata_driveD(2) [OF d s, of 6] by (simp_all add: s1_def)
  have 2: "idle s2" "task s2 = task_write 2 1 (task s1)" "sect s2 = sect s1" using ata_driveD(2) [OF d 1(1), of 2] by (simp_all add: s2_def)
  have 3: "idle s3" "task s3 = task_write 3 (ucast l) (task s2)" "sect s3 = sect s2" using ata_driveD(2) [OF d 2(1), of 3] by (simp_all add: s3_def)
  have 4: "idle s4" "task s4 = task_write 4 (ucast (drop_bit 8 l)) (task s3)" "sect s4 = sect s3"
    using ata_driveD(2) [OF d 3(1), of 4] by (simp_all add: s4_def)
  have 5: "idle s5" "task s5 = task_write 5 (ucast (drop_bit 16 l)) (task s4)" "sect s5 = sect s4"
    using ata_driveD(2) [OF d 4(1), of 5] by (simp_all add: s5_def)
  have "one_sector_of (slave ide = 1) (task s5)" "task_lba (task s5) = unat l mod 2 ^ 28"
    by (rule task_loaded [OF sl, of "task s5" l]; simp add: 1(2) 2(2) 3(2) 4(2) 5(2) task_write_def)+
  moreover have "ide_command ide l cmd s = hw_outb (?b + 7) cmd s5"
    by (simp add: ide_command_def Let_def ATA_REG_HDDEVSEL_def ATA_REG_SECCOUNT0_def ATA_REG_LBA0_def ATA_REG_LBA1_def
        ATA_REG_LBA2_def ATA_REG_COMMAND_def s1_def s2_def s3_def s4_def s5_def)
  ultimately show thesis using that 1(3) 2(3) 3(3) 4(3) 5(1,3) by simp
qed

lemma sector_number: "unat (ucast (lba + of_nat j :: u64) :: u32) mod 2 ^ 28 = ide_lba lba j"
proof -
  have j: "j mod 2 ^ 64 mod 2 ^ 28 = j mod 2 ^ 28" by (rule mod_mod_cancel) (simp add: le_imp_power_dvd)
  have "unat (ucast (lba + of_nat j :: u64) :: u32) mod 2 ^ 28 = unat (lba + of_nat j) mod 2 ^ 28"
    by (simp add: unsigned_ucast_eq take_bit_nat_def mod_mod_cancel)
  also have "\<dots> = (unat lba + j mod 2 ^ 64) mod 2 ^ 28" by (simp add: unat_word_ariths unat_of_nat mod_mod_cancel)
  also have "\<dots> = (unat lba + j) mod 2 ^ 28" using j by (metis mod_add_right_eq)
  finally show ?thesis by (simp add: ide_lba_def)
qed

lemma ide_read_loop_sectors:
  assumes d: "ata_drive (io_base ide) (slave ide = 1) idle task sect" and sl: "slave ide \<le> 1"
  shows "idle s \<Longrightarrow> \<exists>s'. ide_read_loop ide lba js s = (Some (concat (map (\<lambda>i. sect s (ide_lba lba i)) js)), s') \<and>
    idle s' \<and> sect s' = sect s"
proof (induction js arbitrary: s)
  case (Cons j js)
  obtain s0 where s0: "settles (io_base ide) False s s0" "idle s0" "sect s0 = sect s"
    using ata_driveD(1) [OF d Cons.prems] by blast
  obtain t where t: "ide_command ide (ucast (lba + of_nat j)) ATA_CMD_READ_SECTORS s0 = hw_outb (io_base ide + 7) ATA_CMD_READ_SECTORS t" "idle t"
      "sect t = sect s0" "one_sector_of (slave ide = 1) (task t)" "task_lba (task t) = ide_lba lba j"
    using ide_command_task [OF d sl s0(2)] sector_number by metis
  obtain s1 s2 ws where r: "settles (io_base ide) True (hw_outb (io_base ide + 7) ATA_CMD_READ_SECTORS t) s1"
      "insw 256 (io_base ide) s1 = (ws, s2)" "word_bytes ws = sect s (ide_lba lba j)" "idle s2" "sect s2 = sect s"
    using ata_driveD(3) [OF d t(2,4)] unfolding t(3,5) s0(3) ATA_CMD_READ_SECTORS_def by blast
  obtain s' where "ide_read_loop ide lba js s2 = (Some (concat (map (\<lambda>i. sect s (ide_lba lba i)) js)), s')" "idle s'" "sect s' = sect s"
    using Cons.IH [OF r(4)] r(5) by auto
  then show ?case
    by (intro exI [of _ s']) (simp add: ide_wait_settles [OF s0(1)] ide_wait_settles [OF r(1)] t(1) r(2,3) ATA_REG_DATA_def)
qed simp

lemma ide_write_loop_sectors:
  assumes d: "ata_drive (io_base ide) (slave ide = 1) idle task sect" and sl: "slave ide \<le> 1"
  shows "idle s \<Longrightarrow> (\<And>j. j \<in> set js \<Longrightarrow> 512 * j + 512 \<le> length buf) \<Longrightarrow> (bit (tf_device (task s)) 4 \<longleftrightarrow> slave ide = 1) \<or> js \<noteq> [] \<Longrightarrow>
    \<exists>s'. ide_write_loop ide lba buf js s = (0, s') \<and> idle s' \<and>
      sect s' = fold (\<lambda>j m. m(ide_lba lba j := take 512 (drop (512 * j) buf))) js (sect s)"
proof (induction js arbitrary: s)
  case Nil
  then obtain s' where "settles (io_base ide) False (hw_outb (io_base ide + ATA_REG_COMMAND) ATA_CMD_CACHE_FLUSH s) s'" "idle s'" "sect s' = sect s"
    using ata_driveD(5) [OF d] unfolding ATA_REG_COMMAND_def ATA_CMD_CACHE_FLUSH_def by blast
  then show ?case using ide_wait_settles by fastforce
next
  case (Cons j js)
  define ws where "ws = bytes_word (take 512 (drop (j * BLOCK_SECTOR_SIZE) buf))"
  have "length (take 512 (drop (512 * j) buf)) = 512" using Cons.prems(2) [of j] by simp
  then have ws: "length ws = 256" "word_bytes ws = take 512 (drop (512 * j) buf)"
    by (simp_all add: ws_def length_bytes_word bytes_word_bytes BLOCK_SECTOR_SIZE_def mult.commute)
  obtain s0 where s0: "settles (io_base ide) False s s0" "idle s0" "sect s0 = sect s"
    using ata_driveD(1) [OF d Cons.prems(1)] by blast
  obtain t where t: "ide_command ide (ucast (lba + of_nat j)) ATA_CMD_WRITE_SECTORS s0 = hw_outb (io_base ide + 7) ATA_CMD_WRITE_SECTORS t" "idle t"
      "sect t = sect s0" "one_sector_of (slave ide = 1) (task t)" "task_lba (task t) = ide_lba lba j"
    using ide_command_task [OF d sl s0(2)] sector_number by metis
  obtain s1 where w: "settles (io_base ide) True (hw_outb (io_base ide + 7) ATA_CMD_WRITE_SECTORS t) s1"
      "idle (outsw ws (io_base ide + ATA_REG_DATA) s1)" "tf_device (task (outsw ws (io_base ide + ATA_REG_DATA) s1)) = tf_device (task t)"
      "sect (outsw ws (io_base ide + ATA_REG_DATA) s1) = (sect s)(ide_lba lba j := take 512 (drop (512 * j) buf))"
    using ata_driveD(4) [OF d t(2,4) ws(1)] unfolding t(3,5) s0(3) ws(2) ATA_CMD_WRITE_SECTORS_def ATA_REG_DATA_def add_0_right by blast
  have sel: "(bit (tf_device (task (outsw ws (io_base ide + ATA_REG_DATA) s1))) 4 \<longleftrightarrow> slave ide = 1) \<or> js \<noteq> []"
    using t(4) unfolding w(3) one_sector_of_def by blast
  obtain s' where "ide_write_loop ide lba buf js (outsw ws (io_base ide + ATA_REG_DATA) s1) = (0, s')" "idle s'"
      "sect s' = fold (\<lambda>j m. m(ide_lba lba j := take 512 (drop (512 * j) buf))) (j # js) (sect s)"
    unfolding fold_simps using Cons.IH [OF w(2) _ sel, unfolded w(4), OF Cons.prems(2) [OF list.set_intros(2)]] by blast
  then show ?case
    by (intro exI [of _ s'] conjI) (simp_all only: ide_write_loop.simps Let_def prod.case if_False simp_thms
        ide_wait_settles [OF s0(1)] t(1) ide_wait_settles [OF w(1)] ws_def)
qed

lemma concat_slices: "length buf = 512 * n \<Longrightarrow> concat (map (\<lambda>j. take 512 (drop (512 * j) buf)) [0..<n]) = buf"
proof -
  have "concat (map (\<lambda>j. take 512 (drop (512 * j) buf)) [0..<n]) = take (512 * n) buf" for n
  proof (induction n)
    case (Suc n)
    then show ?case by (simp add: take_add add.commute [of 512])
  qed simp
  then show "length buf = 512 * n \<Longrightarrow> ?thesis" by simp
qed

lemma fold_fun_upd_other: "(\<And>j. j \<in> set js \<Longrightarrow> f j \<noteq> x) \<Longrightarrow> fold (\<lambda>j m. m(f j := g j)) js m x = m x"
  by (induction js arbitrary: m) auto

lemma fold_fun_upd_at:
  "inj_on f (set js) \<Longrightarrow> distinct js \<Longrightarrow> i \<in> set js \<Longrightarrow> fold (\<lambda>j m. m(f j := g j)) js m (f i) = g i"
proof (induction js arbitrary: m)
  case (Cons j js)
  show ?case
  proof (cases "i = j")
    case True
    then have "\<And>j'. j' \<in> set js \<Longrightarrow> f j' \<noteq> f i" using Cons.prems by (auto simp: inj_on_def)
    then have "fold (\<lambda>j m. m(f j := g j)) js (m(f j := g j)) (f i) = (m(f j := g j)) (f i)" by (rule fold_fun_upd_other)
    then show ?thesis using True by (simp only: fold_simps fun_upd_same)
  qed (use Cons in auto)
qed simp

text \<open>C30. On a drive that keeps to the ATA standard, stated on its registers, sectors written within
  the 28-bit address range are read back as they were written, and every other sector keeps its
  contents.\<close>

theorem ide_write_read:
  assumes "ata_drive (io_base ide) (slave ide = 1) idle task sect" "slave ide \<le> 1" "idle s"
    and "count \<noteq> 0" "count \<le> 255" "unat lba + unat count \<le> 2 ^ 28"
    and len: "length buf = 512 * unat count"
  shows "\<exists>s1 s2. ide_write ide lba count buf s = (0, s1) \<and> ide_read ide lba count s1 = (Some buf, s2) \<and>
    (\<forall>l. l < unat lba \<or> unat lba + unat count \<le> l \<longrightarrow> sect s2 l = sect s l)"
proof -
  let ?js = "[0..<unat count]" and ?g = "\<lambda>j. take 512 (drop (512 * j) buf)"
  have c: "0 < unat count" using assms(4) by (simp add: unat_gt_0)
  then have g: "\<not> (lba > 0x0FFFFFFF \<or> count > 255)" using assms(5,6) by (simp add: word_less_nat_alt word_le_nat_alt)
  have u: "ide_lba lba i = unat lba + i" if "i < unat count" for i using that assms(6) by (simp add: ide_lba_def)
  then have inj: "inj_on (ide_lba lba) (set ?js)" by (auto simp: inj_on_def)
  have "?js \<noteq> []" using c by simp
  then obtain s1 where s1: "ide_write ide lba count buf s = (0, s1)" "idle s1"
      "sect s1 = fold (\<lambda>j m. m(ide_lba lba j := ?g j)) ?js (sect s)"
    using ide_write_loop_sectors [OF assms(1-3), of ?js buf lba] g len by (auto simp: ide_write_def)
  obtain s2 where s2: "ide_read ide lba count s1 = (Some (concat (map (\<lambda>i. sect s1 (ide_lba lba i)) ?js)), s2)" "sect s2 = sect s1"
    using ide_read_loop_sectors [OF assms(1,2) s1(2), of lba ?js] g by (auto simp: ide_read_def)
  have m: "map (\<lambda>i. sect s1 (ide_lba lba i)) ?js = map ?g ?js"
    unfolding s1(3) using inj by (intro map_cong refl fold_fun_upd_at) auto
  have "sect s1 l = sect s l" if "l < unat lba \<or> unat lba + unat count \<le> l" for l
    unfolding s1(3) using that u by (intro fold_fun_upd_other) force
  then show ?thesis using s1(1) s2(1) [unfolded m concat_slices [OF len]] s2(2) by auto
qed

text \<open>A transfer that starts in the range and runs past its end continues at sector 0.\<close>

lemma ide_read_wraps:
  assumes "ata_drive (io_base ide) (slave ide = 1) idle task sect" "slave ide \<le> 1" "idle s"
  shows "fst (ide_read ide 0x0FFFFFFF 2 s) = Some (sect s 0x0FFFFFFF @ sect s 0)"
proof -
  have "[0..<unat (2 :: u32)] = [0, 1]" by (simp add: upt_conv_Cons)
  moreover have "ide_lba 0x0FFFFFFF 0 = 0x0FFFFFFF" "ide_lba 0x0FFFFFFF 1 = 0" by (simp_all add: ide_lba_def)
  ultimately show ?thesis using ide_read_loop_sectors [OF assms, of "0x0FFFFFFF" "[0, 1]"] by (auto simp: ide_read_def)
qed

section \<open>A drive in memory\<close>

text \<open>The second drive of the first channel.  It serves only the commands that address it.\<close>

record demo_ata =
  at_disk :: "nat \<Rightarrow> bytes"
  at_task :: task_file
  at_out :: "u16 list"
  at_in :: "u16 list option"

definition at_sector :: "demo_ata \<Rightarrow> nat \<Rightarrow> bytes" where
  "at_sector h l = take 512 (at_disk h l @ replicate 512 0)"

lemma length_at_sector: "length (at_sector h l) = 512"
  by (simp add: at_sector_def)

definition at_outb :: "u16 \<Rightarrow> u8 \<Rightarrow> demo_ata \<Rightarrow> demo_ata" where
  "at_outb p v h =
     (if p = 0x1F7 then
        if \<not> one_sector_of True (at_task h) then h
        else if v = 0x20 then h\<lparr>at_out := bytes_word (at_sector h (task_lba (at_task h)))\<rparr>
        else if v = 0x30 then h\<lparr>at_in := Some []\<rparr> else h
      else h\<lparr>at_task := task_write (p - 0x1F0) v (at_task h)\<rparr>)"

definition at_outw :: "u16 \<Rightarrow> u16 \<Rightarrow> demo_ata \<Rightarrow> demo_ata" where
  "at_outw p w h =
     (case at_in h of
        None \<Rightarrow> h
      | Some ws \<Rightarrow>
          if length ws = 255 then h\<lparr>at_disk := (at_disk h)(task_lba (at_task h) := word_bytes (ws @ [w])), at_in := None\<rparr>
          else h\<lparr>at_in := Some (ws @ [w])\<rparr>)"

definition demo_drive :: "demo_ata \<Rightarrow> demo_ata hardware" where
  "demo_drive h = \<lparr>hw = h, inb_fn = (\<lambda>p h. (0x48, h)), outb_fn = at_outb,
     inw_fn = (\<lambda>p h. (hd (at_out h), h\<lparr>at_out := tl (at_out h)\<rparr>)), outw_fn = at_outw,
     inl_fn = (\<lambda>p h. (0, h)), outl_fn = (\<lambda>p v h. h),
     rdrand_fn = (\<lambda>h. (None, h)), rdseed_fn = (\<lambda>h. (None, h)), rdtsc_fn = (\<lambda>h. (0, h)), cpuid_fn = (\<lambda>_ _. (0, 0, 0, 0))\<rparr>"

definition demo_ide :: IdeDeviceData where
  "demo_ide = \<lparr>io_base = 0x1F0, ctrl_base = 0x3F6, slave = 1\<rparr>"

definition demo_idle :: "demo_ata hardware \<Rightarrow> bool" where
  "demo_idle s \<longleftrightarrow> (\<exists>h. s = demo_drive h \<and> at_in h = None)"

definition demo_sect :: "demo_ata hardware \<Rightarrow> nat \<Rightarrow> bytes" where
  "demo_sect s = at_sector (hw s)"

lemma demo_settles: "settles 0x1F0 want (demo_drive h) (demo_drive h)"
  unfolding settles_def by (rule exI [of _ 0]) (simp add: status_of_def inb_def demo_drive_def)

lemma demo_outb: "hw_outb p v (demo_drive h) = demo_drive (at_outb p v h)"
  by (simp add: hw_outb_def demo_drive_def)

lemma demo_hw [simp]: "hw (demo_drive h) = h"
  by (simp add: demo_drive_def)

lemma demo_insw: "at_out h = ws \<Longrightarrow> insw (length ws) p (demo_drive h) = (ws, demo_drive (h\<lparr>at_out := []\<rparr>))"
proof (induction ws arbitrary: h)
  case Nil
  then have "h\<lparr>at_out := []\<rparr> = h" by simp
  then show ?case by simp
next
  case (Cons w ws)
  have "inw p (demo_drive h) = (w, demo_drive (h\<lparr>at_out := ws\<rparr>))" using Cons.prems by (simp add: inw_def demo_drive_def)
  then show ?case using Cons.IH [of "h\<lparr>at_out := ws\<rparr>"] by simp
qed

lemma demo_outsw:
  "at_in h = Some acc \<Longrightarrow> ws \<noteq> [] \<Longrightarrow> length acc + length ws = 256 \<Longrightarrow>
    outsw ws p (demo_drive h) = demo_drive (h\<lparr>at_disk := (at_disk h)(task_lba (at_task h) := word_bytes (acc @ ws)), at_in := None\<rparr>)"
proof (induction ws arbitrary: acc h)
  case (Cons w ws)
  have o: "outw p w (demo_drive h) = demo_drive (at_outw p w h)" by (simp add: outw_def demo_drive_def)
  show ?case
  proof (cases "ws = []")
    case True
    then show ?thesis using Cons.prems by (simp add: outsw_def o at_outw_def fun_upd_def)
  next
    case False
    then have "length acc \<noteq> 255" using Cons.prems by (cases ws) auto
    then have "at_outw p w h = h\<lparr>at_in := Some (acc @ [w])\<rparr>" using Cons.prems by (simp add: at_outw_def)
    then show ?thesis
      using Cons.IH [of "h\<lparr>at_in := Some (acc @ [w])\<rparr>" "acc @ [w]"] False Cons.prems by (simp add: outsw_def o)
  qed
qed simp

lemma demo_reads:
  assumes "demo_idle s" "one_sector_of True (at_task (hw s))"
  shows "\<exists>s1 s2 ws. settles 0x1F0 True (hw_outb (0x1F0 + 7) 0x20 s) s1 \<and> insw 256 0x1F0 s1 = (ws, s2) \<and>
    word_bytes ws = demo_sect s (task_lba (at_task (hw s))) \<and> demo_idle s2 \<and> demo_sect s2 = demo_sect s"
proof -
  obtain h where h: "s = demo_drive h" "at_in h = None" using assms(1) by (auto simp: demo_idle_def)
  define ws where "ws = bytes_word (at_sector h (task_lba (at_task h)))"
  have c: "hw_outb (0x1F0 + 7) 0x20 s = demo_drive (h\<lparr>at_out := ws\<rparr>)"
    using assms(2) by (simp add: h(1) demo_outb at_outb_def ws_def)
  have w: "length ws = 256" "word_bytes ws = at_sector h (task_lba (at_task h))"
    by (simp_all add: ws_def length_bytes_word bytes_word_bytes length_at_sector)
  have "insw 256 0x1F0 (demo_drive (h\<lparr>at_out := ws\<rparr>)) = (ws, demo_drive (h\<lparr>at_out := []\<rparr>))"
    using demo_insw [of "h\<lparr>at_out := ws\<rparr>" ws] w by simp
  moreover have "demo_idle (demo_drive (h\<lparr>at_out := []\<rparr>))" using h(2) by (auto simp: demo_idle_def)
  moreover have "demo_sect (demo_drive (h\<lparr>at_out := []\<rparr>)) = demo_sect s" by (simp add: demo_sect_def h(1) at_sector_def fun_eq_iff)
  moreover have "word_bytes ws = demo_sect s (task_lba (at_task (hw s)))" using w by (simp add: demo_sect_def h(1))
  ultimately show ?thesis using demo_settles unfolding c by blast
qed

lemma demo_writes:
  assumes "demo_idle s" "one_sector_of True (at_task (hw s))" "length ws = 256"
  shows "\<exists>s1. settles 0x1F0 True (hw_outb (0x1F0 + 7) 0x30 s) s1 \<and> demo_idle (outsw ws 0x1F0 s1) \<and>
    tf_device (at_task (hw (outsw ws 0x1F0 s1))) = tf_device (at_task (hw s)) \<and>
    demo_sect (outsw ws 0x1F0 s1) = (demo_sect s)(task_lba (at_task (hw s)) := word_bytes ws)"
proof -
  obtain h where h: "s = demo_drive h" "at_in h = None" using assms(1) by (auto simp: demo_idle_def)
  have c: "hw_outb (0x1F0 + 7) 0x30 s = demo_drive (h\<lparr>at_in := Some []\<rparr>)"
    using assms(2) by (simp add: h(1) demo_outb at_outb_def)
  have o: "outsw ws p (demo_drive (h\<lparr>at_in := Some []\<rparr>)) =
      demo_drive (h\<lparr>at_disk := (at_disk h)(task_lba (at_task h) := word_bytes ws), at_in := None\<rparr>)" for p
    using demo_outsw [of "h\<lparr>at_in := Some []\<rparr>" "[]" ws p] assms(3) by (cases ws) auto
  have "length (word_bytes ws) = 512" using assms(3) by (simp add: word_bytes_def length_concat comp_def sum_list_triv)
  then have "demo_sect (outsw ws p (demo_drive (h\<lparr>at_in := Some []\<rparr>))) = (demo_sect s)(task_lba (at_task (hw s)) := word_bytes ws)" for p
    unfolding o by (auto simp: demo_sect_def h(1) at_sector_def fun_eq_iff)
  moreover have "demo_idle (outsw ws p (demo_drive (h\<lparr>at_in := Some []\<rparr>)))" for p
    unfolding o demo_idle_def by (rule exI, rule conjI, rule refl) simp
  moreover have "tf_device (at_task (hw (outsw ws p (demo_drive (h\<lparr>at_in := Some []\<rparr>))))) = tf_device (at_task (hw s))" for p unfolding o by (simp add: h(1))
  ultimately show ?thesis using demo_settles unfolding c by blast
qed

lemma demo_drive_laws: "ata_drive (io_base demo_ide) (slave demo_ide = 1) demo_idle (\<lambda>s. at_task (hw s)) demo_sect"
  unfolding ata_drive_def
proof (intro conjI allI impI)
  fix s r v assume s: "demo_idle s" and r: "r \<in> {2, 3, 4, 5, 6 :: u16}"
  then obtain h where h: "s = demo_drive h" "at_in h = None" by (auto simp: demo_idle_def)
  have "hw_outb (io_base demo_ide + r) v s = demo_drive (h\<lparr>at_task := task_write r v (at_task h)\<rparr>)"
    using r by (auto simp: h(1) demo_outb at_outb_def demo_ide_def)
  then show "demo_idle (hw_outb (io_base demo_ide + r) v s)" "at_task (hw (hw_outb (io_base demo_ide + r) v s)) = task_write r v (at_task (hw s))"
      "demo_sect (hw_outb (io_base demo_ide + r) v s) = demo_sect s"
    using h by (auto simp: demo_idle_def demo_sect_def at_sector_def fun_eq_iff)
next
  fix s assume s: "demo_idle s"
  then obtain h where h: "s = demo_drive h" "at_in h = None" by (auto simp: demo_idle_def)
  show "\<exists>s'. settles (io_base demo_ide) False s s' \<and> demo_idle s' \<and> at_task (hw s') = at_task (hw s) \<and> demo_sect s' = demo_sect s"
    using demo_settles [of False h] s unfolding h(1) by (intro exI [of _ "demo_drive h"]) (simp add: demo_ide_def)
  have "hw_outb (0x1F0 + 7) 0xE7 s = s" by (simp add: h(1) demo_outb at_outb_def)
  then show "\<exists>s'. settles (io_base demo_ide) False (hw_outb (io_base demo_ide + 7) 0xE7 s) s' \<and> demo_idle s' \<and> demo_sect s' = demo_sect s"
    using demo_settles [of False h] s unfolding h(1) by (intro exI [of _ "demo_drive h"]) (simp add: demo_ide_def)
qed (use demo_reads demo_writes in \<open>simp_all add: demo_ide_def\<close>)

theorem ide_write_read_witness:
  "let s = demo_drive \<lparr>at_disk = \<lambda>_. [], at_task = \<lparr>tf_count = 0, tf_low = 0, tf_mid = 0, tf_high = 0, tf_device = 0\<rparr>, at_out = [], at_in = None\<rparr>
   in \<exists>s1 s2. ide_write demo_ide 0x0ABCDEF7 1 (replicate 512 3) s = (0, s1) \<and> ide_read demo_ide 0x0ABCDEF7 1 s1 = (Some (replicate 512 3), s2)"
  using ide_write_read [OF demo_drive_laws, of "demo_drive \<lparr>at_disk = \<lambda>_. [], at_task = \<lparr>tf_count = 0, tf_low = 0, tf_mid = 0, tf_high = 0,
      tf_device = 0\<rparr>, at_out = [], at_in = None\<rparr>" 1 "0x0ABCDEF7" "replicate 512 3"]
  by (fastforce simp: demo_idle_def demo_ide_def)

end
