(* ===== verification/Console.thy ===== *)
theory Console
  imports Vfs Memory
begin

text \<open>
  The console: \<^verbatim>\<open>src/src/freelib/kstdio.c\<close>, which prints on the serial line and on the text
  screen or the framebuffer, with \<^verbatim>\<open>src/src/drivers/video/fb.c\<close> and the font of
  \<^verbatim>\<open>src/src/drivers/video/psf_font.c\<close>.

  The cells of the text screen at 0xB8000 and the pixels of the framebuffer are arrays of their
  own, functions from the index the source computes; the serial port is reached through the ports
  of the hardware.  The compiled-in font file is a parameter.  A division by a glyph height of
  zero, where the processor traps, has the value 0 here.
\<close>

record PsfFont =
  glyphs :: bytes
  glyph_count :: u32
  glyph_width :: u32
  glyph_height :: u32
  bytes_per_glyph :: u32

record 'h console = "'h vfs" +
  cursor_x :: int
  cursor_y :: int
  serial_ready :: bool
  vga_buffer :: "int \<Rightarrow> u16"
  fb :: u64
  fb_pixels :: "u32 \<Rightarrow> u32"
  pitch_pixels :: u32
  fb_width :: u32
  fb_height :: u32
  fb_cursor_x :: u32
  fb_cursor_y :: u32
  font :: PsfFont

section \<open>The font\<close>

definition psf_terminal_font :: "bytes \<Rightarrow> PsfFont \<Rightarrow> PsfFont \<times> int" where
  "psf_terminal_font p out =
     (if length p \<le> 4 then (out, -1)
      else if p ! 0 = 0x36 \<and> p ! 1 = 0x04 then
        let mode = p ! 2; char_size = (ucast (p ! 3) :: u32);
            count = (if mode AND 1 \<noteq> 0 then 512 else 256 :: u32)
        in (\<lparr>glyphs = drop 4 p, glyph_count = count, glyph_width = 8, glyph_height = char_size,
              bytes_per_glyph = char_size\<rparr>,
            if length p - 4 < unat (count * char_size) then -1 else 0)
      else (out, -1))"

section \<open>The framebuffer\<close>

definition MULTIBOOT_TAG_TYPE_FRAMEBUFFER :: u32 where "MULTIBOOT_TAG_TYPE_FRAMEBUFFER = 8"

definition align8 :: "u32 \<Rightarrow> u32" where
  "align8 v = (v + 7) AND NOT 7"

definition fb_ready :: "('h, 'z) console_scheme \<Rightarrow> bool" where
  "fb_ready s \<longleftrightarrow> fb s \<noteq> 0"

text \<open>The nested loops over the rows \<open>y0 \<le> y < y1\<close> and the columns below the width.\<close>

definition for_pixels :: "nat \<Rightarrow> nat \<Rightarrow> nat \<Rightarrow> (u32 \<Rightarrow> u32 \<Rightarrow> 'p \<Rightarrow> 'p) \<Rightarrow> 'p \<Rightarrow> 'p" where
  "for_pixels y0 y1 w f = fold (\<lambda>y. fold (\<lambda>x. f (of_nat y) (of_nat x)) [0..<w]) [y0..<y1]"

definition fb_clear :: "('h, 'z) console_scheme \<Rightarrow> ('h, 'z) console_scheme" where
  "fb_clear s =
     (if fb s = 0 then s
      else s\<lparr>fb_pixels := for_pixels 0 (unat (fb_height s)) (unat (fb_width s))
                 (\<lambda>y x px. px(y * pitch_pixels s + x := 0)) (fb_pixels s),
             fb_cursor_x := 0, fb_cursor_y := 0\<rparr>)"

definition scroll_if_needed :: "('h, 'z) console_scheme \<Rightarrow> ('h, 'z) console_scheme" where
  "scroll_if_needed s =
     (let glyph_h = glyph_height (font s); rows = fb_height s div glyph_h
      in if fb_cursor_y s < rows then s
         else
           let px1 = for_pixels (unat glyph_h) (unat (fb_height s)) (unat (fb_width s))
                 (\<lambda>y x px. px((y - glyph_h) * pitch_pixels s + x := px (y * pitch_pixels s + x))) (fb_pixels s);
               px2 = for_pixels (unat (fb_height s - glyph_h)) (unat (fb_height s)) (unat (fb_width s))
                 (\<lambda>y x px. px(y * pitch_pixels s + x := 0)) px1
           in s\<lparr>fb_pixels := px2, fb_cursor_y := rows - 1\<rparr>)"

definition draw_glyph :: "u8 \<Rightarrow> ('h, 'z) console_scheme \<Rightarrow> ('h, 'z) console_scheme" where
  "draw_glyph c s =
     (let start = unat (ucast c * bytes_per_glyph (font s));
          px = fb_cursor_x s * glyph_width (font s);
          py = fb_cursor_y s * glyph_height (font s)
      in s\<lparr>fb_pixels := for_pixels 0 (unat (glyph_height (font s))) (unat (glyph_width (font s)))
             (\<lambda>row col pix.
                let bits = (ucast (glyphs (font s) ! (start + unat row)) :: u32);
                    color = (if bits AND drop_bit (unat col) 0x80 \<noteq> 0 then 0x00E8E8E8 else 0 :: u32)
                in if px + col < fb_width s \<and> py + row < fb_height s
                   then pix((py + row) * pitch_pixels s + px + col := color) else pix) (fb_pixels s)\<rparr>)"

definition fb_putc :: "u8 \<Rightarrow> ('h, 'z) console_scheme \<Rightarrow> ('h, 'z) console_scheme" where
  "fb_putc c s =
     (if fb s = 0 then s
      else
        let cols = fb_width s div glyph_width (font s)
        in if c = 0x0A then scroll_if_needed (s\<lparr>fb_cursor_x := 0, fb_cursor_y := fb_cursor_y s + 1\<rparr>)
           else
             let c' = (if glyph_count (font s) \<le> ucast c then 0x3F else c);
                 s1 = draw_glyph c' s;
                 s2 = s1\<lparr>fb_cursor_x := fb_cursor_x s1 + 1\<rparr>
             in if cols \<le> fb_cursor_x s2
                then scroll_if_needed (s2\<lparr>fb_cursor_x := 0, fb_cursor_y := fb_cursor_y s2 + 1\<rparr>)
                else s2)"

text \<open>The tags of the boot information.  A tag of size 0 would be looked at forever.\<close>

partial_function (option) fb_scan ::
  "mem \<Rightarrow> u64 \<Rightarrow> u32 \<Rightarrow> u32 \<Rightarrow> ('h, 'z) console_scheme \<Rightarrow> ('h, 'z) console_scheme option" where
  "fb_scan m p tot off s =
     (if unat off + 8 \<le> unat tot then
        let tag = p + ucast off; tag_type = (load m tag :: u32); tag_size = (load m (tag + 4) :: u32)
        in if tag_type = 0 then Some s
           else if tag_type = MULTIBOOT_TAG_TYPE_FRAMEBUFFER \<and> 32 \<le> tag_size \<and>
                load m (tag + 8) \<noteq> (0 :: u64) \<and> load m (tag + 16) \<noteq> (0 :: u32) \<and> load m (tag + 20) \<noteq> (0 :: u32) \<and>
                load m (tag + 24) \<noteq> (0 :: u32) \<and> m (tag + 28) = 32 \<and> (m (tag + 29) = 1 \<or> m (tag + 29) = 2)
           then Some (fb_clear (s\<lparr>fb := load m (tag + 8), pitch_pixels := load m (tag + 16) div 4,
                  fb_width := load m (tag + 20), fb_height := load m (tag + 24)\<rparr>))
           else fb_scan m p tot (off + align8 tag_size) s
      else Some s)"

declare fb_scan.simps [code]

definition fb_init_from_multiboot ::
  "bytes \<Rightarrow> mem \<Rightarrow> u64 \<Rightarrow> ('h, 'z) console_scheme \<Rightarrow> ('h, 'z) console_scheme option" where
  "fb_init_from_multiboot psf m mbi s =
     (if mbi = 0 then Some s
      else
        let (f, r) = psf_terminal_font psf (font s); s1 = s\<lparr>font := f\<rparr>
        in if r \<noteq> 0 then Some s1 else fb_scan m mbi (load m mbi) 8 s1)"

section \<open>Printing\<close>

definition SCREEN_WIDTH :: int where "SCREEN_WIDTH = 80"
definition SCREEN_HEIGHT :: int where "SCREEN_HEIGHT = 25"
definition CONFIG_VGA_COLOR :: u16 where "CONFIG_VGA_COLOR = 0x0F"

definition serial_init :: "('h, 'z) console_scheme \<Rightarrow> ('h, 'z) console_scheme" where
  "serial_init s =
     (if serial_ready s then s
      else (fold (\<lambda>(port, v). hw_outb port v)
        [(0x3F9, 0x00), (0x3FB, 0x80), (0x3F8, 0x03), (0x3F9, 0x00), (0x3FB, 0x03), (0x3FA, 0xC7), (0x3FC, 0x0B)] s)
        \<lparr>serial_ready := True\<rparr>)"

primrec serial_wait :: "nat \<Rightarrow> ('h, 'z) hardware_scheme \<Rightarrow> ('h, 'z) hardware_scheme" where
  "serial_wait 0 s = s"
| "serial_wait (Suc n) s = (let (v, s') = inb 0x3FD s in if v AND 0x20 = 0 then serial_wait n s' else s')"

definition serial_putc :: "u8 \<Rightarrow> ('h, 'z) console_scheme \<Rightarrow> ('h, 'z) console_scheme" where
  "serial_putc c s = hw_outb 0x3F8 c (serial_wait 100000 (serial_init s))"

definition kclear :: "('h, 'z) console_scheme \<Rightarrow> ('h, 'z) console_scheme" where
  "kclear s =
     (let s1 = (if fb_ready s then fb_clear s else s);
          blank = 0x20 OR push_bit 8 CONFIG_VGA_COLOR
      in s1\<lparr>vga_buffer := fold (\<lambda>i v. v(int i := blank)) [0..<nat (SCREEN_WIDTH * SCREEN_HEIGHT)] (vga_buffer s1),
            cursor_x := 0, cursor_y := 0\<rparr>)"

definition kputc :: "u8 \<Rightarrow> ('h, 'z) console_scheme \<Rightarrow> ('h, 'z) console_scheme" where
  "kputc c s =
     (let s1 = serial_putc c (if c = 0x0A then serial_putc 0x0D s else s)
      in if fb_ready s1 then fb_putc c s1
         else
           let s2 = (if c = 0x0A then s1\<lparr>cursor_x := 0, cursor_y := cursor_y s1 + 1\<rparr>
                     else s1\<lparr>vga_buffer := (vga_buffer s1)(cursor_y s1 * SCREEN_WIDTH + cursor_x s1 :=
                                scast c OR push_bit 8 CONFIG_VGA_COLOR),
                             cursor_x := cursor_x s1 + 1\<rparr>);
               s3 = (if SCREEN_WIDTH \<le> cursor_x s2 then s2\<lparr>cursor_x := 0, cursor_y := cursor_y s2 + 1\<rparr> else s2)
           in if SCREEN_HEIGHT \<le> cursor_y s3 then kclear s3 else s3)"

definition kprint :: "bytes \<Rightarrow> ('h, 'z) console_scheme \<Rightarrow> ('h, 'z) console_scheme" where
  "kprint str s = fold kputc str s"

definition hex_digit :: "u64 \<Rightarrow> u8" where
  "hex_digit d = ascii ''0123456789ABCDEF'' ! unat d"

definition kprint_hex :: "u64 \<Rightarrow> ('h, 'z) console_scheme \<Rightarrow> ('h, 'z) console_scheme" where
  "kprint_hex n s =
     fold (\<lambda>i. kputc (hex_digit (drop_bit i n AND 0xF)))
       [60, 56, 52, 48, 44, 40, 36, 32, 28, 24, 20, 16, 12, 8, 4, 0] (kprint (ascii ''0x'') s)"

text \<open>The digits of a positive number, the last one first, as they fill the buffer.\<close>

function int_digits :: "int \<Rightarrow> bytes" where
  "int_digits n = (if 0 < n then (of_int (n mod 10) + 0x30) # int_digits (n div 10) else [])"
  by pat_completeness auto
termination by (relation "measure nat") auto

declare int_digits.simps [simp del]

definition kprint_int :: "u64 \<Rightarrow> ('h, 'z) console_scheme \<Rightarrow> ('h, 'z) console_scheme" where
  "kprint_int n s =
     (if n = 0 then kputc 0x30 s
      else let (s1, n1) = (if sint n < 0 then (kputc 0x2D s, - n) else (s, n))
           in fold kputc (rev (int_digits (sint n1))) s1)"

section \<open>Everything drawn is on the screen\<close>

definition screen_pixels :: "('h, 'z) console_scheme \<Rightarrow> u32 set" where
  "screen_pixels s = {y * pitch_pixels s + x |y x. y < fb_height s \<and> x < fb_width s}"

definition cursor_ok :: "('h, 'z) console_scheme \<Rightarrow> bool" where
  "cursor_ok s \<longleftrightarrow> 0 \<le> cursor_x s \<and> cursor_x s < SCREEN_WIDTH \<and> 0 \<le> cursor_y s \<and> cursor_y s < SCREEN_HEIGHT"

text \<open>What an output operation may change: the framebuffer stays where it is, and only pixels and
  cells of the screen are stored to.\<close>

definition draws :: "('h, 'z) console_scheme \<Rightarrow> ('h, 'z) console_scheme \<Rightarrow> bool" where
  "draws s s' \<longleftrightarrow>
     fb s' = fb s \<and> pitch_pixels s' = pitch_pixels s \<and> fb_width s' = fb_width s \<and> fb_height s' = fb_height s \<and>
     (\<forall>i. i \<notin> screen_pixels s \<longrightarrow> fb_pixels s' i = fb_pixels s i) \<and>
     (\<forall>i. i < 0 \<or> SCREEN_WIDTH * SCREEN_HEIGHT \<le> i \<longrightarrow> vga_buffer s' i = vga_buffer s i)"

lemma draws_refl [simp]: "draws s s"
  by (simp add: draws_def)

lemma draws_trans [trans]: "draws s s' \<Longrightarrow> draws s' s'' \<Longrightarrow> draws s s''"
  unfolding draws_def screen_pixels_def by auto

lemma fold_elsewhere: "(\<And>x p. x \<in> set xs \<Longrightarrow> g x p i = p i) \<Longrightarrow> fold g xs p i = p i"
  by (induction xs arbitrary: p) auto

lemma of_nat_below: "n < unat b \<Longrightarrow> of_nat n < b" for b :: u32
  using unat_u32 [of b] by (simp add: word_less_nat_alt unat_of_nat)

lemma for_pixels_elsewhere:
  assumes "\<And>y x p. unat y0 \<le> unat y \<Longrightarrow> y < y1 \<Longrightarrow> x < w \<Longrightarrow> f y x p i = p i"
  shows "for_pixels (unat (y0 :: u32)) (unat (y1 :: u32)) (unat (w :: u32)) f p i = p i"
  unfolding for_pixels_def
proof (intro fold_elsewhere)
  fix y x p
  assume "y \<in> set [unat y0..<unat y1]" "x \<in> set [0..<unat w]"
  moreover from this have "unat (of_nat y :: u32) = y" using unat_u32 [of y1] by (simp add: unat_of_nat)
  ultimately show "f (of_nat y) (of_nat x) p i = p i" by (intro assms of_nat_below) auto
qed

lemma for_all_pixels_elsewhere:
  "(\<And>y x p. y < y1 \<Longrightarrow> x < w \<Longrightarrow> f y x p i = p i) \<Longrightarrow> for_pixels 0 (unat (y1 :: u32)) (unat (w :: u32)) f p i = p i"
  using for_pixels_elsewhere [of 0 y1 w f i p] by simp

lemma on_screen: "i \<notin> screen_pixels s \<Longrightarrow> y < fb_height s \<Longrightarrow> x < fb_width s \<Longrightarrow> i \<noteq> y * pitch_pixels s + x"
  by (auto simp: screen_pixels_def)

lemma draws_fb_clear: "draws s (fb_clear s)"
  unfolding fb_clear_def draws_def
  by (auto intro!: for_all_pixels_elsewhere dest: on_screen)

lemma draws_scroll: "draws s (scroll_if_needed s)"
proof -
  let ?h = "glyph_height (font s)"
  have up: "y - ?h < fb_height s" if "unat ?h \<le> unat y" "y < fb_height s" for y
  proof -
    have "unat (y - ?h) = unat y - unat ?h" using that(1) by (simp add: unat_sub word_le_nat_alt)
    then show ?thesis using that(2) by (simp add: word_less_nat_alt)
  qed
  have "for_pixels (unat ?h) (unat (fb_height s)) (unat (fb_width s))
      (\<lambda>y x px. px((y - ?h) * pitch_pixels s + x := px (y * pitch_pixels s + x))) p i = p i"
    "for_pixels (unat (fb_height s - ?h)) (unat (fb_height s)) (unat (fb_width s))
      (\<lambda>y x px. px(y * pitch_pixels s + x := 0)) p i = p i" if "i \<notin> screen_pixels s"
      for p :: "u32 \<Rightarrow> u32" and i
    using that by (intro for_pixels_elsewhere; auto dest: on_screen [OF that] on_screen [OF that up])+
  then show ?thesis unfolding scroll_if_needed_def draws_def Let_def by simp
qed

lemma draws_glyph: "draws s (draw_glyph c s)"
  unfolding draw_glyph_def draws_def Let_def
  by (auto intro!: for_all_pixels_elsewhere dest: on_screen simp: add.assoc)

lemma draws_fb_putc: "draws s (fb_putc c s)"
proof -
  have x: "draws s (s\<lparr>fb_cursor_x := x\<rparr>)" and xy: "draws s (s\<lparr>fb_cursor_x := x, fb_cursor_y := y\<rparr>)"
    for x y and s :: "('a, 'b) console_scheme" by (simp_all add: draws_def)
  note line = draws_trans [OF xy draws_scroll]
  show ?thesis
    unfolding fb_putc_def Let_def
    by (simp add: line draws_trans [OF draws_glyph x] draws_trans [OF draws_glyph line])
qed

lemma serial_putc_hw: "\<exists>h r. serial_putc c s = s\<lparr>serial_ready := r, hw := h\<rparr>"
proof -
  have w: "\<exists>h. serial_wait n s = s\<lparr>hw := h\<rparr>" for n and s :: "('a, 'b) console_scheme"
  proof (induction n arbitrary: s)
    case 0
    show ?case by (rule exI [of _ "hw s"]) simp
  next
    case (Suc n)
    show ?case
    proof (cases "fst (inb 0x3FD s) AND 0x20 = 0")
      case True
      obtain h where "serial_wait n (snd (inb 0x3FD s)) = snd (inb 0x3FD s)\<lparr>hw := h\<rparr>" using Suc by blast
      with True show ?thesis by (auto simp: inb_def split: prod.splits)
    qed (auto simp: inb_def split: prod.splits)
  qed
  have "\<exists>h r. serial_init s = s\<lparr>hw := h, serial_ready := r\<rparr>"
  proof (cases "serial_ready s")
    case True
    then have "serial_init s = s\<lparr>hw := hw s, serial_ready := True\<rparr>" by (simp add: serial_init_def)
    then show ?thesis by blast
  qed (auto simp: serial_init_def hw_outb_def)
  then obtain h r where "serial_init s = s\<lparr>hw := h, serial_ready := r\<rparr>" by blast
  moreover obtain h' where "serial_wait 100000 (serial_init s) = (serial_init s)\<lparr>hw := h'\<rparr>" using w by blast
  ultimately have "serial_putc c s = s\<lparr>serial_ready := r, hw := outb_fn s 0x3F8 c h'\<rparr>"
    unfolding serial_putc_def hw_outb_def by simp
  then show ?thesis by blast
qed

lemma kclear_frame: "draws s (kclear s)" "cursor_ok (kclear s)"
proof -
  let ?f = "\<lambda>i v. v(int i := 0x20 OR push_bit 8 CONFIG_VGA_COLOR)"
  have v: "fold ?f [0..<nat (SCREEN_WIDTH * SCREEN_HEIGHT)] v i = v i" if "i < 0 \<or> SCREEN_WIDTH * SCREEN_HEIGHT \<le> i" for v i
    using that by (intro fold_elsewhere) auto
  have "draws s (s\<lparr>vga_buffer := fold ?f [0..<nat (SCREEN_WIDTH * SCREEN_HEIGHT)] (vga_buffer s), cursor_x := 0, cursor_y := 0\<rparr>)"
    for s :: "('a, 'b) console_scheme" using v unfolding draws_def by simp
  then show "draws s (kclear s)" unfolding kclear_def Let_def by (auto intro: draws_trans [OF draws_fb_clear])
  show "cursor_ok (kclear s)" by (simp add: kclear_def Let_def cursor_ok_def SCREEN_WIDTH_def SCREEN_HEIGHT_def)
qed

lemma kputc_frame:
  assumes "cursor_ok s"
  shows "draws s (kputc c s) \<and> cursor_ok (kputc c s)"
proof -
  define s1 where "s1 = serial_putc c (if c = 0x0A then serial_putc 0x0D s else s)"
  have d: "draws s (serial_putc c s)" "cursor_x (serial_putc c s) = cursor_x s" "cursor_y (serial_putc c s) = cursor_y s"
    for c and s :: "('a, 'b) console_scheme"
    using serial_putc_hw [of c s] by (auto simp: draws_def)
  have s1: "draws s s1" "cursor_ok s1" using assms d unfolding s1_def by (auto simp: cursor_ok_def intro: draws_trans)
  define s2 where "s2 = (if c = 0x0A then s1\<lparr>cursor_x := 0, cursor_y := cursor_y s1 + 1\<rparr>
       else s1\<lparr>vga_buffer := (vga_buffer s1)(cursor_y s1 * SCREEN_WIDTH + cursor_x s1 := scast c OR push_bit 8 CONFIG_VGA_COLOR),
               cursor_x := cursor_x s1 + 1\<rparr>)"
  define s3 where "s3 = (if SCREEN_WIDTH \<le> cursor_x s2 then s2\<lparr>cursor_x := 0, cursor_y := cursor_y s2 + 1\<rparr> else s2)"
  have k: "kputc c s = (if fb_ready s1 then fb_putc c s1 else if SCREEN_HEIGHT \<le> cursor_y s3 then kclear s3 else s3)"
    unfolding kputc_def s1_def [symmetric] Let_def s2_def [symmetric] s3_def [symmetric] ..
  have c: "0 \<le> cursor_x s1" "cursor_x s1 < 80" "0 \<le> cursor_y s1" "cursor_y s1 < 25"
    using s1(2) by (auto simp: cursor_ok_def SCREEN_WIDTH_def SCREEN_HEIGHT_def)
  have "draws s1 s2" using c by (auto simp: s2_def draws_def SCREEN_WIDTH_def SCREEN_HEIGHT_def)
  moreover have "draws s2 s3" by (auto simp: s3_def draws_def)
  ultimately have s3: "draws s s3" using s1(1) draws_trans by blast
  have c3: "0 \<le> cursor_x s3" "cursor_x s3 < 80" "0 \<le> cursor_y s3" using c by (auto simp: s2_def s3_def SCREEN_WIDTH_def)
  have f: "cursor_x (fb_putc c s1) = cursor_x s1" "cursor_y (fb_putc c s1) = cursor_y s1"
    by (simp_all add: fb_putc_def scroll_if_needed_def draw_glyph_def Let_def)
  consider "fb_ready s1" | "\<not> fb_ready s1" "SCREEN_HEIGHT \<le> cursor_y s3" | "\<not> fb_ready s1" "\<not> SCREEN_HEIGHT \<le> cursor_y s3" by blast
  then show ?thesis
  proof cases
    case 1
    then show ?thesis using s1 f draws_trans [OF s1(1) draws_fb_putc] unfolding k cursor_ok_def by simp
  next
    case 2
    then show ?thesis using draws_trans [OF s3 kclear_frame(1)] kclear_frame(2) unfolding k by simp
  next
    case 3
    then show ?thesis using s3 c3 unfolding k cursor_ok_def by (simp add: SCREEN_WIDTH_def)
  qed
qed

text \<open>C27. Printing stores only to cells of the 80 by 25 text screen and to pixels inside the
  framebuffer, whatever is printed, and leaves the cursor on the screen.\<close>

theorem kprint_on_screen:
  assumes "cursor_ok s"
  shows "draws s (kprint str s) \<and> cursor_ok (kprint str s)"
  using assms unfolding kprint_def
proof (induction str arbitrary: s)
  case (Cons c str)
  then show ?case using kputc_frame [of s c] draws_trans [of s "kputc c s"] by auto
qed simp

definition demo_console :: "unit console" where
  "demo_console = vfs.extend demo_vfs (console.fields 79 24 True (\<lambda>_. 0) 0 (\<lambda>_. 0) 0 0 0 0 0
     \<lparr>glyphs = [], glyph_count = 0, glyph_width = 8, glyph_height = 16, bytes_per_glyph = 16\<rparr>)"

theorem kprint_on_screen_witness:
  "draws demo_console (kprint (ascii ''Hello'') demo_console) \<and> cursor_ok (kprint (ascii ''Hello'') demo_console)"
proof -
  have "cursor_ok demo_console"
    by (simp add: cursor_ok_def demo_console_def demo_vfs_def demo_ps2_def vfs.defs ps2.defs console.defs SCREEN_WIDTH_def SCREEN_HEIGHT_def)
  then show ?thesis by (rule kprint_on_screen)
qed

section \<open>Printing a number\<close>

text \<open>The value of a decimal text.\<close>

definition dec_value :: "bytes \<Rightarrow> int" where
  "dec_value ds = foldl (\<lambda>v d. 10 * v + (uint d - 48)) 0 ds"

fun int_value :: "bytes \<Rightarrow> int" where
  "int_value (d # ds) = (if d = 0x2D then - dec_value ds else dec_value (d # ds))"
| "int_value [] = 0"

definition int_text :: "u64 \<Rightarrow> bytes" where
  "int_text n = (if n = 0 then [0x30] else if sint n < 0 then 0x2D # rev (int_digits (sint (- n))) else rev (int_digits (sint n)))"

lemma digit_value: "uint (of_int (n mod 10) + 0x30 :: u8) = n mod 10 + 48"
proof -
  have "0 \<le> n mod 10" "n mod 10 < 10" by simp_all
  then have "(n mod 10 + 48) mod 256 = n mod 10 + 48" by (intro mod_pos_pos_trivial) linarith+
  moreover have "(of_int (n mod 10) + 0x30 :: u8) = of_int (n mod 10 + 48)" by simp
  ultimately show ?thesis by (simp only: uint_word_of_int) simp
qed

lemma int_digits_value: "0 \<le> n \<Longrightarrow> dec_value (rev (int_digits n)) = n"
proof (induction n rule: int_digits.induct)
  case (1 n)
  show ?case
  proof (cases "0 < n")
    case True
    then have "dec_value (rev (int_digits (n div 10))) = n div 10" using 1 by simp
    then show ?thesis using True digit_value [of n] by (subst int_digits.simps) (simp add: dec_value_def)
  next
    case False
    then show ?thesis using 1 by (subst int_digits.simps) (simp add: dec_value_def)
  qed
qed

lemma int_digits_length: "n < 10 ^ k \<Longrightarrow> length (int_digits n) \<le> k"
proof (induction k arbitrary: n)
  case 0
  then show ?case by (subst int_digits.simps) simp
next
  case (Suc k)
  then have "n div 10 < 10 ^ k" by simp
  then show ?case using Suc.IH by (subst int_digits.simps) auto
qed

lemma int_digits_no_sign: "d \<in> set (int_digits n) \<Longrightarrow> d \<noteq> 0x2D"
proof (induction n rule: int_digits.induct)
  case (1 n)
  have "uint (of_int (n mod 10) + 0x30 :: u8) \<noteq> uint (0x2D :: u8)" unfolding digit_value by simp
  then have "(of_int (n mod 10) + 0x30 :: u8) \<noteq> 0x2D" by metis
  then show ?case using 1 by (subst (asm) (2) int_digits.simps) (auto split: if_splits)
qed

lemma int_value_unsigned: "\<forall>d \<in> set ds. d \<noteq> 0x2D \<Longrightarrow> int_value ds = dec_value ds"
  by (cases ds) (auto simp: dec_value_def)

lemma sint_u64: "- (2 ^ 63) \<le> sint n" "sint n < 2 ^ 63" for n :: u64
  using sint_greater_eq [of n] sint_less [of n] by simp_all

lemma sint_neg: "n \<noteq> 0x8000000000000000 \<Longrightarrow> sint (- n) = - sint n" for n :: u64
proof -
  assume n: "n \<noteq> 0x8000000000000000"
  have "sint n \<noteq> - (2 ^ 63)"
  proof
    assume "sint n = - (2 ^ 63)"
    moreover have "sint (0x8000000000000000 :: u64) = - (2 ^ 63)" by simp
    ultimately show False using n by (metis signed_word_eqI)
  qed
  then have "- (2 ^ 63) \<le> - sint n" "- sint n < 2 ^ 63" using sint_u64 [of n] by linarith+
  then have "signed_take_bit 63 (- sint n) = - sint n" by (intro signed_take_bit_int_eq_self) simp_all
  then show ?thesis using sint_word_ariths(4) [of n] by simp
qed

text \<open>C28. A signed 64-bit number prints as its decimal text, in at most 20 characters; only the least
  number, whose negation overflows, prints as a bare sign.\<close>

theorem kprint_int_decimal:
  "kprint_int n s = kprint (int_text n) s \<and>
   (if n = 0x8000000000000000 then int_text n = [0x2D] else int_value (int_text n) = sint n \<and> length (int_text n) \<le> 20)"
proof -
  have k: "kprint_int n s = kprint (int_text n) s"
    by (simp add: kprint_int_def int_text_def kprint_def)
  have len: "length (int_digits m) \<le> 19" if "m < 2 ^ 63" for m using that by (intro int_digits_length) simp
  have val: "int_value (rev (int_digits m)) = m" if "0 \<le> m" for m
    using that int_digits_no_sign int_digits_value by (subst int_value_unsigned) auto
  consider "n = 0x8000000000000000" | "n = 0" | "n \<noteq> 0x8000000000000000" "sint n < 0" | "0 \<le> sint n" "n \<noteq> 0" "n \<noteq> 0x8000000000000000" by linarith
  then show ?thesis
  proof cases
    case 1
    then show ?thesis using k by (simp add: int_text_def int_digits.simps)
  next
    case 2
    then show ?thesis using k by (simp add: int_text_def dec_value_def)
  next
    case 3
    then have "sint (- n) = - sint n" "n \<noteq> 0" using sint_neg by auto
    moreover have "- sint n < 2 ^ 63" using sint_u64 [of "- n"] calculation by simp
    ultimately show ?thesis using k 3 len [of "- sint n"] int_digits_value [of "- sint n"] by (simp add: int_text_def)
  next
    case 4
    then show ?thesis using k len [of "sint n"] val [of "sint n"] sint_u64 [of n] by (simp add: int_text_def)
  qed
qed
end
