(* ===== verification/Pci.thy ===== *)
theory Pci
  imports Console
begin

text \<open>
  \<^verbatim>\<open>src/src/drivers/bus/pci.c\<close>, access to the configuration space and the searches through it, and
  \<^verbatim>\<open>src/src/drivers/video/hdmi.c\<close>, which composes the text behind \<^verbatim>\<open>/sys/devices/hdmi\<close> from it.

  The three searches share their loops over buses, slots and functions and differ in the test of a
  function, which may read more of its configuration.  A search gives the address stored through
  \<^verbatim>\<open>out\<close>, None for the return value -1.
\<close>

record PciAddress =
  pci_bus :: u8
  pci_slot :: u8
  pci_function :: u8

definition PCI_CONFIG_ADDRESS :: u16 where "PCI_CONFIG_ADDRESS = 0xCF8"
definition PCI_CONFIG_DATA :: u16 where "PCI_CONFIG_DATA = 0xCFC"

definition pci_address :: "PciAddress \<Rightarrow> u8 \<Rightarrow> u32" where
  "pci_address addr offset =
     0x80000000 OR push_bit 16 (ucast (pci_bus addr)) OR push_bit 11 (ucast (pci_slot addr)) OR
     push_bit 8 (ucast (pci_function addr)) OR ucast (offset AND 0xFC)"

definition pci_read32 :: "PciAddress \<Rightarrow> u8 \<Rightarrow> ('h, 'z) hardware_scheme \<Rightarrow> u32 \<times> ('h, 'z) hardware_scheme" where
  "pci_read32 addr offset s = inl PCI_CONFIG_DATA (outl PCI_CONFIG_ADDRESS (pci_address addr offset) s)"

definition pci_write32 :: "PciAddress \<Rightarrow> u8 \<Rightarrow> u32 \<Rightarrow> ('h, 'z) hardware_scheme \<Rightarrow> ('h, 'z) hardware_scheme" where
  "pci_write32 addr offset v s = outl PCI_CONFIG_DATA v (outl PCI_CONFIG_ADDRESS (pci_address addr offset) s)"

section \<open>Searching\<close>

type_synonym 's pci_test = "PciAddress \<Rightarrow> u32 \<Rightarrow> 's \<Rightarrow> bool \<times> 's"

fun search_each :: "('a \<Rightarrow> 's \<Rightarrow> 'r option \<times> 's) \<Rightarrow> 'a list \<Rightarrow> 's \<Rightarrow> 'r option \<times> 's" where
  "search_each f [] s = (None, s)"
| "search_each f (x # xs) s =
     (let (r, s1) = f x s in case r of Some a \<Rightarrow> (Some a, s1) | None \<Rightarrow> search_each f xs s1)"

fun pci_functions ::
  "('h, 'z) hardware_scheme pci_test \<Rightarrow> u8 \<Rightarrow> u8 \<Rightarrow> u8 list \<Rightarrow> ('h, 'z) hardware_scheme \<Rightarrow> PciAddress option \<times> ('h, 'z) hardware_scheme" where
  "pci_functions test bus slot [] s = (None, s)"
| "pci_functions test bus slot (func # rest) s =
     (let addr = \<lparr>pci_bus = bus, pci_slot = slot, pci_function = func\<rparr>;
          (vendor_device, s1) = pci_read32 addr 0x00 s
      in if vendor_device AND 0xFFFF = 0xFFFF then
           if func = 0 then (None, s1) else pci_functions test bus slot rest s1
         else
           let (hit, s2) = test addr vendor_device s1
           in if hit then (Some addr, s2)
              else if func = 0 then
                let (header, s3) = pci_read32 addr 0x0C s2
                in if drop_bit 16 header AND 0x80 = 0 then (None, s3) else pci_functions test bus slot rest s3
              else pci_functions test bus slot rest s2)"

definition pci_search :: "('h, 'z) hardware_scheme pci_test \<Rightarrow> ('h, 'z) hardware_scheme \<Rightarrow> PciAddress option \<times> ('h, 'z) hardware_scheme" where
  "pci_search test =
     search_each (\<lambda>bus. search_each (\<lambda>slot. pci_functions test bus slot (map of_nat [0..<8])) (map of_nat [0..<32]))
       (map of_nat [0..<256])"

definition pci_find_class :: "u8 \<Rightarrow> u8 \<Rightarrow> u8 \<Rightarrow> ('h, 'z) hardware_scheme \<Rightarrow> PciAddress option \<times> ('h, 'z) hardware_scheme" where
  "pci_find_class class_code subclass prog_if =
     pci_search (\<lambda>addr vendor_device s.
       let (class_reg, s1) = pci_read32 addr 0x08 s
       in (ucast (drop_bit 24 class_reg) = class_code \<and> ucast (drop_bit 16 class_reg) = subclass \<and>
           ucast (drop_bit 8 class_reg) = prog_if, s1))"

definition pci_find_class_any_prog_if :: "u8 \<Rightarrow> u8 \<Rightarrow> ('h, 'z) hardware_scheme \<Rightarrow> PciAddress option \<times> ('h, 'z) hardware_scheme" where
  "pci_find_class_any_prog_if class_code subclass =
     pci_search (\<lambda>addr vendor_device s.
       let (class_reg, s1) = pci_read32 addr 0x08 s
       in (ucast (drop_bit 24 class_reg) = class_code \<and> ucast (drop_bit 16 class_reg) = subclass, s1))"

definition pci_find_device :: "u16 \<Rightarrow> u16 \<Rightarrow> ('h, 'z) hardware_scheme \<Rightarrow> PciAddress option \<times> ('h, 'z) hardware_scheme" where
  "pci_find_device vendor_id device_id =
     pci_search (\<lambda>addr vendor_device s. (ucast (vendor_device AND 0xFFFF) = vendor_id \<and> ucast (drop_bit 16 vendor_device) = device_id, s))"

definition pci_bar :: "PciAddress \<Rightarrow> u8 \<Rightarrow> ('h, 'z) hardware_scheme \<Rightarrow> u64 \<times> ('h, 'z) hardware_scheme" where
  "pci_bar addr bar_index s =
     (if bar_index \<ge> 6 then (0, s)
      else
        let off = 0x10 + bar_index * 4;
            (lo, s1) = pci_read32 addr off s
        in if lo AND 1 \<noteq> 0 then (ucast (lo AND NOT 3), s1)
           else
             let bar = (ucast lo :: u64) AND NOT 0xF
             in if lo AND 0x6 = 0x4 \<and> bar_index < 5 then
                  let (hi, s2) = pci_read32 addr (off + 4) s1 in (bar OR push_bit 32 (ucast hi), s2)
                else (bar, s1))"

section \<open>The display\<close>

record 'h display = "'h console" +
  display_found :: bool
  audio_found :: bool

text \<open>The text composed so far is the characters before \<^verbatim>\<open>*pos\<close>.\<close>

definition append_char :: "nat \<Rightarrow> u8 \<Rightarrow> bytes \<Rightarrow> bytes" where
  "append_char cap c out = (if cap \<le> length out + 1 then out else out @ [c])"

definition append_text :: "nat \<Rightarrow> bytes \<Rightarrow> bytes \<Rightarrow> bytes" where
  "append_text cap t out = fold (append_char cap) t out"

definition hex16 :: "u16 \<Rightarrow> bytes" where
  "hex16 v = map (\<lambda>shift. ascii ''0123456789ABCDEF'' ! unat (drop_bit shift v AND 0xF)) [12, 8, 4, 0]"

definition append_hex16 :: "nat \<Rightarrow> u16 \<Rightarrow> bytes \<Rightarrow> bytes" where
  "append_hex16 cap v out = fold (append_char cap) (hex16 v) out"

definition append_location :: "nat \<Rightarrow> u32 \<Rightarrow> PciAddress \<Rightarrow> bytes \<Rightarrow> bytes" where
  "append_location cap ident a out =
     (let o1 = append_hex16 cap (ucast (ident AND 0xFFFF)) out;
          o2 = append_hex16 cap (ucast (drop_bit 16 ident)) (append_char cap 0x3A o1);
          o3 = append_hex16 cap (ucast (pci_bus a)) (append_text cap (ascii '' pci='') o2);
          o4 = append_hex16 cap (ucast (pci_slot a)) (append_char cap 0x3A o3)
      in append_hex16 cap (ucast (pci_function a)) (append_char cap 0x2E o4))"

definition set_status :: "(PciAddress \<times> u32) option \<Rightarrow> (PciAddress \<times> u32) option \<Rightarrow> bytes" where
  "set_status disp aud =
     (let o1 = (case disp of
            Some (a, ident) \<Rightarrow> append_location 128 ident a (append_text 128 (ascii ''display='') [])
          | None \<Rightarrow> append_text 128 (ascii ''display=none'') []);
          o2 = (case aud of
            Some (a, ident) \<Rightarrow> append_location 128 ident a (append_text 128 (ascii '' hdmi-audio='') o1)
          | None \<Rightarrow> o1)
      in append_char 128 0x0A o2)"

text \<open>The identification of a device that was found.\<close>

definition read_id :: "PciAddress option \<Rightarrow> ('h, 'z) hardware_scheme \<Rightarrow> (PciAddress \<times> u32) option \<times> ('h, 'z) hardware_scheme" where
  "read_id found s =
     (case found of None \<Rightarrow> (None, s) | Some a \<Rightarrow> let (i, s1) = pci_read32 a 0x00 s in (Some (a, i), s1))"

definition hdmi_init :: "('h, 'z) display_scheme \<Rightarrow> ('h, 'z) display_scheme" where
  "hdmi_init s =
     (let (d1, s1) = pci_find_class_any_prog_if 0x03 0x00 s;
          (d2, s2) = (case d1 of Some a \<Rightarrow> (Some a, s1) | None \<Rightarrow> pci_find_class_any_prog_if 0x03 0x80 s1);
          (disp, s3) = read_id d2 s2;
          (a1, s4) = pci_find_class_any_prog_if 0x04 0x03 s3;
          (aud, s5) = read_id a1 s4;
          s6 = s5\<lparr>hdmi_status := set_status disp aud, display_found := disp \<noteq> None, audio_found := aud \<noteq> None\<rparr>;
          s7 = (if disp \<noteq> None then kprint (ascii (''HDMI/display: PCI display controller found'' @ nl)) s6 else s6)
      in if aud \<noteq> None then kprint (ascii (''HDMI/display: HD-audio function found'' @ nl)) s7 else s7)"

definition hdmi_present :: "('h, 'z) display_scheme \<Rightarrow> bool" where
  "hdmi_present s = display_found s"

section \<open>What a search finds\<close>

text \<open>
  The configuration mechanism of the bus: a read of the data port gives the double word the address
  port selects.  The reads of a search do not change the configuration space they see.
\<close>

definition config_space :: "(u32 \<Rightarrow> u32) \<Rightarrow> ('h, 'z) hardware_scheme \<Rightarrow> bool" where
  "config_space cfg s \<longleftrightarrow>
     (\<forall>h a. fst (inl_fn s PCI_CONFIG_DATA (outl_fn s PCI_CONFIG_ADDRESS a h)) = cfg a)"

definition reg :: "(u32 \<Rightarrow> u32) \<Rightarrow> PciAddress \<Rightarrow> u8 \<Rightarrow> u32" where
  "reg cfg a offset = cfg (pci_address a offset)"

definition pci_present :: "(u32 \<Rightarrow> u32) \<Rightarrow> PciAddress \<Rightarrow> bool" where
  "pci_present cfg a \<longleftrightarrow> reg cfg a 0 AND 0xFFFF \<noteq> 0xFFFF"

text \<open>Functions above 0 exist only on a multi-function device.\<close>

definition pci_visible :: "(u32 \<Rightarrow> u32) \<Rightarrow> PciAddress \<Rightarrow> bool" where
  "pci_visible cfg a \<longleftrightarrow> pci_present cfg a \<and>
     (pci_function a = 0 \<or>
      pci_present cfg (a\<lparr>pci_function := 0\<rparr>) \<and> drop_bit 16 (reg cfg (a\<lparr>pci_function := 0\<rparr>) 0x0C) AND 0x80 \<noteq> 0)"

definition pci_all :: "PciAddress list" where
  "pci_all = concat (map (\<lambda>bus. concat (map (\<lambda>slot. map (\<lambda>func. \<lparr>pci_bus = bus, pci_slot = slot, pci_function = func\<rparr>)
     (map of_nat [0..<8])) (map of_nat [0..<32]))) (map of_nat [0..<256]))"

definition has_class :: "u8 \<Rightarrow> u8 \<Rightarrow> u32 \<Rightarrow> bool" where
  "has_class class_code subclass r \<longleftrightarrow> ucast (drop_bit 24 r) = class_code \<and> ucast (drop_bit 16 r) = subclass"

lemma pci_read32_reg:
  assumes "config_space cfg s"
  shows "\<exists>h. pci_read32 a off s = (reg cfg a off, s\<lparr>hw := h\<rparr>)"
  using assms by (intro exI [of _ "snd (inl_fn s PCI_CONFIG_DATA (outl_fn s PCI_CONFIG_ADDRESS (pci_address a off) (hw s)))"])
    (simp add: pci_read32_def config_space_def inl_def outl_def reg_def case_prod_beta)

lemma config_space_hw [simp]: "config_space cfg (s\<lparr>hw := h\<rparr>) = config_space cfg s"
  by (simp add: config_space_def)

text \<open>A test that decides a predicate of the address and leaves the configuration space alone.\<close>

definition decides :: "(u32 \<Rightarrow> u32) \<Rightarrow> ('h, 'z) hardware_scheme pci_test \<Rightarrow> (PciAddress \<Rightarrow> bool) \<Rightarrow> bool" where
  "decides cfg test P \<longleftrightarrow>
     (\<forall>a s. config_space cfg s \<longrightarrow> (\<exists>h. test a (reg cfg a 0) s = (P a, s\<lparr>hw := h\<rparr>)))"

lemma decidesD:
  assumes "decides cfg test P" "config_space cfg s"
  shows "\<exists>h. test a (reg cfg a 0) s = (P a, s\<lparr>hw := h\<rparr>)"
  using assms unfolding decides_def by blast

lemma pci_functions_high:
  assumes "decides cfg test P" "config_space cfg s" "0 \<notin> set fs"
  shows "\<exists>h. pci_functions test bus slot fs s =
    (List.find (\<lambda>a. pci_present cfg a \<and> P a) (map (\<lambda>func. \<lparr>pci_bus = bus, pci_slot = slot, pci_function = func\<rparr>) fs), s\<lparr>hw := h\<rparr>)"
  using assms(2,3)
proof (induction fs arbitrary: s)
  case Nil
  show ?case by (auto intro: exI [of _ "hw s"])
next
  case (Cons func fs)
  let ?a = "\<lparr>pci_bus = bus, pci_slot = slot, pci_function = func\<rparr>"
  obtain h where h: "pci_read32 ?a 0 s = (reg cfg ?a 0, s\<lparr>hw := h\<rparr>)"
    using pci_read32_reg [OF Cons.prems(1)] by blast
  obtain h2 where h2: "test ?a (reg cfg ?a 0) (s\<lparr>hw := h\<rparr>) = (P ?a, s\<lparr>hw := h2\<rparr>)"
    using decidesD [OF assms(1), of "s\<lparr>hw := h\<rparr>"] Cons.prems(1) by auto
  have rest: "\<exists>h. pci_functions test bus slot fs (s\<lparr>hw := k\<rparr>) =
      (List.find (\<lambda>a. pci_present cfg a \<and> P a) (map (\<lambda>func. \<lparr>pci_bus = bus, pci_slot = slot, pci_function = func\<rparr>) fs), s\<lparr>hw := h\<rparr>)" for k
    using Cons.IH [of "s\<lparr>hw := k\<rparr>"] Cons.prems by simp
  have "func \<noteq> 0" using Cons.prems(2) by auto
  then show ?case
    using rest [of h] rest [of h2] by (cases "reg cfg ?a 0 AND 0xFFFF = 0xFFFF"; cases "P ?a") (auto simp: h h2 pci_present_def Let_def)
qed

lemma pci_functions_find:
  assumes "decides cfg test P" "config_space cfg s" "0 \<notin> set fs"
  shows "\<exists>h. pci_functions test bus slot (0 # fs) s =
    (List.find (\<lambda>a. pci_visible cfg a \<and> P a) (map (\<lambda>func. \<lparr>pci_bus = bus, pci_slot = slot, pci_function = func\<rparr>) (0 # fs)), s\<lparr>hw := h\<rparr>)"
proof -
  let ?at = "\<lambda>func. \<lparr>pci_bus = bus, pci_slot = slot, pci_function = func\<rparr>"
  let ?a = "?at 0"
  obtain h where h: "pci_read32 ?a 0 s = (reg cfg ?a 0, s\<lparr>hw := h\<rparr>)"
    using pci_read32_reg [OF assms(2)] by blast
  obtain h2 where h2: "test ?a (reg cfg ?a 0) (s\<lparr>hw := h\<rparr>) = (P ?a, s\<lparr>hw := h2\<rparr>)"
    using decidesD [OF assms(1), of "s\<lparr>hw := h\<rparr>"] assms(2) by auto
  obtain h3 where h3: "pci_read32 ?a 0x0C (s\<lparr>hw := h2\<rparr>) = (reg cfg ?a 0x0C, s\<lparr>hw := h3\<rparr>)"
    using pci_read32_reg [of cfg "s\<lparr>hw := h2\<rparr>" ?a "0x0C"] assms(2) by auto
  obtain h4 where h4: "pci_functions test bus slot fs (s\<lparr>hw := h3\<rparr>) =
      (List.find (\<lambda>a. pci_present cfg a \<and> P a) (map ?at fs), s\<lparr>hw := h4\<rparr>)"
    using pci_functions_high [OF assms(1) _ assms(3), of "s\<lparr>hw := h3\<rparr>"] assms(2) by auto
  let ?multi = "pci_present cfg ?a \<and> drop_bit 16 (reg cfg ?a 0x0C) AND 0x80 \<noteq> 0"
  have high: "List.find (\<lambda>a. pci_visible cfg a \<and> P a) (map ?at fs) =
      (if ?multi then List.find (\<lambda>a. pci_present cfg a \<and> P a) (map ?at fs) else None)"
    using assms(3) by (induction fs) (auto simp: pci_visible_def)
  have first: "pci_visible cfg ?a = pci_present cfg ?a" "(reg cfg ?a 0 AND 0xFFFF = 0xFFFF) = (\<not> pci_present cfg ?a)"
    by (auto simp: pci_present_def pci_visible_def)
  show ?thesis
    using high by (cases "pci_present cfg ?a"; cases "P ?a") (auto simp: h h2 h3 h4 first Let_def)
qed

lemma find_append: "List.find P (xs @ ys) = (case List.find P xs of Some a \<Rightarrow> Some a | None \<Rightarrow> List.find P ys)"
  by (induction xs) auto

lemma search_each_find:
  assumes "\<And>x s. config_space cfg s \<Longrightarrow> \<exists>h. f x s = (List.find P (g x), s\<lparr>hw := h\<rparr>)" "config_space cfg s"
  shows "\<exists>h. search_each f xs s = (List.find P (concat (map g xs)), s\<lparr>hw := h\<rparr>)"
  using assms(2)
proof (induction xs arbitrary: s)
  case Nil
  show ?case by (auto intro: exI [of _ "hw s"])
next
  case (Cons x xs)
  obtain h where h: "f x s = (List.find P (g x), s\<lparr>hw := h\<rparr>)"
    using assms(1) Cons.prems by blast
  obtain h2 where h2: "search_each f xs (s\<lparr>hw := h\<rparr>) = (List.find P (concat (map g xs)), s\<lparr>hw := h2\<rparr>)"
    using Cons.IH [of "s\<lparr>hw := h\<rparr>"] Cons.prems by auto
  show ?case by (auto simp: h h2 find_append split: option.splits)
qed

lemma eight_functions: "map of_nat [0..<8] = (0 :: u8) # map of_nat [1..<8]"
  by (simp add: upt_rec)

lemma pci_search_find:
  assumes "decides cfg test P" "config_space cfg s"
  shows "\<exists>h. pci_search test s = (List.find (\<lambda>a. pci_visible cfg a \<and> P a) pci_all, s\<lparr>hw := h\<rparr>)"
  unfolding pci_search_def pci_all_def
proof (rule search_each_find [OF _ assms(2)], rule search_each_find)
  fix bus slot :: u8 and t :: "('a, 'b) hardware_scheme"
  assume "config_space cfg t"
  then show "\<exists>h. pci_functions test bus slot (map of_nat [0..<8]) t =
      (List.find (\<lambda>a. pci_visible cfg a \<and> P a) (map (\<lambda>func. \<lparr>pci_bus = bus, pci_slot = slot, pci_function = func\<rparr>)
        (map of_nat [0..<8])), t\<lparr>hw := h\<rparr>)"
    unfolding eight_functions by (intro pci_functions_find [OF assms(1)]) (auto simp: upt_rec)
qed assumption

lemma decides_class:
  "decides cfg (\<lambda>addr vendor_device s. let (class_reg, s1) = pci_read32 addr 0x08 s in (Q class_reg, s1)) (\<lambda>a. Q (reg cfg a 8))"
  unfolding decides_def
proof (intro allI impI)
  fix a and s :: "('a, 'b) hardware_scheme"
  assume "config_space cfg s"
  from pci_read32_reg [OF this, of a 8] show "\<exists>h. (let (class_reg, s1) = pci_read32 a 8 s in (Q class_reg, s1)) = (Q (reg cfg a 8), s\<lparr>hw := h\<rparr>)"
    by auto
qed

lemma decides_device: "decides cfg (\<lambda>addr vendor_device s. (Q vendor_device, s)) (\<lambda>a. Q (reg cfg a 0))"
  unfolding decides_def
proof (intro allI impI)
  fix a and s :: "('a, 'b) hardware_scheme"
  show "\<exists>h. (Q (reg cfg a 0), s) = (Q (reg cfg a 0), s\<lparr>hw := h\<rparr>)" by (intro exI [of _ "hw s"]) simp
qed

definition pci_first :: "(u32 \<Rightarrow> u32) \<Rightarrow> (PciAddress \<Rightarrow> bool) \<Rightarrow> PciAddress option" where
  "pci_first cfg P = List.find (\<lambda>a. pci_visible cfg a \<and> P a) pci_all"

lemma pci_find_class_any_hw:
  assumes "config_space cfg s"
  shows "\<exists>h. pci_find_class_any_prog_if c sc s = (pci_first cfg (\<lambda>a. has_class c sc (reg cfg a 8)), s\<lparr>hw := h\<rparr>)"
  unfolding pci_find_class_any_prog_if_def pci_first_def has_class_def
  by (rule pci_search_find [OF decides_class assms])

text \<open>C31.
  The searches of the bus find what they are asked for: on a configuration space that its reads do
  not change, each of the three gives the first function, in the order of bus, slot and function,
  that is visible and has the class or the identification asked for, and fails when there is
  none.  A function is visible when its vendor is not 0xFFFF and it is function 0 or belongs to a
  device whose function 0 is present and marked multi-function.
\<close>

theorem pci_find_first:
  assumes "config_space cfg s"
  shows "fst (pci_find_class c sc pi s) =
           pci_first cfg (\<lambda>a. has_class c sc (reg cfg a 8) \<and> ucast (drop_bit 8 (reg cfg a 8)) = pi) \<and>
         fst (pci_find_class_any_prog_if c sc s) = pci_first cfg (\<lambda>a. has_class c sc (reg cfg a 8)) \<and>
         fst (pci_find_device v d s) =
           pci_first cfg (\<lambda>a. ucast (reg cfg a 0 AND 0xFFFF) = v \<and> ucast (drop_bit 16 (reg cfg a 0)) = d)"
  using pci_search_find [OF decides_class assms, of "\<lambda>r. ucast (drop_bit 24 r) = c \<and> ucast (drop_bit 16 r) = sc \<and> ucast (drop_bit 8 r) = pi"]
    pci_find_class_any_hw [OF assms, of c sc]
    pci_search_find [OF decides_device assms, of "\<lambda>r. ucast (r AND 0xFFFF) = v \<and> ucast (drop_bit 16 r) = d"]
  by (auto simp: pci_find_class_def pci_find_device_def pci_first_def has_class_def)

section \<open>The status text\<close>

definition location_text :: "PciAddress \<times> u32 \<Rightarrow> bytes" where
  "location_text = (\<lambda>(a, ident).
     hex16 (ucast (ident AND 0xFFFF)) @ [0x3A] @ hex16 (ucast (drop_bit 16 ident)) @ ascii '' pci='' @
     hex16 (ucast (pci_bus a)) @ [0x3A] @ hex16 (ucast (pci_slot a)) @ [0x2E] @ hex16 (ucast (pci_function a)))"

definition status_text :: "(PciAddress \<times> u32) option \<Rightarrow> (PciAddress \<times> u32) option \<Rightarrow> bytes" where
  "status_text disp aud =
     ascii ''display='' @ (case disp of Some d \<Rightarrow> location_text d | None \<Rightarrow> ascii ''none'') @
     (case aud of Some d \<Rightarrow> ascii '' hdmi-audio='' @ location_text d | None \<Rightarrow> []) @ [0x0A]"

lemma append_chars_fit: "length out + length t < cap \<Longrightarrow> fold (append_char cap) t out = out @ t"
  by (induction t arbitrary: out) (auto simp: append_char_def)

lemma hex16_length [simp]: "length (hex16 v) = 4"
  by (simp add: hex16_def)

lemma append_location_fit:
  "length out + 28 < cap \<Longrightarrow> append_location cap ident a out = out @ location_text (a, ident)"
  by (simp add: append_location_def append_hex16_def append_text_def append_chars_fit Let_def location_text_def
      append_chars_fit [of _ "[c]" for c, simplified] ascii_def)

lemma location_text_length [simp]: "length (location_text d) = 28"
  by (simp add: location_text_def ascii_def split: prod.split)

lemma set_status_text: "set_status disp aud = status_text disp aud"
  by (auto simp: set_status_def status_text_def append_text_def append_location_fit append_chars_fit Let_def
      append_chars_fit [of _ "[c]" for c, simplified] ascii_def split: option.split)

lemma kputc_hdmi: "hdmi_status (kputc c s) = hdmi_status s"
proof -
  have p: "hdmi_status (serial_putc c s) = hdmi_status s" for c and s :: "('a, 'b) console_scheme"
    using serial_putc_hw [of c s] by auto
  show ?thesis
    by (simp add: kputc_def fb_putc_def scroll_if_needed_def draw_glyph_def kclear_def fb_clear_def Let_def p)
qed

lemma kprint_hdmi [simp]: "hdmi_status (kprint t s) = hdmi_status s"
  unfolding kprint_def by (induction t arbitrary: s) (auto simp: kputc_hdmi)

lemma read_id_hw:
  assumes "config_space cfg s"
  shows "\<exists>h. read_id found s = (map_option (\<lambda>a. (a, reg cfg a 0)) found, s\<lparr>hw := h\<rparr>)"
proof (cases found)
  case None
  then show ?thesis by (auto simp: read_id_def intro: exI [of _ "hw s"])
next
  case (Some a)
  then show ?thesis using pci_read32_reg [OF assms, of a 0] by (auto simp: read_id_def)
qed

definition pci_display :: "(u32 \<Rightarrow> u32) \<Rightarrow> PciAddress option" where
  "pci_display cfg =
     (case pci_first cfg (\<lambda>a. has_class 0x03 0x00 (reg cfg a 8)) of
        Some a \<Rightarrow> Some a | None \<Rightarrow> pci_first cfg (\<lambda>a. has_class 0x03 0x80 (reg cfg a 8)))"

text \<open>C31.
  The display driver reports what is on the bus.  After it starts, the text read from
  \<^verbatim>\<open>/sys/devices/hdmi\<close> names the first visible display controller, VGA compatible ones before other
  ones, and the first visible audio function, each with its vendor, device and place on the bus,
  and none of it is cut off by the buffer of 128 characters.
\<close>

theorem hdmi_init_status:
  assumes "config_space cfg s"
  shows "hdmi_status (hdmi_init s) =
    status_text (map_option (\<lambda>a. (a, reg cfg a 0)) (pci_display cfg))
      (map_option (\<lambda>a. (a, reg cfg a 0)) (pci_first cfg (\<lambda>a. has_class 0x04 0x03 (reg cfg a 8))))"
proof -
  let ?cls = "\<lambda>c sc. pci_first cfg (\<lambda>a. has_class c sc (reg cfg a 8))"
  have cls: "\<exists>h. pci_find_class_any_prog_if c sc (s\<lparr>hw := k\<rparr>) = (?cls c sc, s\<lparr>hw := h\<rparr>)" for c sc k
    using pci_find_class_any_hw [of cfg "s\<lparr>hw := k\<rparr>" c sc] assms by simp
  obtain h1 where h1: "pci_find_class_any_prog_if 0x03 0x00 s = (?cls 3 0, s\<lparr>hw := h1\<rparr>)"
    using pci_find_class_any_hw [OF assms] by blast
  obtain h2 where h2: "(case ?cls 3 0 of Some a \<Rightarrow> (Some a, s\<lparr>hw := h1\<rparr>)
      | None \<Rightarrow> pci_find_class_any_prog_if 0x03 0x80 (s\<lparr>hw := h1\<rparr>)) = (pci_display cfg, s\<lparr>hw := h2\<rparr>)"
    using cls [of 3 "0x80" h1] by (cases "?cls 3 0") (auto simp: pci_display_def)
  obtain h3 where h3: "read_id (pci_display cfg) (s\<lparr>hw := h2\<rparr>) = (map_option (\<lambda>a. (a, reg cfg a 0)) (pci_display cfg), s\<lparr>hw := h3\<rparr>)"
    using read_id_hw [of cfg "s\<lparr>hw := h2\<rparr>" "pci_display cfg"] assms by auto
  obtain h4 where h4: "pci_find_class_any_prog_if 0x04 0x03 (s\<lparr>hw := h3\<rparr>) = (?cls 4 3, s\<lparr>hw := h4\<rparr>)" using cls by blast
  obtain h5 where h5: "read_id (?cls 4 3) (s\<lparr>hw := h4\<rparr>) = (map_option (\<lambda>a. (a, reg cfg a 0)) (?cls 4 3), s\<lparr>hw := h5\<rparr>)"
    using read_id_hw [of cfg "s\<lparr>hw := h4\<rparr>" "?cls 4 3"] assms by auto
  show ?thesis
    unfolding hdmi_init_def h1 Let_def prod.case h2 h3 h4 h5 by (simp add: set_status_text)
qed

section \<open>A bus with a display adapter\<close>

text \<open>A VGA adapter in slot 2 of bus 0 and nothing else; the hardware state is the address latched last.\<close>

definition demo_cfg :: "u32 \<Rightarrow> u32" where
  "demo_cfg a = (if a = 0x80001000 then 0x11111234 else if a = 0x80001008 then 0x03000000 else if a = 0x8000100C then 0 else 0xFFFFFFFF)"

definition demo_bus :: "u32 display" where
  "demo_bus = \<lparr>hw = 0, inb_fn = (\<lambda>p h. (0x20, h)), outb_fn = (\<lambda>p v h. h),
     inw_fn = (\<lambda>p h. (0, h)), outw_fn = (\<lambda>p v h. h), inl_fn = (\<lambda>p h. (demo_cfg h, h)), outl_fn = (\<lambda>p v h. v),
     rdrand_fn = (\<lambda>h. (None, h)), rdseed_fn = (\<lambda>h. (None, h)), rdtsc_fn = (\<lambda>h. (0, h)), cpuid_fn = (\<lambda>_ _. (0, 0, 0, 0)),
     entropy_state = 0, has_rdrand = False, has_rdseed = False, mouse_bytes = [0, 0, 0], mouse_pos = 0,
     dev_state_mounted = True, dev_mounted = True, hdmi_status = [], multi_user_enabled = False,
     cursor_x = 0, cursor_y = 0, serial_ready = True, vga_buffer = (\<lambda>_. 0), fb = 0, fb_pixels = (\<lambda>_. 0),
     pitch_pixels = 0, fb_width = 0, fb_height = 0, fb_cursor_x = 0, fb_cursor_y = 0,
     font = \<lparr>glyphs = [], glyph_count = 0, glyph_width = 8, glyph_height = 16, bytes_per_glyph = 16\<rparr>,
     display_found = False, audio_found = False\<rparr>"

lemma demo_bus_config: "config_space demo_cfg demo_bus"
  by (simp add: config_space_def demo_bus_def)

lemma pci_all_start:
  "\<exists>rest. pci_all = concat (map (\<lambda>slot. map (\<lambda>func. \<lparr>pci_bus = 0, pci_slot = slot, pci_function = func\<rparr>) [0, 1, 2, 3, 4, 5, 6, 7]) [0, 1]) @
     \<lparr>pci_bus = 0, pci_slot = 2, pci_function = 0\<rparr> # rest"
proof -
  have "[0..<256] = 0 # [1..<256]" "[0..<32] = 0 # 1 # 2 # [3..<32]" "[0..<8] = [0, 1, 2, 3, 4, 5, 6, 7]"
    by (simp_all add: upt_conv_Cons [of 0] upt_conv_Cons [of "Suc 0"] numeral_2_eq_2 [symmetric])
  then show ?thesis unfolding pci_all_def by (simp del: upt_rec_numeral)
qed

lemma demo_regs:
  "reg demo_cfg \<lparr>pci_bus = 0, pci_slot = 2, pci_function = 0\<rparr> 0 = 0x11111234"
  "reg demo_cfg \<lparr>pci_bus = 0, pci_slot = 2, pci_function = 0\<rparr> 8 = 0x03000000"
  by code_simp+

lemma demo_first:
  assumes "P \<lparr>pci_bus = 0, pci_slot = 2, pci_function = 0\<rparr>"
  shows "pci_first demo_cfg P = Some \<lparr>pci_bus = 0, pci_slot = 2, pci_function = 0\<rparr>"
proof -
  let ?before = "concat (map (\<lambda>slot. map (\<lambda>func. \<lparr>pci_bus = 0, pci_slot = slot, pci_function = func\<rparr>) [0, 1, 2, 3, 4, 5, 6, 7]) [0, 1])"
  obtain rest where all: "pci_all = ?before @
     \<lparr>pci_bus = 0, pci_slot = 2, pci_function = 0\<rparr> # rest"
    using pci_all_start by blast
  have "list_all (\<lambda>a. \<not> pci_visible demo_cfg a) ?before" by code_simp
  then have "List.find (\<lambda>a. pci_visible demo_cfg a \<and> P a) ?before = None"
    unfolding find_None_iff list_all_iff by blast
  moreover have "pci_visible demo_cfg \<lparr>pci_bus = 0, pci_slot = 2, pci_function = 0\<rparr>" by code_simp
  ultimately show ?thesis using assms unfolding pci_first_def all find_append by simp
qed

theorem pci_find_first_witness:
  "fst (pci_find_device 0x1234 0x1111 demo_bus) = Some \<lparr>pci_bus = 0, pci_slot = 2, pci_function = 0\<rparr>"
proof -
  have "fst (pci_find_device 0x1234 0x1111 demo_bus) =
      pci_first demo_cfg (\<lambda>a. ucast (reg demo_cfg a 0 AND 0xFFFF) = (0x1234 :: u16) \<and> ucast (drop_bit 16 (reg demo_cfg a 0)) = (0x1111 :: u16))"
    using pci_find_first [OF demo_bus_config, of 0 0 0 "0x1234" "0x1111"] by blast
  then show ?thesis by (simp add: demo_first demo_regs)
qed

lemma demo_no_audio: "pci_first demo_cfg (\<lambda>a. has_class 0x04 0x03 (reg demo_cfg a 8)) = None"
proof -
  have next_reg: "pci_address a 8 = pci_address a 0 OR 8" for a
    by (simp add: pci_address_def or.assoc)
  have "\<not> has_class 0x04 0x03 (reg demo_cfg a 8)" if "pci_present demo_cfg a" for a
  proof -
    have "pci_address a 0 \<in> {0x80001000, 0x80001008, 0x8000100C}"
      using that by (auto simp: pci_present_def reg_def demo_cfg_def split: if_splits)
    then show ?thesis by (auto simp: reg_def next_reg demo_cfg_def has_class_def)
  qed
  then show ?thesis by (auto simp: pci_first_def find_None_iff pci_visible_def)
qed

theorem hdmi_init_status_witness:
  "hdmi_status (hdmi_init demo_bus) = ascii ''display=1234:1111 pci=0000:0002.0000'' @ [0x0A]"
proof -
  have d: "pci_display demo_cfg = Some \<lparr>pci_bus = 0, pci_slot = 2, pci_function = 0\<rparr>"
    by (simp add: pci_display_def demo_first has_class_def demo_regs)
  have "status_text (Some (\<lparr>pci_bus = 0, pci_slot = 2, pci_function = 0\<rparr>, 0x11111234)) None =
      ascii ''display=1234:1111 pci=0000:0002.0000'' @ [0x0A]"
    by code_simp
  then show ?thesis using hdmi_init_status [OF demo_bus_config] by (simp add: d demo_regs demo_no_audio)
qed

end
