(* ===== verification/Initramfs.thy ===== *)
theory Initramfs
  imports Memory Vfs
begin

text \<open>
  \<^verbatim>\<open>src/src/fs/initramfs.c\<close>: looking a file up in the archive that is linked into the kernel.

  The archive is the memory between two linker symbols.  A search gives the address and size stored
  through its arguments, None for -1; the outer option is None when the search never returns.
\<close>

definition kslen :: "bytes \<Rightarrow> u32" where
  "kslen s = of_nat (length s)"

definition cpio_is_newc :: "mem \<Rightarrow> u64 \<Rightarrow> u32 \<Rightarrow> bool" where
  "cpio_is_newc m p remain \<longleftrightarrow> \<not> remain < 6 \<and> mem_read m p 6 = ascii ''070701''"

definition cpio_digit :: "u8 \<Rightarrow> u32 option" where
  "cpio_digit c =
     (if 0x30 \<le> c \<and> c \<le> 0x39 then Some (ucast (c - 0x30))
      else if 0x61 \<le> c \<and> c \<le> 0x66 then Some (ucast (c - 0x61 + 10))
      else if 0x41 \<le> c \<and> c \<le> 0x46 then Some (ucast (c - 0x41 + 10))
      else None)"

fun cpio_hex_loop :: "bytes \<Rightarrow> u32 \<Rightarrow> u32" where
  "cpio_hex_loop [] v = v"
| "cpio_hex_loop (c # f) v = (case cpio_digit c of None \<Rightarrow> 0 | Some d \<Rightarrow> cpio_hex_loop f (push_bit 4 v OR d))"

definition cpio_hex :: "mem \<Rightarrow> u64 \<Rightarrow> nat \<Rightarrow> u32" where
  "cpio_hex m f n = cpio_hex_loop (mem_read m f n) 0"

definition cpio_upper :: "u8 \<Rightarrow> u8" where
  "cpio_upper c = (if 0x61 \<le> c \<and> c \<le> 0x7A then c - 32 else c)"

definition skip_slash :: "bytes \<Rightarrow> bytes" where
  "skip_slash want = (if want \<noteq> [] \<and> hd want = 0x2F then tl want else want)"

definition name_matches_exec_path :: "mem \<Rightarrow> bytes \<Rightarrow> u64 \<Rightarrow> u32 \<Rightarrow> bool" where
  "name_matches_exec_path m want cpio_name namesz =
     (if namesz < 2 then False
      else if m (cpio_name + ucast (namesz - 1)) \<noteq> 0 then False
      else
        let w = skip_slash want; wl = kslen w; nl = namesz - 1
        in if wl \<noteq> nl then False
           else list_all (\<lambda>i. cpio_upper (w ! i) = cpio_upper (m (cpio_name + of_nat i))) [0..<unat wl])"

definition is_trailer :: "mem \<Rightarrow> u64 \<Rightarrow> u32 \<Rightarrow> bool" where
  "is_trailer m name namesz =
     (let t = ascii ''TRAILER!!!''; tl = kslen t + 1
      in if namesz \<noteq> tl then False
         else list_all (\<lambda>i. m (name + of_nat i) = t ! i) [0..<unat (tl - 1)] \<and> m (name + ucast (tl - 1)) = 0)"

partial_function (option) initramfs_loop :: "mem \<Rightarrow> u64 \<Rightarrow> u32 \<Rightarrow> bytes \<Rightarrow> u32 \<Rightarrow> (u64 \<times> u32) option option" where
  "initramfs_loop m base tot path off =
     (if \<not> off + 110 \<le> tot then Some None
      else
        let h = base + ucast off
        in if \<not> cpio_is_newc m h (tot - off) then Some None
           else
             let namesz = cpio_hex m (h + 54) 8; filesz = cpio_hex m (h + 54 + 8) 8
             in if namesz = 0 \<and> filesz = 0 then Some None
                else
                  let head = 110; namepad = (namesz + 3) AND NOT 3; filepad = (filesz + 3) AND NOT 3
                  in if off + head + namepad + filepad > tot then Some None
                     else
                       let name = h + ucast head
                       in if is_trailer m name namesz then Some None
                          else if name_matches_exec_path m path name namesz then Some (Some (h + ucast head + ucast namepad, filesz))
                          else initramfs_loop m base tot path (off + head + namepad + filepad))"

declare initramfs_loop.simps [code]

definition initramfs_find :: "mem \<Rightarrow> u64 \<Rightarrow> u64 \<Rightarrow> bytes option \<Rightarrow> (u64 \<times> u32) option option" where
  "initramfs_find m start end' path =
     (case path of
        None \<Rightarrow> Some None
      | Some p \<Rightarrow> if end' \<le> start then Some None else initramfs_loop m start (ucast (end' - start)) p 0)"

section \<open>Archives\<close>

text \<open>
  An archive in the ASCII format newc, the one \<^verbatim>\<open>docs/KERNEL_ABI.md\<close> prescribes and \<^verbatim>\<open>cpio -H newc\<close>
  writes: a header of 13 fields of eight hexadecimal digits after the magic number, with the size
  of the file at offset 54, the major number of the device it was on at 62 and the size of the
  name, with its final zero, at 94.  Header and name together, and the contents, are padded to a
  multiple of four bytes.
\<close>

record newc_stat =
  c_ino :: u32
  c_mode :: u32
  c_uid :: u32
  c_gid :: u32
  c_nlink :: u32
  c_mtime :: u32
  c_devmajor :: u32
  c_devminor :: u32
  c_rdevmajor :: u32
  c_rdevminor :: u32

definition cpio_char :: "u32 \<Rightarrow> u8" where
  "cpio_char d = ascii ''0123456789abcdef'' ! unat d"

definition hex8 :: "u32 \<Rightarrow> bytes" where
  "hex8 v = map (\<lambda>i. cpio_char (drop_bit (4 * i) v AND 0xF)) [7, 6, 5, 4, 3, 2, 1, 0]"

definition pad4 :: "nat \<Rightarrow> nat" where
  "pad4 n = 4 * ((n + 3) div 4)"

definition padded :: "bytes \<Rightarrow> bytes" where
  "padded bs = bs @ replicate (pad4 (length bs) - length bs) 0"

definition newc_entry :: "newc_stat \<Rightarrow> bytes \<Rightarrow> bytes \<Rightarrow> bytes" where
  "newc_entry st name data =
     padded (ascii ''070701'' @ concat (map hex8 [c_ino st, c_mode st, c_uid st, c_gid st, c_nlink st, c_mtime st]) @
       hex8 (of_nat (length data)) @ hex8 (c_devmajor st) @
       concat (map hex8 [c_devminor st, c_rdevmajor st, c_rdevminor st]) @ hex8 (of_nat (length name + 1)) @ hex8 0 @
       name @ [0]) @ padded data"

lemma cpio_digit_char: "d < 16 \<Longrightarrow> cpio_digit (cpio_char d) = Some d"
proof -
  assume "d < 16"
  then have "unat d \<in> set [0..<16]" by (simp add: word_less_nat_alt)
  moreover have "list_all (\<lambda>i. cpio_digit (cpio_char (of_nat i)) = Some (of_nat i)) [0..<16]" by code_simp
  ultimately have "cpio_digit (cpio_char (of_nat (unat d))) = Some (of_nat (unat d))" unfolding list_all_iff by blast
  then show ?thesis by simp
qed

lemma hex_step: "push_bit 4 (drop_bit (4 * Suc i) v) OR (drop_bit (4 * i) v AND 0xF) = drop_bit (4 * i) (v :: u32)"
proof (rule bit_word_eqI)
  have m: "(0xF :: u32) = mask 4" by (simp add: mask_eq_exp_minus_1)
  fix n assume "n < LENGTH(32)"
  then show "bit (push_bit 4 (drop_bit (4 * Suc i) v) OR (drop_bit (4 * i) v AND 0xF)) n = bit (drop_bit (4 * i) v) n"
    unfolding m by (cases "n < 4") (auto simp: bit_or_iff bit_push_bit_iff bit_drop_bit_eq bit_and_iff bit_mask_iff)
qed

lemma nibble_less: "(v AND 0xF :: u32) < 16"
  using and_mask_less' [of 4 v] by (simp add: mask_eq_exp_minus_1)

lemma cpio_hex_hex8: "cpio_hex_loop (hex8 v) 0 = v"
proof -
  have "cpio_hex_loop (map (\<lambda>i. cpio_char (drop_bit (4 * i) v AND 0xF)) (rev [0..<k])) (drop_bit (4 * k) v) = v" for k
  proof (induction k)
    case (Suc k)
    then show ?case using hex_step [of k v] by (simp add: cpio_digit_char nibble_less)
  qed simp
  from this [of 8] have "cpio_hex_loop (hex8 v) (drop_bit 32 v) = v" by (simp add: hex8_def upt_rec)
  moreover have "drop_bit 32 v = 0" by (rule bit_word_eqI) (auto simp: bit_drop_bit_eq dest: bit_imp_le_length)
  ultimately show ?thesis by simp
qed

lemma pad4_word:
  assumes "n + 3 < 2 ^ 32"
  shows "(of_nat n + 3 :: u32) AND NOT 3 = of_nat (pad4 n)"
proof -
  have "(3 :: u32) = mask 2" by (simp add: mask_eq_exp_minus_1)
  then have "(of_nat n + 3 :: u32) AND NOT 3 = of_nat (unat (of_nat n + 3 :: u32) div 2 ^ 2 * 2 ^ 2)"
    by (simp only: mask_clear)
  also have "unat (of_nat n + 3 :: u32) = n + 3"
    using assms unat_of_nat [of "n + 3", where 'a = 32] by simp
  finally show ?thesis by (simp add: pad4_def ac_simps)
qed

lemma pad4_bounds: "n \<le> pad4 n" "pad4 n \<le> n + 3"
  by (auto simp: pad4_def)

lemma length_padded [simp]: "length (padded bs) = pad4 (length bs)"
  using pad4_bounds [of "length bs"] by (simp add: padded_def)

lemma length_hex8 [simp]: "length (hex8 v) = 8"
  by (simp add: hex8_def)

lemma newc_entry_split:
  "\<exists>f g pad. newc_entry st name data = ascii ''070701'' @ f @ hex8 (of_nat (length data)) @ hex8 (c_devmajor st) @ g @ name @ [0] @ pad @ padded data \<and>
     length f = 48 \<and> length g = 40"
  by (rule exI [of _ "concat (map hex8 [c_ino st, c_mode st, c_uid st, c_gid st, c_nlink st, c_mtime st])"],
      rule exI [of _ "concat (map hex8 [c_devminor st, c_rdevmajor st, c_rdevminor st]) @ hex8 (of_nat (length name + 1)) @ hex8 0"])
    (auto simp: newc_entry_def padded_def)

lemma mem_read_peek:
  "i + j \<le> length bs \<Longrightarrow> length bs \<le> 2 ^ 64 \<Longrightarrow> mem_read (mem_copy_in m a bs) (a + of_nat i) j = take j (drop i bs)"
  using mem_read_sub [OF mem_read_copy] by blast

lemma no_trailer: "namesz \<noteq> 11 \<Longrightarrow> \<not> is_trailer m a namesz"
  by (simp add: is_trailer_def kslen_def ascii_def)

text \<open>With the size of the file for the size of the name, no name matches: the final zero of the
  name is missing, or a zero is met inside.\<close>

lemma wrong_size_no_match:
  assumes n: "\<And>i. i < length name + 1 \<Longrightarrow> m (a + of_nat i) = (name @ [0]) ! i" "0 \<notin> set name" "0 \<notin> set path"
    and sz: "sz \<noteq> length name + 1" "sz < 2 ^ 32" and p: "length path < 2 ^ 32"
  shows "\<not> name_matches_exec_path m path a (of_nat sz)"
proof
  let ?w = "skip_slash path"
  assume match: "name_matches_exec_path m path a (of_nat sz)"
  have w: "length ?w < 2 ^ 32" "0 \<notin> set ?w" using p n(3) by (auto simp: skip_slash_def dest: list.set_sel(2))
  have u: "unat (of_nat sz :: u32) = sz" using sz(2) by (simp add: unat_of_nat)
  have two: "2 \<le> sz" using match u by (auto simp: name_matches_exec_path_def word_less_nat_alt split: if_splits)
  then have pred: "of_nat sz - 1 = (of_nat (sz - 1) :: u32)" by (simp add: of_nat_diff)
  have uc: "(ucast (of_nat (sz - 1) :: u32) :: u64) = of_nat (sz - 1)" using sz(2) by (simp add: unsigned_of_nat take_bit_nat_eq_self)
  have z: "m (a + of_nat (sz - 1)) = 0" and l: "kslen ?w = of_nat (sz - 1)"
    and all: "\<forall>i < unat (kslen ?w). cpio_upper (?w ! i) = cpio_upper (m (a + of_nat i))"
    using match unfolding name_matches_exec_path_def pred uc Let_def by (auto simp: list_all_iff split: if_splits)
  have len: "length ?w = sz - 1" "unat (kslen ?w) = sz - 1"
    using l w(1) sz(2) by (auto simp: kslen_def unat_of_nat dest: arg_cong [of _ _ unat])
  consider "sz < length name + 1" | "length name + 1 < sz" using sz(1) by linarith
  then show False
  proof cases
    case 1
    then have "m (a + of_nat (sz - 1)) = name ! (sz - 1)" "sz - 1 < length name" using n(1) [of "sz - 1"] two by (auto simp: nth_append)
    then show False using z n(2) by (metis nth_mem)
  next
    case 2
    then have i: "length name < sz - 1" by simp
    then have "cpio_upper (?w ! length name) = cpio_upper 0" using all len n(1) [of "length name"] by simp
    then have "?w ! length name = 0" by (auto simp: cpio_upper_def split: if_splits)
    then show False using w(2) i len(1) by (metis nth_mem)
  qed
qed

text \<open>C34. A file of an archive in the documented newc format is not found: the search takes the size
  of the file for the size of its name and the major device number for the size of the file.
  Whatever the first entry is, unless its contents are exactly as long as its name with the final
  zero, the search for any path fails, provided only that the place it goes on at, 110 bytes after
  the header plus the two rounded sizes, does not by accident hold the magic number again.\<close>

theorem newc_not_found:
  fixes st name data rest
  defines "arch \<equiv> newc_entry st name data @ rest"
  assumes r: "mem_read m start (length arch) = arch" and b: "unat start + length arch < 2 ^ 64" "length arch < 2 ^ 32"
    and z: "0 \<notin> set name" "0 \<notin> set path" and p: "length path < 2 ^ 32"
    and major: "unat (c_devmajor st) < 4096" and sz: "length data \<noteq> length name + 1" "length data < 2 ^ 31"
    and magic: "data = [] \<and> c_devmajor st = 0 \<or>
      take 6 (drop (110 + pad4 (length data) + pad4 (unat (c_devmajor st))) arch) \<noteq> ascii ''070701''"
  shows "initramfs_find m start (start + of_nat (length arch)) (Some path) = Some None"
proof -
  let ?n = "length data" and ?d = "unat (c_devmajor st)" and ?L = "length arch"
  define off where "off = 110 + pad4 ?n + pad4 ?d"
  obtain f g pad where arch: "arch = ascii ''070701'' @ f @ hex8 (of_nat ?n) @ hex8 (c_devmajor st) @ g @ name @ [0] @ pad @ padded data @ rest"
      and fg: "length f = 48" "length g = 40"
    using newc_entry_split [of st name data] by (auto simp: arch_def)
  have L: "110 + length name + 1 \<le> ?L" by (simp add: arch fg ascii_def)
  have sub: "mem_read m (start + of_nat i) j = take j (drop i arch)" if "i + j \<le> ?L" for i j by (rule mem_read_sub [OF r that])
  have h: "mem_read m start 6 = ascii ''070701''" using sub [of 0 6] L by (simp add: arch ascii_def)
  have sizes: "cpio_hex m (start + 54) 8 = of_nat ?n" "cpio_hex m (62 + start) 8 = of_nat ?d"
    using sub [of 54 8] sub [of 62 8] L by (simp_all add: cpio_hex_def arch fg ascii_def cpio_hex_hex8 add.commute [of 62])
  have name: "m (start + 110 + of_nat i) = (name @ [0]) ! i" if "i < length name + 1" for i
    using mem_read_nth [OF sub [of 110 "length name + 1"], of i] L that by (simp add: arch fg ascii_def nth_append)
  have small: "off < 2 ^ 32 - 110" "off + 110 < 2 ^ 32" using pad4_bounds(2) [of ?n] pad4_bounds(2) [of ?d] major sz(2) by (auto simp: off_def)
  have pads: "(of_nat ?n + 3 :: u32) AND NOT 3 = of_nat (pad4 ?n)" "(of_nat ?d + 3 :: u32) AND NOT 3 = of_nat (pad4 ?d)"
    using major sz(2) by (intro pad4_word; simp)+
  have uoff: "(ucast (of_nat off :: u32) :: u64) = of_nat off" using small by (simp add: unsigned_of_nat take_bit_nat_eq_self)
  have stop: "initramfs_loop m start (of_nat ?L) path (of_nat off) = Some None" if "\<not> (?n = 0 \<and> c_devmajor st = 0)"
  proof (cases "off + 110 \<le> ?L")
    case True
    then have "mem_read m (start + of_nat off) 6 \<noteq> ascii ''070701''" using sub [of off 6] magic that by (auto simp: off_def)
    then show ?thesis by (simp add: initramfs_loop.simps [of m start _ path "of_nat off"] cpio_is_newc_def Let_def uoff)
  next
    case False
    moreover have "unat (of_nat (off + 110) :: u32) = off + 110" "unat (of_nat ?L :: u32) = ?L"
      using small b(2) by (simp_all only: unat_of_nat) simp_all
    ultimately have "\<not> (of_nat (off + 110) :: u32) \<le> of_nat ?L" unfolding word_le_nat_alt by simp
    then show ?thesis by (simp add: initramfs_loop.simps [of m start _ path "of_nat off"] add.commute)
  qed
  have first: "initramfs_loop m start (of_nat ?L) path 0 = Some None"
  proof -
    have c: "(of_nat ?n :: u32) = 0 \<and> (of_nat ?d :: u32) = 0 \<longleftrightarrow> ?n = 0 \<and> c_devmajor st = 0"
      using sz(2) by (auto simp: word_of_nat_eq_0_iff)
    have o: "110 + of_nat (pad4 ?n) + of_nat (pad4 ?d) = (of_nat off :: u32)" by (simp add: off_def)
    have ge: "110 \<le> (of_nat ?L :: u32)" using L b(2) by (simp add: word_le_nat_alt unat_of_nat)
    have no: "\<not> name_matches_exec_path m path (start + 110) (of_nat ?n)"
      using wrong_size_no_match [OF name z sz(1) _ p] sz(2) by simp
    show ?thesis
      using ge no stop c h sizes pads
      by (simp add: initramfs_loop.simps [of m start _ path 0] cpio_is_newc_def Let_def o)
  qed
  have "unat (start + of_nat ?L) = unat start + ?L" using b(1) by (simp add: unat_add_lem [THEN iffD1] unat_of_nat)
  then have "\<not> start + of_nat ?L \<le> start" using L by (auto simp: word_le_nat_alt)
  then show ?thesis using first b(2) by (simp add: initramfs_find_def unsigned_of_nat take_bit_nat_eq_self of_nat_take_bit)
qed

definition demo_stat :: newc_stat where
  "demo_stat = \<lparr>c_ino = 12, c_mode = 0x81ED, c_uid = 0, c_gid = 0, c_nlink = 1, c_mtime = 0, c_devmajor = 8, c_devminor = 1,
     c_rdevmajor = 0, c_rdevminor = 0\<rparr>"

definition newc_bytes :: bytes where
  "newc_bytes = newc_entry demo_stat (ascii ''init'') [1, 2, 3] @ newc_entry demo_stat (ascii ''TRAILER!!!'') []"

theorem newc_not_found_witness:
  "initramfs_find (mem_copy_in (\<lambda>_. 0) 0x1000 newc_bytes) 0x1000 (0x1000 + of_nat (length newc_bytes)) (Some (ascii ''init'')) = Some None"
proof -
  have len: "length newc_bytes = 244" by code_simp
  have z: "0 \<notin> set (ascii ''init'')" "length (ascii ''init'') = 4" by code_simp+
  have off: "take 6 (drop (110 + pad4 (length [1, 2, 3 :: u8]) + pad4 (unat (c_devmajor demo_stat))) newc_bytes) \<noteq> ascii ''070701''"
    "unat (c_devmajor demo_stat) < 4096" by code_simp+
  have "mem_read (mem_copy_in (\<lambda>_. 0) 0x1000 newc_bytes) 0x1000 (length newc_bytes) = newc_bytes"
    by (rule mem_read_copy) (simp add: len)
  then show ?thesis
    using newc_not_found [of _ "0x1000" demo_stat "ascii ''init''" "[1, 2, 3]" "newc_entry demo_stat (ascii ''TRAILER!!!'') []" "ascii ''init''",
        folded newc_bytes_def] z off len by simp
qed

section \<open>A search that does not end\<close>

lemma no_match: "namesz \<noteq> 5 \<Longrightarrow> \<not> name_matches_exec_path m (ascii ''init'') a namesz"
proof -
  assume "namesz \<noteq> 5"
  then have "4 \<noteq> namesz - 1" by (auto simp: eq_diff_eq)
  then show ?thesis by (simp add: name_matches_exec_path_def skip_slash_def kslen_def ascii_def)
qed

text \<open>
  The sum of the sizes of an entry wraps around at 32 bits, so an archive can lead the search back
  to an entry it has seen: it never returns.
\<close>

definition hang_entry :: "u32 \<Rightarrow> bytes" where
  "hang_entry filesz = ascii ''070701'' @ replicate 48 0x30 @ hex8 2 @ hex8 filesz @ replicate 40 0x30 @ [0x61, 0, 0, 0]"

definition hang_bytes :: bytes where
  "hang_bytes = hang_entry 0 @ hang_entry 0xFFFFFF1C"

definition hang_ramfs :: mem where
  "hang_ramfs = mem_copy_in (\<lambda>_. 0) 0x1000 hang_bytes"

lemma hang_facts:
  "cpio_is_newc hang_ramfs 0x1000 228" "cpio_is_newc hang_ramfs 0x1072 114"
  "cpio_hex hang_ramfs 0x1036 8 = 2" "cpio_hex hang_ramfs 0x103E 8 = 0"
  "cpio_hex hang_ramfs 0x10A8 8 = 2" "cpio_hex hang_ramfs 0x10B0 8 = 0xFFFFFF1C"
proof -
  have len: "length hang_bytes = 228" by code_simp
  have r: "mem_read hang_ramfs (0x1000 + of_nat i) j = take j (drop i hang_bytes)" if "i + j \<le> 228" for i j
    unfolding hang_ramfs_def using that by (intro mem_read_peek) (simp_all add: len)
  have b: "take 6 (drop 0 hang_bytes) = ascii ''070701''" "take 6 (drop 114 hang_bytes) = ascii ''070701''"
    "cpio_hex_loop (take 8 (drop 54 hang_bytes)) 0 = 2" "cpio_hex_loop (take 8 (drop 62 hang_bytes)) 0 = 0"
    "cpio_hex_loop (take 8 (drop 168 hang_bytes)) 0 = 2" "cpio_hex_loop (take 8 (drop 176 hang_bytes)) 0 = 0xFFFFFF1C"
    by code_simp+
  show "cpio_is_newc hang_ramfs 0x1000 228" "cpio_is_newc hang_ramfs 0x1072 114"
    "cpio_hex hang_ramfs 0x1036 8 = 2" "cpio_hex hang_ramfs 0x103E 8 = 0"
    "cpio_hex hang_ramfs 0x10A8 8 = 2" "cpio_hex hang_ramfs 0x10B0 8 = 0xFFFFFF1C"
    using r [of 0 6] r [of 114 6] r [of 54 8] r [of 62 8] r [of 168 8] r [of 176 8] b
    by (simp_all add: cpio_is_newc_def cpio_hex_def)
qed

lemma initramfs_find_hangs: "initramfs_find hang_ramfs 0x1000 0x10E4 (Some (ascii ''init'')) = None"
proof -
  have "initramfs_loop hang_ramfs 0x1000 228 (ascii ''init'') 0 = None"
  proof (rule ccontr)
    assume "initramfs_loop hang_ramfs 0x1000 228 (ascii ''init'') 0 \<noteq> None"
    then obtain r where "initramfs_loop hang_ramfs 0x1000 228 (ascii ''init'') 0 = Some r" by auto
    then have "\<not> (hang_ramfs = hang_ramfs \<and> (0x1000 :: u64) = 0x1000 \<and> (228 :: u32) = 228 \<and> ascii ''init'' = ascii ''init'' \<and> (0 :: u32) \<in> {0, 114})"
      by (rule initramfs_loop.raw_induct [rotated, where
          P = "\<lambda>m b t p off r. \<not> (m = hang_ramfs \<and> b = 0x1000 \<and> t = 228 \<and> p = ascii ''init'' \<and> off \<in> {0, 114})"])
        (use hang_facts no_trailer no_match in \<open>fastforce simp: Let_def split: if_splits\<close>)
    then show False by simp
  qed
  then show ?thesis by (simp add: initramfs_find_def)
qed

end
