(* ===== verification/Syscall.thy ===== *)
theory Syscall
  imports Elf Console
begin

text \<open>
  \<^verbatim>\<open>src/src/cpu/syscall.c\<close> and the call numbers of \<^verbatim>\<open>src/src/abi.h\<close>: the table of open files,
  the program break and the handler behind the \<^verbatim>\<open>syscall\<close> instruction.

  The state of the kernel extends the heap and the scheduler with the console and the pseudo
  devices, the root volume, the table of open files and the break.  User pointers are addresses of
  the one identity-mapped memory.  A handler gives the new state and what becomes of the caller:
  it continues with a return value, the kernel halts, or another program is entered.  None is a
  call that does not return.

  The table of open files, the break, the process table and the cursor of the console are fields of
  the state and not part of the byte memory.  The source does not check the pointers a program
  passes (\<^verbatim>\<open>SYS_READ\<close> and \<^verbatim>\<open>SYS_WRITE\<close> take any address), so a program that passes the address of
  one of these variables can change it; such a call is outside the model, and the theorems on the
  state speak of calls whose buffers lie elsewhere.  Sending a packet appends it to the log
  \<open>net_sent\<close> in the place of the call through the device's \<^verbatim>\<open>send\<close> pointer; what a driver does with
  the packet is the subject of the theory of the network drivers.
\<close>

record Fd =
  used :: bool
  fd_data :: u64
  fd_size :: u32
  fd_off :: u32
  fd_path :: bytes
  is_pseudo :: bool
  dirty :: bool
  is_socket :: bool
  socket_domain :: int
  socket_type :: int
  socket_protocol :: int

record ('d, 'h) kernel = kproc +
  kdev :: "'h console"
  root_volume :: "'d PeanutVolume option"
  fds :: "Fd list"
  last_errno :: u64
  user_brk_end :: u64
  msr :: "u32 \<Rightarrow> u64"
  net_sent :: "bytes list option"

text \<open>What the linker fixes, and the contents of a name buffer nobody has written to.\<close>

record kernel_image = elf_image +
  user_brk_arena :: u64
  syscall_entry :: u64
  stale_name :: bytes

datatype sysret = Ret u64 | Halted | Ring3 u64 u64

definition FD_MAX :: nat where "FD_MAX = 16"
definition USER_BRK_ARENA_BYTES :: u64 where "USER_BRK_ARENA_BYTES = 256 * 1024"

definition MSR_EFER :: u32 where "MSR_EFER = 0xC0000080"
definition MSR_STAR :: u32 where "MSR_STAR = 0xC0000081"
definition MSR_LSTAR :: u32 where "MSR_LSTAR = 0xC0000082"
definition MSR_SFMASK :: u32 where "MSR_SFMASK = 0xC0000084"
definition EFER_SCE :: u64 where "EFER_SCE = 1"
definition RFLAGS_IF :: u64 where "RFLAGS_IF = push_bit 9 1"

definition SYS_READ :: u64 where "SYS_READ = 0"
definition SYS_WRITE :: u64 where "SYS_WRITE = 1"
definition SYS_OPEN :: u64 where "SYS_OPEN = 2"
definition SYS_CLOSE :: u64 where "SYS_CLOSE = 3"
definition SYS_ERRNO :: u64 where "SYS_ERRNO = 4"
definition SYS_FORK :: u64 where "SYS_FORK = 57"
definition SYS_YIELD :: u64 where "SYS_YIELD = 24"
definition SYS_KILL :: u64 where "SYS_KILL = 62"
definition SYS_BRK :: u64 where "SYS_BRK = 12"
definition SYS_EXEC :: u64 where "SYS_EXEC = 59"
definition SYS_EXIT :: u64 where "SYS_EXIT = 60"
definition SYS_SOCKET :: u64 where "SYS_SOCKET = 41"
definition SYS_BIND :: u64 where "SYS_BIND = 49"
definition SYS_LISTEN :: u64 where "SYS_LISTEN = 50"
definition SYS_ACCEPT :: u64 where "SYS_ACCEPT = 43"
definition SYS_CONNECT :: u64 where "SYS_CONNECT = 42"
definition SYS_SEND :: u64 where "SYS_SEND = 44"
definition SYS_RECV :: u64 where "SYS_RECV = 45"
definition SYS_GETADDRINFO :: u64 where "SYS_GETADDRINFO = 56"

section \<open>Setting up\<close>

definition wrmsr :: "u32 \<Rightarrow> u64 \<Rightarrow> ('d, 'h, 'z) kernel_scheme \<Rightarrow> ('d, 'h, 'z) kernel_scheme" where
  "wrmsr r v s = s\<lparr>msr := (msr s)(r := v)\<rparr>"

definition syscall_init :: "kernel_image \<Rightarrow> ('d, 'h, 'z) kernel_scheme \<Rightarrow> ('d, 'h, 'z) kernel_scheme" where
  "syscall_init k s =
     (let s1 = s\<lparr>user_brk_end := user_brk_arena k, last_errno := 0\<rparr>;
          efer = msr s1 MSR_EFER;
          s2 = wrmsr MSR_EFER (efer OR EFER_SCE) s1;
          s3 = wrmsr MSR_STAR (push_bit 48 0x13 OR push_bit 32 0x08) s2;
          s4 = wrmsr MSR_LSTAR (syscall_entry k) s3
      in wrmsr MSR_SFMASK RFLAGS_IF s4)"

definition handle_brk :: "kernel_image \<Rightarrow> u64 \<Rightarrow> ('d, 'h, 'z) kernel_scheme \<Rightarrow> ('d, 'h, 'z) kernel_scheme \<times> u64" where
  "handle_brk k addr s =
     (let base = user_brk_arena k; limit = base + USER_BRK_ARENA_BYTES
      in if addr = 0 then (s, user_brk_end s)
         else if addr < base \<or> addr > limit then (s, -1)
         else (s\<lparr>user_brk_end := addr\<rparr>, addr))"

section \<open>Names\<close>

definition kstrcpy :: "bytes \<Rightarrow> nat \<Rightarrow> bytes" where
  "kstrcpy s cap = take (cap - 1) s"

text \<open>The string at a user address; no caller looks at more than 160 characters of it.\<close>

definition user_path :: "mem \<Rightarrow> u64 \<Rightarrow> bytes" where
  "user_path m a = mem_cstr m a 161"

text \<open>A null path leaves the buffer as it is.\<close>

definition fs_path_to_fat_name :: "bytes \<Rightarrow> bytes option \<Rightarrow> nat \<Rightarrow> bytes" where
  "fs_path_to_fat_name stale path cap =
     (case path of
        None \<Rightarrow> stale
      | Some p \<Rightarrow> map upper_ascii (take (cap - 1) (if starts_slash p then tl p else p)))"

definition ext_name :: "bytes \<Rightarrow> bytes" where
  "ext_name path = (if starts_slash path then kstrcpy path 160 else slash # kstrcpy path 159)"

definition copy_user_cstr :: "mem \<Rightarrow> u64 \<Rightarrow> nat \<Rightarrow> bytes" where
  "copy_user_cstr m user_ptr cap = (if user_ptr = 0 then [] else mem_cstr m user_ptr cap)"

section \<open>Open files\<close>

definition upd_fd :: "nat \<Rightarrow> (Fd \<Rightarrow> Fd) \<Rightarrow> ('d, 'h, 'z) kernel_scheme \<Rightarrow> ('d, 'h, 'z) kernel_scheme" where
  "upd_fd i f s = s\<lparr>fds := (fds s)[i := f (fds s ! i)]\<rparr>"

definition alloc_fd :: "('d, 'h, 'z) kernel_scheme \<Rightarrow> (nat \<times> ('d, 'h, 'z) kernel_scheme) option" where
  "alloc_fd s =
     map_option (\<lambda>i. (i, upd_fd i (\<lambda>f. f\<lparr>used := True, fd_data := 0, fd_size := 0, fd_off := 0, is_pseudo := False,
         is_socket := False, fd_path := []\<rparr>) s))
       (first_index (\<lambda>f. \<not> used f) (take FD_MAX (fds s)))"

text \<open>Reading a file of \<open>size64\<close> bytes into a heap buffer, once the file was found.\<close>

definition load_buffer ::
  "kernel_image \<Rightarrow> u64 \<Rightarrow> bytes option option \<Rightarrow> ('d, 'h, 'z) kernel_scheme \<Rightarrow> (('d, 'h, 'z) kernel_scheme \<times> int \<times> u64 \<times> u32) option" where
  "load_buffer k size64 contents s =
     (case kalloc (vm_image.truncate k) size64 s of
        None \<Rightarrow> None
      | Some (s1, buf) \<Rightarrow>
          if buf = 0 then Some (s1, -1, 0, 0)
          else
            (case contents of
               None \<Rightarrow> None
             | Some None \<Rightarrow> Some (kfree buf s1, -1, 0, 0)
             | Some (Some bs) \<Rightarrow>
                 let s2 = set_mem (mem_copy_in (slab_mem s1) buf bs) s1
                 in if of_nat (length bs) \<noteq> (ucast size64 :: u32) then Some (kfree buf s2, -1, 0, 0)
                    else Some (s2, 0, buf, ucast size64)))"

definition read_file_into_mem ::
  "kernel_image \<Rightarrow> u64 \<Rightarrow> ('d, 'h, 'z) kernel_scheme \<Rightarrow> (('d, 'h, 'z) kernel_scheme \<times> int \<times> u64 \<times> u32) option" where
  "read_file_into_mem k pathp s =
     (let path = user_path (slab_mem s) pathp;
          pname = (if pathp = 0 then None else Some path)
      in case root_volume s of
           None \<Rightarrow> Some (s, -1, 0, 0)
         | Some vol \<Rightarrow>
             if pathp \<noteq> 0 \<and> vfs_is_pseudo_path path then Some (s, -2, 0, 0)
             else if fs_kind vol = PEANUT_FS_FAT32 then
               let fat = fs_path_to_fat_name (stale_name k) pname 160
               in (case fat32_find_root (fat32 vol) (pv_disk vol) fat of
                     None \<Rightarrow> None
                   | Some None \<Rightarrow> Some (s, -1, 0, 0)
                   | Some (Some e) \<Rightarrow>
                       if attributes e AND FAT32_ATTR_DIRECTORY \<noteq> 0 then Some (s, -1, 0, 0)
                       else load_buffer k (ucast (entry_size e)) (fat32_read_file (fat32 vol) (pv_disk vol) fat (entry_size e)) s)
             else if fs_kind vol = PEANUT_FS_EXFAT then
               let ex = fs_path_to_fat_name (stale_name k) pname 160
               in (case exfat_find_root (exfat vol) (pv_disk vol) ex of
                     None \<Rightarrow> None
                   | Some None \<Rightarrow> Some (s, -1, 0, 0)
                   | Some (Some e) \<Rightarrow>
                       if ex_attributes e AND EXFAT_ATTR_DIRECTORY \<noteq> 0 then Some (s, -1, 0, 0)
                       else if 0xFFFFFFFF < ex_size e then Some (s, -1, 0, 0)
                       else load_buffer k (ex_size e) (exfat_read_file (exfat vol) (pv_disk vol) ex (ucast (ex_size e))) s)
             else
               let p = ext_name path
               in (case extfs_stat (ext vol) (pv_disk vol) p of
                     None \<Rightarrow> None
                   | Some None \<Rightarrow> Some (s, -1, 0, 0)
                   | Some (Some (size64, is_dir)) \<Rightarrow>
                       if is_dir then Some (s, -1, 0, 0)
                       else if 0xFFFFFFFF < size64 then Some (s, -1, 0, 0)
                       else load_buffer k size64 (extfs_read_file (ext vol) (pv_disk vol) p (ucast size64)) s))"

section \<open>The calls\<close>

type_synonym ('d, 'h, 'z) outcome = "('d, 'h, 'z) kernel_scheme \<times> sysret"

definition fail :: "u64 \<Rightarrow> ('d, 'h, 'z) kernel_scheme \<Rightarrow> ('d, 'h, 'z) outcome" where
  "fail e s = (s\<lparr>last_errno := e\<rparr>, Ret (-1))"

definition open_fd :: "u64 \<Rightarrow> ('d, 'h, 'z) kernel_scheme \<Rightarrow> bool" where
  "open_fd a s \<longleftrightarrow> a < of_nat FD_MAX \<and> used (fds s ! unat a)"

text \<open>The byte-by-byte copying loops; the buffers may overlap.\<close>

primrec copy_loop :: "nat \<Rightarrow> u64 \<Rightarrow> u64 \<Rightarrow> mem \<Rightarrow> mem" where
  "copy_loop 0 dst src m = m"
| "copy_loop (Suc n) dst src m = copy_loop n (dst + 1) (src + 1) (m(dst := m src))"

definition sys_read :: "u64 \<Rightarrow> u64 \<Rightarrow> u64 \<Rightarrow> ('d, 'h, 'z) kernel_scheme \<Rightarrow> ('d, 'h, 'z) outcome" where
  "sys_read a1 a2 a3 s =
     (if open_fd a1 s then
        let f = fds s ! unat a1; want = (ucast a3 :: u32)
        in if is_pseudo f then
             let (r, d) = vfs_pseudo_pread (kdev s) (fd_path f) (fd_off f) want; s1 = s\<lparr>kdev := d\<rparr>
             in (case r of
                   None \<Rightarrow> fail 1 s1
                 | Some bs \<Rightarrow>
                     (upd_fd (unat a1) (\<lambda>f. f\<lparr>fd_off := fd_off f + of_nat (length bs)\<rparr>)
                        (set_mem (mem_copy_in (slab_mem s1) a2 bs) s1), Ret (of_nat (length bs))))
           else if fd_size f \<le> fd_off f then (s, Ret 0)
           else
             let left = fd_size f - fd_off f; tk = (if want < left then want else left)
             in (upd_fd (unat a1) (\<lambda>f. f\<lparr>fd_off := fd_off f + tk\<rparr>)
                   (set_mem (copy_loop (unat tk) a2 (fd_data f + ucast (fd_off f)) (slab_mem s)) s), Ret (ucast tk))
      else fail 2 s)"

partial_function (option) c_string :: "mem \<Rightarrow> u64 \<Rightarrow> bytes option" where
  "c_string m a =
     (if m a = 0 then Some []
      else Option.bind (c_string m (a + 1)) (\<lambda>cs. Some (m a # cs)))"

declare c_string.simps [code]

definition sys_write :: "u64 \<Rightarrow> u64 \<Rightarrow> u64 \<Rightarrow> ('d, 'h, 'z) kernel_scheme \<Rightarrow> ('d, 'h, 'z) outcome option" where
  "sys_write a1 a2 a3 s =
     (if open_fd a1 s then
        let f = fds s ! unat a1; want = (ucast a3 :: u32)
        in if is_pseudo f then Some (fail 8 s)
           else if fd_data f = 0 then Some (fail 9 s)
           else if fd_size f \<le> fd_off f then Some (s, Ret 0)
           else
             let left = fd_size f - fd_off f; tk = (if want < left then want else left)
             in Some (upd_fd (unat a1) (\<lambda>f. f\<lparr>fd_off := fd_off f + tk, dirty := True\<rparr>)
                   (set_mem (copy_loop (unat tk) (fd_data f + ucast (fd_off f)) a2 (slab_mem s)) s), Ret (ucast tk))
      else if a1 = 1 \<or> a1 = 2 then
        map_option (\<lambda>cs. (s\<lparr>kdev := kprint cs (kdev s)\<rparr>, Ret 0)) (c_string (slab_mem s) a2)
      else Some (fail 10 s))"

definition sys_fork :: "u64 \<Rightarrow> u64 \<Rightarrow> u64 \<Rightarrow> ('d, 'h, 'z) kernel_scheme \<Rightarrow> ('d, 'h, 'z) outcome" where
  "sys_fork rip rsp flags s =
     (let (pid, sch) = sched_fork_current (ksched s) rip rsp flags; s1 = s\<lparr>ksched := sch\<rparr>
      in if pid < 0 then fail 12 s1 else (s1, Ret (of_int pid)))"

definition sys_open :: "kernel_image \<Rightarrow> u64 \<Rightarrow> ('d, 'h, 'z) kernel_scheme \<Rightarrow> ('d, 'h, 'z) outcome option" where
  "sys_open k a1 s =
     (case alloc_fd s of
        None \<Rightarrow> Some (fail 3 s)
      | Some (fd, s1) \<Rightarrow>
          let path = user_path (slab_mem s1) a1
          in if a1 \<noteq> 0 \<and> vfs_is_pseudo_path path then
               Some (upd_fd fd (\<lambda>f. f\<lparr>is_pseudo := True, dirty := False, fd_path := kstrcpy path 160\<rparr>) s1, Ret (of_nat fd))
             else
               let s2 = upd_fd fd (\<lambda>f. f\<lparr>is_pseudo := False, dirty := False, fd_path := kstrcpy path 160\<rparr>) s1
               in (case read_file_into_mem k a1 s2 of
                     None \<Rightarrow> None
                   | Some (s3, r, buf, sz) \<Rightarrow>
                       if r \<noteq> 0 then Some (fail 4 (upd_fd fd (\<lambda>f. f\<lparr>used := False\<rparr>) s3))
                       else Some (upd_fd fd (\<lambda>f. f\<lparr>fd_data := buf, fd_size := sz, fd_off := 0\<rparr>) s3, Ret (of_nat fd))))"

text \<open>Writing a changed file back; the result is the disk and the value of \<^verbatim>\<open>wr\<close>.\<close>

definition write_back :: "kernel_image \<Rightarrow> 'd PeanutVolume \<Rightarrow> bytes \<Rightarrow> bytes \<Rightarrow> u32 \<Rightarrow> ('d BlockDevice option \<times> int) option" where
  "write_back k vol path data sz =
     (if fs_kind vol = PEANUT_FS_EXT then extfs_write_file (ext vol) (pv_disk vol) (ext_name path) data sz
      else if fs_kind vol = PEANUT_FS_EXFAT then
        exfat_write_file (exfat vol) (pv_disk vol) (fs_path_to_fat_name (stale_name k) (Some path) 160) data sz
      else Some (pv_disk vol, -1))"

definition sys_close :: "kernel_image \<Rightarrow> u64 \<Rightarrow> ('d, 'h, 'z) kernel_scheme \<Rightarrow> ('d, 'h, 'z) outcome option" where
  "sys_close k a1 s =
     (if open_fd a1 s then
        let f = fds s ! unat a1; fin = (\<lambda>s. (upd_fd (unat a1) (\<lambda>f. f\<lparr>used := False\<rparr>) s, Ret 0))
        in if \<not> is_pseudo f \<and> fd_data f \<noteq> 0 then
             if dirty f \<and> fd_path f \<noteq> [] then
               (case root_volume s of
                  None \<Rightarrow> Some (fin (kfree (fd_data f) s))
                | Some vol \<Rightarrow>
                    (case write_back k vol (fd_path f) (mem_read (slab_mem s) (fd_data f) (unat (fd_size f))) (fd_size f) of
                       None \<Rightarrow> None
                     | Some (disk, wr) \<Rightarrow>
                         let s1 = s\<lparr>root_volume := Some (vol\<lparr>pv_disk := disk\<rparr>)\<rparr>;
                             s2 = (if wr \<noteq> 0 then s1\<lparr>last_errno := 11\<rparr> else s1)
                         in Some (fin (kfree (fd_data f) s2))))
             else Some (fin (kfree (fd_data f) s))
           else Some (fin s)
      else Some (fail 5 s))"

definition sys_exec :: "kernel_image \<Rightarrow> u64 \<Rightarrow> u64 \<Rightarrow> u64 \<Rightarrow> ('d, 'h, 'z) kernel_scheme \<Rightarrow> ('d, 'h, 'z) outcome option" where
  "sys_exec k a1 a2 a3 s =
     (case root_volume s of
        None \<Rightarrow> Some (fail 6 s)
      | Some vol \<Rightarrow>
          if a1 = 0 then Some (fail 7 s)
          else
            let m = slab_mem s;
                path = copy_user_cstr m a1 160; arg0 = copy_user_cstr m a2 160; arg1 = copy_user_cstr m a3 160
            in map_option (\<lambda>(s1, r). (s1, case r of ExecFail \<Rightarrow> Ret (-1) | ExecPanic \<Rightarrow> Halted | EnterRing3 e sp \<Rightarrow> Ring3 e sp))
                 (elf_load_and_run_exec (elf_image.truncate k) vol path (Some (if arg0 \<noteq> [] then arg0 else path))
                    (if arg1 \<noteq> [] then Some arg1 else None) s))"

definition c_int :: "u64 \<Rightarrow> int" where
  "c_int a = sint (ucast a :: u32)"

definition sys_kill :: "u64 \<Rightarrow> u64 \<Rightarrow> ('d, 'h, 'z) kernel_scheme \<Rightarrow> ('d, 'h, 'z) outcome" where
  "sys_kill a1 a2 s =
     (let (r, sch) = sched_kill (ksched s) (c_int a1) (c_int a2); s1 = s\<lparr>ksched := sch\<rparr>
      in if r \<noteq> 0 then fail 13 s1 else (s1, Ret 0))"

definition kpanic :: "string \<Rightarrow> ('d, 'h, 'z) kernel_scheme \<Rightarrow> ('d, 'h, 'z) outcome" where
  "kpanic message s =
     (s\<lparr>kdev := kprint (ascii nl) (kprint (ascii message) (kprint (ascii (nl @ ''KERNEL PANIC: '')) (kdev s)))\<rparr>, Halted)"

definition sys_exit :: "u64 \<Rightarrow> ('d, 'h, 'z) kernel_scheme \<Rightarrow> ('d, 'h, 'z) outcome" where
  "sys_exit a1 s =
     kpanic ''[Peanut kernel - panic - Attempted to kill init!]''
       (s\<lparr>kdev := kprint (ascii ('']'' @ nl)) (kprint_int a1 (kprint (ascii (nl @ ''[Process exited with code: '')) (kdev s)))\<rparr>)"

section \<open>Sockets\<close>

definition is_sock :: "int \<Rightarrow> ('d, 'h, 'z) kernel_scheme \<Rightarrow> bool" where
  "is_sock fd s \<longleftrightarrow> \<not> (fd < 0 \<or> int FD_MAX \<le> fd \<or> \<not> used (fds s ! nat fd) \<or> \<not> is_socket (fds s ! nat fd))"

definition new_socket ::
  "kernel_image \<Rightarrow> int \<Rightarrow> int \<Rightarrow> int \<Rightarrow> ('d, 'h, 'z) kernel_scheme \<Rightarrow> ('d, 'h, 'z) outcome option" where
  "new_socket k domain typ protocol s =
     (case alloc_fd s of
        None \<Rightarrow> Some (fail 20 s)
      | Some (fd, s1) \<Rightarrow>
          let s2 = upd_fd fd (\<lambda>f. f\<lparr>is_socket := True, socket_domain := domain, socket_type := typ, socket_protocol := protocol\<rparr>) s1
          in map_option (\<lambda>(s3, buf). (upd_fd fd (\<lambda>f. f\<lparr>fd_data := buf, fd_size := 4096\<rparr>) s3, Ret (of_nat fd)))
               (kalloc (vm_image.truncate k) 4096 s2))"

definition sys_socket :: "kernel_image \<Rightarrow> u64 \<Rightarrow> u64 \<Rightarrow> u64 \<Rightarrow> ('d, 'h, 'z) kernel_scheme \<Rightarrow> ('d, 'h, 'z) outcome option" where
  "sys_socket k a1 a2 a3 s = new_socket k (c_int a1) (c_int a2) (c_int a3) s"

text \<open>The calls that only check their descriptor, with the error number of each.\<close>

definition sys_sock_noop :: "u64 \<Rightarrow> u64 \<Rightarrow> ('d, 'h, 'z) kernel_scheme \<Rightarrow> ('d, 'h, 'z) outcome" where
  "sys_sock_noop errno a1 s = (if is_sock (c_int a1) s then (s, Ret 0) else fail errno s)"

definition sys_bind :: "u64 \<Rightarrow> ('d, 'h, 'z) kernel_scheme \<Rightarrow> ('d, 'h, 'z) outcome" where
  "sys_bind a1 s = sys_sock_noop 21 a1 s"

definition sys_listen :: "u64 \<Rightarrow> ('d, 'h, 'z) kernel_scheme \<Rightarrow> ('d, 'h, 'z) outcome" where
  "sys_listen a1 s = sys_sock_noop 22 a1 s"

definition sys_connect :: "u64 \<Rightarrow> ('d, 'h, 'z) kernel_scheme \<Rightarrow> ('d, 'h, 'z) outcome" where
  "sys_connect a1 s = sys_sock_noop 24 a1 s"

definition sys_recv :: "u64 \<Rightarrow> ('d, 'h, 'z) kernel_scheme \<Rightarrow> ('d, 'h, 'z) outcome" where
  "sys_recv a1 s = sys_sock_noop 26 a1 s"

definition sys_accept :: "kernel_image \<Rightarrow> u64 \<Rightarrow> ('d, 'h, 'z) kernel_scheme \<Rightarrow> ('d, 'h, 'z) outcome option" where
  "sys_accept k a1 s =
     (if is_sock (c_int a1) s then
        let f = fds s ! nat (c_int a1)
        in new_socket k (socket_domain f) (socket_type f) (socket_protocol f) s
      else Some (fail 23 s))"

definition sys_send :: "u64 \<Rightarrow> u64 \<Rightarrow> u64 \<Rightarrow> ('d, 'h, 'z) kernel_scheme \<Rightarrow> ('d, 'h, 'z) outcome" where
  "sys_send a1 a2 a3 s =
     (if is_sock (c_int a1) s then
        (case net_sent s of
           None \<Rightarrow> (s, Ret (-1))
         | Some ps \<Rightarrow> (s\<lparr>net_sent := Some (ps @ [mem_read (slab_mem s) a2 (unat (ucast a3 :: u32))])\<rparr>, Ret a3))
      else fail 25 s)"

section \<open>The handler\<close>

definition unknown_syscall :: "u64 \<Rightarrow> ('d, 'h, 'z) kernel_scheme \<Rightarrow> ('d, 'h, 'z) outcome" where
  "unknown_syscall num s =
     (s\<lparr>kdev := kprint (ascii nl) (kprint_int num (kprint (ascii ''Unknown syscall: '') (kdev s)))\<rparr>, Ret (-1))"

definition syscall_handler ::
  "kernel_image \<Rightarrow> u64 \<Rightarrow> u64 \<Rightarrow> u64 \<Rightarrow> u64 \<Rightarrow> u64 \<Rightarrow> u64 \<Rightarrow> u64 \<Rightarrow> ('d, 'h, 'z) kernel_scheme \<Rightarrow> ('d, 'h, 'z) outcome option" where
  "syscall_handler k num a1 a2 a3 user_rip user_rsp user_flags s0 =
     (let s = s0\<lparr>last_errno := 0\<rparr>
      in if num = SYS_READ then Some (sys_read a1 a2 a3 s)
         else if num = SYS_WRITE then sys_write a1 a2 a3 s
         else if num = SYS_ERRNO then Some (s, Ret (last_errno s))
         else if num = SYS_FORK then Some (sys_fork user_rip user_rsp user_flags s)
         else if num = SYS_YIELD then Some (s, Ret 0)
         else if num = SYS_BRK then (let (s1, r) = handle_brk k a1 s in Some (s1, Ret r))
         else if num = SYS_OPEN then sys_open k a1 s
         else if num = SYS_CLOSE then sys_close k a1 s
         else if num = SYS_EXEC then sys_exec k a1 a2 a3 s
         else if num = SYS_KILL then Some (sys_kill a1 a2 s)
         else if num = SYS_EXIT then Some (sys_exit a1 s)
         else if num = SYS_SOCKET then sys_socket k a1 a2 a3 s
         else if num = SYS_BIND then Some (sys_bind a1 s)
         else if num = SYS_LISTEN then Some (sys_listen a1 s)
         else if num = SYS_ACCEPT then sys_accept k a1 s
         else if num = SYS_CONNECT then Some (sys_connect a1 s)
         else if num = SYS_SEND then Some (sys_send a1 a2 a3 s)
         else if num = SYS_RECV then Some (sys_recv a1 s)
         else if num = SYS_GETADDRINFO then Some (fail 27 s)
         else Some (unknown_syscall num s))"

end
