(* ===== verification/Syscall_Props.thy ===== *)
theory Syscall_Props
  imports Syscall
begin

text \<open>
  Properties of the system calls.  First what each layer leaves alone: the allocator keeps
  everything above the heap, the loader everything above the process table, the pseudo devices the
  screen.  From these frames follow the invariant \<open>kernel_ok\<close>, kept by every call and by the timer
  interrupt, and the path of the bytes of a file from the volume to the program.
\<close>

section \<open>What the calls leave alone\<close>

lemma kheap_more_upd [simp]:
  "kheap.more (s\<lparr>slab_vm := v\<rparr>) = kheap.more s" "kheap.more (s\<lparr>free_lists := l\<rparr>) = kheap.more s"
  "kheap.more (s\<lparr>heap_start := h\<rparr>) = kheap.more s" "kheap.more (set_mem m s) = kheap.more s"
  by (cases s; simp add: set_mem_def)+

lemma refill_more: "kheap.more (fst (refill ci s)) = kheap.more s"
proof -
  have "kheap.more (fold (\<lambda>j. carve page ci (f j)) js s) = kheap.more s" for page f and js :: "nat list" and s :: "'a kheap_scheme"
    by (induction js arbitrary: s) (simp_all add: carve_def Let_def)
  then show ?thesis by (simp add: refill_def Let_def split: prod.splits)
qed

lemma slab_more: "kheap.more (fst (slab_alloc sz s)) = kheap.more s" "kheap.more (fst (slab_free p s)) = kheap.more s"
  using refill_more [of "nat (class_for sz)" s]
  by (auto simp: slab_alloc_def slab_free_def Let_def split: prod.splits)

lemma kalloc_more:
  assumes "kalloc k sz s = Some (s', p)"
  shows "kheap.more s' = kheap.more s"
proof -
  have i: "kheap.more (kalloc_init k s) = kheap.more s" by (simp add: kalloc_init_def Let_def)
  have l: "kheap.more t' = kheap.more t" if "kalloc_large n t = Some (t', q)" for n t t' q
    using that by (auto simp: kalloc_large_def kalloc_append_def Let_def split: option.splits search.splits)
  show ?thesis using assms i slab_more(1) [of sz "kalloc_init k s"]
    by (auto simp: kalloc_def Let_def split: prod.splits if_splits dest!: l)
qed

lemma kfree_more [simp]: "kheap.more (kfree p s) = kheap.more s"
  using slab_more(2) [of p s] by (auto simp: kfree_def kfree_large_def split: prod.splits)

text \<open>A load keeps everything above the process table.\<close>

definition loads :: "'z kproc_scheme \<Rightarrow> 'z kproc_scheme \<Rightarrow> bool" where
  "loads s s' \<longleftrightarrow> kproc.more s' = kproc.more s \<and> (sched_inv (ksched s) \<longrightarrow> sched_inv (ksched s'))"

lemma loads_trans: "loads s s' \<Longrightarrow> loads s' s'' \<Longrightarrow> loads s s''"
  by (simp add: loads_def)

lemma loads_heap: "kheap.more s' = kheap.more s \<Longrightarrow> loads s s'"
  by (cases s; cases s') (simp add: loads_def)

lemma jump_loads: "loads s (fst (jump_to_ring3 stack entry a0 a1 s))"
proof -
  obtain m rsp where b: "build_user_stack stack a0 a1 (slab_mem s) = (m, rsp)" by fastforce
  have u: "loads s ((set_mem m s)\<lparr>ksched := sch\<rparr>)" if "sched_inv (ksched s) \<Longrightarrow> sched_inv sch" for sch
    using that loads_heap [of "set_mem m s" s] by (cases s) (simp add: loads_def set_mem_def)
  have k: "ksched (set_mem m s) = ksched s" by (simp add: set_mem_def)
  obtain r sch where c: "sched_create_user (ksched s) entry rsp = (r, sch)" by fastforce
  have "sched_inv (ksched s) \<Longrightarrow> sched_inv sch" using sched_create_user_inv [of "ksched s" entry rsp] c by simp
  then show ?thesis
    unfolding jump_to_ring3_def b Let_def by (simp add: k c) (auto intro!: u sched_flag_ops_inv)
qed

lemma loads_same: "kheap.more s' = kheap.more s \<Longrightarrow> loads s' u = loads s u"
  by (cases s; cases s') (simp add: loads_def)

lemma loads_mem [simp]: "loads (set_mem m s) u = loads s u" "loads (kfree b s) u = loads s u"
  by (rule loads_same, simp)+

lemma loads_jump: "kheap.more s' = kheap.more s \<Longrightarrow> loads s (fst (jump_to_ring3 stack e a0 a1 s'))"
  using jump_loads [of s' stack e a0 a1] loads_same by blast

lemma elf_loads:
  assumes "elf_load_and_run_inner k vol path a0 a1 s = Some y"
  shows "loads s (fst y)"
  using assms
proof (rule elf_load_and_run_inner.raw_induct [rotated, where P = "\<lambda>k vol path a0 a1 s y. loads s (fst y)"], goal_cases)
  case (1 f k vol path a0 a1 s y)
  have h: "loads s (fst y)" if "kheap.more t = kheap.more s" "loads t (fst y)" for t
    using that loads_same [of t s "fst y"] by blast
  show ?case
    using 1(2)
    by (auto simp: Let_def loads_heap loads_jump dest!: kalloc_more 1(1) split: option.splits if_splits) (rule h, assumption, assumption)+
qed

section \<open>The pseudo devices leave the screen alone\<close>

lemma hw_more [simp]:
  "vfs.more (snd (inb p s)) = vfs.more s" "vfs.more (snd (rdrand64 s)) = vfs.more s"
  "vfs.more (snd (rdseed64 s)) = vfs.more s" "vfs.more (snd (rdtsc s)) = vfs.more s"
  "vfs.more (entropy_mix v s) = vfs.more s"
  by (cases s; simp add: inb_def rdrand64_def rdseed64_def rdtsc_def entropy_mix_def split: prod.splits)+

lemma vfs_more_upd [simp]:
  "vfs.more (s\<lparr>mouse_bytes := b, mouse_pos := n\<rparr>) = vfs.more s" "vfs.more (s\<lparr>entropy_state := x\<rparr>) = vfs.more s"
  by (cases s; simp)+

lemma try_rng_more:
  assumes "\<And>s. vfs.more (snd (rng s)) = vfs.more s"
  shows "vfs.more (snd (try_rng n rng s)) = vfs.more s"
proof (induction n arbitrary: s)
  case (Suc n)
  then show ?case using assms [of s] by (auto split: prod.splits option.splits)
qed simp

lemma fill_bytes_more:
  assumes "\<And>s. vfs.more (snd (gen s)) = vfs.more s"
  shows "vfs.more (snd (fill_bytes n gen s)) = vfs.more s"
proof (induction n arbitrary: s)
  case (Suc n)
  then show ?case using assms [of s] by (simp split: prod.splits) (metis snd_conv)
qed simp

lemma entropy_more:
  "vfs.more (snd (entropy_random_byte s)) = vfs.more s" "vfs.more (snd (entropy_urandom_byte s)) = vfs.more s"
proof -
  note t = try_rng_more [OF hw_more(2)] try_rng_more [OF hw_more(3)]
  show "vfs.more (snd (entropy_random_byte s)) = vfs.more s"
    unfolding entropy_random_byte_def Let_def
    by (auto split: prod.splits option.splits if_splits) (metis t hw_more snd_conv)+
  show "vfs.more (snd (entropy_urandom_byte s)) = vfs.more s"
    unfolding entropy_urandom_byte_def Let_def
    by (auto split: prod.splits option.splits if_splits) (metis hw_more snd_conv)+
qed

lemma ps2_more: "vfs.more (snd (ps2_poll_char s)) = vfs.more s" "vfs.more (snd (ps2_poll_mouse_packet s)) = vfs.more s"
  unfolding ps2_poll_char_def ps2_poll_mouse_packet_def ps2_data_ready_def ps2_output_is_mouse_def Let_def
  by (auto split: prod.splits) (metis hw_more(1) snd_conv)+

lemma kbd_loop_more: "vfs.more (snd (kbd_loop len s out)) = vfs.more s"
proof (induction len s out rule: kbd_loop.induct)
  case (1 len s out)
  then show ?case using ps2_more(1) [of s] by (subst kbd_loop.simps) (auto split: prod.splits option.splits)
qed

lemma mouse_loop_more: "vfs.more (snd (mouse_loop len s out)) = vfs.more s"
proof (induction len s out rule: mouse_loop.induct)
  case (1 len s out)
  then show ?case using ps2_more(2) [of s] by (subst mouse_loop.simps) (auto split: prod.splits option.splits)
qed

lemma vfs_pread_more: "vfs.more (snd (vfs_pseudo_pread s path off len)) = vfs.more s"
  using fill_bytes_more [OF entropy_more(1), of "unat len" s] fill_bytes_more [OF entropy_more(2), of "unat len" s]
    kbd_loop_more [of "unat len" s "[]"] mouse_loop_more [of "unat len" s "[]"]
  by (auto simp: vfs_pseudo_pread_def devtmpfs_pread_def split: prod.splits)

lemma vfs_pread_cursor:
  "cursor_ok (snd (vfs_pseudo_pread d path off len)) = cursor_ok d"
proof -
  have "cursor_ok d' = cursor_ok d" if "vfs.more d' = vfs.more d" for d d' :: "('a, 'b) console_scheme"
    using that by (cases d; cases d') (simp add: cursor_ok_def)
  then show ?thesis using vfs_pread_more by blast
qed

section \<open>The invariant of the kernel\<close>

definition fd_ok :: "Fd \<Rightarrow> bool" where
  "fd_ok f \<longleftrightarrow> length (fd_path f) \<le> 159 \<and> (used f \<and> \<not> is_pseudo f \<longrightarrow> fd_off f \<le> fd_size f)"

definition kernel_ok :: "kernel_image \<Rightarrow> ('d, 'h, 'z) kernel_scheme \<Rightarrow> bool" where
  "kernel_ok k s \<longleftrightarrow>
     length (fds s) = FD_MAX \<and> (\<forall>f \<in> set (fds s). fd_ok f) \<and>
     user_brk_arena k \<le> user_brk_end s \<and> user_brk_end s \<le> user_brk_arena k + USER_BRK_ARENA_BYTES \<and>
     sched_inv (ksched s) \<and> cursor_ok (kdev s)"

lemma kernel_ok_upd [simp]:
  "kernel_ok k (s\<lparr>last_errno := e\<rparr>) = kernel_ok k s" "kernel_ok k (s\<lparr>root_volume := v\<rparr>) = kernel_ok k s"
  "kernel_ok k (s\<lparr>net_sent := n\<rparr>) = kernel_ok k s"
  by (simp_all add: kernel_ok_def)

lemma kernel_ok_loads:
  assumes "loads s s'" "kernel_ok k s"
  shows "kernel_ok k s'"
proof -
  have "fds s' = fds s \<and> user_brk_end s' = user_brk_end s \<and> kdev s' = kdev s"
    using assms(1) by (cases s; cases s') (simp add: loads_def)
  then show ?thesis using assms by (simp add: kernel_ok_def loads_def)
qed

lemmas kernel_ok_heap = kernel_ok_loads [OF loads_heap]

lemma kernel_ok_mem [simp]:
  "kernel_ok k s \<Longrightarrow> kernel_ok k (set_mem m s)" "kernel_ok k s \<Longrightarrow> kernel_ok k (kfree p s)"
  by (erule kernel_ok_heap [rotated], simp)+

lemma upd_fd_mem [simp]: "fds (set_mem m s) = fds s"
  by (simp add: set_mem_def)

lemma kernel_ok_upd_fd:
  assumes "kernel_ok k s" "i < FD_MAX \<Longrightarrow> fd_ok (fds s ! i) \<Longrightarrow> fd_ok (f (fds s ! i))"
  shows "kernel_ok k (upd_fd i f s)"
proof (cases "i < FD_MAX")
  case True
  then have "fd_ok (f (fds s ! i))" using assms by (simp add: kernel_ok_def)
  then show ?thesis using assms(1) set_update_subset_insert [of "fds s" i "f (fds s ! i)"]
    by (auto simp: kernel_ok_def upd_fd_def)
next
  case False
  then show ?thesis using assms(1) by (simp add: kernel_ok_def upd_fd_def list_update_beyond)
qed

lemma kernel_ok_dev: "kernel_ok k s \<Longrightarrow> cursor_ok d \<Longrightarrow> kernel_ok k (s\<lparr>kdev := d\<rparr>)"
  by (simp add: kernel_ok_def)

lemma kernel_ok_sched: "kernel_ok k s \<Longrightarrow> sched_inv t \<Longrightarrow> kernel_ok k (s\<lparr>ksched := t\<rparr>)"
  by (simp add: kernel_ok_def)

lemma kernel_ok_fail [simp]: "kernel_ok k s \<Longrightarrow> kernel_ok k (fst (fail e s))"
  by (simp add: fail_def)

lemma kprint_cursor: "cursor_ok d \<Longrightarrow> cursor_ok (kprint str d)"
  unfolding kprint_def by (induction str arbitrary: d) (simp_all add: kputc_frame)

lemma kprint_int_cursor: "cursor_ok d \<Longrightarrow> cursor_ok (kprint_int n d)"
  unfolding kprint_int_def using kprint_cursor [unfolded kprint_def] by (auto simp: kputc_frame)

text \<open>Advancing inside a file.\<close>

lemma advance_le:
  fixes off sz want :: u32
  assumes "\<not> sz \<le> off"
  shows "off + (if want < sz - off then want else sz - off) \<le> sz"
    and "unat (off + (if want < sz - off then want else sz - off)) = unat off + unat (if want < sz - off then want else sz - off)"
proof -
  let ?t = "if want < sz - off then want else sz - off"
  have d: "unat (sz - off) = unat sz - unat off" using assms by (simp add: unat_sub word_le_nat_alt)
  have "unat ?t \<le> unat (sz - off)" by (auto simp: word_less_nat_alt)
  then have b: "unat off + unat ?t \<le> unat sz" using d assms by (simp add: word_le_nat_alt)
  then have "unat off + unat ?t < 2 ^ 32" using unat_u32 [of sz] by linarith
  then show e: "unat (off + ?t) = unat off + unat ?t" by (simp add: unat_word_ariths)
  show "off + ?t \<le> sz" using b e by (simp add: word_le_nat_alt)
qed

lemma kernel_ok_print: "kernel_ok k s \<Longrightarrow> kernel_ok k (s\<lparr>kdev := kprint str (kdev s)\<rparr>)"
  by (simp add: kernel_ok_def kprint_cursor)

lemma fd_ok_advance: "\<not> fd_size f \<le> fd_off f \<Longrightarrow> fd_ok f \<Longrightarrow>
    fd_ok (f\<lparr>fd_off := fd_off f + (if want < fd_size f - fd_off f then want else fd_size f - fd_off f)\<rparr>)"
  using advance_le(1) [of "fd_size f" "fd_off f" want] by (simp add: fd_ok_def)

lemma fd_ok_dirty [simp]: "fd_ok (f\<lparr>dirty := b\<rparr>) = fd_ok f"
  by (simp add: fd_ok_def)

lemma sys_read_ok: "kernel_ok k s \<Longrightarrow> kernel_ok k (fst (sys_read a1 a2 a3 s))"
proof -
  assume ok: "kernel_ok k s"
  define f want where "f = fds s ! unat a1" and "want = (ucast a3 :: u32)"
  define tk where "tk = (if want < fd_size f - fd_off f then want else fd_size f - fd_off f)"
  have adv: "\<not> fd_size f \<le> fd_off f \<Longrightarrow> fd_ok f \<Longrightarrow> fd_ok (f\<lparr>fd_off := fd_off f + tk\<rparr>)"
    unfolding tk_def by (rule fd_ok_advance)
  obtain r d where p: "vfs_pseudo_pread (kdev s) (fd_path f) (fd_off f) want = (r, d)" by fastforce
  have d: "kernel_ok k (s\<lparr>kdev := d\<rparr>)"
    using ok vfs_pread_cursor [of "kdev s" "fd_path f" "fd_off f" want] p by (simp add: kernel_ok_def)
  note r = sys_read_def Let_def f_def [symmetric] want_def [symmetric] tk_def [symmetric]
  consider "\<not> open_fd a1 s" | "open_fd a1 s" "is_pseudo f" | "open_fd a1 s" "\<not> is_pseudo f" "fd_size f \<le> fd_off f"
    | "open_fd a1 s" "\<not> is_pseudo f" "\<not> fd_size f \<le> fd_off f" by blast
  then show ?thesis
  proof cases
    case 2
    have "kernel_ok k (upd_fd (unat a1) (\<lambda>f. f\<lparr>fd_off := fd_off f + n\<rparr>) (set_mem m (s\<lparr>kdev := d\<rparr>)))" for n m
      using d 2 by (intro kernel_ok_upd_fd kernel_ok_mem) (auto simp: fd_ok_def f_def)
    then show ?thesis using d 2 p unfolding r by (simp split: option.splits)
  next
    case 4
    then show ?thesis using ok unfolding r
      by (auto intro!: kernel_ok_upd_fd kernel_ok_mem simp flip: f_def intro: adv)
  qed (simp_all add: r ok)
qed

lemma sys_write_ok: "kernel_ok k s \<Longrightarrow> sys_write a1 a2 a3 s = Some y \<Longrightarrow> kernel_ok k (fst y)"
proof -
  assume ok: "kernel_ok k s" and y: "sys_write a1 a2 a3 s = Some y"
  define f want where "f = fds s ! unat a1" and "want = (ucast a3 :: u32)"
  define tk where "tk = (if want < fd_size f - fd_off f then want else fd_size f - fd_off f)"
  have adv: "\<not> fd_size f \<le> fd_off f \<Longrightarrow> fd_ok f \<Longrightarrow> fd_ok (f\<lparr>fd_off := fd_off f + tk\<rparr>)"
    unfolding tk_def by (rule fd_ok_advance)
  have w: "kernel_ok k (upd_fd (unat a1) (\<lambda>f. f\<lparr>fd_off := fd_off f + tk, dirty := True\<rparr>) (set_mem m s))"
    if "\<not> fd_size f \<le> fd_off f" for m
    using ok that adv by (intro kernel_ok_upd_fd kernel_ok_mem) (auto simp flip: f_def simp: fd_ok_def)
  show ?thesis
    using y ok unfolding sys_write_def Let_def f_def [symmetric] want_def [symmetric] tk_def [symmetric]
    by (auto split: if_splits intro: w simp: kernel_ok_print)
qed

lemma handle_brk_ok: "kernel_ok k s \<Longrightarrow> kernel_ok k (fst (handle_brk k a s))"
  by (auto simp: handle_brk_def kernel_ok_def Let_def)

lemma sys_sched_ok:
  assumes "kernel_ok k s"
  shows "kernel_ok k (fst (sys_fork rip rsp flags s))" "kernel_ok k (fst (sys_kill a1 a2 s))"
proof -
  have i: "sched_inv (ksched s)" using assms by (simp add: kernel_ok_def)
  show "kernel_ok k (fst (sys_fork rip rsp flags s))" "kernel_ok k (fst (sys_kill a1 a2 s))"
    using assms sched_fork_current_inv [OF i, of rip rsp flags] sched_kill_inv [OF i, of "c_int a1" "c_int a2"]
    by (auto simp: sys_fork_def sys_kill_def Let_def kernel_ok_sched split: prod.splits)
qed

lemma alloc_fd_ok: "kernel_ok k s \<Longrightarrow> alloc_fd s = Some (i, s') \<Longrightarrow> kernel_ok k s' \<and> i < FD_MAX"
  by (auto simp: alloc_fd_def fd_ok_def intro!: kernel_ok_upd_fd dest: first_index_bound)

lemma kalloc_ok: "kalloc k' n s = Some (s', p) \<Longrightarrow> kernel_ok k s \<Longrightarrow> kernel_ok k s'"
  by (rule kernel_ok_heap [OF kalloc_more])

lemma kernel_rest:
  assumes "kheap.more s' = kheap.more s"
  shows "fds s' = fds s" "root_volume s' = root_volume s" "kdev s' = kdev s"
  using assms by (cases s; cases s'; simp)+

lemmas kalloc_fds = kernel_rest(1) [OF kalloc_more]

lemma load_buffer_ok: "kernel_ok k s \<Longrightarrow> load_buffer k' n c s = Some (s', r) \<Longrightarrow> kernel_ok k s'"
  by (auto simp: load_buffer_def Let_def split: option.splits if_splits dest!: kalloc_ok)

lemma read_file_ok: "kernel_ok k s \<Longrightarrow> read_file_into_mem k' a s = Some (s', r) \<Longrightarrow> kernel_ok k s'"
  by (auto simp: read_file_into_mem_def Let_def split: option.splits if_splits dest: load_buffer_ok)

lemma sys_open_ok:
  assumes "kernel_ok k s" "sys_open k a1 s = Some y"
  shows "kernel_ok k (fst y)"
proof (cases "alloc_fd s")
  case None
  then show ?thesis using assms by (auto simp: sys_open_def)
next
  case (Some p)
  then obtain i s1 where p: "alloc_fd s = Some (i, s1)" by (cases p) auto
  note ok = alloc_fd_ok [OF assms(1) p]
  define path where "path = user_path (slab_mem s1) a1"
  have l: "length (kstrcpy path 160) \<le> 159" by (simp add: kstrcpy_def)
  have f: "fds s1 ! i = (fds s ! i)\<lparr>used := True, fd_data := 0, fd_size := 0, fd_off := 0, is_pseudo := False,
         is_socket := False, fd_path := []\<rparr>" using p ok assms(1) by (auto simp: alloc_fd_def upd_fd_def kernel_ok_def)
  have s2: "kernel_ok k (upd_fd i (\<lambda>f. f\<lparr>is_pseudo := b, dirty := False, fd_path := kstrcpy path 160\<rparr>) s1)" for b
    using ok l f by (intro kernel_ok_upd_fd) (auto simp: fd_ok_def)
  have s3: "kernel_ok k (upd_fd i (\<lambda>f. f\<lparr>used := False\<rparr>) t)" "kernel_ok k (upd_fd i (\<lambda>f. f\<lparr>fd_data := d, fd_size := n, fd_off := 0\<rparr>) t)"
    if "kernel_ok k t" for t d n using that by (intro kernel_ok_upd_fd; auto simp: fd_ok_def)+
  show ?thesis
    using assms(2) p s2 unfolding sys_open_def
    by (auto simp: Let_def path_def [symmetric] split: option.splits if_splits intro!: s3 kernel_ok_fail dest!: read_file_ok [OF s2])
qed

lemma sys_close_ok:
  assumes "kernel_ok k s" "sys_close k a1 s = Some y"
  shows "kernel_ok k (fst y)"
proof -
  have u: "kernel_ok k (upd_fd i (\<lambda>f. f\<lparr>used := False\<rparr>) t)" if "kernel_ok k t" for t i
    using that by (intro kernel_ok_upd_fd) (auto simp: fd_ok_def)
  show ?thesis
    using assms by (auto simp: sys_close_def Let_def split: option.splits if_splits intro!: u kernel_ok_mem)
qed

lemma sys_exec_ok: "kernel_ok k s \<Longrightarrow> sys_exec k a1 a2 a3 s = Some y \<Longrightarrow> kernel_ok k (fst y)"
  by (auto simp: sys_exec_def Let_def elf_load_and_run_exec_def split: option.splits if_splits dest!: elf_loads intro: kernel_ok_loads)

lemma new_socket_ok:
  assumes "kernel_ok k s" "new_socket k a b c s = Some y"
  shows "kernel_ok k (fst y)"
proof (cases "alloc_fd s")
  case None
  then show ?thesis using assms by (auto simp: new_socket_def)
next
  case (Some p)
  then obtain i s1 where p: "alloc_fd s = Some (i, s1)" by (cases p) auto
  have s1: "kernel_ok k s1" using alloc_fd_ok [OF assms(1) p] by simp
  then have s2: "kernel_ok k (upd_fd i (\<lambda>f. f\<lparr>is_socket := True, socket_domain := a, socket_type := b, socket_protocol := c\<rparr>) s1)"
    by (intro kernel_ok_upd_fd) (auto simp: fd_ok_def)
  have s3: "kernel_ok k (upd_fd i (\<lambda>f. f\<lparr>fd_data := d, fd_size := 4096\<rparr>) t)"
    if "kalloc k' 4096 (upd_fd i (\<lambda>f. f\<lparr>is_socket := True, socket_domain := a, socket_type := b, socket_protocol := c\<rparr>) s1) = Some (t, q)" for t d k' q
  proof -
    have "fds t ! i = (fds s1 ! i)\<lparr>is_socket := True, socket_domain := a, socket_type := b, socket_protocol := c\<rparr>"
      using kalloc_fds [OF that] alloc_fd_ok [OF assms(1) p] by (simp add: upd_fd_def kernel_ok_def)
    moreover have "fd_off (fds s1 ! i) = 0"
      using p alloc_fd_ok [OF assms(1) p] by (auto simp: alloc_fd_def upd_fd_def kernel_ok_def)
    ultimately show ?thesis using kalloc_ok [OF that s2] by (intro kernel_ok_upd_fd) (auto simp: fd_ok_def)
  qed
  show ?thesis using assms(2) p s3 unfolding new_socket_def by (auto simp: Let_def)
qed

lemma sys_socket_ok:
  assumes "kernel_ok k s"
  shows "sys_socket k a1 a2 a3 s = Some y \<Longrightarrow> kernel_ok k (fst y)" "sys_accept k a1 s = Some y \<Longrightarrow> kernel_ok k (fst y)"
    "kernel_ok k (fst (sys_sock_noop e a1 s))" "kernel_ok k (fst (sys_send a1 a2 a3 s))"
  using assms by (auto simp: sys_socket_def sys_accept_def sys_sock_noop_def sys_send_def Let_def new_socket_ok
      split: if_splits option.splits)

lemma sys_print_ok:
  assumes "kernel_ok k s"
  shows "kernel_ok k (fst (sys_exit a1 s))" "kernel_ok k (fst (unknown_syscall n s))"
  using assms by (simp_all add: sys_exit_def kpanic_def unknown_syscall_def kernel_ok_def kprint_cursor kprint_int_cursor)

lemma syscall_handler_ok:
  assumes "kernel_ok k s" "syscall_handler k num a1 a2 a3 rip rsp flags s = Some (s', r)"
  shows "kernel_ok k s'"
proof -
  have ok: "kernel_ok k (s\<lparr>last_errno := 0\<rparr>)" using assms(1) by simp
  note calls = sys_read_ok [OF ok] sys_sched_ok [OF ok] handle_brk_ok [OF ok] sys_print_ok [OF ok] kernel_ok_fail [OF ok]
    sys_socket_ok(3,4) [OF ok]
  have "kernel_ok k (fst y)" if "syscall_handler k num a1 a2 a3 rip rsp flags s = Some y" for y
    using that ok calls
    by (auto simp: syscall_handler_def sys_bind_def sys_listen_def sys_connect_def sys_recv_def Let_def case_prod_beta split: if_splits
        dest: sys_write_ok [OF ok] sys_open_ok [OF ok] sys_close_ok [OF ok] sys_exec_ok [OF ok] sys_socket_ok(1,2) [OF ok])
  then show ?thesis using assms(2) by fastforce
qed

lemmas syscall_numbers = SYS_READ_def SYS_WRITE_def SYS_OPEN_def SYS_CLOSE_def SYS_ERRNO_def SYS_FORK_def SYS_YIELD_def
  SYS_KILL_def SYS_BRK_def SYS_EXEC_def SYS_EXIT_def SYS_SOCKET_def SYS_BIND_def SYS_LISTEN_def SYS_ACCEPT_def
  SYS_CONNECT_def SYS_SEND_def SYS_RECV_def SYS_GETADDRINFO_def

section \<open>From the disk to the program\<close>

text \<open>What the file systems hold under a path, read with room to spare.\<close>

definition volume_file :: "'d PeanutVolume \<Rightarrow> bytes \<Rightarrow> bytes option option" where
  "volume_file vol path =
     (if fs_kind vol = PEANUT_FS_FAT32 then
        fat32_read_file (fat32 vol) (pv_disk vol) (fs_path_to_fat_name [] (Some path) 160) 0xFFFFFFFF
      else if fs_kind vol = PEANUT_FS_EXFAT then
        exfat_read_file (exfat vol) (pv_disk vol) (fs_path_to_fat_name [] (Some path) 160) 0xFFFFFFFF
      else extfs_read_file (ext vol) (pv_disk vol) (ext_name path) 0xFFFFFFFF)"

lemma read_chain_length:
  "length out \<le> unat n \<Longrightarrow> read_chain v disk n c out = Some bs \<Longrightarrow> length bs \<le> unat n"
proof (induction v disk n c out rule: read_chain.induct)
  case (1 v disk n c out)
  show ?case
    using "1.prems" "1.IH" unfolding read_chain.simps [of v disk n c out]
    by (auto simp: Let_def split: if_splits option.splits)
qed

lemma ext_read_loop_length:
  "length out \<le> unat n \<Longrightarrow> ext_read_loop v disk i n k b out = Some (Some bs) \<Longrightarrow> length bs \<le> unat n"
proof (induction v disk i n k b out rule: ext_read_loop.induct)
  case (1 v disk i n k b out)
  show ?case
    using "1.prems" "1.IH" unfolding ext_read_loop.simps [of v disk i n k b out]
    by (auto simp: Let_def split: if_splits option.splits)
qed

lemma mem_read_Suc: "mem_read m a (Suc n) = m a # mem_read m (a + 1) n"
  unfolding mem_read_def by (simp add: upt_conv_Cons map_Suc_upt [symmetric] ac_simps del: upt_Suc)

lemma copy_loop_apart:
  "\<forall>i < n. \<forall>j < n. dst + of_nat i \<noteq> src + of_nat j \<Longrightarrow> copy_loop n dst src m = mem_copy_in m dst (mem_read m src n)"
proof (induction n arbitrary: dst src m)
  case (Suc n)
  have a: "dst + of_nat i \<noteq> src + of_nat j" if "i < Suc n" "j < Suc n" for i j using Suc.prems that by blast
  have 1: "\<forall>i < n. \<forall>j < n. dst + 1 + of_nat i \<noteq> src + 1 + of_nat j"
    using a [of "Suc i" "Suc j" for i j] by (auto simp: ac_simps)
  have b: "src + 1 + of_nat j \<noteq> dst" if "j < n" for j using a [of 0 "Suc j"] that by (auto simp: ac_simps)
  have "mem_read (m(dst := m src)) (src + 1) n = mem_read m (src + 1) n" unfolding mem_read_def by (simp add: b)
  then show ?case using Suc.IH [OF 1, of "m(dst := m src)"] by (simp only: copy_loop.simps mem_read_Suc mem_copy_in.simps)
qed (simp add: mem_read_def)

lemma load_buffer_contents:
  assumes "load_buffer k n (Some (Some bs)) s = Some (s', 0, buf, sz)" "length bs \<le> unat n" "unat n < 2 ^ 32"
  shows "buf \<noteq> 0 \<and> length bs = unat sz \<and> mem_read (slab_mem s') buf (length bs) = bs \<and> kheap.more s' = kheap.more s"
proof -
  have e: "unat (ucast n :: u32) = length bs" if "of_nat (length bs) = (ucast n :: u32)"
  proof -
    have "unat (of_nat (length bs) :: u32) = length bs" using assms(2,3) by (simp add: unat_of_nat)
    then show ?thesis using that by simp
  qed
  have "mem_read (mem_copy_in m buf bs) buf (length bs) = bs" for m using assms(2,3) by (intro mem_read_copy) simp
  then show ?thesis
    using assms(1) e
    by (auto simp: load_buffer_def Let_def set_mem_def dest!: kalloc_more split: option.splits if_splits)
qed

lemma load_buffer_some: "load_buffer k n c s = Some (s', 0, buf, sz) \<Longrightarrow> \<exists>bs. c = Some (Some bs)"
  by (auto simp: load_buffer_def split: option.splits if_splits)

lemma read_file_contents:
  assumes "read_file_into_mem k a s = Some (s', 0, buf, sz)" "root_volume s = Some vol" "a \<noteq> 0"
  shows "\<exists>bs. volume_file vol (user_path (slab_mem s) a) = Some (Some bs) \<and>
    buf \<noteq> 0 \<and> length bs = unat sz \<and> mem_read (slab_mem s') buf (length bs) = bs \<and> kheap.more s' = kheap.more s"
proof -
  define path fat where "path = user_path (slab_mem s) a" and "fat = fs_path_to_fat_name [] (Some path) 160"
  have fat: "fs_path_to_fat_name (stale_name k) (Some path) 160 = fat" by (simp add: fat_def fs_path_to_fat_name_def)
  have big: "\<not> (0xFFFFFFFF :: u32) < x" for x :: u32 using unat_u32 [of x] by (simp add: word_less_nat_alt)
  consider "fs_kind vol = PEANUT_FS_FAT32" | "fs_kind vol \<noteq> PEANUT_FS_FAT32" "fs_kind vol = PEANUT_FS_EXFAT"
    | "fs_kind vol \<noteq> PEANUT_FS_FAT32" "fs_kind vol \<noteq> PEANUT_FS_EXFAT" by blast
  then have "\<exists>bs. volume_file vol path = Some (Some bs) \<and>
    buf \<noteq> 0 \<and> length bs = unat sz \<and> mem_read (slab_mem s') buf (length bs) = bs \<and> kheap.more s' = kheap.more s"
  proof cases
    case 1
    then obtain e where e: "fat32_find_root (fat32 vol) (pv_disk vol) fat = Some (Some e)" "attributes e AND FAT32_ATTR_DIRECTORY = 0"
        "load_buffer k (ucast (entry_size e)) (fat32_read_file (fat32 vol) (pv_disk vol) fat (entry_size e)) s = Some (s', 0, buf, sz)"
      using assms by (auto simp: read_file_into_mem_def Let_def path_def [symmetric] fat split: option.splits if_splits)
    obtain bs where bs: "fat32_read_file (fat32 vol) (pv_disk vol) fat (entry_size e) = Some (Some bs)" using load_buffer_some [OF e(3)] by blast
    have "length bs \<le> unat (entry_size e)"
      using bs e(1,2) read_chain_length [of "[]"] by (auto simp: fat32_read_file_def split: if_splits)
    moreover have "volume_file vol path = Some (Some bs)"
      using 1 bs e(1,2) big by (auto simp: volume_file_def fat_def [symmetric] fat32_read_file_def split: if_splits)
    moreover have "unat (ucast (entry_size e) :: u64) = unat (entry_size e)"
      using unat_u32 [of "entry_size e"] by (simp add: unsigned_ucast_eq take_bit_nat_eq_self_iff)
    ultimately show ?thesis using load_buffer_contents [OF e(3) [unfolded bs]] unat_u32 [of "entry_size e"] by auto
  next
    case 2
    then obtain e where e: "exfat_find_root (exfat vol) (pv_disk vol) fat = Some (Some e)" "ex_attributes e AND EXFAT_ATTR_DIRECTORY = 0"
        "\<not> 0xFFFFFFFF < ex_size e"
        "load_buffer k (ex_size e) (exfat_read_file (exfat vol) (pv_disk vol) fat (ucast (ex_size e))) s = Some (s', 0, buf, sz)"
      using assms by (auto simp: read_file_into_mem_def Let_def path_def [symmetric] fat split: option.splits if_splits)
    obtain bs where bs: "exfat_read_file (exfat vol) (pv_disk vol) fat (ucast (ex_size e)) = Some (Some bs)" using load_buffer_some [OF e(4)] by blast
    then have "exfat_read_loop (exfat vol) (pv_disk vol) (unat (ex_size e)) (ex_first_cluster e) [] = Some bs"
      using e(1,2) by (auto simp: exfat_read_file_def split: if_splits)
    moreover have "volume_file vol path = Some (Some bs)"
      using 2 calculation e(1-3) by (auto simp: volume_file_def fat_def [symmetric] exfat_read_file_def)
    moreover have "length bs \<le> unat (ex_size e)" using calculation(1) by (simp add: exfat_read_loop_length)
    ultimately show ?thesis using load_buffer_contents [OF e(4) [unfolded bs]] e(3) by (auto simp: word_less_nat_alt)
  next
    case 3
    then obtain n where e: "extfs_stat (ext vol) (pv_disk vol) (ext_name path) = Some (Some (n, False))" "\<not> 0xFFFFFFFF < n"
        "load_buffer k n (extfs_read_file (ext vol) (pv_disk vol) (ext_name path) (ucast n)) s = Some (s', 0, buf, sz)"
      using assms by (auto simp: read_file_into_mem_def Let_def path_def [symmetric] fat split: option.splits if_splits)
    obtain bs where bs: "extfs_read_file (ext vol) (pv_disk vol) (ext_name path) (ucast n) = Some (Some bs)" using load_buffer_some [OF e(3)] by blast
    then have b: "length bs \<le> unat n" "volume_file vol path = Some (Some bs)"
      using 3 e(1,2) ext_read_loop_length [of "[]"]
      by (auto simp: volume_file_def extfs_read_file_def extfs_stat_def Let_def split: option.splits if_splits)
    then show ?thesis using load_buffer_contents [OF e(3) [unfolded bs]] e(2) by (auto simp: word_less_nat_alt)
  qed
  then show ?thesis by (simp add: path_def)
qed

text \<open>What \<open>sys_open\<close> leaves behind when it succeeds on a regular file.\<close>

lemma sys_open_file:
  assumes "kernel_ok k s" "root_volume s = Some vol" "a \<noteq> 0" "\<not> vfs_is_pseudo_path (user_path (slab_mem s) a)"
    and "sys_open k a s = Some (s1, Ret r)" "r \<noteq> -1"
  shows "\<exists>bs. volume_file vol (user_path (slab_mem s) a) = Some (Some bs) \<and> open_fd r s1 \<and>
    \<not> is_pseudo (fds s1 ! unat r) \<and> fd_data (fds s1 ! unat r) \<noteq> 0 \<and> fd_off (fds s1 ! unat r) = 0 \<and>
    unat (fd_size (fds s1 ! unat r)) = length bs \<and> mem_read (slab_mem s1) (fd_data (fds s1 ! unat r)) (length bs) = bs"
proof (cases "alloc_fd s")
  case None
  then show ?thesis using assms(5,6) by (simp add: sys_open_def fail_def)
next
  case (Some p)
  then obtain i s0 where p: "alloc_fd s = Some (i, s0)" by (cases p) auto
  have i: "i < FD_MAX" using alloc_fd_ok [OF assms(1) p] by simp
  then have ri: "unat (of_nat i :: u64) = i" by (simp add: unat_of_nat FD_MAX_def)
  have s0: "s0 = upd_fd i (\<lambda>f. f\<lparr>used := True, fd_data := 0, fd_size := 0, fd_off := 0, is_pseudo := False,
      is_socket := False, fd_path := []\<rparr>) s" using p by (auto simp: alloc_fd_def)
  define path s2 where "path = user_path (slab_mem s) a"
    and "s2 = upd_fd i (\<lambda>f. f\<lparr>is_pseudo := False, dirty := False, fd_path := kstrcpy path 160\<rparr>) s0"
  have m: "slab_mem s0 = slab_mem s" "slab_mem s2 = slab_mem s" "root_volume s2 = Some vol"
    using assms(2) by (simp_all add: s0 s2_def upd_fd_def)
  obtain s3 buf sz where r: "read_file_into_mem k a s2 = Some (s3, 0, buf, sz)"
    and s1: "s1 = upd_fd i (\<lambda>f. f\<lparr>fd_data := buf, fd_size := sz, fd_off := 0\<rparr>) s3" "r = of_nat i"
    using assms(3-6) p
    by (auto simp: sys_open_def Let_def m path_def [symmetric] s2_def [symmetric] fail_def split: option.splits if_splits)
  obtain bs where bs: "volume_file vol path = Some (Some bs)" "buf \<noteq> 0" "length bs = unat sz"
      "mem_read (slab_mem s3) buf (length bs) = bs" "kheap.more s3 = kheap.more s2"
    using read_file_contents [OF r m(3) assms(3)] m by (auto simp: path_def)
  have l: "length (fds s) = FD_MAX" using assms(1) by (simp add: kernel_ok_def)
  have f: "fds s1 ! i = (fds s2 ! i)\<lparr>fd_data := buf, fd_size := sz, fd_off := 0\<rparr>" "slab_mem s1 = slab_mem s3"
    using kernel_rest(1) [OF bs(5)] i l by (simp_all add: s1 upd_fd_def s2_def s0)
  have "used (fds s2 ! i)" "\<not> is_pseudo (fds s2 ! i)" using i l by (simp_all add: s2_def s0 upd_fd_def)
  then show ?thesis
    using bs f i ri by (simp add: s1(2) path_def open_fd_def word_less_nat_alt FD_MAX_def)
qed

lemma sys_read_file:
  assumes "open_fd r s" "\<not> is_pseudo (fds s ! unat r)" "fd_off (fds s ! unat r) = 0"
    and "unat (fd_size (fds s ! unat r)) = length bs" "mem_read (slab_mem s) (fd_data (fds s ! unat r)) (length bs) = bs"
    and n: "n = min (unat (ucast cnt :: u32)) (length bs)"
    and apart: "\<forall>i < n. \<forall>j < n. dst + of_nat i \<noteq> fd_data (fds s ! unat r) + of_nat j"
  shows "\<exists>s'. sys_read r dst cnt s = (s', Ret (of_nat n)) \<and> mem_read (slab_mem s') dst n = take n bs"
proof (cases "bs = []")
  case True
  then show ?thesis using assms by (simp add: sys_read_def Let_def unat_eq_0 mem_read_def)
next
  case False
  define f where "f = fds s ! unat r"
  define tk where "tk = (if (ucast cnt :: u32) < fd_size f then ucast cnt else fd_size f)"
  have tk: "unat tk = n" using assms(4) by (auto simp: tk_def n f_def word_less_nat_alt min_def)
  have "fd_size f \<noteq> 0" using assms(4) False by (auto simp: f_def)
  then have rd: "sys_read r dst cnt s =
      (upd_fd (unat r) (\<lambda>f. f\<lparr>fd_off := fd_off f + tk\<rparr>) (set_mem (copy_loop n dst (fd_data f) (slab_mem s)) s), Ret (ucast tk))"
    using assms(1-3) by (simp add: sys_read_def Let_def f_def [symmetric] tk [symmetric] tk_def)
  have "mem_read (slab_mem s) (fd_data f) n = take n bs"
    using assms(5) n by (metis (no_types) f_def min.cobounded2 take_map take_upt mem_read_def add_0)
  moreover have "copy_loop n dst (fd_data f) (slab_mem s) = mem_copy_in (slab_mem s) dst (mem_read (slab_mem s) (fd_data f) n)"
    using apart unfolding f_def by (rule copy_loop_apart)
  moreover have "n \<le> 2 ^ 64" using tk unat_u32 [of tk] by simp
  moreover have "length (take n bs) = n" using n by simp
  moreover have "ucast tk = (of_nat n :: u64)" unfolding tk [symmetric] by simp
  ultimately show ?thesis using mem_read_copy [of "take n bs" "slab_mem s" dst] unfolding rd
    by (simp add: upd_fd_def set_mem_def)
qed

section \<open>Runs of the kernel\<close>

definition zero_fd :: Fd where
  "zero_fd = \<lparr>used = False, fd_data = 0, fd_size = 0, fd_off = 0, fd_path = [], is_pseudo = False, dirty = False,
     is_socket = False, socket_domain = 0, socket_type = 0, socket_protocol = 0\<rparr>"

text \<open>After the boot, system calls and timer interrupts follow each other in any order, until a call
  halts the machine.\<close>

inductive kernel_run :: "kernel_image \<Rightarrow> ('d, 'h, 'z) kernel_scheme \<Rightarrow> bool" for k where
  boot: "fds s = replicate FD_MAX zero_fd \<Longrightarrow> ksched s = sched_init t \<Longrightarrow> cursor_ok (kdev s) \<Longrightarrow> kernel_run k (syscall_init k s)"
| call: "kernel_run k s \<Longrightarrow> syscall_handler k num a1 a2 a3 rip rsp flags s = Some (s', r) \<Longrightarrow> r \<noteq> Halted \<Longrightarrow> kernel_run k s'"
| tick: "kernel_run k s \<Longrightarrow> kernel_run k (s\<lparr>ksched := snd (irq_timer_dispatch (ksched s) sp)\<rparr>)"

lemma kernel_run_inv:
  assumes "user_brk_arena k \<le> user_brk_arena k + USER_BRK_ARENA_BYTES" "kernel_run k s"
  shows "kernel_ok k s"
  using assms(2)
proof induction
  case (boot s t)
  then show ?case
    using assms(1) by (simp add: syscall_init_def wrmsr_def Let_def kernel_ok_def zero_fd_def fd_ok_def sched_init_inv)
next
  case (call s num a1 a2 a3 rip rsp flags s' r)
  then show ?case using syscall_handler_ok by blast
next
  case (tick s sp)
  then show ?case by (simp add: kernel_ok_def irq_timer_dispatch_inv)
qed

text \<open>C1. In every run of the kernel the table of open files keeps its 16 entries with names that fit
  their buffers and offsets inside the files, the program break stays in its arena, the process
  table is well formed and the cursor is on the screen.  These variables lie outside the byte
  memory: a call whose buffer is one of them is not part of a run.\<close>

theorem kernel_run_ok:
  assumes "user_brk_arena k \<le> user_brk_arena k + USER_BRK_ARENA_BYTES" "kernel_run k s"
  shows "kernel_ok k s"
  using assms by (rule kernel_run_inv)

text \<open>C2. Opening a regular file and reading from it delivers the first bytes of the file as the file
  system holds it, as many as were asked for and as there are, provided the program's buffer does
  not overlap the kernel's.\<close>

theorem open_read_file:
  assumes "kernel_ok k s" "root_volume s = Some vol" "a \<noteq> 0" "\<not> vfs_is_pseudo_path (user_path (slab_mem s) a)"
    and "syscall_handler k SYS_OPEN a a2 a3 rip rsp flags s = Some (s1, Ret fd)" "fd \<noteq> -1"
    and "\<forall>i < unat (fd_size (fds s1 ! unat fd)). \<forall>j < unat (fd_size (fds s1 ! unat fd)).
      dst + of_nat i \<noteq> fd_data (fds s1 ! unat fd) + of_nat j"
  shows "\<exists>bs s2. volume_file vol (user_path (slab_mem s) a) = Some (Some bs) \<and>
    syscall_handler k SYS_READ fd dst cnt rip' rsp' flags' s1 = Some (s2, Ret (of_nat (min (unat (ucast cnt :: u32)) (length bs)))) \<and>
    mem_read (slab_mem s2) dst (min (unat (ucast cnt :: u32)) (length bs)) = take (unat (ucast cnt :: u32)) bs"
proof -
  have o: "sys_open k a (s\<lparr>last_errno := 0\<rparr>) = Some (s1, Ret fd)" using assms(5) by (simp add: syscall_handler_def syscall_numbers)
  obtain bs where bs: "volume_file vol (user_path (slab_mem s) a) = Some (Some bs)" and f: "open_fd fd s1"
    "\<not> is_pseudo (fds s1 ! unat fd)" "fd_off (fds s1 ! unat fd) = 0"
    "unat (fd_size (fds s1 ! unat fd)) = length bs" "mem_read (slab_mem s1) (fd_data (fds s1 ! unat fd)) (length bs) = bs"
    using sys_open_file [OF _ _ assms(3) _ o assms(6)] assms(1,2,4) by auto
  let ?s = "s1\<lparr>last_errno := 0\<rparr>" and ?n = "min (unat (ucast cnt :: u32)) (length bs)"
  have "\<exists>s2. sys_read fd dst cnt ?s = (s2, Ret (of_nat ?n)) \<and> mem_read (slab_mem s2) dst ?n = take ?n bs"
  proof (rule sys_read_file)
    show "open_fd fd ?s" using f(1) by (simp add: open_fd_def)
  qed (use f assms(7) in \<open>simp_all\<close>)
  then obtain s2 where "sys_read fd dst cnt ?s = (s2, Ret (of_nat ?n))" "mem_read (slab_mem s2) dst ?n = take ?n bs" by blast
  then show ?thesis using bs by (auto simp: syscall_handler_def min_def split: if_splits)
qed

text \<open>C29. On a FAT volume a program that writes to an open file and closes it is told that both
  worked, and asking for the error number answers 0, but the volume is as it was: the bytes are
  lost.\<close>

theorem fat_write_lost:
  assumes "open_fd fd s" "\<not> is_pseudo (fds s ! unat fd)" "fd_data (fds s ! unat fd) \<noteq> 0" "length (fds s) = FD_MAX"
    and "root_volume s = Some vol" "fs_kind vol = PEANUT_FS_FAT32"
    and "fd_off (fds s ! unat fd) < fd_size (fds s ! unat fd)"
  shows "\<exists>s1 s2. syscall_handler k SYS_WRITE fd src cnt rip rsp flags s =
      Some (s1, Ret (ucast (min (ucast cnt) (fd_size (fds s ! unat fd) - fd_off (fds s ! unat fd))))) \<and>
    syscall_handler k SYS_CLOSE fd x y rip rsp flags s1 = Some (s2, Ret 0) \<and>
    root_volume s2 = Some vol \<and> \<not> open_fd fd s2 \<and>
    map_option snd (syscall_handler k SYS_ERRNO x y z rip rsp flags s2) = Some (Ret 0)"
proof -
  define f where "f = fds s ! unat fd"
  define tk where "tk = (if (ucast cnt :: u32) < fd_size f - fd_off f then ucast cnt else fd_size f - fd_off f)"
  define s1 where "s1 = upd_fd (unat fd) (\<lambda>f. f\<lparr>fd_off := fd_off f + tk, dirty := True\<rparr>)
      (set_mem (copy_loop (unat tk) (fd_data f + ucast (fd_off f)) src (slab_mem s)) (s\<lparr>last_errno := 0\<rparr>))"
  have i: "unat fd < length (fds s)" using assms(1,4) by (simp add: open_fd_def FD_MAX_def word_less_nat_alt)
  have w: "syscall_handler k SYS_WRITE fd src cnt rip rsp flags s = Some (s1, Ret (ucast tk))"
    using assms(1-3,7) leD [of "fd_size f" "fd_off f"]
    by (auto simp: syscall_handler_def syscall_numbers sys_write_def open_fd_def Let_def f_def [symmetric] tk_def [symmetric] s1_def)
  have "tk = min (ucast cnt) (fd_size f - fd_off f)" by (auto simp: tk_def min_def)
  note w = w [unfolded this f_def]
  define s1' where "s1' = s1\<lparr>last_errno := 0\<rparr>"
  have f1: "fds s1' ! unat fd = f\<lparr>fd_off := fd_off f + tk, dirty := True\<rparr>" "open_fd fd s1'" "root_volume s1' = Some vol"
    using i assms(1,5) by (simp_all add: s1'_def s1_def upd_fd_def f_def open_fd_def set_mem_def)
  define t where "t = (if fd_path f = [] then s1' else s1'\<lparr>root_volume := Some vol, last_errno := 11\<rparr>)"
  have t: "root_volume t = Some vol" "fds t = fds s1'"
      "sys_close k fd s1' = Some (upd_fd (unat fd) (\<lambda>f. f\<lparr>used := False\<rparr>) (kfree (fd_data f) t), Ret 0)"
    using assms(2,3,6) f1 by (auto simp: t_def sys_close_def Let_def f_def [symmetric] write_back_def fs_kinds)
  define s2 where "s2 = upd_fd (unat fd) (\<lambda>f. f\<lparr>used := False\<rparr>) (kfree (fd_data f) t)"
  have k: "root_volume (kfree p t) = root_volume t" "fds (kfree p t) = fds t" for p by (rule kernel_rest, simp)+
  have "syscall_handler k SYS_CLOSE fd x y rip rsp flags s1 = Some (s2, Ret 0)"
    using t(3) by (simp add: syscall_handler_def syscall_numbers s1'_def [symmetric] s2_def)
  moreover have "root_volume s2 = Some vol" "\<not> open_fd fd s2"
    using t(1,2) i k by (simp_all add: s2_def upd_fd_def open_fd_def s1'_def s1_def set_mem_def)
  moreover have "map_option snd (syscall_handler k SYS_ERRNO x y z rip rsp flags s2) = Some (Ret 0)"
    by (simp add: syscall_handler_def syscall_numbers)
  ultimately show ?thesis using w by blast
qed

section \<open>A small machine\<close>

text \<open>A kernel that has booted on a disk with an exFAT volume; the string \<^verbatim>\<open>/a\<close> is at 0x5000 and a
  free block of the heap at 0x9008.\<close>

definition demo_kernel_image :: kernel_image where
  "demo_kernel_image = \<lparr>kernel_end = 0x200000, kernel_pml4 = 0x1000, kernel_pdpt = 0x2000, kernel_pd = 0x3000,
     test_user_stack = 0x8000, user_brk_arena = 0x300000, syscall_entry = 0x100000, stale_name = []\<rparr>"

definition demo_volume :: "(u64 \<Rightarrow> bytes) PeanutVolume" where
  "demo_volume = demo_no_volume\<lparr>fs_kind := PEANUT_FS_EXFAT, pv_disk := Some (ram_disk demo_exfat)\<rparr>"

definition demo_mem :: mem where
  "demo_mem = mem_copy_in (\<lambda>_. 0) 0x5000 [0x2F, 0x61]"

definition demo_kernel :: "((u64 \<Rightarrow> bytes), unit) kernel" where
  "demo_kernel = \<lparr>slab_vm = \<lparr>vm_mem = demo_mem, page_bump = 0x201000, cr3 = 0x1000\<rparr>,
     free_lists = [0x9008, 0, 0, 0, 0, 0], heap_start = 0x200000, ksched = sched_init power_on, kdev = demo_console,
     root_volume = Some demo_volume, fds = replicate FD_MAX zero_fd, last_errno = 0, user_brk_end = 0, msr = (\<lambda>_. 0),
     net_sent = None\<rparr>"

definition demo_running :: "((u64 \<Rightarrow> bytes), unit) kernel" where
  "demo_running = syscall_init demo_kernel_image demo_kernel"

lemma demo_cursor: "cursor_ok demo_console"
  by (simp add: cursor_ok_def demo_console_def demo_vfs_def demo_ps2_def vfs.defs ps2.defs console.defs SCREEN_WIDTH_def SCREEN_HEIGHT_def)

lemma demo_run: "kernel_run demo_kernel_image demo_running"
  unfolding demo_running_def by (rule kernel_run.boot) (simp_all add: demo_kernel_def demo_cursor)

theorem kernel_run_ok_witness: "kernel_ok demo_kernel_image demo_running"
  by (rule kernel_run_ok [OF _ demo_run]) (simp add: demo_kernel_image_def USER_BRK_ARENA_BYTES_def)

text \<open>Opening \<^verbatim>\<open>/a\<close> step by step.\<close>

lemma demo_path: "user_path (demo_mem) 0x5000 = [0x2F, 0x61]"
  by code_simp

lemma demo_find: "exfat_find_root demo_exfat_volume (Some (ram_disk demo_exfat)) [0x41] =
    Some (Some \<lparr>ex_name = [0x61], ex_attributes = 0x20, ex_first_cluster = 3, ex_size = 4\<rparr>)"
  by code_simp

lemma demo_read: "exfat_read_file demo_exfat_volume (Some (ram_disk demo_exfat)) [0x41] 4 = Some (Some [1, 2, 3, 4])"
  by code_simp

lemma demo_kalloc:
  assumes "heap_start s \<noteq> 0" "free_lists s = 0x9008 # l"
  shows "kalloc k 4 s = Some (s\<lparr>free_lists := load (slab_mem s) 0x9008 # l\<rparr>, 0x9008)"
proof -
  have "class_for 4 = 0" by code_simp
  then show ?thesis using assms by (simp add: kalloc_def kalloc_init_def slab_alloc_def Let_def)
qed

lemma demo_names: "\<not> vfs_is_pseudo_path [0x2F, 0x61]" "fs_path_to_fat_name stale (Some [0x2F, 0x61]) 160 = [0x41]"
  by code_simp+

lemma demo_open:
  "\<exists>s1. syscall_handler demo_kernel_image SYS_OPEN 0x5000 0 0 0 0 0 demo_running = Some (s1, Ret 0) \<and>
     fd_data (fds s1 ! 0) = 0x9008 \<and> fd_size (fds s1 ! 0) = 4"
proof -
  define s where "s = demo_running\<lparr>last_errno := 0\<rparr>"
  have s: "slab_mem s = demo_mem" "free_lists s = [0x9008, 0, 0, 0, 0, 0]" "heap_start s \<noteq> 0"
    "fds s = replicate FD_MAX zero_fd" "root_volume s = Some demo_volume"
    by (simp_all add: s_def demo_running_def syscall_init_def wrmsr_def Let_def demo_kernel_def)
  have vol: "fs_kind demo_volume = PEANUT_FS_EXFAT" "exfat demo_volume = demo_exfat_volume" "pv_disk demo_volume = Some (ram_disk demo_exfat)"
    by (simp_all add: demo_volume_def demo_no_volume_def)
  define s2 where "s2 = upd_fd 0 (\<lambda>f. f\<lparr>is_pseudo := False, dirty := False, fd_path := [0x2F, 0x61]\<rparr>)
    (upd_fd 0 (\<lambda>f. f\<lparr>used := True, fd_data := 0, fd_size := 0, fd_off := 0, is_pseudo := False, is_socket := False, fd_path := []\<rparr>) s)"
  have s2: "slab_mem s2 = slab_mem s" "free_lists s2 = free_lists s" "heap_start s2 = heap_start s" "root_volume s2 = root_volume s"
    by (simp_all add: s2_def upd_fd_def)
  define s3 where "s3 = s2\<lparr>free_lists := load (slab_mem s2) 0x9008 # [0, 0, 0, 0, 0]\<rparr>"
  define s4 where "s4 = set_mem (mem_copy_in (slab_mem s3) 0x9008 [1, 2, 3, 4]) s3"
  have k: "kalloc (vm_image.truncate demo_kernel_image) 4 s2 = Some (s3, 0x9008)"
    unfolding s3_def by (rule demo_kalloc) (use s s2 in simp_all)
  have r: "read_file_into_mem demo_kernel_image 0x5000 s2 = Some (s4, 0, 0x9008, 4)"
    by (simp add: read_file_into_mem_def Let_def s2 s vol demo_path demo_names demo_find demo_read fs_kinds EXFAT_ATTR_DIRECTORY_def
        load_buffer_def k s4_def)
  have a: "alloc_fd s = Some (0, upd_fd 0 (\<lambda>f. f\<lparr>used := True, fd_data := 0, fd_size := 0, fd_off := 0, is_pseudo := False, is_socket := False, fd_path := []\<rparr>) s)"
    by (simp add: alloc_fd_def s FD_MAX_def numeral_eq_Suc zero_fd_def)
  have o: "sys_open demo_kernel_image 0x5000 s = Some (upd_fd 0 (\<lambda>f. f\<lparr>fd_data := 0x9008, fd_size := 4, fd_off := 0\<rparr>) s4, Ret 0)"
  proof -
    have "user_path (slab_mem (upd_fd 0 g s)) 0x5000 = [0x2F, 0x61]" for g by (simp add: upd_fd_def s demo_path)
    then show ?thesis unfolding sys_open_def a by (simp add: Let_def demo_names kstrcpy_def s2_def [symmetric] r)
  qed
  have "length (fds s4) = FD_MAX" using s by (simp add: s4_def s3_def s2_def upd_fd_def)
  then show ?thesis using o
    by (simp add: syscall_handler_def syscall_numbers s_def [symmetric] upd_fd_def FD_MAX_def)
qed

theorem open_read_file_witness:
  "\<exists>s1 s2. syscall_handler demo_kernel_image SYS_OPEN 0x5000 0 0 0 0 0 demo_running = Some (s1, Ret 0) \<and>
     syscall_handler demo_kernel_image SYS_READ 0 0x6000 10 0 0 0 s1 = Some (s2, Ret 4) \<and>
     mem_read (slab_mem s2) 0x6000 4 = [1, 2, 3, 4]"
proof -
  obtain s1 where s1: "syscall_handler demo_kernel_image SYS_OPEN 0x5000 0 0 0 0 0 demo_running = Some (s1, Ret 0)"
    "fd_data (fds s1 ! 0) = 0x9008" "fd_size (fds s1 ! 0) = 4" using demo_open by blast
  have ok: "kernel_ok demo_kernel_image demo_running"
    by (rule kernel_run_inv [OF _ demo_run]) (simp add: demo_kernel_image_def USER_BRK_ARENA_BYTES_def)
  have m: "slab_mem demo_running = demo_mem" "root_volume demo_running = Some demo_volume"
    by (simp_all add: demo_running_def syscall_init_def wrmsr_def Let_def demo_kernel_def)
  have ap: "\<forall>i < unat (fd_size (fds s1 ! unat (0 :: u64))). \<forall>j < unat (fd_size (fds s1 ! unat (0 :: u64))).
      0x6000 + of_nat i \<noteq> fd_data (fds s1 ! unat (0 :: u64)) + of_nat j"
    by (simp add: s1 all_below)
  have four: "Suc (Suc (Suc (Suc 0))) = 4" by simp
  have f: "volume_file demo_volume [0x2F, 0x61] = Some (Some [1, 2, 3, 4])" by code_simp
  show ?thesis
    using open_read_file [OF ok m(2) _ _ s1(1) _ ap, of 10 0 0 0] s1(1) by (simp add: m demo_path demo_names f four)
qed

definition demo_fat_kernel :: "((u64 \<Rightarrow> bytes), unit) kernel" where
  "demo_fat_kernel = demo_running\<lparr>root_volume := Some (demo_volume\<lparr>fs_kind := PEANUT_FS_FAT32\<rparr>),
     fds := zero_fd\<lparr>used := True, fd_data := 0x9008, fd_size := 4, fd_path := [0x2F, 0x61]\<rparr> # replicate 15 zero_fd\<rparr>"

theorem fat_write_lost_witness:
  "\<exists>s1 s2. syscall_handler demo_kernel_image SYS_WRITE 0 0x5000 2 0 0 0 demo_fat_kernel = Some (s1, Ret 2) \<and>
    syscall_handler demo_kernel_image SYS_CLOSE 0 0 0 0 0 0 s1 = Some (s2, Ret 0) \<and> root_volume s2 = root_volume demo_fat_kernel"
proof -
  let ?vol = "demo_volume\<lparr>fs_kind := PEANUT_FS_FAT32\<rparr>"
  have f: "fds demo_fat_kernel = zero_fd\<lparr>used := True, fd_data := 0x9008, fd_size := 4, fd_path := [0x2F, 0x61]\<rparr> # replicate 15 zero_fd"
    "root_volume demo_fat_kernel = Some ?vol" by (simp_all add: demo_fat_kernel_def)
  have h: "open_fd 0 demo_fat_kernel" "\<not> is_pseudo (fds demo_fat_kernel ! unat (0 :: u64))"
    "fd_data (fds demo_fat_kernel ! unat (0 :: u64)) \<noteq> 0" "length (fds demo_fat_kernel) = FD_MAX"
    "fd_off (fds demo_fat_kernel ! unat (0 :: u64)) < fd_size (fds demo_fat_kernel ! unat (0 :: u64))"
    by (simp_all add: f open_fd_def FD_MAX_def zero_fd_def)
  have n: "ucast (min (ucast (2 :: u64)) (fd_size (fds demo_fat_kernel ! unat (0 :: u64)) - fd_off (fds demo_fat_kernel ! unat (0 :: u64)))) = (2 :: u64)"
    by (simp add: f zero_fd_def min_def)
  show ?thesis
    using fat_write_lost [OF h(1-4) f(2) _ h(5), of demo_kernel_image "0x5000" 2 0 0 0 0 0 0] unfolding n f(2) by auto
qed

end
