(* ===== verification/Tables.thy ===== *)
theory Tables
  imports Syscall_Props
begin

text \<open>
  \<^verbatim>\<open>src/src/cpu/gdt.c\<close> and \<^verbatim>\<open>src/src/cpu/idt.c\<close>: the segment table, the task state segment and the
  interrupt table.

  The tables are the static variables of the two files.  The registers that \<^verbatim>\<open>lgdt\<close>, \<^verbatim>\<open>lidt\<close> and
  \<^verbatim>\<open>ltr\<close> load are fields of the state.  Addresses of variables and of the assembly entry points
  are fixed by the linker.
\<close>

record GDTEntry =
  limit_low :: u16
  base_low :: u16
  base_middle :: u8
  access :: u8
  granularity :: u8
  base_high :: u8

record GDTDescriptor =
  desc_limit :: u16
  desc_base :: u64

record GDT =
  gdt_null :: GDTEntry
  k_code :: GDTEntry
  k_data :: GDTEntry
  u_data :: GDTEntry
  u_code :: GDTEntry
  tss_low :: u64
  tss_high :: u64

record TSSEntry =
  reserved0 :: u32
  rsp0 :: u64
  rsp1 :: u64
  rsp2 :: u64
  reserved1 :: u64
  ist :: "u64 list"
  reserved2 :: u32
  reserved3 :: u32
  reserved4 :: u16
  iopb_offset :: u16

record IDTEntry =
  offset_low :: u16
  selector :: u16
  gate_ist :: u8
  attributes :: u8
  offset_mid :: u16
  offset_high :: u32
  gate_zero :: u32

record ('d, 'h) machine = "('d, 'h) kernel" +
  gdt :: GDT
  gdt_ptr :: GDTDescriptor
  kernel_tss :: TSSEntry
  idt :: "IDTEntry list"
  idt_ptr :: GDTDescriptor
  gdtr :: GDTDescriptor
  idtr :: GDTDescriptor
  task_register :: u16

record machine_image = kernel_image +
  gdt_address :: u64
  tss_address :: u64
  kernel_stack :: u64
  idt_address :: u64
  interrupt_default_entry :: u64
  isr_invalid_opcode :: u64
  isr_general_protection :: u64
  isr_page_fault :: u64
  irq_timer :: u64

definition IDT_ENTRIES :: nat where "IDT_ENTRIES = 256"
definition KERNEL_CODE_SELECTOR :: u16 where "KERNEL_CODE_SELECTOR = 0x08"
definition IDT_INTERRUPT_GATE :: u8 where "IDT_INTERRUPT_GATE = 0x8E"

section \<open>Segments\<close>

text \<open>The table is aligned to a page, so its size is rounded up to one.\<close>

definition sizeof_GDT :: nat where "sizeof_GDT = 0x1000"
definition sizeof_TSSEntry :: nat where "sizeof_TSSEntry = 104"

definition gdt_set_entry :: "u8 \<Rightarrow> u8 \<Rightarrow> GDTEntry" where
  "gdt_set_entry acc gran =
     \<lparr>limit_low = 0, base_low = 0, base_middle = 0, access = acc, granularity = gran, base_high = 0\<rparr>"

definition gdt_init_for_user :: "machine_image \<Rightarrow> ('d, 'h, 'z) machine_scheme \<Rightarrow> ('d, 'h, 'z) machine_scheme" where
  "gdt_init_for_user k s =
     (let g = (gdt s)\<lparr>gdt_null := gdt_set_entry 0 0, k_code := gdt_set_entry 0x9A 0x20, k_data := gdt_set_entry 0x92 0x00,
                      u_data := gdt_set_entry 0xF2 0x00, u_code := gdt_set_entry 0xFA 0x20\<rparr>;
          p = \<lparr>desc_limit = of_nat (sizeof_GDT - 1), desc_base = gdt_address k\<rparr>
      in s\<lparr>gdt := g, gdt_ptr := p, gdtr := p\<rparr>)"

definition gdt_set_tss :: "u64 \<Rightarrow> u32 \<Rightarrow> ('d, 'h, 'z) machine_scheme \<Rightarrow> ('d, 'h, 'z) machine_scheme" where
  "gdt_set_tss base limit s =
     s\<lparr>gdt := (gdt s)\<lparr>tss_low := ucast (limit AND 0xFFFF) OR push_bit 16 (base AND 0xFFFFFF) OR push_bit 40 0x89 OR
                        push_bit 48 (ucast (drop_bit 16 limit AND 0xF)) OR push_bit 56 (drop_bit 24 base AND 0xFF),
                      tss_high := drop_bit 32 base\<rparr>\<rparr>"

definition tss_init :: "machine_image \<Rightarrow> ('d, 'h, 'z) machine_scheme \<Rightarrow> ('d, 'h, 'z) machine_scheme" where
  "tss_init k s =
     (let s1 = s\<lparr>kernel_tss := (kernel_tss s)\<lparr>rsp0 := kernel_stack k + 8192, iopb_offset := of_nat sizeof_TSSEntry\<rparr>\<rparr>
      in (gdt_set_tss (tss_address k) (of_nat (sizeof_TSSEntry - 1)) s1)\<lparr>task_register := 0x28\<rparr>)"

section \<open>Interrupts\<close>

definition idt_set_gate :: "u8 \<Rightarrow> u64 \<Rightarrow> ('d, 'h, 'z) machine_scheme \<Rightarrow> ('d, 'h, 'z) machine_scheme" where
  "idt_set_gate vector offset s =
     s\<lparr>idt := (idt s)[unat vector :=
         \<lparr>offset_low = ucast (offset AND 0xFFFF), selector = KERNEL_CODE_SELECTOR, gate_ist = 0, attributes = IDT_INTERRUPT_GATE,
          offset_mid = ucast (drop_bit 16 offset AND 0xFFFF), offset_high = ucast (drop_bit 32 offset AND 0xFFFFFFFF),
          gate_zero = 0\<rparr>]\<rparr>"

definition idt_init :: "machine_image \<Rightarrow> ('d, 'h, 'z) machine_scheme \<Rightarrow> ('d, 'h, 'z) machine_scheme" where
  "idt_init k s =
     (let s1 = fold (\<lambda>vector. idt_set_gate (of_nat vector) (interrupt_default_entry k)) [0..<IDT_ENTRIES] s;
          s2 = idt_set_gate 14 (isr_page_fault k)
                 (idt_set_gate 13 (isr_general_protection k) (idt_set_gate 6 (isr_invalid_opcode k) s1));
          p = \<lparr>desc_limit = of_nat (16 * IDT_ENTRIES - 1), desc_base = idt_address k\<rparr>
      in s2\<lparr>idt_ptr := p, idtr := p\<rparr>)"

definition idt_set_handler :: "u8 \<Rightarrow> u64 \<Rightarrow> ('d, 'h, 'z) machine_scheme \<Rightarrow> ('d, 'h, 'z) machine_scheme" where
  "idt_set_handler vector handler = idt_set_gate vector handler"

definition interrupt_default_handler :: "('d, 'h, 'z) kernel_scheme \<Rightarrow> ('d, 'h, 'z) outcome" where
  "interrupt_default_handler s = kpanic ''[Peanut kernel - panic - Unhandled CPU exception or interrupt]'' s"

definition cpu_exception_handler :: "u64 \<Rightarrow> u64 \<Rightarrow> u64 \<Rightarrow> ('d, 'h, 'z) kernel_scheme \<Rightarrow> ('d, 'h, 'z) outcome" where
  "cpu_exception_handler vector error rip s =
     (let d1 = kprint_int vector (kprint (ascii ''CPU exception vector '') (kdev s));
          d2 = kprint_hex error (kprint (ascii '' error '') d1);
          d3 = kprint (ascii nl) (kprint_hex rip (kprint (ascii '' rip '') d2))
      in kpanic ''[Peanut kernel - panic - CPU exception]'' (s\<lparr>kdev := d3\<rparr>))"

section \<open>What the processor reads\<close>

definition entry_qword :: "GDTEntry \<Rightarrow> u64" where
  "entry_qword e =
     ucast (limit_low e) OR push_bit 16 (ucast (base_low e)) OR push_bit 32 (ucast (base_middle e)) OR
     push_bit 40 (ucast (access e)) OR push_bit 48 (ucast (granularity e)) OR push_bit 56 (ucast (base_high e))"

definition gdt_qwords :: "GDT \<Rightarrow> u64 list" where
  "gdt_qwords g = [entry_qword (gdt_null g), entry_qword (k_code g), entry_qword (k_data g), entry_qword (u_data g),
     entry_qword (u_code g), tss_low g, tss_high g]"

text \<open>
  A selector names the descriptor at its index; its low two bits are the privilege asked for.
  Code segments of long mode have bit 53 set, data segments are writable when bit 41 is set.
\<close>

definition descriptor :: "('d, 'h, 'z) machine_scheme \<Rightarrow> u64 \<Rightarrow> u64" where
  "descriptor s sel = gdt_qwords (gdt s) ! unat (drop_bit 3 sel)"

definition seg_dpl :: "u64 \<Rightarrow> u64" where
  "seg_dpl q = drop_bit 45 q AND 3"

definition code_segment :: "u64 \<Rightarrow> u64 \<Rightarrow> bool" where
  "code_segment q ring \<longleftrightarrow> bit q 47 \<and> bit q 44 \<and> bit q 43 \<and> bit q 53 \<and> \<not> bit q 54 \<and> seg_dpl q = ring"

definition data_segment :: "u64 \<Rightarrow> u64 \<Rightarrow> bool" where
  "data_segment q ring \<longleftrightarrow> bit q 47 \<and> bit q 44 \<and> \<not> bit q 43 \<and> bit q 41 \<and> seg_dpl q = ring"

text \<open>The task state segment: an available 64-bit one, with its base and limit.\<close>

definition tss_base :: "u64 \<Rightarrow> u64 \<Rightarrow> u64" where
  "tss_base lo hi = (drop_bit 16 lo AND 0xFFFFFF) OR push_bit 24 (drop_bit 56 lo) OR push_bit 32 hi"

definition tss_limit :: "u64 \<Rightarrow> u64" where
  "tss_limit lo = (lo AND 0xFFFF) OR push_bit 16 (drop_bit 48 lo AND 0xF)"

definition gate_target :: "IDTEntry \<Rightarrow> u64" where
  "gate_target e = ucast (offset_low e) OR push_bit 16 (ucast (offset_mid e)) OR push_bit 32 (ucast (offset_high e))"

definition gate_ok :: "('d, 'h, 'z) machine_scheme \<Rightarrow> IDTEntry \<Rightarrow> bool" where
  "gate_ok s e \<longleftrightarrow> code_segment (descriptor s (ucast (selector e))) 0 \<and> attributes e = 0x8E \<and> gate_ist e = 0 \<and> gate_zero e = 0"

lemmas bits_simps = bit_or_iff bit_push_bit_iff bit_unsigned_iff bit_and_iff bit_drop_bit_eq bit_mask_iff less_diff_conv2

lemma gate_target_offset:
  "gate_target \<lparr>offset_low = ucast (offset AND 0xFFFF), selector = se, gate_ist = i, attributes = a,
     offset_mid = ucast (drop_bit 16 offset AND 0xFFFF), offset_high = ucast (drop_bit 32 offset AND 0xFFFFFFFF), gate_zero = z\<rparr> = offset"
proof (intro bit_word_eqI)
  have m: "(0xFFFF :: u64) = mask 16" "(0xFFFFFFFF :: u64) = mask 32" by (simp_all add: mask_eq_exp_minus_1)
  fix n assume "n < LENGTH(64)"
  then consider "n < 16" | "16 \<le> n" "n < 32" | "32 \<le> n" "n < 64" by force
  then show "bit (gate_target \<lparr>offset_low = ucast (offset AND 0xFFFF), selector = se, gate_ist = i, attributes = a,
     offset_mid = ucast (drop_bit 16 offset AND 0xFFFF), offset_high = ucast (drop_bit 32 offset AND 0xFFFFFFFF), gate_zero = z\<rparr>) n = bit offset n"
    unfolding gate_target_def m by cases (simp_all add: bits_simps)
qed

definition tss_qword :: "u64 \<Rightarrow> u32 \<Rightarrow> u64" where
  "tss_qword base limit = ucast (limit AND 0xFFFF) OR push_bit 16 (base AND 0xFFFFFF) OR push_bit 40 0x89 OR
     push_bit 48 (ucast (drop_bit 16 limit AND 0xF)) OR push_bit 56 (drop_bit 24 base AND 0xFF)"

lemma bit_tss_qword:
  assumes "n < 64"
  shows "bit (tss_qword base limit) n \<longleftrightarrow>
    (if n < 16 then bit limit n else if n < 40 then bit base (n - 16) else if n < 48 then n = 40 \<or> n = 43 \<or> n = 47
     else if n < 52 then bit limit (n - 32) else if n < 56 then False else bit base (n - 32))"
proof -
  have m: "(0xFFFFFF :: u64) = mask 24" "(0xFFFF :: u32) = mask 16" "(0xF :: u32) = mask 4" "(0xFF :: u64) = mask 8"
    by (simp_all add: mask_eq_exp_minus_1)
  have c: "bit (push_bit 40 0x89 :: u64) n \<longleftrightarrow> n = 40 \<or> n = 43 \<or> n = 47"
  proof -
    have "(push_bit 40 0x89 :: u64) = push_bit 40 1 OR push_bit 43 1 OR push_bit 47 1" by simp
    then show ?thesis by (simp only: bit_or_iff bit_push_bit_iff bit_1_iff) auto
  qed
  consider "n < 16" | "16 \<le> n" "n < 40" | "40 \<le> n" "n < 48" | "48 \<le> n" "n < 52" | "52 \<le> n" "n < 56" | "56 \<le> n" "n < 64"
    using assms by linarith
  then show ?thesis
  proof cases
    case 4
    then have "16 + (n - 48) = n - 32" by simp
    then show ?thesis using 4 unfolding tss_qword_def bit_or_iff c m by (simp add: bits_simps)
  next
    case 6
    then have "24 + (n - 56) = n - 32" by simp
    then show ?thesis using 6 unfolding tss_qword_def bit_or_iff c m by (simp add: bits_simps)
  qed (unfold tss_qword_def bit_or_iff c m, simp_all add: bits_simps, linarith?)
qed

lemma tss_base_qword: "tss_base (tss_qword base limit) (drop_bit 32 base) = base"
proof (intro bit_word_eqI)
  have m: "(0xFFFFFF :: u64) = mask 24" by (simp add: mask_eq_exp_minus_1)
  fix n assume "n < LENGTH(64)"
  then consider "n < 24" | "24 \<le> n" "n < 32" | "32 \<le> n" "n < 64" by force
  then show "bit (tss_base (tss_qword base limit) (drop_bit 32 base)) n = bit base n"
    unfolding tss_base_def m by cases (auto simp: bits_simps bit_tss_qword dest: bit_imp_le_length)
qed

lemma tss_limit_qword: "limit < 0x100000 \<Longrightarrow> tss_limit (tss_qword base limit) = ucast limit"
proof (intro bit_word_eqI)
  assume l: "limit < 0x100000"
  have high: "\<not> bit limit n" if "20 \<le> n" for n
  proof -
    have "unat (take_bit 20 limit) = unat limit"
      using l by (simp add: unsigned_take_bit_eq take_bit_nat_eq_self word_less_nat_alt)
    then have "take_bit 20 limit = limit" by (rule word_unat_eq_iff [THEN iffD2])
    then show ?thesis using that by (metis bit_take_bit_iff leD)
  qed
  have m: "(0xFFFF :: u64) = mask 16" "(0xF :: u64) = mask 4" by (simp_all add: mask_eq_exp_minus_1)
  fix n assume "n < LENGTH(64)"
  then consider "n < 16" | "16 \<le> n" "n < 20" | "20 \<le> n" "n < 64" by force
  then show "bit (tss_limit (tss_qword base limit)) n = bit (ucast limit :: u64) n"
    unfolding tss_limit_def m by cases (auto simp: bits_simps bit_tss_qword high)
qed

section \<open>Every selector names the segment it means\<close>

lemma gdt_tss: "gdt_set_tss base limit s = s\<lparr>gdt := (gdt s)\<lparr>tss_low := tss_qword base limit, tss_high := drop_bit 32 base\<rparr>\<rparr>"
  by (simp add: gdt_set_tss_def tss_qword_def)

lemma gdt_idt_init [simp]: "gdt (idt_init k s) = gdt s" "task_register (idt_init k s) = task_register s"
  "kernel_tss (idt_init k s) = kernel_tss s"
proof -
  have "gdt (fold (\<lambda>vector. idt_set_gate (f vector) h) vs s) = gdt s \<and>
      task_register (fold (\<lambda>vector. idt_set_gate (f vector) h) vs s) = task_register s \<and>
      kernel_tss (fold (\<lambda>vector. idt_set_gate (f vector) h) vs s) = kernel_tss s" for f :: "nat \<Rightarrow> u8" and h vs
    by (induction vs arbitrary: s) (simp_all add: idt_set_gate_def)
  then show "gdt (idt_init k s) = gdt s" "task_register (idt_init k s) = task_register s"
    "kernel_tss (idt_init k s) = kernel_tss s"
    by (simp_all add: idt_init_def Let_def, simp_all add: idt_set_gate_def)
qed

definition boot_tables :: "machine_image \<Rightarrow> ('d, 'h, 'z) machine_scheme \<Rightarrow> ('d, 'h, 'z) machine_scheme" where
  "boot_tables k s = syscall_init (kernel_image.truncate k) (idt_init k (tss_init k (gdt_init_for_user k s)))"

lemma boot_gdt:
  "gdt_qwords (gdt (boot_tables k s)) =
     [0, 0x00209A0000000000, 0x0000920000000000, 0x0000F20000000000, 0x0020FA0000000000,
      tss_qword (tss_address k) 103, drop_bit 32 (tss_address k)]"
  by (simp add: boot_tables_def syscall_init_def wrmsr_def Let_def tss_init_def gdt_tss gdt_init_for_user_def gdt_qwords_def
      entry_qword_def gdt_set_entry_def sizeof_TSSEntry_def)

lemma boot_registers:
  "msr (boot_tables k s) MSR_STAR = 0x0013000800000000" "task_register (boot_tables k s) = 0x28"
  "rsp0 (kernel_tss (boot_tables k s)) = kernel_stack k + 8192"
  by (simp_all add: boot_tables_def syscall_init_def wrmsr_def Let_def tss_init_def gdt_tss MSR_STAR_def MSR_LSTAR_def
      MSR_SFMASK_def)

text \<open>C32.
  After start-up every selector the kernel uses names the descriptor it means.  The selectors that
  \<^verbatim>\<open>syscall\<close> loads are those of the 64-bit kernel code and data segments, the ones that \<^verbatim>\<open>sysret\<close> loads are
  those of the user segments with privilege 3 and agree with the ones in the register frame of a
  new process, an interrupt gate leads to the kernel code segment, and the task register names a
  task state segment with the address and size of \<^verbatim>\<open>kernel_tss\<close>, whose ring 0 stack is the end of the
  kernel stack.
\<close>

theorem selectors_match:
  "let t = boot_tables k s;
       kernel_cs = drop_bit 32 (msr t MSR_STAR) AND 0xFFFF;
       user_base = drop_bit 48 (msr t MSR_STAR);
       tr = ucast (task_register t)
   in code_segment (descriptor t kernel_cs) 0 \<and> data_segment (descriptor t (kernel_cs + 8)) 0 \<and>
      code_segment (descriptor t (user_base + 16)) 3 \<and> data_segment (descriptor t (user_base + 8)) 3 \<and>
      user_frame rip flags rsp ! 16 = user_base + 16 \<and> user_frame rip flags rsp ! 19 = user_base + 8 \<and>
      code_segment (descriptor t (ucast KERNEL_CODE_SELECTOR)) 0 \<and>
      drop_bit 40 (descriptor t tr) AND 0xFF = 0x89 \<and>
      tss_base (descriptor t tr) (descriptor t (tr + 8)) = tss_address k \<and>
      tss_limit (descriptor t tr) = of_nat (sizeof_TSSEntry - 1) \<and>
      rsp0 (kernel_tss t) = kernel_stack k + 8192"
proof -
  let ?t = "boot_tables k s"
  have d: "descriptor ?t 0x08 = 0x00209A0000000000" "descriptor ?t 0x10 = 0x0000920000000000"
    "descriptor ?t 0x1B = 0x0000F20000000000" "descriptor ?t 0x23 = 0x0020FA0000000000"
    "descriptor ?t 0x28 = tss_qword (tss_address k) 103" "descriptor ?t 0x30 = drop_bit 32 (tss_address k)"
    unfolding descriptor_def boot_gdt by simp_all
  have "code_segment 0x00209A0000000000 0" "data_segment 0x0000920000000000 0"
    "data_segment 0x0000F20000000000 3" "code_segment 0x0020FA0000000000 3"
    by code_simp+
  moreover have "drop_bit 40 (tss_qword (tss_address k) 103) AND 0xFF = 0x89"
  proof (intro bit_word_eqI)
    have m: "(0xFF :: u64) = mask 8" by (simp add: mask_eq_exp_minus_1)
    fix n assume "n < LENGTH(64)"
    then consider "n \<in> {0, 1, 2, 3, 4, 5, 6, 7}" | "8 \<le> n" by force
    then show "bit (drop_bit 40 (tss_qword (tss_address k) 103) AND 0xFF) n = bit (0x89 :: u64) n"
    proof cases
      case 2
      have "(0x89 :: u64) = 0x89 AND 0xFF" by simp
      then show ?thesis using 2 unfolding m by (metis bit_and_iff bit_mask_iff not_less)
    qed (unfold m, auto simp: bits_simps bit_tss_qword)
  qed
  ultimately show ?thesis
    by (simp add: Let_def boot_registers d tss_base_qword tss_limit_qword sizeof_TSSEntry_def KERNEL_CODE_SELECTOR_def user_frame_def
        FRAME_QWORDS_def)
qed

section \<open>Where an interrupt leads\<close>

definition gate :: "u64 \<Rightarrow> IDTEntry" where
  "gate offset =
     \<lparr>offset_low = ucast (offset AND 0xFFFF), selector = KERNEL_CODE_SELECTOR, gate_ist = 0, attributes = IDT_INTERRUPT_GATE,
      offset_mid = ucast (drop_bit 16 offset AND 0xFFFF), offset_high = ucast (drop_bit 32 offset AND 0xFFFFFFFF),
      gate_zero = 0\<rparr>"

lemma idt_set_gate: "idt (idt_set_gate v h s) = (idt s)[unat v := gate h]"
  by (simp add: idt_set_gate_def gate_def)

definition gates :: "('d, 'h, 'z) machine_scheme \<Rightarrow> (u8 \<Rightarrow> u64) \<Rightarrow> bool" where
  "gates s f \<longleftrightarrow> length (idt s) = 256 \<and> (\<forall>v. idt s ! unat v = gate (f v))"

lemma vector_less: "unat (v :: u8) < 256"
  using unsigned_less [of v] by simp

lemma gates_set: "gates s f \<Longrightarrow> gates (idt_set_gate v h s) (f(v := h))"
  by (auto simp: gates_def idt_set_gate nth_list_update vector_less word_unat_eq_iff)

text \<open>The handler of a vector after start-up and the installation of handlers in order.\<close>

definition handler_of :: "machine_image \<Rightarrow> (u8 \<times> u64) list \<Rightarrow> u8 \<Rightarrow> u64" where
  "handler_of k hs v =
     (case map_of (rev hs) v of
        Some h \<Rightarrow> h
      | None \<Rightarrow> if v = 6 then isr_invalid_opcode k else if v = 13 then isr_general_protection k
                else if v = 14 then isr_page_fault k else interrupt_default_entry k)"

lemma idt_init_gates:
  assumes "length (idt s) = 256"
  shows "gates (idt_init k s) (handler_of k [])"
proof -
  have "idt (fold (\<lambda>vector. idt_set_gate (of_nat vector) h) [0..<n] s) = map (\<lambda>_. gate h) [0..<n] @ drop n (idt s)"
    if "n \<le> 256" for n h
    using that
  proof (induction n)
    case (Suc n)
    then have "drop n (idt s) = idt s ! n # drop (Suc n) (idt s)" using assms by (simp add: Cons_nth_drop_Suc)
    moreover have "unat (of_nat n :: u8) = n" using Suc.prems by (simp add: unat_of_nat)
    ultimately show ?case using Suc by (simp add: idt_set_gate list_update_append)
  qed simp
  from this [of 256] have "gates (fold (\<lambda>vector. idt_set_gate (of_nat vector) (interrupt_default_entry k)) [0..<IDT_ENTRIES] s)
      (\<lambda>_. interrupt_default_entry k)"
    using assms by (simp add: gates_def IDT_ENTRIES_def map_replicate_const vector_less)
  note g = gates_set [OF gates_set [OF gates_set [OF this, of 6 "isr_invalid_opcode k"],
      of 13 "isr_general_protection k"], of 14 "isr_page_fault k"]
  have "(((\<lambda>_. interrupt_default_entry k)(6 := isr_invalid_opcode k))(13 := isr_general_protection k))(14 := isr_page_fault k) =
      handler_of k []"
    by (auto simp: handler_of_def)
  with g show ?thesis by (simp add: idt_init_def Let_def gates_def)
qed

lemma handler_of_snoc: "handler_of k (hs @ [(v, h)]) = (handler_of k hs)(v := h)"
  by (auto simp: handler_of_def)

lemma idt_handlers_gates:
  assumes "length (idt s) = 256"
  shows "gates (fold (\<lambda>(v, h). idt_set_handler v h) hs (idt_init k s)) (handler_of k hs)"
proof (induction hs rule: rev_induct)
  case Nil
  then show ?case using idt_init_gates [OF assms] by simp
next
  case (snoc vh hs)
  obtain v h where "vh = (v, h)" by (cases vh)
  then show ?case using gates_set [OF snoc.IH, of v h] by (simp add: idt_set_handler_def handler_of_snoc fun_upd_def)
qed

text \<open>C33.
  An interrupt reaches its handler.  After start-up and any sequence of installed handlers, the gate
  of every vector leads to the handler installed last for it, or else to the entry of that
  exception or the default entry, through the kernel code segment, as a present interrupt gate
  that only the kernel may call.
\<close>

theorem interrupt_reaches_handler:
  assumes "length (idt s) = IDT_ENTRIES"
  shows "let g = idt (fold (\<lambda>(v, h). idt_set_handler v h) hs (idt_init k s)) ! unat v
    in gate_target g = handler_of k hs v \<and> selector g = KERNEL_CODE_SELECTOR \<and> attributes g = 0x8E \<and> gate_ist g = 0 \<and> gate_zero g = 0"
  using idt_handlers_gates [of s hs k] assms
  by (simp add: gates_def gate_def gate_target_offset IDT_INTERRUPT_GATE_def IDT_ENTRIES_def)

definition demo_machine_image :: machine_image where
  "demo_machine_image = kernel_image.extend demo_kernel_image (machine_image.fields
     0x110000 0x111000 0x112000 0x114000 0x101000 0x101100 0x101200 0x101300 0x101400)"

definition demo_machine :: "((u64 \<Rightarrow> bytes), unit) machine" where
  "demo_machine = kernel.extend demo_kernel (machine.fields
     (let e = gdt_set_entry 0 0
      in \<lparr>gdt_null = e, k_code = e, k_data = e, u_data = e, u_code = e, tss_low = 0, tss_high = 0\<rparr>)
     \<lparr>desc_limit = 0, desc_base = 0\<rparr>
     \<lparr>reserved0 = 0, rsp0 = 0, rsp1 = 0, rsp2 = 0, reserved1 = 0, ist = replicate 7 0, reserved2 = 0, reserved3 = 0,
       reserved4 = 0, iopb_offset = 0\<rparr>
     (replicate 256 \<lparr>offset_low = 0, selector = 0, gate_ist = 0, attributes = 0, offset_mid = 0, offset_high = 0, gate_zero = 0\<rparr>)
     \<lparr>desc_limit = 0, desc_base = 0\<rparr> \<lparr>desc_limit = 0, desc_base = 0\<rparr> \<lparr>desc_limit = 0, desc_base = 0\<rparr> 0)"

theorem interrupt_reaches_handler_witness:
  "gate_target (idt (idt_set_handler 32 0x101400 (idt_init demo_machine_image demo_machine)) ! 32) = 0x101400"
proof -
  have "length (idt demo_machine) = IDT_ENTRIES"
    by (simp add: demo_machine_def kernel.defs machine.defs IDT_ENTRIES_def)
  from interrupt_reaches_handler [OF this, of "[(32, 0x101400)]" demo_machine_image 32]
  show ?thesis by (simp add: Let_def handler_of_def)
qed

end
