(* ===== verification/Board.thy ===== *)
theory Board
  imports Tables Pci
begin

text \<open>
  Devices with registers in memory.  A driver reaches such a device by volatile reads and writes of
  addresses, the device reads and writes the memory of the machine by itself.  The record \<open>board\<close>
  adds to the state of the kernel what the devices do: on a register access, and by themselves
  between two looks of the processor at memory they share.  The devices are the same hardware
  state that the ports lead to.
\<close>

record ('d, 'h) board = "('d, 'h) machine" +
  mm_read8 :: "u64 \<Rightarrow> 'h \<times> mem \<Rightarrow> u8 \<times> 'h \<times> mem"
  mm_read16 :: "u64 \<Rightarrow> 'h \<times> mem \<Rightarrow> u16 \<times> 'h \<times> mem"
  mm_read32 :: "u64 \<Rightarrow> 'h \<times> mem \<Rightarrow> u32 \<times> 'h \<times> mem"
  mm_write8 :: "u64 \<Rightarrow> u8 \<Rightarrow> 'h \<times> mem \<Rightarrow> 'h \<times> mem"
  mm_write16 :: "u64 \<Rightarrow> u16 \<Rightarrow> 'h \<times> mem \<Rightarrow> 'h \<times> mem"
  mm_write32 :: "u64 \<Rightarrow> u32 \<Rightarrow> 'h \<times> mem \<Rightarrow> 'h \<times> mem"
  mm_dma :: "'h \<times> mem \<Rightarrow> 'h \<times> mem"

definition bus_state :: "('d, 'h, 'z) board_scheme \<Rightarrow> 'h \<times> mem" where
  "bus_state s = (hw (kdev s), slab_mem s)"

definition set_bus :: "'h \<times> mem \<Rightarrow> ('d, 'h, 'z) board_scheme \<Rightarrow> ('d, 'h, 'z) board_scheme" where
  "set_bus b s = set_mem (snd b) (s\<lparr>kdev := (kdev s)\<lparr>hw := fst b\<rparr>\<rparr>)"

definition mmio_read8 :: "u64 \<Rightarrow> ('d, 'h, 'z) board_scheme \<Rightarrow> u8 \<times> ('d, 'h, 'z) board_scheme" where
  "mmio_read8 a s = (let (v, b) = mm_read8 s a (bus_state s) in (v, set_bus b s))"

definition mmio_read16 :: "u64 \<Rightarrow> ('d, 'h, 'z) board_scheme \<Rightarrow> u16 \<times> ('d, 'h, 'z) board_scheme" where
  "mmio_read16 a s = (let (v, b) = mm_read16 s a (bus_state s) in (v, set_bus b s))"

definition mmio_read32 :: "u64 \<Rightarrow> ('d, 'h, 'z) board_scheme \<Rightarrow> u32 \<times> ('d, 'h, 'z) board_scheme" where
  "mmio_read32 a s = (let (v, b) = mm_read32 s a (bus_state s) in (v, set_bus b s))"

definition mmio_write8 :: "u64 \<Rightarrow> u8 \<Rightarrow> ('d, 'h, 'z) board_scheme \<Rightarrow> ('d, 'h, 'z) board_scheme" where
  "mmio_write8 a v s = set_bus (mm_write8 s a v (bus_state s)) s"

definition mmio_write16 :: "u64 \<Rightarrow> u16 \<Rightarrow> ('d, 'h, 'z) board_scheme \<Rightarrow> ('d, 'h, 'z) board_scheme" where
  "mmio_write16 a v s = set_bus (mm_write16 s a v (bus_state s)) s"

definition mmio_write32 :: "u64 \<Rightarrow> u32 \<Rightarrow> ('d, 'h, 'z) board_scheme \<Rightarrow> ('d, 'h, 'z) board_scheme" where
  "mmio_write32 a v s = set_bus (mm_write32 s a v (bus_state s)) s"

text \<open>What the devices do before the processor looks at shared memory again.\<close>

definition dma :: "('d, 'h, 'z) board_scheme \<Rightarrow> ('d, 'h, 'z) board_scheme" where
  "dma s = set_bus (mm_dma s (bus_state s)) s"

text \<open>An operation on the ports and the console, and one that only changes them.\<close>

definition on_dev :: "('h console \<Rightarrow> 'r \<times> 'h console) \<Rightarrow> ('d, 'h, 'z) board_scheme \<Rightarrow> 'r \<times> ('d, 'h, 'z) board_scheme" where
  "on_dev f s = (let (r, d) = f (kdev s) in (r, s\<lparr>kdev := d\<rparr>))"

definition upd_dev :: "('h console \<Rightarrow> 'h console) \<Rightarrow> ('d, 'h, 'z) board_scheme \<Rightarrow> ('d, 'h, 'z) board_scheme" where
  "upd_dev f s = s\<lparr>kdev := f (kdev s)\<rparr>"

definition print :: "string \<Rightarrow> ('d, 'h, 'z) board_scheme \<Rightarrow> ('d, 'h, 'z) board_scheme" where
  "print t = upd_dev (kprint (ascii t))"

definition alloc_page :: "('d, 'h, 'z) board_scheme \<Rightarrow> u64 \<times> ('d, 'h, 'z) board_scheme" where
  "alloc_page s = (let (v, page) = vm_alloc_page (slab_vm s) in (page, s\<lparr>slab_vm := v\<rparr>))"

text \<open>The loops that wait for a register, at most \<open>n\<close> times.\<close>

primrec spin_until :: "nat \<Rightarrow> ('s \<Rightarrow> bool \<times> 's) \<Rightarrow> 's \<Rightarrow> 's" where
  "spin_until 0 test s = s"
| "spin_until (Suc n) test s = (let (hit, s1) = test s in if hit then s1 else spin_until n test s1)"

text \<open>Enabling bits of the command register of a PCI function.\<close>

definition pci_enable :: "PciAddress \<Rightarrow> u32 \<Rightarrow> ('d, 'h, 'z) board_scheme \<Rightarrow> ('d, 'h, 'z) board_scheme" where
  "pci_enable addr bits s =
     (let (cmdsts, s1) = on_dev (pci_read32 addr 0x04) s in upd_dev (pci_write32 addr 0x04 (cmdsts OR bits)) s1)"

text \<open>A machine without such devices.\<close>

definition demo_board :: "((u64 \<Rightarrow> bytes), unit) board" where
  "demo_board = machine.extend demo_machine (board.fields
     (\<lambda>a b. (0, b)) (\<lambda>a b. (0, b)) (\<lambda>a b. (0, b)) (\<lambda>a v b. b) (\<lambda>a v b. b) (\<lambda>a v b. b) (\<lambda>b. b))"

end
