(* ===== verification/Net.thy ===== *)
theory Net
  imports Board
begin

text \<open>
  \<^verbatim>\<open>src/src/drivers/net/net.c\<close> and the network cards: \<^verbatim>\<open>e1000.c\<close>, \<^verbatim>\<open>rtl8139.c\<close>, \<^verbatim>\<open>rtl8169.c\<close> and
  \<^verbatim>\<open>virtio_net.c\<close> beside it.

  The list of registered devices is a list, newest first; the functions a device carries are known
  by the driver it belongs to.  The static variables of a driver are a record of their own, passed
  beside the state of the machine.  Rings and buffers are memory of the machine, the card acts on
  it whenever its registers are touched or the driver polls.  None is an operation that never
  returns.
\<close>

datatype nic = Nic_e1000 | Nic_rtl8139

record net_device =
  dev_name :: bytes
  dev_mac :: bytes
  dev_ip :: u32
  dev_driver :: nic

definition ETH_ALEN :: nat where "ETH_ALEN = 6"
definition ETH_HDR_LEN :: u32 where "ETH_HDR_LEN = 14"
definition TCP_HDR_LEN :: u32 where "TCP_HDR_LEN = 20"
definition UDP_HDR_LEN :: u32 where "UDP_HDR_LEN = 8"
definition ETH_P_IP :: u16 where "ETH_P_IP = 0x0800"
definition ETH_P_ARP :: u16 where "ETH_P_ARP = 0x0806"

section \<open>The stack\<close>

definition net_init :: "('d, 'h, 'z) board_scheme \<Rightarrow> net_device list \<times> ('d, 'h, 'z) board_scheme" where
  "net_init s = ([], print (''Network stack initialized'' @ nl) s)"

definition net_register_device ::
  "net_device \<Rightarrow> net_device list \<Rightarrow> ('d, 'h, 'z) board_scheme \<Rightarrow> net_device list \<times> ('d, 'h, 'z) board_scheme" where
  "net_register_device dev devs s =
     (dev # devs, print nl (upd_dev (kprint (dev_name dev)) (print ''Registered network device: '' s)))"

definition net_get_first_device :: "net_device list \<Rightarrow> net_device option" where
  "net_get_first_device devs = (case devs of [] \<Rightarrow> None | d # _ \<Rightarrow> Some d)"

text \<open>The sum of the 16-bit words of \<open>count\<close> bytes, a last odd byte by itself.\<close>

fun checksum_sum :: "bytes \<Rightarrow> u32 \<Rightarrow> u32" where
  "checksum_sum (a # b # bs) acc = checksum_sum bs (acc + (ucast a OR push_bit 8 (ucast b)))"
| "checksum_sum [a] acc = acc + ucast a"
| "checksum_sum [] acc = acc"

lemma checksum_fold_nat: "unat ((acc AND 0xFFFF) + drop_bit 16 acc) = unat (acc :: u32) mod 65536 + unat acc div 65536"
proof -
  have lo: "unat (acc AND 0xFFFF) = unat acc mod 65536"
  proof -
    have "(0xFFFF :: u32) = mask 16" by (simp add: mask_eq_exp_minus_1)
    then have "acc AND 0xFFFF = take_bit 16 acc" by (simp only: take_bit_eq_mask)
    then show ?thesis by (simp only: unsigned_take_bit_eq) (simp add: take_bit_eq_mod)
  qed
  have hi: "unat (drop_bit 16 acc) = unat acc div 65536" by (subst unat_drop_bit_eq) (simp add: drop_bit_eq_div)
  have "unat acc < 2 ^ 32" using unsigned_less [of acc] by simp
  then have "unat acc div 65536 < 65536" by simp
  then have "unat (acc AND 0xFFFF) + unat (drop_bit 16 acc) < 2 ^ LENGTH(32)" unfolding lo hi using mod_less_divisor [of 65536 "unat acc"] by simp
  then show ?thesis by (simp add: unat_add_lem [THEN iffD1] lo hi)
qed

lemma checksum_high: "drop_bit 16 (acc :: u32) \<noteq> 0 \<longleftrightarrow> 65536 \<le> unat acc"
proof -
  have "unat (drop_bit 16 acc) = unat acc div 65536" by (subst unat_drop_bit_eq) (simp add: drop_bit_eq_div)
  then show ?thesis by (metis div_eq_0_iff linorder_not_le unat_eq_zero zero_neq_numeral)
qed

lemma checksum_fold_less: "drop_bit 16 (acc :: u32) \<noteq> 0 \<Longrightarrow> unat ((acc AND 0xFFFF) + drop_bit 16 acc) < unat acc"
  unfolding checksum_fold_nat checksum_high
proof -
  assume "65536 \<le> unat acc"
  then have "0 < unat acc div 65536" by simp
  moreover have "unat acc = unat acc mod 65536 + 65536 * (unat acc div 65536)" by simp
  ultimately show "unat acc mod 65536 + unat acc div 65536 < unat acc" by linarith
qed

function checksum_fold :: "u32 \<Rightarrow> u32" where
  "checksum_fold acc = (if drop_bit 16 acc \<noteq> 0 then checksum_fold ((acc AND 0xFFFF) + drop_bit 16 acc) else acc)"
  by auto
termination by (relation "measure unat") (simp_all add: checksum_fold_less)

declare checksum_fold.simps [simp del]

definition net_checksum :: "mem \<Rightarrow> u64 \<Rightarrow> u32 \<Rightarrow> u16" where
  "net_checksum m addr count = ucast (NOT (checksum_fold (checksum_sum (mem_read m addr (unat count)) 0)))"

definition report_ports :: "string \<Rightarrow> mem \<Rightarrow> u64 \<Rightarrow> ('d, 'h, 'z) board_scheme \<Rightarrow> ('d, 'h, 'z) board_scheme" where
  "report_ports what m p s =
     (let s1 = upd_dev (kprint_hex (ucast (load m p :: u16))) (print (what @ '' packet: src_port='') s)
      in print nl (upd_dev (kprint_hex (ucast (load m (p + 2) :: u16))) (print '' dst_port='' s1)))"

definition net_handle_packet :: "u64 \<Rightarrow> u32 \<Rightarrow> ('d, 'h, 'z) board_scheme \<Rightarrow> ('d, 'h, 'z) board_scheme" where
  "net_handle_packet data len s =
     (let m = slab_mem s in
      if len < ETH_HDR_LEN then s
      else if load m (data + 12) = ETH_P_IP then
        let ip = data + ucast ETH_HDR_LEN;
            ip_hdr_len = (ucast (m ip AND 0x0F) * 4 :: u32);
            protocol = m (ip + 9);
            payload = data + ucast ETH_HDR_LEN + ucast ip_hdr_len
        in if len < ETH_HDR_LEN + ip_hdr_len then s
           else if protocol = 6 then
             if ETH_HDR_LEN + ip_hdr_len + TCP_HDR_LEN \<le> len then report_ports ''TCP'' m payload s else s
           else if protocol = 17 then
             if ETH_HDR_LEN + ip_hdr_len + UDP_HDR_LEN \<le> len then report_ports ''UDP'' m payload s else s
           else if protocol = 1 then print (''ICMP packet received'' @ nl) s
           else s
      else if load m (data + 12) = ETH_P_ARP then print (''ARP packet received'' @ nl) s
      else s)"

section \<open>Intel cards\<close>

record e1000 =
  e1000_mmio :: u64
  tx_descs :: u64
  rx_descs :: u64
  rx_buffers :: u64
  tx_buffers :: u64
  e1000_dev :: net_device
  tx_index :: u32

definition E1000_REG_EERD :: u16 where "E1000_REG_EERD = 0x0014"
definition E1000_REG_IMS :: u16 where "E1000_REG_IMS = 0x00D0"
definition E1000_REG_RCTL :: u16 where "E1000_REG_RCTL = 0x0100"
definition E1000_REG_TCTL :: u16 where "E1000_REG_TCTL = 0x0400"
definition E1000_REG_TDBAL :: u16 where "E1000_REG_TDBAL = 0x3800"
definition E1000_REG_TDBAH :: u16 where "E1000_REG_TDBAH = 0x3804"
definition E1000_REG_TDLEN :: u16 where "E1000_REG_TDLEN = 0x3808"
definition E1000_REG_TDH :: u16 where "E1000_REG_TDH = 0x3810"
definition E1000_REG_TDT :: u16 where "E1000_REG_TDT = 0x3818"
definition E1000_REG_RAL :: u16 where "E1000_REG_RAL = 0x5400"
definition E1000_REG_RAH :: u16 where "E1000_REG_RAH = 0x5404"
definition E1000_REG_RDBAL :: u16 where "E1000_REG_RDBAL = 0x2800"
definition E1000_REG_RDBAH :: u16 where "E1000_REG_RDBAH = 0x2804"
definition E1000_REG_RDLEN :: u16 where "E1000_REG_RDLEN = 0x2808"
definition E1000_REG_RDH :: u16 where "E1000_REG_RDH = 0x2810"
definition E1000_REG_RDT :: u16 where "E1000_REG_RDT = 0x2818"
definition E1000_RCTL_EN :: u32 where "E1000_RCTL_EN = 0x00000002"
definition E1000_RCTL_BAM :: u32 where "E1000_RCTL_BAM = 0x00008000"
definition E1000_RCTL_SZ_2048 :: u32 where "E1000_RCTL_SZ_2048 = 0x00000000"
definition E1000_RCTL_SECRC :: u32 where "E1000_RCTL_SECRC = 0x04000000"
definition E1000_TCTL_EN :: u32 where "E1000_TCTL_EN = 0x00000002"
definition E1000_TCTL_PSP :: u32 where "E1000_TCTL_PSP = 0x00000008"
definition E1000_TCTL_COLD_SHIFT :: nat where "E1000_TCTL_COLD_SHIFT = 12"
definition E1000_RX_DESC_COUNT :: u32 where "E1000_RX_DESC_COUNT = 128"
definition E1000_TX_DESC_COUNT :: u32 where "E1000_TX_DESC_COUNT = 128"

text \<open>The packed descriptor: address 0, length 8, cso 10, cmd 12, status 13, css 14, special 16.\<close>

definition sizeof_e1000_desc :: u64 where "sizeof_e1000_desc = 18"
definition desc_length :: u64 where "desc_length = 8"
definition desc_cmd :: u64 where "desc_cmd = 12"
definition desc_status :: u64 where "desc_status = 13"

definition e1000_desc :: "u64 \<Rightarrow> u32 \<Rightarrow> u64" where
  "e1000_desc base i = base + sizeof_e1000_desc * ucast i"

definition e1000_read_reg :: "e1000 \<Rightarrow> u16 \<Rightarrow> ('d, 'h, 'z) board_scheme \<Rightarrow> u32 \<times> ('d, 'h, 'z) board_scheme" where
  "e1000_read_reg d r s =
     (if e1000_mmio d \<noteq> 0 then mmio_read32 (e1000_mmio d + 4 * ucast (r div 4)) s else (0, s))"

definition e1000_write_reg :: "e1000 \<Rightarrow> u16 \<Rightarrow> u32 \<Rightarrow> ('d, 'h, 'z) board_scheme \<Rightarrow> ('d, 'h, 'z) board_scheme" where
  "e1000_write_reg d r v s =
     (if e1000_mmio d \<noteq> 0 then mmio_write32 (e1000_mmio d + 4 * ucast (r div 4)) v s else s)"

partial_function (option) e1000_eeprom_wait :: "e1000 \<Rightarrow> ('d, 'h, 'z) board_scheme \<Rightarrow> ('d, 'h, 'z) board_scheme option" where
  "e1000_eeprom_wait d s =
     (let (v, s1) = e1000_read_reg d E1000_REG_EERD s in if v AND push_bit 4 1 \<noteq> 0 then Some s1 else e1000_eeprom_wait d s1)"

definition e1000_eeprom_read :: "e1000 \<Rightarrow> u16 \<Rightarrow> ('d, 'h, 'z) board_scheme \<Rightarrow> (u16 \<times> ('d, 'h, 'z) board_scheme) option" where
  "e1000_eeprom_read d addr s =
     map_option (\<lambda>s2. let (v, s3) = e1000_read_reg d E1000_REG_EERD s2 in (ucast (drop_bit 16 v), s3))
       (e1000_eeprom_wait d (e1000_write_reg d E1000_REG_EERD (push_bit 8 (ucast addr) OR 1) s))"

text \<open>Waiting for the descriptor to be done.\<close>

partial_function (option) e1000_wait_sent :: "u64 \<Rightarrow> ('d, 'h, 'z) board_scheme \<Rightarrow> ('d, 'h, 'z) board_scheme option" where
  "e1000_wait_sent desc s =
     (let s1 = dma s in if slab_mem s1 (desc + desc_status) AND 0x01 \<noteq> 0 then Some s1 else e1000_wait_sent desc s1)"

definition e1000_fill :: "e1000 \<Rightarrow> u64 \<Rightarrow> u32 \<Rightarrow> mem \<Rightarrow> mem" where
  "e1000_fill d data len m =
     (let desc = e1000_desc (tx_descs d) (tx_index d);
          m1 = copy_loop (min (unat len) 1518) (load m desc) data m;
          m2 = store m1 (desc + desc_length) (ucast len :: u16);
          m3 = m2(desc + desc_cmd := 0x0B)
      in m3(desc + desc_status := 0))"

definition e1000_send ::
  "u64 \<Rightarrow> u32 \<Rightarrow> e1000 \<times> ('d, 'h, 'z) board_scheme \<Rightarrow> (e1000 \<times> ('d, 'h, 'z) board_scheme) option" where
  "e1000_send data len = (\<lambda>(d, s).
     if e1000_mmio d = 0 \<or> tx_descs d = 0 then Some (d, s)
     else
       let desc = e1000_desc (tx_descs d) (tx_index d);
           s1 = set_mem (e1000_fill d data len (slab_mem s)) s;
           d1 = d\<lparr>tx_index := (tx_index d + 1) mod E1000_TX_DESC_COUNT\<rparr>;
           s2 = e1000_write_reg d1 E1000_REG_TDT (tx_index d1) s1
       in map_option (\<lambda>s3. (d1, s3)) (e1000_wait_sent desc s2))"

text \<open>The callback of a receiver is given the address and length of a packet.\<close>

partial_function (option) e1000_recv_loop ::
  "e1000 \<Rightarrow> (u64 \<Rightarrow> u32 \<Rightarrow> ('d, 'h, 'z) board_scheme \<Rightarrow> ('d, 'h, 'z) board_scheme) \<Rightarrow> u32 \<Rightarrow> u32 \<Rightarrow>
   ('d, 'h, 'z) board_scheme \<Rightarrow> ('d, 'h, 'z) board_scheme option" where
  "e1000_recv_loop d callback rdt rdh s =
     (if rdt = rdh then Some s
      else
        let desc = e1000_desc (rx_descs d) rdt;
            s0 = dma s;
            s1 = (if slab_mem s0 (desc + desc_status) AND 0x01 \<noteq> 0 then
                    let s' = callback (load (slab_mem s0) desc) (ucast (load (slab_mem s0) (desc + desc_length) :: u16)) s0
                    in set_mem ((slab_mem s')(desc + desc_status := 0)) s'
                  else s0);
            rdt' = (rdt + 1) mod E1000_RX_DESC_COUNT;
            (rdh', s2) = e1000_read_reg d E1000_REG_RDH (e1000_write_reg d E1000_REG_RDT rdt' s1)
        in e1000_recv_loop d callback rdt' rdh' s2)"

definition e1000_recv ::
  "(u64 \<Rightarrow> u32 \<Rightarrow> ('d, 'h, 'z) board_scheme \<Rightarrow> ('d, 'h, 'z) board_scheme) option \<Rightarrow>
   e1000 \<Rightarrow> ('d, 'h, 'z) board_scheme \<Rightarrow> ('d, 'h, 'z) board_scheme option" where
  "e1000_recv callback d s =
     (case callback of
        None \<Rightarrow> Some s
      | Some cb \<Rightarrow>
          if e1000_mmio d = 0 \<or> rx_descs d = 0 then Some s
          else
            let (rdt, s1) = e1000_read_reg d E1000_REG_RDT s; (rdh, s2) = e1000_read_reg d E1000_REG_RDH s1
            in e1000_recv_loop d cb rdt rdh s2)"

definition e1000_ids :: "u16 list" where
  "e1000_ids = [0x100E, 0x100F, 0x1010, 0x1011, 0x1012, 0x1013, 0x1015, 0x1016,
     0x1017, 0x1018, 0x1019, 0x101A, 0x101D, 0x1026, 0x1027, 0x1028,
     0x1075, 0x1076, 0x1077, 0x1078, 0x1079, 0x107A, 0x107B, 0x107C,
     0x108A, 0x1096, 0x10A4, 0x10A5, 0x10B5, 0x10D3, 0x10EA, 0x10F6]"

definition find_devices :: "u16 \<Rightarrow> u16 list \<Rightarrow> ('d, 'h, 'z) board_scheme \<Rightarrow> PciAddress option \<times> ('d, 'h, 'z) board_scheme" where
  "find_devices vendor ids = search_each (\<lambda>i. on_dev (pci_find_device vendor i)) ids"

definition e1000_find :: "('d, 'h, 'z) board_scheme \<Rightarrow> PciAddress option \<times> ('d, 'h, 'z) board_scheme" where
  "e1000_find = find_devices 0x8086 e1000_ids"

definition init_descs :: "u64 \<Rightarrow> u64 \<Rightarrow> u8 \<Rightarrow> nat \<Rightarrow> mem \<Rightarrow> mem" where
  "init_descs descs buffers status n m =
     fold (\<lambda>i m. (store m (e1000_desc descs (of_nat i)) (buffers + of_nat (i * 2048)))(e1000_desc descs (of_nat i) + desc_status := status))
       [0..<n] m"

definition e1000_rings :: "e1000 \<Rightarrow> (u16 \<times> u32) list" where
  "e1000_rings d =
     [(E1000_REG_IMS, 0),
      (E1000_REG_RDBAL, ucast (rx_descs d)), (E1000_REG_RDBAH, ucast (drop_bit 32 (rx_descs d))),
      (E1000_REG_RDLEN, 18 * E1000_RX_DESC_COUNT), (E1000_REG_RDH, 0), (E1000_REG_RDT, E1000_RX_DESC_COUNT - 1),
      (E1000_REG_TDBAL, ucast (tx_descs d)), (E1000_REG_TDBAH, ucast (drop_bit 32 (tx_descs d))),
      (E1000_REG_TDLEN, 18 * E1000_TX_DESC_COUNT), (E1000_REG_TDH, 0), (E1000_REG_TDT, 0)]"

definition e1000_start ::
  "e1000 \<Rightarrow> net_device list \<Rightarrow> ('d, 'h, 'z) board_scheme \<Rightarrow> net_device list \<times> e1000 \<times> ('d, 'h, 'z) board_scheme" where
  "e1000_start d devs s =
     (let m1 = init_descs (rx_descs d) (rx_buffers d) 0 (unat E1000_RX_DESC_COUNT) (slab_mem s);
          m2 = init_descs (tx_descs d) (tx_buffers d) 1 (unat E1000_TX_DESC_COUNT) m1;
          s1 = fold (\<lambda>(r, v). e1000_write_reg d r v) (e1000_rings d) (set_mem m2 s);
          (ral, s2) = e1000_read_reg d E1000_REG_RAL s1;
          (rah, s3) = e1000_read_reg d E1000_REG_RAH s2;
          dev = \<lparr>dev_name = ascii ''e1000'',
                 dev_mac = [ucast ral, ucast (drop_bit 8 ral), ucast (drop_bit 16 ral), ucast (drop_bit 24 ral), ucast rah, ucast (drop_bit 8 rah)],
                 dev_ip = 0, dev_driver = Nic_e1000\<rparr>;
          s4 = e1000_write_reg d E1000_REG_RCTL (E1000_RCTL_EN OR E1000_RCTL_BAM OR E1000_RCTL_SZ_2048 OR E1000_RCTL_SECRC) s3;
          s5 = e1000_write_reg d E1000_REG_TCTL (E1000_TCTL_EN OR E1000_TCTL_PSP OR push_bit E1000_TCTL_COLD_SHIFT 0x10) s4;
          (devs', s6) = net_register_device dev devs s5
      in (devs', d\<lparr>e1000_dev := dev\<rparr>, print (''E1000 driver initialized'' @ nl) s6))"

definition e1000_alloc :: "vm_image \<Rightarrow> e1000 \<Rightarrow> ('d, 'h, 'z) board_scheme \<Rightarrow> (e1000 \<times> ('d, 'h, 'z) board_scheme) option" where
  "e1000_alloc k d s =
     (case kalloc k (sizeof_e1000_desc * ucast E1000_TX_DESC_COUNT) s of None \<Rightarrow> None | Some (s1, tx) \<Rightarrow>
      (case kalloc k (sizeof_e1000_desc * ucast E1000_RX_DESC_COUNT) s1 of None \<Rightarrow> None | Some (s2, rx) \<Rightarrow>
       (case kalloc k (2048 * ucast E1000_RX_DESC_COUNT) s2 of None \<Rightarrow> None | Some (s3, rxb) \<Rightarrow>
        (case kalloc k (2048 * ucast E1000_TX_DESC_COUNT) s3 of None \<Rightarrow> None | Some (s4, txb) \<Rightarrow>
           Some (d\<lparr>tx_descs := tx, rx_descs := rx, rx_buffers := rxb, tx_buffers := txb\<rparr>, s4)))))"

definition e1000_init ::
  "vm_image \<Rightarrow> net_device list \<Rightarrow> e1000 \<Rightarrow> ('d, 'h, 'z) board_scheme \<Rightarrow>
   (net_device list \<times> e1000 \<times> ('d, 'h, 'z) board_scheme) option" where
  "e1000_init k devs d s =
     (let (found, s1) = e1000_find s in
      case found of
        None \<Rightarrow> Some (devs, d, print (''E1000: no supported PCI device found'' @ nl) s1)
      | Some addr \<Rightarrow>
          let s2 = pci_enable addr (push_bit 1 1 OR push_bit 2 1) (print (''Initializing E1000 network driver...'' @ nl) s1);
              (bar, s3) = on_dev (pci_bar addr 0) s2;
              d1 = d\<lparr>e1000_mmio := bar\<rparr>
          in if bar = 0 then Some (devs, d1, print (''E1000: invalid BAR0'' @ nl) s3)
             else
               (case e1000_alloc k d1 s3 of
                  None \<Rightarrow> None
                | Some (d2, s4) \<Rightarrow>
                    if tx_descs d2 = 0 \<or> rx_descs d2 = 0 \<or> rx_buffers d2 = 0 \<or> tx_buffers d2 = 0 then
                      Some (devs, d2, print (''E1000: Memory allocation failed'' @ nl) s4)
                    else Some (e1000_start d2 devs s4)))"

definition e1000_get_device :: "e1000 \<Rightarrow> net_device" where
  "e1000_get_device d = e1000_dev d"

section \<open>Realtek cards\<close>

record rtl8139 =
  rtl_io :: u16
  rtl_rx_buf :: u64
  rtl_tx_buf :: "u64 list"
  rtl_tx_cur :: u32
  rtl_rx_cur :: u32
  rtl_dev :: net_device

definition RTL8139_VENDOR :: u16 where "RTL8139_VENDOR = 0x10EC"
definition RTL8139_DEVICE :: u16 where "RTL8139_DEVICE = 0x8139"
definition RTL_IDR0 :: u16 where "RTL_IDR0 = 0x00"
definition RTL_TXADDR0 :: u16 where "RTL_TXADDR0 = 0x20"
definition RTL_TXSTAT0 :: u16 where "RTL_TXSTAT0 = 0x10"
definition RTL_RBSTART :: u16 where "RTL_RBSTART = 0x30"
definition RTL_CR :: u16 where "RTL_CR = 0x37"
definition RTL_CAPR :: u16 where "RTL_CAPR = 0x38"
definition RTL_IMR :: u16 where "RTL_IMR = 0x3C"
definition RTL_ISR :: u16 where "RTL_ISR = 0x3E"
definition RTL_TCR :: u16 where "RTL_TCR = 0x40"
definition RTL_RCR :: u16 where "RTL_RCR = 0x44"
definition RTL_CONFIG1 :: u16 where "RTL_CONFIG1 = 0x52"
definition RTL_RX_BUF_SIZE :: u64 where "RTL_RX_BUF_SIZE = 8192 + 16 + 1500"

definition rtl_read8 :: "rtl8139 \<Rightarrow> u16 \<Rightarrow> ('d, 'h, 'z) board_scheme \<Rightarrow> u8 \<times> ('d, 'h, 'z) board_scheme" where
  "rtl_read8 r p = on_dev (inb (rtl_io r + p))"

definition rtl_read16 :: "rtl8139 \<Rightarrow> u16 \<Rightarrow> ('d, 'h, 'z) board_scheme \<Rightarrow> u16 \<times> ('d, 'h, 'z) board_scheme" where
  "rtl_read16 r p = on_dev (inw (rtl_io r + p))"

definition rtl_read32 :: "rtl8139 \<Rightarrow> u16 \<Rightarrow> ('d, 'h, 'z) board_scheme \<Rightarrow> u32 \<times> ('d, 'h, 'z) board_scheme" where
  "rtl_read32 r p = on_dev (inl (rtl_io r + p))"

definition rtl_write8 :: "rtl8139 \<Rightarrow> u16 \<Rightarrow> u8 \<Rightarrow> ('d, 'h, 'z) board_scheme \<Rightarrow> ('d, 'h, 'z) board_scheme" where
  "rtl_write8 r p v = upd_dev (hw_outb (rtl_io r + p) v)"

definition rtl_write16 :: "rtl8139 \<Rightarrow> u16 \<Rightarrow> u16 \<Rightarrow> ('d, 'h, 'z) board_scheme \<Rightarrow> ('d, 'h, 'z) board_scheme" where
  "rtl_write16 r p v = upd_dev (outw (rtl_io r + p) v)"

definition rtl_write32 :: "rtl8139 \<Rightarrow> u16 \<Rightarrow> u32 \<Rightarrow> ('d, 'h, 'z) board_scheme \<Rightarrow> ('d, 'h, 'z) board_scheme" where
  "rtl_write32 r p v = upd_dev (outl (rtl_io r + p) v)"

definition rtl8139_send ::
  "u64 \<Rightarrow> u32 \<Rightarrow> rtl8139 \<times> ('d, 'h, 'z) board_scheme \<Rightarrow> rtl8139 \<times> ('d, 'h, 'z) board_scheme" where
  "rtl8139_send data len = (\<lambda>(r, s).
     if rtl_io r = 0 \<or> len > 1518 then (r, s)
     else
       let tx = rtl_tx_cur r AND 3;
           buf = rtl_tx_buf r ! unat tx;
           s1 = set_mem (copy_loop (unat len) buf data (slab_mem s)) s;
           s2 = rtl_write32 r (RTL_TXADDR0 + ucast (tx * 4)) (ucast buf) s1;
           s3 = rtl_write32 r (RTL_TXSTAT0 + ucast (tx * 4)) len s2
       in (r\<lparr>rtl_tx_cur := rtl_tx_cur r + 1\<rparr>, s3))"

partial_function (option) rtl8139_recv_loop ::
  "(u64 \<Rightarrow> u32 \<Rightarrow> ('d, 'h, 'z) board_scheme \<Rightarrow> ('d, 'h, 'z) board_scheme) \<Rightarrow> rtl8139 \<Rightarrow> ('d, 'h, 'z) board_scheme \<Rightarrow>
   (rtl8139 \<times> ('d, 'h, 'z) board_scheme) option" where
  "rtl8139_recv_loop callback r s =
     (let (cr, s0) = rtl_read8 r RTL_CR s
      in if cr AND 1 \<noteq> 0 then Some (r, s0)
         else
           let s1 = dma s0;
               pkt = rtl_rx_buf r + ucast (rtl_rx_cur r mod 8192);
               status = (load (slab_mem s1) pkt :: u16);
               len = (load (slab_mem s1) (pkt + 2) :: u16);
               s2 = (if status AND 1 \<noteq> 0 \<and> 4 \<le> len then callback (pkt + 4) (ucast (len - 4)) s1 else s1);
               cur = (rtl_rx_cur r + ucast len + 4 + 3) AND NOT 3;
               r' = r\<lparr>rtl_rx_cur := cur\<rparr>
           in rtl8139_recv_loop callback r' (rtl_write16 r' RTL_CAPR (ucast (cur - 16)) s2))"

definition rtl8139_recv ::
  "(u64 \<Rightarrow> u32 \<Rightarrow> ('d, 'h, 'z) board_scheme \<Rightarrow> ('d, 'h, 'z) board_scheme) option \<Rightarrow> rtl8139 \<Rightarrow>
   ('d, 'h, 'z) board_scheme \<Rightarrow> (rtl8139 \<times> ('d, 'h, 'z) board_scheme) option" where
  "rtl8139_recv callback r s =
     (case callback of
        None \<Rightarrow> Some (r, s)
      | Some cb \<Rightarrow>
          if rtl_io r = 0 then Some (r, s)
          else map_option (\<lambda>(r1, s1). let (isr, s2) = rtl_read16 r1 RTL_ISR s1 in (r1, rtl_write16 r1 RTL_ISR isr s2))
                 (rtl8139_recv_loop cb r s))"

fun kallocs :: "vm_image \<Rightarrow> u64 list \<Rightarrow> 'a kheap_scheme \<Rightarrow> (u64 list \<times> 'a kheap_scheme) option" where
  "kallocs k [] s = Some ([], s)"
| "kallocs k (n # ns) s =
     (case kalloc k n s of
        None \<Rightarrow> None
      | Some (s1, p) \<Rightarrow> map_option (\<lambda>(ps, s2). (p # ps, s2)) (kallocs k ns s1))"

fun rtl_read_mac :: "rtl8139 \<Rightarrow> nat list \<Rightarrow> ('d, 'h, 'z) board_scheme \<Rightarrow> bytes \<times> ('d, 'h, 'z) board_scheme" where
  "rtl_read_mac r [] s = ([], s)"
| "rtl_read_mac r (i # is) s =
     (let (b, s1) = rtl_read8 r (RTL_IDR0 + of_nat i) s; (bs, s2) = rtl_read_mac r is s1 in (b # bs, s2))"

definition rtl8139_start ::
  "rtl8139 \<Rightarrow> net_device list \<Rightarrow> ('d, 'h, 'z) board_scheme \<Rightarrow> net_device list \<times> rtl8139 \<times> ('d, 'h, 'z) board_scheme" where
  "rtl8139_start r devs s =
     (let s1 = rtl_write8 r RTL_CR 0x10 (rtl_write8 r RTL_CONFIG1 0 s);
          s2 = spin_until 100000 (\<lambda>s. let (v, s') = rtl_read8 r RTL_CR s in (v AND 0x10 = 0, s')) s1;
          (mac, s3) = rtl_read_mac r [0..<ETH_ALEN] s2;
          dev = \<lparr>dev_name = ascii ''rtl8139'', dev_mac = mac, dev_ip = 0, dev_driver = Nic_rtl8139\<rparr>;
          s4 = rtl_write32 r RTL_RBSTART (ucast (rtl_rx_buf r)) s3;
          s5 = rtl_write16 r RTL_IMR 0 s4;
          s6 = rtl_write32 r RTL_RCR (0x00000F OR push_bit 7 1) s5;
          s7 = rtl_write32 r RTL_TCR 0x03000000 s6;
          s8 = rtl_write8 r RTL_CR 0x0C s7;
          (devs', s9) = net_register_device dev devs s8
      in (devs', r\<lparr>rtl_dev := dev\<rparr>, print (''RTL8139 driver initialized'' @ nl) s9))"

definition rtl8139_init ::
  "vm_image \<Rightarrow> net_device list \<Rightarrow> rtl8139 \<Rightarrow> ('d, 'h, 'z) board_scheme \<Rightarrow>
   (net_device list \<times> rtl8139 \<times> ('d, 'h, 'z) board_scheme) option" where
  "rtl8139_init k devs r s =
     (let (found, s1) = on_dev (pci_find_device RTL8139_VENDOR RTL8139_DEVICE) s in
      case found of
        None \<Rightarrow> Some (devs, r, print (''RTL8139: no PCI device found'' @ nl) s1)
      | Some addr \<Rightarrow>
          let (bar, s2) = on_dev (pci_bar addr 0) s1
          in if bar AND 1 = 0 then Some (devs, r, print (''RTL8139: MMIO BAR detected; PIO path unavailable'' @ nl) s2)
             else
               let r1 = r\<lparr>rtl_io := ucast (bar AND 0xFFFFFFFC)\<rparr>;
                   s3 = pci_enable addr (push_bit 0 1 OR push_bit 2 1) s2
               in (case kallocs k [RTL_RX_BUF_SIZE, 2048, 2048, 2048, 2048] s3 of
                     None \<Rightarrow> None
                   | Some (ps, s4) \<Rightarrow>
                       let r2 = r1\<lparr>rtl_rx_buf := hd ps, rtl_tx_buf := tl ps\<rparr>
                       in if 0 \<in> set ps then Some (devs, r2, print (''RTL8139: allocation failed'' @ nl) s4)
                          else Some (rtl8139_start r2 devs s4)))"

section \<open>Cards that are only reported\<close>

definition rtl8169_init :: "('d, 'h, 'z) board_scheme \<Rightarrow> ('d, 'h, 'z) board_scheme" where
  "rtl8169_init s =
     (let (found, s1) = find_devices 0x10EC [0x8168, 0x8169, 0x8125] s
      in if found \<noteq> None then print (''RTL8169/RTL8168/RTL8125: device detected; packet I/O unavailable in this build'' @ nl) s1
         else print (''RTL8169: no PCI device found'' @ nl) s1)"

definition virtio_net_init :: "('d, 'h, 'z) board_scheme \<Rightarrow> ('d, 'h, 'z) board_scheme" where
  "virtio_net_init s =
     (let (found, s1) = find_devices 0x1AF4 [0x1000, 0x1041] s
      in if found \<noteq> None then print (''virtio-net: device detected; packet I/O unavailable in this build'' @ nl) s1
         else print (''virtio-net: no PCI device found'' @ nl) s1)"

section \<open>The Realtek driver never starts\<close>

lemma bar_no_io_bit: "fst (pci_bar addr i s) AND 1 = 0"
proof -
  have "\<not> bit (fst (pci_bar addr i s)) 0"
    by (auto simp: pci_bar_def Let_def bit_simps split: prod.splits if_splits)
  then show ?thesis by (simp add: and_one_eq mod_2_eq_odd bit_0)
qed

text \<open>C37.
  The driver of the RTL8139 never starts.  It looks for the bit that marks a base address as an I/O
  port in the value of \<^verbatim>\<open>pci_bar\<close>, which has that bit cleared, so on every machine it returns without
  registering a device and without setting up the card.
\<close>

theorem rtl8139_never_starts: "\<exists>s'. rtl8139_init k devs r s = Some (devs, r, s')"
proof -
  obtain found s1 where f: "on_dev (pci_find_device RTL8139_VENDOR RTL8139_DEVICE) s = (found, s1)" by fastforce
  show ?thesis
  proof (cases found)
    case (Some addr)
    obtain bar s2 where b: "on_dev (pci_bar addr 0) s1 = (bar, s2)" by fastforce
    then have "bar AND 1 = 0" using bar_no_io_bit [of addr 0 "kdev s1"] by (auto simp: on_dev_def Let_def split: prod.splits)
    then show ?thesis by (simp add: rtl8139_init_def f Some b)
  qed (simp add: rtl8139_init_def f)
qed

end
