(* ===== verification/Net_Props.thy ===== *)
theory Net_Props
  imports Net
begin

section \<open>The checksum\<close>

fun word_sum :: "bytes \<Rightarrow> nat" where
  "word_sum (a # b # bs) = unat a + 256 * unat b + word_sum bs"
| "word_sum [a] = unat a"
| "word_sum [] = 0"

lemma unat_ucast8: "unat (ucast (a :: u8) :: u32) = unat a"
  using vector_less [of a] by (simp add: unsigned_ucast_eq take_bit_nat_eq_self)

lemma le_word_nat: "unat (ucast (a :: u8) OR push_bit 8 (ucast (b :: u8)) :: u32) = unat a + 256 * unat b"
proof -
  have "ucast a OR push_bit 8 (ucast b) = (ucast a + push_bit 8 (ucast b) :: u32)"
    by (rule disjunctive_add [symmetric]) (auto simp: bit_simps dest: bit_imp_le_length)
  moreover have "push_bit 8 (ucast b :: u32) = of_nat (256 * unat b)" by (simp add: push_bit_eq_mult)
  moreover have "unat (of_nat (256 * unat b) :: u32) = 256 * unat b"
    using vector_less [of b] by (simp only: unat_of_nat) simp
  ultimately show ?thesis using vector_less [of a] vector_less [of b]
    by (simp add: unat_add_lem [THEN iffD1] unat_ucast8 del: of_nat_mult)
qed

lemma checksum_sum_nat: "unat acc + word_sum bs < 2 ^ 32 \<Longrightarrow> unat (checksum_sum bs acc) = unat acc + word_sum bs"
proof (induction bs acc rule: checksum_sum.induct)
  case (1 a b bs acc)
  then show ?case using unat_add_lem [of acc "ucast a OR push_bit 8 (ucast b)"] by (simp add: le_word_nat)
next
  case (2 a acc)
  then show ?case using unat_add_lem [of acc "ucast a"] by (simp add: unat_ucast8)
qed simp

lemma word_sum_bound: "word_sum bs \<le> 65535 * ((length bs + 1) div 2)"
proof (induction bs rule: word_sum.induct)
  case (1 a b bs)
  then show ?case using vector_less [of a] vector_less [of b] by simp
next
  case (2 a)
  then show ?case using vector_less [of a] by simp
qed simp

lemma word_sum_append: "even (length bs) \<Longrightarrow> word_sum (bs @ cs) = word_sum bs + word_sum cs"
  by (induction bs rule: word_sum.induct) auto

lemma checksum_fold_spec:
  "unat (checksum_fold acc) \<le> 65535 \<and> unat (checksum_fold acc) mod 65535 = unat acc mod 65535 \<and>
   (0 < unat acc \<longleftrightarrow> 0 < unat (checksum_fold acc))"
proof (induction acc rule: checksum_fold.induct)
  case (1 acc)
  show ?case
  proof (cases "drop_bit 16 acc = 0")
    case True
    then have "unat acc < 65536" using checksum_high [of acc] by simp
    then show ?thesis using True by (simp add: checksum_fold.simps)
  next
    case False
    have big: "65536 \<le> unat acc" using False checksum_high [of acc] by simp
    have "unat acc = unat acc mod 65536 + unat acc div 65536 + 65535 * (unat acc div 65536)" by simp
    then have "(unat acc mod 65536 + unat acc div 65536) mod 65535 = unat acc mod 65535" by (metis mod_mult_self2)
    moreover have "0 < unat acc div 65536" using big by simp
    ultimately show ?thesis using 1 [OF False] False by (simp add: checksum_fold.simps [of acc] checksum_fold_nat)
  qed
qed

lemma mem_read_store_after:
  assumes "n + 2 \<le> 2 ^ 64"
  shows "mem_read (store m (a + of_nat n) (v :: u16)) a (n + 2) = mem_read m a n @ [ucast v, ucast (drop_bit 8 v)]"
proof -
  have "mem_read (store m (a + of_nat n) v) a n = mem_read m a n"
  proof (rule nth_equalityI)
    fix i assume "i < length (mem_read (store m (a + of_nat n) v) a n)"
    then have i: "i < n" by simp
    have "unat (a + of_nat i - (a + of_nat n)) = 2 ^ 64 - (n - i)"
    proof -
      have "a + of_nat i - (a + of_nat n) = - of_nat (n - i)" using i by (simp add: of_nat_diff)
      also have "\<dots> = of_nat (2 ^ 64 - (n - i))" using i assms by (simp add: of_nat_diff)
      also have "unat \<dots> = 2 ^ 64 - (n - i)" using i assms by (simp only: unat_of_nat) simp
      finally show ?thesis .
    qed
    then have "\<not> unat (a + of_nat i - (a + of_nat n)) < 2" using i assms by simp
    then show "mem_read (store m (a + of_nat n) v) a n ! i = mem_read m a n ! i"
      using i by (simp add: mem_read_def store_def Let_def)
  qed simp
  moreover have "mem_read (store m (a + of_nat n) v) (a + of_nat n) 2 = [ucast v, ucast (drop_bit 8 v)]"
    by (simp add: mem_read_def store_def numeral_2_eq_2)
  ultimately show ?thesis by (simp only: mem_read_add)
qed

lemma u16_split: "unat (ucast (v :: u16) :: u8) + 256 * unat (ucast (drop_bit 8 v) :: u8) = unat v"
proof -
  have "unat v < 2 ^ 16" using unsigned_less [of v] by simp
  moreover have "unat (drop_bit 8 v) = unat v div 256" by (subst unat_drop_bit_eq) (simp add: drop_bit_eq_div)
  ultimately show ?thesis by (simp add: unsigned_ucast_eq take_bit_eq_mod)
qed

lemma not16: "unat f \<le> 65535 \<Longrightarrow> unat (ucast (NOT f) :: u16) = 65535 - unat (f :: u32)"
proof -
  assume f: "unat f \<le> 65535"
  have "ucast (NOT f) = (NOT (ucast f) :: u16)" by (rule bit_word_eqI) (auto simp: bit_simps)
  moreover have "NOT (ucast f) = (- 1 - ucast f :: u16)" by (simp add: not_eq_complement)
  moreover have "unat (ucast f :: u16) = unat f" using f by (simp add: unsigned_ucast_eq take_bit_eq_mod)
  ultimately show ?thesis by (simp add: unat_sub word_le_nat_alt unsigned_minus_1_eq_mask mask_eq_exp_minus_1 f)
qed

text \<open>C36.
  The checksum of the network stack verifies.  When the checksum of an even number of bytes, at most
  131072, is stored behind them, the checksum over all of it is 0.
\<close>

theorem net_checksum_verifies:
  assumes "even (unat n)" "unat n \<le> 131072"
  shows "net_checksum (store m (a + ucast n) (net_checksum m a n)) a (n + 2) = 0"
proof -
  let ?bs = "mem_read m a (unat n)" and ?c = "net_checksum m a n"
  let ?f = "checksum_fold (checksum_sum ?bs 0)"
  have b: "word_sum ?bs \<le> 65535 * 65536"
  proof -
    have "(unat n + 1) div 2 \<le> 65536" using assms by simp
    then show ?thesis using word_sum_bound [of ?bs] by simp
  qed
  have s: "unat (checksum_sum ?bs 0) = word_sum ?bs" using b checksum_sum_nat [of 0 ?bs] by simp
  note f = checksum_fold_spec [of "checksum_sum ?bs 0", unfolded s]
  have c: "unat ?c = 65535 - unat ?f" using f not16 by (simp add: net_checksum_def)
  have n2: "unat (n + 2) = unat n + 2" using assms unat_add_lem [of n 2] by simp
  let ?cs = "?bs @ [ucast ?c, ucast (drop_bit 8 ?c)]"
  have r: "mem_read (store m (a + ucast n) ?c) a (unat n + 2) = ?cs"
    using mem_read_store_after [of "unat n" m a ?c] assms by simp
  have w: "word_sum ?cs = word_sum ?bs + (65535 - unat ?f)"
    using u16_split [of ?c] c assms by (simp add: word_sum_append)
  then have t: "unat (checksum_sum ?cs 0) = word_sum ?bs + (65535 - unat ?f)"
    using b checksum_sum_nat [of 0 ?cs] by simp
  have "(word_sum ?bs + (65535 - unat ?f)) mod 65535 = (unat ?f + (65535 - unat ?f)) mod 65535"
    using f by (metis mod_add_left_eq)
  then have z: "(word_sum ?bs + (65535 - unat ?f)) mod 65535 = 0" using f by simp
  have "0 < word_sum ?bs + (65535 - unat ?f)" using f by (cases "word_sum ?bs = 0") auto
  then have "unat (checksum_fold (checksum_sum ?cs 0)) = 65535"
    using checksum_fold_spec [of "checksum_sum ?cs 0", unfolded t] z by (auto simp: mod_eq_0_iff_dvd elim!: dvdE)
  then have "unat (net_checksum (store m (a + ucast n) ?c) a (n + 2)) = 0"
    using not16 [of "checksum_fold (checksum_sum ?cs 0)"] unfolding net_checksum_def [of "store m (a + ucast n) ?c"] n2 r by simp
  then show ?thesis by (simp only: unat_eq_zero)
qed

theorem net_checksum_verifies_witness:
  "net_checksum (store (\<lambda>x. ucast x) (0x1000 + 20) (net_checksum (\<lambda>x. ucast x) 0x1000 20)) 0x1000 22 = 0"
  using net_checksum_verifies [of 20 "\<lambda>x. ucast x" "0x1000"] by simp

section \<open>The transmit ring\<close>

text \<open>
  Every descriptor holds the address of a buffer of its own, the ring and the buffers are apart from
  each other and do not wrap around.
\<close>

definition tx_layout :: "e1000 \<Rightarrow> bool" where
  "tx_layout d \<longleftrightarrow>
     (let D = unat (tx_descs d); B = unat (tx_buffers d)
      in D + 18 * 128 \<le> 2 ^ 64 \<and> B + 2048 * 128 \<le> 2 ^ 64 \<and> (D + 18 * 128 \<le> B \<or> B + 2048 * 128 \<le> D))"

definition tx_ring :: "e1000 \<Rightarrow> mem \<Rightarrow> bool" where
  "tx_ring d m \<longleftrightarrow> tx_layout d \<and> unat (tx_index d) < 128 \<and>
     (\<forall>i < 128. load m (e1000_desc (tx_descs d) (of_nat i)) = tx_buffers d + of_nat (i * 2048))"

lemma tx_places:
  assumes "tx_layout d" "i < 128"
  shows "unat (e1000_desc (tx_descs d) (of_nat i)) = unat (tx_descs d) + 18 * i"
    "unat (tx_buffers d + of_nat (i * 2048)) = unat (tx_buffers d) + 2048 * i"
    "j < 18 \<Longrightarrow> unat (e1000_desc (tx_descs d) (of_nat i) + of_nat j) = unat (tx_descs d) + 18 * i + j"
proof -
  have w: "(ucast (of_nat i :: u32) :: u64) = of_nat i" using assms(2) by (simp add: unsigned_of_nat take_bit_nat_eq_self)
  have off: "unat (a + of_nat n :: u64) = unat a + n" if "unat a + n < 2 ^ 64" for a n
    using unat_offset [of a 0 n] that by simp
  have e: "e1000_desc (tx_descs d) (of_nat i) + of_nat j = tx_descs d + of_nat (18 * i + j)" for j
    by (simp add: e1000_desc_def sizeof_e1000_desc_def w)
  show "unat (e1000_desc (tx_descs d) (of_nat i)) = unat (tx_descs d) + 18 * i"
    using e [of 0] assms by (simp add: off tx_layout_def Let_def del: of_nat_add of_nat_mult)
  show "unat (tx_buffers d + of_nat (i * 2048)) = unat (tx_buffers d) + 2048 * i"
    using assms by (simp add: off tx_layout_def Let_def del: of_nat_add of_nat_mult)
  show "j < 18 \<Longrightarrow> unat (e1000_desc (tx_descs d) (of_nat i) + of_nat j) = unat (tx_descs d) + 18 * i + j"
    unfolding e using assms by (simp add: off tx_layout_def Let_def del: of_nat_add of_nat_mult)
qed

lemma init_descs_ring:
  assumes "tx_layout d" "n \<le> 128"
  shows "(\<forall>i < n. load (init_descs (tx_descs d) (tx_buffers d) st n m) (e1000_desc (tx_descs d) (of_nat i)) =
      tx_buffers d + of_nat (i * 2048)) \<and>
    changes m (init_descs (tx_descs d) (tx_buffers d) st n m) {unat (tx_descs d) ..< unat (tx_descs d) + 18 * n}"
  using assms(2)
proof (induction n)
  case (Suc n)
  let ?a = "e1000_desc (tx_descs d) (of_nat n)" and ?m = "init_descs (tx_descs d) (tx_buffers d) st n m"
  let ?m1 = "store ?m ?a (tx_buffers d + of_nat (n * 2048))"
  let ?m2 = "?m1(?a + desc_status := st)"
  have n: "n < 128" using Suc.prems by simp
  note p = tx_places [OF assms(1) n]
  have fit: "unat (tx_descs d) + 18 * n + 18 \<le> 2 ^ 64" using assms(1) n by (simp add: tx_layout_def Let_def)
  have i: "init_descs (tx_descs d) (tx_buffers d) st (Suc n) m = ?m2" by (simp add: init_descs_def)
  have s: "unat (?a + desc_status) = unat (tx_descs d) + 18 * n + 13" using p(3) [of 13] by (simp add: desc_status_def)
  have c1: "changes ?m ?m1 {unat ?a ..< unat ?a + 8}" using changes_store [of ?a ?m "tx_buffers d + of_nat (n * 2048)"] p(1) fit by simp
  have c2: "changes ?m1 ?m2 {unat ?a + 13}" using s p(1) by (intro changes_byte) simp
  have l: "load ?m2 (e1000_desc (tx_descs d) (of_nat j)) = tx_buffers d + of_nat (j * 2048)" if "j < Suc n" for j
  proof (cases "j = n")
    case True
    have "load ?m2 ?a = (load ?m1 ?a :: u64)" by (rule changes_load [OF c2]) (use p(1) fit in auto)
    then show ?thesis using True by simp
  next
    case False
    then have j: "j < n" using that by simp
    note q = tx_places(1) [OF assms(1), of j]
    let ?b = "e1000_desc (tx_descs d) (of_nat j)"
    have "load ?m2 ?b = (load ?m1 ?b :: u64)" by (rule changes_load [OF c2]) (use p(1) q j n fit in auto)
    also have "\<dots> = load ?m ?b" by (rule changes_load [OF c1]) (use p(1) q j n fit in auto)
    finally show ?thesis using Suc j by simp
  qed
  have "changes m ?m {unat (tx_descs d) ..< unat (tx_descs d) + 18 * Suc n}" using Suc changes_mono by fastforce
  moreover have "changes ?m ?m1 {unat (tx_descs d) ..< unat (tx_descs d) + 18 * Suc n}" using c1 by (rule changes_mono) (use p(1) in auto)
  moreover have "changes ?m1 ?m2 {unat (tx_descs d) ..< unat (tx_descs d) + 18 * Suc n}" using c2 by (rule changes_mono) (use p(1) in auto)
  ultimately show ?case unfolding i using l changes_trans by blast
qed (simp add: init_descs_def)

lemma e1000_fill_steps:
  fixes len :: u32 defines "k \<equiv> min (unat len) 1518"
  assumes "tx_ring d m" "unat data + k \<le> 2 ^ 64"
    and apart: "{unat data ..< unat data + k} \<inter> {unat (tx_buffers d) ..< unat (tx_buffers d) + 2048 * 128} = {}"
  defines "i \<equiv> unat (tx_index d)"
  defines "desc \<equiv> unat (tx_descs d) + 18 * i" and "buf \<equiv> unat (tx_buffers d) + 2048 * i"
  shows "changes m (e1000_fill d data len m) ({buf ..< buf + k} \<union> {desc + 8 ..< desc + 14})"
    and "mem_read (e1000_fill d data len m) (tx_buffers d + of_nat (i * 2048)) k = mem_read m data k"
    and "load (e1000_fill d data len m) (e1000_desc (tx_descs d) (tx_index d) + desc_length) = (ucast len :: u16)"
    and "e1000_fill d data len m (e1000_desc (tx_descs d) (tx_index d) + desc_cmd) = 0x0B"
    and "e1000_fill d data len m (e1000_desc (tx_descs d) (tx_index d) + desc_status) = 0"
proof -
  have K1: "k \<le> 1518" by (simp add: k_def)
  have lay: "tx_layout d" and i: "i < 128" using assms(2) by (auto simp: tx_ring_def i_def)
  have ix: "tx_index d = of_nat i" by (simp add: i_def)
  let ?a = "e1000_desc (tx_descs d) (of_nat i)" and ?b = "tx_buffers d + of_nat (i * 2048)"
  note p = tx_places [OF lay i]
  have bound: "desc + 18 \<le> 2 ^ 64" "buf + 2048 \<le> 2 ^ 64" "desc + 18 \<le> buf \<or> buf + 2048 \<le> desc"
    "buf + 2048 \<le> unat (tx_buffers d) + 2048 * 128"
    using lay i by (auto simp: tx_layout_def Let_def desc_def buf_def)
  have ub: "unat ?b = buf" "unat ?a = desc" using p by (simp_all add: buf_def desc_def)
  have uo: "unat (?a + desc_length) = desc + 8" "unat (?a + desc_cmd) = desc + 12" "unat (?a + desc_status) = desc + 13"
    using p(3) [of 8] p(3) [of 12] p(3) [of 13] by (simp_all add: desc_length_def desc_cmd_def desc_status_def desc_def)
  have off: "unat (a + of_nat n :: u64) = unat a + n" if "unat a + n < 2 ^ 64" for a n
    using unat_offset [of a 0 n] that by simp
  let ?m1 = "mem_copy_in m ?b (mem_read m data k)"
  have "copy_loop k ?b data m = ?m1"
  proof (rule copy_loop_apart, intro allI impI)
    fix x y assume "x < k" "y < k"
    moreover from this have "unat (?b + of_nat x) = buf + x" "unat (data + of_nat y) = unat data + y"
      using off [of ?b x] off [of data y] K1 assms(3) bound(2) by (simp_all add: ub del: of_nat_mult)
    moreover have "buf + x < unat (tx_buffers d) + 2048 * 128" "unat (tx_buffers d) \<le> buf"
      using bound(4) K1 \<open>x < k\<close> by (simp_all add: buf_def)
    ultimately show "?b + of_nat x \<noteq> data + of_nat y" using apart by (auto simp: disjoint_iff)
  qed
  moreover have "load m ?a = ?b" using assms(2) i by (simp add: tx_ring_def)
  ultimately have f: "e1000_fill d data len m =
      ((store ?m1 (?a + desc_length) (ucast len :: u16))(?a + desc_cmd := 0x0B))(?a + desc_status := 0)"
    unfolding e1000_fill_def ix k_def by (simp only: Let_def)
  let ?m2 = "store ?m1 (?a + desc_length) (ucast len :: u16)"
  let ?m3 = "?m2(?a + desc_cmd := 0x0B)"
  let ?m4 = "?m3(?a + desc_status := 0)"
  have c1: "changes m ?m1 {buf ..< buf + k}"
    using changes_copy_in [of ?b "mem_read m data k" m] bound(2) K1 by (simp add: ub del: of_nat_mult)
  have c2: "changes ?m1 ?m2 {desc + 8 ..< desc + 10}"
    using changes_store [of "?a + desc_length" ?m1 "ucast len :: u16"] bound(1) by (simp add: uo add.commute [of 10])
  have c3: "changes ?m2 ?m4 {desc + 12, desc + 13}"
    by (rule changes_trans [of _ ?m3]) (simp_all add: changes_byte uo)
  have c24: "changes ?m1 ?m4 {desc + 8 ..< desc + 14}"
    by (rule changes_trans [of _ ?m2], rule changes_mono [OF c2], force, rule changes_mono [OF c3], force)
  show "changes m (e1000_fill d data len m) ({buf ..< buf + k} \<union> {desc + 8 ..< desc + 14})"
    unfolding f by (rule changes_trans [of _ ?m1], rule changes_mono [OF c1], force, rule changes_mono [OF c24], force)
  have "mem_read ?m4 ?b k = mem_read ?m1 ?b k"
    by (rule changes_read [OF c24]) (use ub bound K1 in auto)
  also have "\<dots> = mem_read m data k"
    using mem_read_copy [of "mem_read m data k" m ?b] K1 by simp
  finally show "mem_read (e1000_fill d data len m) (tx_buffers d + of_nat (i * 2048)) k = mem_read m data k"
    unfolding f .
  have "load ?m4 (?a + desc_length) = (load ?m2 (?a + desc_length) :: u16)"
    by (rule changes_load [OF c3]) (use uo bound in auto)
  moreover have "load ?m2 (?a + desc_length) = (ucast len :: u16)" by (rule load_store_same) simp_all
  ultimately show "load (e1000_fill d data len m) (e1000_desc (tx_descs d) (tx_index d) + desc_length) = (ucast len :: u16)"
    unfolding f ix by simp
  have "?a + desc_cmd \<noteq> ?a + desc_status" by (simp add: desc_cmd_def desc_status_def)
  then show "e1000_fill d data len m (e1000_desc (tx_descs d) (tx_index d) + desc_cmd) = 0x0B"
    and "e1000_fill d data len m (e1000_desc (tx_descs d) (tx_index d) + desc_status) = 0"
    unfolding f ix by simp_all
qed

lemma e1000_fill_ring:
  assumes "tx_ring d m" "changes m m' ({buf ..< buf + n} \<union> {desc + 8 ..< desc + 14})" "n \<le> 1518"
    and "desc = unat (tx_descs d) + 18 * unat (tx_index d)" "buf = unat (tx_buffers d) + 2048 * unat (tx_index d)"
  shows "tx_ring (d\<lparr>tx_index := (tx_index d + 1) mod E1000_TX_DESC_COUNT\<rparr>) m'"
proof -
  have lay: "tx_layout d" and i: "unat (tx_index d) < 128" using assms(1) by (auto simp: tx_ring_def)
  have "load m' (e1000_desc (tx_descs d) (of_nat j)) = tx_buffers d + of_nat (j * 2048)" if j: "j < 128" for j
  proof -
    let ?a = "e1000_desc (tx_descs d) (of_nat j)"
    have ua: "unat ?a = unat (tx_descs d) + 18 * j" by (rule tx_places(1) [OF lay j])
    have "{unat ?a ..< unat ?a + 8} \<inter> {buf ..< buf + n} = {}"
      using lay i j assms(3) unfolding ua assms(5) by (auto simp: tx_layout_def Let_def)
    moreover have "{unat ?a ..< unat ?a + 8} \<inter> {desc + 8 ..< desc + 14} = {}"
    proof (cases "j \<le> unat (tx_index d)")
      case True
      then show ?thesis unfolding ua assms(4) by auto
    next
      case False
      then have "18 * unat (tx_index d) + 18 \<le> 18 * j" by simp
      then show ?thesis unfolding ua assms(4) by auto
    qed
    moreover have "unat ?a + 8 \<le> 2 ^ 64" using lay j unfolding ua by (simp add: tx_layout_def Let_def)
    ultimately have "load m' ?a = (load m ?a :: u64)" by (intro changes_load [OF assms(2)]) auto
    then show ?thesis using assms(1) j by (simp add: tx_ring_def)
  qed
  moreover have "unat ((tx_index d + 1) mod E1000_TX_DESC_COUNT) < 128"
    by (simp add: E1000_TX_DESC_COUNT_def unat_mod)
  ultimately show ?thesis using lay by (simp add: tx_ring_def tx_layout_def)
qed

text \<open>C35.
  What the card is handed.  While every descriptor of the transmit ring holds the address of its own
  buffer, which \<^verbatim>\<open>e1000_init\<close> establishes, preparing a packet of any length puts its first 1518 bytes,
  or all of it if it is shorter, into the buffer of the current descriptor, and the low 16 bits of
  its full length, the command and a cleared status into the descriptor; it changes no other byte
  of memory and keeps the ring as it was.  So a packet of at most 1518 bytes is handed over whole,
  and a longer one is cut while its full length is announced.
\<close>

theorem e1000_packet_ready:
  fixes len :: u32
  defines "k \<equiv> min (unat len) 1518"
  assumes "tx_ring d m" "unat data + k \<le> 2 ^ 64"
    and "{unat data ..< unat data + k} \<inter> {unat (tx_buffers d) ..< unat (tx_buffers d) + 2048 * 128} = {}"
  shows "let i = unat (tx_index d); m' = e1000_fill d data len m; desc = e1000_desc (tx_descs d) (tx_index d);
      D = unat (tx_descs d) + 18 * i; B = unat (tx_buffers d) + 2048 * i
    in mem_read m' (load m desc) k = mem_read m data k \<and>
       load m' (desc + desc_length) = (ucast len :: u16) \<and> m' (desc + desc_cmd) = 0x0B \<and> m' (desc + desc_status) = 0 \<and>
       changes m m' ({B ..< B + k} \<union> {D + 8 ..< D + 14}) \<and>
       tx_ring (d\<lparr>tx_index := (tx_index d + 1) mod E1000_TX_DESC_COUNT\<rparr>) m'"
proof -
  have "load m (e1000_desc (tx_descs d) (of_nat (unat (tx_index d)))) = tx_buffers d + of_nat (unat (tx_index d) * 2048)"
    using assms(2) unfolding tx_ring_def by blast
  then have a: "load m (e1000_desc (tx_descs d) (tx_index d)) = tx_buffers d + of_nat (unat (tx_index d) * 2048)" by simp
  note steps = e1000_fill_steps [OF assms(2-4) [unfolded k_def], folded k_def]
  have "k \<le> 1518" by (simp add: k_def)
  then show ?thesis
    unfolding Let_def a using steps e1000_fill_ring [OF assms(2) steps(1) _ refl refl] by blast
qed

definition demo_e1000 :: e1000 where
  "demo_e1000 = \<lparr>e1000_mmio = 0xFEB00000, tx_descs = 0x10000, rx_descs = 0x11000, rx_buffers = 0x100000, tx_buffers = 0x200000,
     e1000_dev = \<lparr>dev_name = [], dev_mac = [], dev_ip = 0, dev_driver = Nic_e1000\<rparr>, tx_index = 127\<rparr>"

theorem e1000_packet_ready_witness:
  "let m = init_descs 0x10000 0x200000 1 128 (\<lambda>_. 7); m1 = e1000_fill demo_e1000 0x5000 64 m; m2 = e1000_fill demo_e1000 0x5000 2000 m
   in mem_read m1 (load m (e1000_desc 0x10000 127)) 64 = mem_read m 0x5000 64 \<and> tx_ring (demo_e1000\<lparr>tx_index := 0\<rparr>) m1 \<and>
      mem_read m2 (load m (e1000_desc 0x10000 127)) 1518 = mem_read m 0x5000 1518 \<and>
      load m2 (e1000_desc 0x10000 127 + desc_length) = (2000 :: u16)"
proof -
  have l: "tx_layout demo_e1000" by (simp add: tx_layout_def demo_e1000_def)
  have ring: "tx_ring demo_e1000 (init_descs 0x10000 0x200000 1 128 (\<lambda>_. 7))"
    using l init_descs_ring [OF l, of 128 1 "\<lambda>_. 7"] by (simp add: tx_ring_def) (simp add: demo_e1000_def)
  from e1000_packet_ready [OF ring, of "0x5000" 64] e1000_packet_ready [OF ring, of "0x5000" 2000] show ?thesis
    by (simp add: Let_def demo_e1000_def E1000_TX_DESC_COUNT_def)
qed

section \<open>Frames as they come from the wire\<close>

text \<open>
  The stack ignores every IPv4 and every ARP frame.  The type of a frame is compared as a number of
  the processor, not in the order of the network, so a frame with the bytes 08 00 or 08 06 of the
  wire changes nothing and nothing is reported.
\<close>

theorem wire_frames_ignored:
  assumes "slab_mem s (data + 12) = 0x08" "slab_mem s (data + 13) = 0x00 \<or> slab_mem s (data + 13) = 0x06"
  shows "net_handle_packet data len s = s"
proof -
  have "load (slab_mem s) (data + 12) = (ucast (slab_mem s (data + 12)) OR push_bit 8 (ucast (slab_mem s (data + 13))) :: u16)"
    by (simp add: load_def numeral_2_eq_2 ac_simps)
  then have "load (slab_mem s) (data + 12) \<in> {0x0008, 0x0608 :: u16}" using assms by auto
  then show ?thesis by (auto simp: net_handle_packet_def ETH_P_IP_def ETH_P_ARP_def Let_def)
qed

theorem wire_frames_ignored_witness:
  "net_handle_packet 0x6000 64 (set_mem (\<lambda>x. if x = 0x600C then 8 else 0) demo_board) =
     set_mem (\<lambda>x. if x = 0x600C then 8 else 0) demo_board"
  by (rule wire_frames_ignored) (simp_all add: set_mem_def)

end
