(* ===== verification/Audio.thy ===== *)
theory Audio
  imports Net
begin

text \<open>
  The sound controllers, \<^verbatim>\<open>src/src/drivers/audio/ac97.c\<close> and \<^verbatim>\<open>src/src/drivers/audio/hda.c\<close>: finding
  them and bringing them out of reset.
\<close>

section \<open>AC97\<close>

definition AC97_VENDOR_INTEL :: u16 where "AC97_VENDOR_INTEL = 0x8086"
definition AC97_DEVICE_ICH :: u16 where "AC97_DEVICE_ICH = 0x2415"
definition AC97_DEVICE_ICH2 :: u16 where "AC97_DEVICE_ICH2 = 0x2445"
definition AC97_DEVICE_ICH4 :: u16 where "AC97_DEVICE_ICH4 = 0x24C5"
definition AC97_DEVICE_QEMU :: u16 where "AC97_DEVICE_QEMU = 0x266E"

definition ac97_find :: "('d, 'h, 'z) board_scheme \<Rightarrow> PciAddress option \<times> ('d, 'h, 'z) board_scheme" where
  "ac97_find s =
     (let (found, s1) = find_devices AC97_VENDOR_INTEL [AC97_DEVICE_ICH, AC97_DEVICE_ICH2, AC97_DEVICE_ICH4, AC97_DEVICE_QEMU] s
      in case found of Some a \<Rightarrow> (Some a, s1) | None \<Rightarrow> on_dev (pci_find_class 0x04 0x01 0x00) s1)"

definition ac97_init :: "('d, 'h, 'z) board_scheme \<Rightarrow> ('d, 'h, 'z) board_scheme" where
  "ac97_init s =
     (let (found, s1) = ac97_find s in
      case found of
        None \<Rightarrow> print (''AC97: no PCI audio device found'' @ nl) s1
      | Some addr \<Rightarrow>
          let s2 = pci_enable addr (push_bit 0 1 OR push_bit 2 1) s1;
              (bar0, s3) = on_dev (pci_bar addr 0) s2;
              (bar1, s4) = on_dev (pci_bar addr 1) s3;
              nam = (ucast (bar0 AND 0xFFFFFFFC) :: u16);
              nabm = (ucast (bar1 AND 0xFFFFFFFC) :: u16)
          in if nam = 0 \<or> nabm = 0 then print (''AC97: invalid mixer or bus-master BAR'' @ nl) s4
             else
               let s5 = upd_dev (outl (nabm + 0x2C) 0x00000002) s4;
                   s6 = spin_until 100000 (\<lambda>s. let (v, s') = on_dev (inl (nabm + 0x2C)) s in (v AND 0x2 = 0, s')) s5;
                   s7 = upd_dev (outw (nam + 0x18) 0x0808) (upd_dev (outw (nam + 0x02) 0x0000) s6)
               in print (''AC97: controller initialized'' @ nl) s7)"

section \<open>High definition audio\<close>

definition HDA_GCAP :: u16 where "HDA_GCAP = 0x00"
definition HDA_GCTL :: u16 where "HDA_GCTL = 0x08"
definition HDA_STATESTS :: u16 where "HDA_STATESTS = 0x0E"
definition HDA_CORBLBASE :: u16 where "HDA_CORBLBASE = 0x40"
definition HDA_CORBUBASE :: u16 where "HDA_CORBUBASE = 0x44"
definition HDA_CORBWP :: u16 where "HDA_CORBWP = 0x48"
definition HDA_CORBRP :: u16 where "HDA_CORBRP = 0x4A"
definition HDA_CORBCTL :: u16 where "HDA_CORBCTL = 0x4C"
definition HDA_CORBSIZE :: u16 where "HDA_CORBSIZE = 0x4E"
definition HDA_RIRBLBASE :: u16 where "HDA_RIRBLBASE = 0x50"
definition HDA_RIRBUBASE :: u16 where "HDA_RIRBUBASE = 0x54"
definition HDA_RIRBWP :: u16 where "HDA_RIRBWP = 0x58"
definition HDA_RIRBCTL :: u16 where "HDA_RIRBCTL = 0x5C"
definition HDA_RIRBSIZE :: u16 where "HDA_RIRBSIZE = 0x5E"

text \<open>The static variable \<^verbatim>\<open>hda_mmio\<close> is the first argument of the register accesses.\<close>

definition hda_read16 :: "u64 \<Rightarrow> u16 \<Rightarrow> ('d, 'h, 'z) board_scheme \<Rightarrow> u16 \<times> ('d, 'h, 'z) board_scheme" where
  "hda_read16 hda_mmio r = mmio_read16 (hda_mmio + ucast r)"

definition hda_read32 :: "u64 \<Rightarrow> u16 \<Rightarrow> ('d, 'h, 'z) board_scheme \<Rightarrow> u32 \<times> ('d, 'h, 'z) board_scheme" where
  "hda_read32 hda_mmio r = mmio_read32 (hda_mmio + ucast r)"

definition hda_write8 :: "u64 \<Rightarrow> u16 \<Rightarrow> u8 \<Rightarrow> ('d, 'h, 'z) board_scheme \<Rightarrow> ('d, 'h, 'z) board_scheme" where
  "hda_write8 hda_mmio r = mmio_write8 (hda_mmio + ucast r)"

definition hda_write16 :: "u64 \<Rightarrow> u16 \<Rightarrow> u16 \<Rightarrow> ('d, 'h, 'z) board_scheme \<Rightarrow> ('d, 'h, 'z) board_scheme" where
  "hda_write16 hda_mmio r = mmio_write16 (hda_mmio + ucast r)"

definition hda_write32 :: "u64 \<Rightarrow> u16 \<Rightarrow> u32 \<Rightarrow> ('d, 'h, 'z) board_scheme \<Rightarrow> ('d, 'h, 'z) board_scheme" where
  "hda_write32 hda_mmio r = mmio_write32 (hda_mmio + ucast r)"

text \<open>The reset: the bit of the global control register is cleared and set again.\<close>

definition hda_reset :: "u64 \<Rightarrow> ('d, 'h, 'z) board_scheme \<Rightarrow> ('d, 'h, 'z) board_scheme" where
  "hda_reset b s =
     (let (v1, s1) = hda_read32 b HDA_GCTL s;
          s2 = hda_write32 b HDA_GCTL (v1 AND NOT 1) s1;
          s3 = spin_until 100000 (\<lambda>s. let (v, s') = hda_read32 b HDA_GCTL s in (v AND 1 = 0, s')) s2;
          (v4, s4) = hda_read32 b HDA_GCTL s3;
          s5 = hda_write32 b HDA_GCTL (v4 OR 1) s4
      in spin_until 100000 (\<lambda>s. let (v, s') = hda_read32 b HDA_GCTL s in (v AND 1 \<noteq> 0, s')) s5)"

definition hda_rings :: "u64 \<Rightarrow> u64 \<Rightarrow> u64 \<Rightarrow> ('d, 'h, 'z) board_scheme \<Rightarrow> ('d, 'h, 'z) board_scheme" where
  "hda_rings b corb rirb s =
     (let s1 = hda_write8 b HDA_RIRBCTL 0 (hda_write8 b HDA_CORBCTL 0 s);
          s2 = hda_write32 b HDA_CORBUBASE (ucast (drop_bit 32 corb)) (hda_write32 b HDA_CORBLBASE (ucast corb) s1);
          s3 = hda_write32 b HDA_RIRBUBASE (ucast (drop_bit 32 rirb)) (hda_write32 b HDA_RIRBLBASE (ucast rirb) s2);
          s4 = hda_write8 b HDA_RIRBSIZE 0x02 (hda_write8 b HDA_CORBSIZE 0x02 s3);
          s5 = hda_write16 b HDA_RIRBWP 0x8000 (hda_write16 b HDA_CORBWP 0 (hda_write16 b HDA_CORBRP 0x8000 s4))
      in hda_write8 b HDA_RIRBCTL 0x02 (hda_write8 b HDA_CORBCTL 0x02 s5))"

definition hda_init :: "('d, 'h, 'z) board_scheme \<Rightarrow> ('d, 'h, 'z) board_scheme" where
  "hda_init s =
     (let (found, s1) = on_dev (pci_find_class 0x04 0x03 0x00) s in
      case found of
        None \<Rightarrow> print (''HDA: no PCI audio device found'' @ nl) s1
      | Some addr \<Rightarrow>
          let (bar, s2) = on_dev (pci_bar addr 0) s1
          in if bar = 0 \<or> bar AND 1 \<noteq> 0 then print (''HDA: invalid MMIO BAR'' @ nl) s2
             else
               let s3 = hda_reset bar (pci_enable addr (push_bit 1 1 OR push_bit 2 1) s2);
                   (corb, s4) = alloc_page s3;
                   (rirb, s5) = alloc_page s4;
                   s6 = print ''HDA: controller initialized, codec state '' (hda_rings bar corb rirb s5);
                   (sts, s7) = hda_read16 bar HDA_STATESTS s6;
                   s8 = print '', gcap '' (upd_dev (kprint_hex (ucast sts)) s7);
                   (gcap, s9) = hda_read16 bar HDA_GCAP s8
               in print nl (upd_dev (kprint_hex (ucast gcap)) s9))"

end
