(* ===== verification/Ahci.thy ===== *)
theory Ahci
  imports Board Ide
begin

text \<open>
  \<^verbatim>\<open>src/src/drivers/block/ahci.c\<close>: SATA disks behind an AHCI controller.

  The controller reads the command list, the command table and the buffer from memory and answers
  in the registers of a port.  Registers are offsets from the address of a port, the structures in
  memory are offsets from the address of the data of a port, which the linker fixes.  None is a
  wait that never ends.
\<close>

definition AHCI_MAX_DEVICES :: nat where "AHCI_MAX_DEVICES = 8"
definition AHCI_CLASS_MASS_STORAGE :: u8 where "AHCI_CLASS_MASS_STORAGE = 0x01"
definition AHCI_SUBCLASS_SATA :: u8 where "AHCI_SUBCLASS_SATA = 0x06"
definition AHCI_PROGIF_AHCI :: u8 where "AHCI_PROGIF_AHCI = 0x01"
definition HBA_PORT_DET_PRESENT :: u8 where "HBA_PORT_DET_PRESENT = 3"
definition HBA_PORT_IPM_ACTIVE :: u8 where "HBA_PORT_IPM_ACTIVE = 1"
definition SATA_SIG_ATA :: u32 where "SATA_SIG_ATA = 0x00000101"
definition HBA_PxCMD_ST :: u32 where "HBA_PxCMD_ST = 0x0001"
definition HBA_PxCMD_FRE :: u32 where "HBA_PxCMD_FRE = 0x0010"
definition HBA_PxCMD_FR :: u32 where "HBA_PxCMD_FR = 0x4000"
definition HBA_PxCMD_CR :: u32 where "HBA_PxCMD_CR = 0x8000"
definition FIS_TYPE_REG_H2D :: u8 where "FIS_TYPE_REG_H2D = 0x27"
definition ATA_CMD_READ_DMA_EXT :: u8 where "ATA_CMD_READ_DMA_EXT = 0x25"
definition ATA_CMD_WRITE_DMA_EXT :: u8 where "ATA_CMD_WRITE_DMA_EXT = 0x35"

text \<open>Registers of a port, and of the controller.\<close>

definition PxCLB :: u64 where "PxCLB = 0x00"
definition PxCLBU :: u64 where "PxCLBU = 0x04"
definition PxFB :: u64 where "PxFB = 0x08"
definition PxFBU :: u64 where "PxFBU = 0x0C"
definition PxIS :: u64 where "PxIS = 0x10"
definition PxCMD :: u64 where "PxCMD = 0x18"
definition PxTFD :: u64 where "PxTFD = 0x20"
definition PxSIG :: u64 where "PxSIG = 0x24"
definition PxSSTS :: u64 where "PxSSTS = 0x28"
definition PxSERR :: u64 where "PxSERR = 0x30"
definition PxCI :: u64 where "PxCI = 0x38"
definition HBA_GHC :: u64 where "HBA_GHC = 0x04"
definition HBA_PI :: u64 where "HBA_PI = 0x0C"
definition HBA_PORTS :: u64 where "HBA_PORTS = 0x100"
definition sizeof_HbaPort :: u64 where "sizeof_HbaPort = 0x80"

text \<open>The data of a port: the command list, the area for received frames and the command table.\<close>

definition command_list :: u64 where "command_list = 1024"
definition fis_area :: u64 where "fis_area = 2048"
definition command_table :: u64 where "command_table = 2304"
definition prdt_entry :: u64 where "prdt_entry = 128"
definition sizeof_HbaCommandTable :: nat where "sizeof_HbaCommandTable = 144"
definition sizeof_AhciPortData :: nat where "sizeof_AhciPortData = 3072"

record AhciPortData =
  abar :: u64
  port :: u64
  port_index :: u8
  pd_address :: u64

section \<open>Ports\<close>

definition stop_port :: "u64 \<Rightarrow> ('d, 'h, 'z) board_scheme \<Rightarrow> ('d, 'h, 'z) board_scheme" where
  "stop_port p s =
     (let (c1, s1) = mmio_read32 (p + PxCMD) s;
          s2 = mmio_write32 (p + PxCMD) (c1 AND NOT HBA_PxCMD_ST) s1;
          (c3, s3) = mmio_read32 (p + PxCMD) s2;
          s4 = mmio_write32 (p + PxCMD) (c3 AND NOT HBA_PxCMD_FRE) s3
      in spin_until 100000 (\<lambda>s. let (c, s') = mmio_read32 (p + PxCMD) s in (c AND (HBA_PxCMD_FR OR HBA_PxCMD_CR) = 0, s')) s4)"

partial_function (option) wait_not_running :: "u64 \<Rightarrow> ('d, 'h, 'z) board_scheme \<Rightarrow> ('d, 'h, 'z) board_scheme option" where
  "wait_not_running p s =
     (let (c, s1) = mmio_read32 (p + PxCMD) s in if c AND HBA_PxCMD_CR \<noteq> 0 then wait_not_running p s1 else Some s1)"

definition start_port :: "u64 \<Rightarrow> ('d, 'h, 'z) board_scheme \<Rightarrow> ('d, 'h, 'z) board_scheme option" where
  "start_port p s =
     map_option (\<lambda>s0.
       let (c1, s1) = mmio_read32 (p + PxCMD) s0;
           s2 = mmio_write32 (p + PxCMD) (c1 OR HBA_PxCMD_FRE) s1;
           (c3, s3) = mmio_read32 (p + PxCMD) s2
       in mmio_write32 (p + PxCMD) (c3 OR HBA_PxCMD_ST) s3) (wait_not_running p s)"

text \<open>The signature is read only when the link is up.\<close>

definition port_is_sata :: "u64 \<Rightarrow> ('d, 'h, 'z) board_scheme \<Rightarrow> bool \<times> ('d, 'h, 'z) board_scheme" where
  "port_is_sata p s =
     (let (ssts, s1) = mmio_read32 (p + PxSSTS) s;
          det = (ucast (ssts AND 0x0F) :: u8);
          ipm = (ucast (drop_bit 8 ssts AND 0x0F) :: u8)
      in if det = HBA_PORT_DET_PRESENT \<and> ipm = HBA_PORT_IPM_ACTIVE then
           let (sig, s2) = mmio_read32 (p + PxSIG) s1 in (sig = SATA_SIG_ATA, s2)
         else (False, s1))"

section \<open>Transfers\<close>

text \<open>The command as it is put into memory.\<close>

definition ahci_header :: "u64 \<Rightarrow> bool \<Rightarrow> mem \<Rightarrow> mem" where
  "ahci_header pd w m =
     (let h = pd + command_list;
          m1 = m(h := (m h AND NOT 0x1F) OR 5);
          m2 = m1(h := if w then m1 h OR 0x40 else m1 h AND NOT 0x40);
          m3 = store m2 (h + 2) (1 :: u16);
          m4 = store m3 (h + 8) (ucast (pd + command_table) :: u32)
      in store m4 (h + 12) (0 :: u32))"

definition ahci_prdt :: "u64 \<Rightarrow> u32 \<Rightarrow> u64 \<Rightarrow> mem \<Rightarrow> mem" where
  "ahci_prdt pd count buffer m =
     (let e = pd + command_table + prdt_entry;
          m1 = store m e (ucast buffer :: u32);
          m2 = store m1 (e + 4) (0 :: u32)
      in store m2 (e + 12) (count * 512 - 1))"

definition ahci_fis :: "u64 \<Rightarrow> u64 \<Rightarrow> u32 \<Rightarrow> bool \<Rightarrow> mem \<Rightarrow> mem" where
  "ahci_fis pd lba count w m =
     (let t = pd + command_table;
          m1 = m(t := FIS_TYPE_REG_H2D);
          m2 = m1(t + 1 := m1 (t + 1) OR 0x80);
          m3 = m2(t + 2 := if w then ATA_CMD_WRITE_DMA_EXT else ATA_CMD_READ_DMA_EXT);
          m4 = m3(t + 7 := push_bit 6 1);
          m5 = m4(t + 4 := ucast lba, t + 5 := ucast (drop_bit 8 lba), t + 6 := ucast (drop_bit 16 lba),
                  t + 8 := ucast (drop_bit 24 lba), t + 9 := ucast (drop_bit 32 lba), t + 10 := ucast (drop_bit 40 lba))
      in m5(t + 12 := ucast count, t + 13 := ucast (drop_bit 8 count)))"

definition ahci_command :: "u64 \<Rightarrow> u64 \<Rightarrow> u32 \<Rightarrow> u64 \<Rightarrow> bool \<Rightarrow> mem \<Rightarrow> mem" where
  "ahci_command pd lba count buffer w m =
     ahci_fis pd lba count w (ahci_prdt pd count buffer (ahci_header pd w
       (mem_fill m (pd + command_table) 0 sizeof_HbaCommandTable)))"

primrec wait_tfd :: "nat \<Rightarrow> u64 \<Rightarrow> ('d, 'h, 'z) board_scheme \<Rightarrow> bool \<times> ('d, 'h, 'z) board_scheme" where
  "wait_tfd 0 p s = (False, s)"
| "wait_tfd (Suc n) p s =
     (let (tfd, s1) = mmio_read32 (p + PxTFD) s in if tfd AND (0x80 OR 0x08) = 0 then (True, s1) else wait_tfd n p s1)"

partial_function (option) wait_ci :: "u64 \<Rightarrow> ('d, 'h, 'z) board_scheme \<Rightarrow> (bool \<times> ('d, 'h, 'z) board_scheme) option" where
  "wait_ci p s =
     (let (ci, s1) = mmio_read32 (p + PxCI) s
      in if ci AND 1 = 0 then Some (True, s1)
         else let (is, s2) = mmio_read32 (p + PxIS) s1 in if is AND push_bit 30 1 \<noteq> 0 then Some (False, s2) else wait_ci p s2)"

definition ahci_transfer ::
  "AhciPortData \<Rightarrow> u64 \<Rightarrow> u32 \<Rightarrow> u64 \<Rightarrow> bool \<Rightarrow> ('d, 'h, 'z) board_scheme \<Rightarrow> (int \<times> ('d, 'h, 'z) board_scheme) option" where
  "ahci_transfer pd lba count buffer w s =
     (if count = 0 \<or> count > 128 then Some (-1, s)
      else
        let s1 = mmio_write32 (port pd + PxIS) 0xFFFFFFFF s;
            s2 = set_mem (ahci_command (pd_address pd) lba count buffer w (slab_mem s1)) s1;
            (idle, s3) = wait_tfd 100000 (port pd) s2
        in if \<not> idle then Some (-1, s3)
           else
             (case wait_ci (port pd) (mmio_write32 (port pd + PxCI) 1 s3) of
                None \<Rightarrow> None
              | Some (done, s4) \<Rightarrow>
                  if \<not> done then Some (-1, s4)
                  else let (is, s5) = mmio_read32 (port pd + PxIS) s4 in Some (if is AND push_bit 30 1 \<noteq> 0 then -1 else 0, s5)))"

definition ahci_read :: "AhciPortData \<Rightarrow> u64 \<Rightarrow> u32 \<Rightarrow> u64 \<Rightarrow> ('d, 'h, 'z) board_scheme \<Rightarrow> (int \<times> ('d, 'h, 'z) board_scheme) option" where
  "ahci_read pd lba count buffer = ahci_transfer pd lba count buffer False"

definition ahci_write :: "AhciPortData \<Rightarrow> u64 \<Rightarrow> u32 \<Rightarrow> u64 \<Rightarrow> ('d, 'h, 'z) board_scheme \<Rightarrow> (int \<times> ('d, 'h, 'z) board_scheme) option" where
  "ahci_write pd lba count buffer = ahci_transfer pd lba count buffer True"

section \<open>Setting up\<close>

text \<open>One implemented port with a disk: \<open>pd\<close> is the address of its data.\<close>

definition ahci_setup_port :: "u64 \<Rightarrow> u64 \<Rightarrow> ('d, 'h, 'z) board_scheme \<Rightarrow> ('d, 'h, 'z) board_scheme option" where
  "ahci_setup_port p pd s =
     (let s1 = stop_port p s;
          s2 = set_mem (mem_fill (slab_mem s1) pd 0 sizeof_AhciPortData) s1;
          s3 = mmio_write32 (p + PxCLBU) 0 (mmio_write32 (p + PxCLB) (ucast (pd + command_list)) s2);
          s4 = mmio_write32 (p + PxFBU) 0 (mmio_write32 (p + PxFB) (ucast (pd + fis_area)) s3);
          m1 = store (slab_mem s4) (pd + command_list + 8) (ucast (pd + command_table) :: u32);
          s5 = set_mem (store m1 (pd + command_list + 12) (0 :: u32)) s4;
          s6 = mmio_write32 (p + PxIS) 0xFFFFFFFF (mmio_write32 (p + PxSERR) 0xFFFFFFFF s5)
      in start_port p s6)"

fun ahci_ports :: "u64 \<Rightarrow> u64 \<Rightarrow> u32 \<Rightarrow> nat list \<Rightarrow> AhciPortData list \<Rightarrow> ('d, 'h, 'z) board_scheme \<Rightarrow>
    (AhciPortData list \<times> ('d, 'h, 'z) board_scheme) option" where
  "ahci_ports base ab implemented [] found s = Some (found, s)"
| "ahci_ports base ab implemented (i # is) found s =
     (if \<not> length found < AHCI_MAX_DEVICES then Some (found, s)
      else if implemented AND push_bit i 1 = 0 then ahci_ports base ab implemented is found s
      else
        let p = ab + HBA_PORTS + sizeof_HbaPort * of_nat i;
            (sata, s1) = port_is_sata p s
        in if \<not> sata then ahci_ports base ab implemented is found s1
           else
             let pd = base + of_nat (sizeof_AhciPortData * length found)
             in (case ahci_setup_port p pd s1 of
                   None \<Rightarrow> None
                 | Some s2 \<Rightarrow>
                     ahci_ports base ab implemented is
                       (found @ [\<lparr>abar = ab, port = p, port_index = of_nat i, pd_address = pd\<rparr>]) s2))"

text \<open>The argument is the address of \<^verbatim>\<open>ahci_ports\<close>; the result is the devices found.\<close>

definition ahci_init :: "u64 \<Rightarrow> ('d, 'h, 'z) board_scheme \<Rightarrow> (AhciPortData list \<times> ('d, 'h, 'z) board_scheme) option" where
  "ahci_init base s =
     (let (found, s1) = on_dev (pci_find_class AHCI_CLASS_MASS_STORAGE AHCI_SUBCLASS_SATA AHCI_PROGIF_AHCI) s in
      case found of
        None \<Rightarrow> Some ([], s1)
      | Some addr \<Rightarrow>
          let s2 = pci_enable addr (push_bit 1 1 OR push_bit 2 1) s1;
              (bar, s3) = on_dev (pci_read32 addr 0x24) s2;
              bar5 = bar AND 0xFFFFFFF0
          in if bar5 = 0 then Some ([], s3)
             else
               let ab = ucast bar5;
                   (ghc, s4) = mmio_read32 (ab + HBA_GHC) s3;
                   s5 = mmio_write32 (ab + HBA_GHC) (ghc OR push_bit 31 1) s4;
                   (implemented, s6) = mmio_read32 (ab + HBA_PI) s5
               in ahci_ports base ab implemented [0..<32] [] s6)"

definition ahci_device_count :: "AhciPortData list \<Rightarrow> u32" where
  "ahci_device_count devs = of_nat (length devs)"

definition ahci_get_device :: "AhciPortData list \<Rightarrow> u32 \<Rightarrow> AhciPortData option" where
  "ahci_get_device devs i = (if \<not> unat i < length devs then None else Some (devs ! unat i))"

section \<open>What the controller reads\<close>

text \<open>
  A command as the AHCI specification lays it out, read from the slot at address \<open>h\<close> of the command
  list: a frame of five double words, a table with one entry, LBA addressing.
\<close>

record ahci_request =
  rq_write :: bool
  rq_lba :: u64
  rq_count :: nat
  rq_buffer :: u64
  rq_bytes :: nat

definition cmd_table :: "mem \<Rightarrow> u64 \<Rightarrow> u64" where
  "cmd_table m h = ucast (load m (h + 8) :: u32) OR push_bit 32 (ucast (load m (h + 12) :: u32))"

definition decode_command :: "mem \<Rightarrow> u64 \<Rightarrow> ahci_request option" where
  "decode_command m h =
     (let t = cmd_table m h; e = t + 128; w = bit (m h) 6
      in if m h AND 0x1F = 5 \<and> load m (h + 2) = (1 :: u16) \<and> m t = 0x27 \<and> bit (m (t + 1)) 7 \<and> bit (m (t + 7)) 6 \<and>
            m (t + 2) = (if w then 0x35 else 0x25) then
           Some \<lparr>rq_write = w,
             rq_lba = word_of_bytes [m (t + 4), m (t + 5), m (t + 6), m (t + 8), m (t + 9), m (t + 10)],
             rq_count = unat (m (t + 12)) + 256 * unat (m (t + 13)),
             rq_buffer = ucast (load m e :: u32) OR push_bit 32 (ucast (load m (e + 4) :: u32)),
             rq_bytes = unat (load m (e + 12) AND (0x3FFFFF :: u32)) + 1\<rparr>
         else None)"

lemma lba_bytes:
  assumes "unat lba < 2 ^ 48"
  shows "word_of_bytes [ucast lba, ucast (drop_bit 8 lba), ucast (drop_bit 16 lba), ucast (drop_bit 24 lba),
    ucast (drop_bit 32 lba), ucast (drop_bit 40 lba)] = (lba :: u64)"
proof -
  define bs :: bytes where "bs = [ucast lba, ucast (drop_bit 8 lba), ucast (drop_bit 16 lba), ucast (drop_bit 24 lba),
    ucast (drop_bit 32 lba), ucast (drop_bit 40 lba)]"
  have high: "\<not> bit lba n" if "48 \<le> n" for n
  proof -
    have "unat (take_bit 48 lba) = unat lba"
      using assms by (simp add: unsigned_take_bit_eq take_bit_nat_eq_self)
    then have "take_bit 48 lba = lba" by (rule word_unat_eq_iff [THEN iffD2])
    then show ?thesis using that by (metis bit_take_bit_iff leD)
  qed
  have len: "length bs = 6" by (simp add: bs_def)
  have nth: "bs ! k = ucast (drop_bit (8 * k) lba)" if "k < 6" for k
  proof -
    have "k = 0 \<or> k = 1 \<or> k = 2 \<or> k = 3 \<or> k = 4 \<or> k = 5" using that by arith
    then show ?thesis unfolding bs_def by (elim disjE) simp_all
  qed
  have "word_of_bytes bs = lba"
  proof (rule bit_word_eqI)
    fix n assume n: "n < LENGTH(64)"
    show "bit (word_of_bytes bs :: u64) n = bit lba n"
    proof (cases "n < 48")
      case True
      then have k: "n div 8 < 6" by (simp add: less_mult_imp_div_less)
      then show ?thesis using n by (simp add: bit_word_of_bytes len nth [OF k] bit_simps)
    next
      case False
      then have "\<not> n div 8 < 6" by simp
      then show ?thesis using high False by (simp add: bit_word_of_bytes len)
    qed
  qed
  then show ?thesis by (simp only: bs_def)
qed

lemma ucast_ucast32: "unat (x :: u64) < 2 ^ 32 \<Longrightarrow> ucast (ucast x :: u32) = x"
  by (rule word_unat_eq_iff [THEN iffD2]) (simp add: unsigned_ucast_eq unsigned_take_bit_eq take_bit_nat_eq_self)

text \<open>Bytes and words of the command, at fixed distances from the address of the data of the port.\<close>

lemmas ahci_layout = ahci_command_def ahci_header_def ahci_prdt_def ahci_fis_def command_list_def command_table_def prdt_entry_def
  sizeof_HbaCommandTable_def Let_def

lemma command_bytes:
  assumes "m' = ahci_command pd lba count buffer w m"
  shows "m' (pd + 1024) = (if w then (m (pd + 1024) AND NOT 0x1F OR 5) OR 0x40 else (m (pd + 1024) AND NOT 0x1F OR 5) AND NOT 0x40)"
    and "m' (pd + 2304) = 0x27" "m' (pd + 2305) = 0x80" "m' (pd + 2306) = (if w then 0x35 else 0x25)" "m' (pd + 2311) = 0x40"
    and "m' (pd + 2316) = ucast count" "m' (pd + 2317) = ucast (drop_bit 8 count)"
  unfolding assms ahci_layout by (simp_all add: store_def mem_fill_apply FIS_TYPE_REG_H2D_def ATA_CMD_WRITE_DMA_EXT_def
      ATA_CMD_READ_DMA_EXT_def)

lemma load_byte_apart:
  assumes "LENGTH('a) div 8 \<le> unat (x - a)"
  shows "load (m(x := v)) a = (load m a :: 'a::len word)"
proof (rule load_cong)
  fix i assume i: "i < LENGTH('a) div 8"
  have "unat (of_nat i :: u64) \<le> i" by (simp only: unat_of_nat mod_less_eq_dividend)
  then have "a + of_nat i \<noteq> x" using assms i by auto
  then show "(m(x := v)) (a + of_nat i) = m (a + of_nat i)" by simp
qed

lemma command_words:
  assumes "m' = ahci_command pd lba count buffer w m"
  shows "load m' (pd + 1026) = (1 :: u16)" "load m' (pd + 1032) = (ucast (pd + 2304) :: u32)" "load m' (pd + 1036) = (0 :: u32)"
    and "load m' (pd + 2432) = (ucast buffer :: u32)" "load m' (pd + 2436) = (0 :: u32)" "load m' (pd + 2444) = count * 512 - 1"
  unfolding assms ahci_layout by (simp_all add: add.commute [of "numeral k" pd for k] load_byte_apart load_store_apart load_store_same)

lemma command_lba:
  assumes "m' = ahci_command pd lba count buffer w m"
  shows "m' (pd + 2308) = ucast lba" "m' (pd + 2309) = ucast (drop_bit 8 lba)" "m' (pd + 2310) = ucast (drop_bit 16 lba)"
    and "m' (pd + 2312) = ucast (drop_bit 24 lba)" "m' (pd + 2313) = ucast (drop_bit 32 lba)" "m' (pd + 2314) = ucast (drop_bit 40 lba)"
  unfolding assms ahci_layout by simp_all

lemma command_header_byte:
  fixes b :: u8
  defines "h \<equiv> b AND NOT 0x1F OR 5"
  shows "(h OR 0x40) AND 0x1F = 5" "bit (h OR 0x40) 6" "(h AND NOT 0x40) AND 0x1F = 5" "\<not> bit (h AND NOT 0x40) 6"
proof -
  have m: "(0x1F :: u8) = mask 5" by (simp add: mask_eq_exp_minus_1)
  have five: "bit (5 :: u8) n \<longleftrightarrow> n = 0 \<or> n = 2" for n
  proof -
    have "(5 :: u8) = push_bit 0 1 OR push_bit 2 1" by simp
    then show ?thesis by (simp only: bit_or_iff bit_push_bit_iff bit_1_iff) auto
  qed
  have c64: "bit (0x40 :: u8) n \<longleftrightarrow> n = 6" for n
  proof -
    have "(0x40 :: u8) = push_bit 6 1" by simp
    then show ?thesis by (simp only: bit_push_bit_iff bit_1_iff) auto
  qed
  show "(h OR 0x40) AND 0x1F = 5" "(h AND NOT 0x40) AND 0x1F = 5"
    unfolding h_def m by (rule bit_word_eqI, simp only: bit_or_iff bit_and_iff bit_not_iff bit_mask_iff five c64, auto)+
  show "bit (h OR 0x40) 6" "\<not> bit (h AND NOT 0x40) 6"
    by (simp_all only: bit_or_iff bit_and_iff bit_not_iff c64) simp_all
qed

lemma changes_then:
  "changes m0 m A \<Longrightarrow> unat a \<in> A \<Longrightarrow> changes m0 (m(a := x)) A"
  "changes m0 m A \<Longrightarrow> unat a + LENGTH('a) div 8 \<le> 2 ^ 64 \<Longrightarrow> {unat a ..< unat a + LENGTH('a) div 8} \<subseteq> A \<Longrightarrow>
     changes m0 (store m a (v :: 'a::len word)) A"
  "changes m0 m A \<Longrightarrow> unat a + n \<le> 2 ^ 64 \<Longrightarrow> {unat a ..< unat a + n} \<subseteq> A \<Longrightarrow> changes m0 (mem_fill m a x n) A"
  by (erule changes_trans, erule changes_byte)
    (erule changes_trans, erule changes_mono [OF changes_store], assumption,
     erule changes_trans, erule changes_mono [OF changes_fill], assumption)

lemma command_changes:
  assumes "unat pd + 3072 \<le> 2 ^ 32"
  shows "changes m (ahci_command pd lba count buffer w m)
    ({unat pd + 1024 ..< unat pd + 1040} \<union> {unat pd + 2304 ..< unat pd + 2448})" (is "changes m _ ?A")
proof -
  have u: "unat (pd + numeral k) = unat pd + numeral k" if "numeral k < (3072 :: nat)" for k
  proof -
    have "unat pd + numeral k < unat pd + 3072" using that by (rule add_strict_left_mono)
    also note assms
    also have "(2 :: nat) ^ 32 \<le> 2 ^ 64" by simp
    finally have "unat pd + numeral k < 2 ^ 64" .
    then show ?thesis using unat_offset [of pd 0 "numeral k"] by simp
  qed
  note defs = command_list_def command_table_def prdt_entry_def Let_def
  have h: "changes m0 (ahci_header pd w m') ?A" if "changes m0 m' ?A" for m0 m'
    unfolding ahci_header_def defs by (intro changes_then that) (use assms in \<open>auto simp: add.assoc u\<close>)
  have p: "changes m0 (ahci_prdt pd count buffer m') ?A" if "changes m0 m' ?A" for m0 m'
    unfolding ahci_prdt_def defs by (intro changes_then that) (use assms in \<open>auto simp: add.assoc u\<close>)
  have f: "changes m0 (ahci_fis pd lba count w m') ?A" if "changes m0 m' ?A" for m0 m'
    unfolding ahci_fis_def defs by (intro changes_then that) (use assms in \<open>auto simp: add.assoc u\<close>)
  have "changes m (mem_fill m (pd + 2304) 0 144) ?A"
    by (intro changes_then changes_refl) (use assms in \<open>auto simp: u\<close>)
  then show ?thesis unfolding ahci_command_def sizeof_HbaCommandTable_def command_table_def by (intro f p h)
qed

lemma ahci_command_decodes:
  assumes "unat pd + 3072 \<le> 2 ^ 32" "unat buffer < 2 ^ 32" "unat lba < 2 ^ 48" "1 \<le> unat count" "unat count \<le> 128"
  shows "decode_command (ahci_command pd lba count buffer w m) (pd + command_list) =
    Some \<lparr>rq_write = w, rq_lba = lba, rq_count = unat count, rq_buffer = buffer, rq_bytes = 512 * unat count\<rparr>"
proof -
  define m' where "m' = ahci_command pd lba count buffer w m"
  note b = command_bytes [OF m'_def] and ws = command_words [OF m'_def] and l = command_lba [OF m'_def]
  have pd: "unat (pd + 2304) = unat pd + 2304" using assms(1) unat_offset [of pd 0 2304] by simp
  have t: "cmd_table m' (pd + command_list) = pd + 2304"
    using ucast_ucast32 [of "pd + 2304"] assms(1) pd by (simp add: cmd_table_def command_list_def add.assoc ws)
  have c1: "unat (ucast count :: u8) = unat count" and c2: "(ucast (drop_bit 8 count) :: u8) = 0"
  proof -
    show "unat (ucast count :: u8) = unat count" using assms(5) by (simp add: unsigned_ucast_eq take_bit_nat_eq_self)
    have "unat (drop_bit 8 count) = 0" using assms(5) by (subst unat_drop_bit_eq) (simp add: drop_bit_eq_div)
    then show "(ucast (drop_bit 8 count) :: u8) = 0" by (simp add: unat_eq_zero)
  qed
  have bytes: "unat ((count * 512 - 1) AND 0x3FFFFF) + 1 = 512 * unat count"
  proof -
    have "count * 512 - 1 = of_nat (512 * unat count - 1)" using assms(4) by (simp add: of_nat_diff)
    moreover have "(0x3FFFFF :: u32) = mask 22" by (simp add: mask_eq_exp_minus_1)
    ultimately have "(count * 512 - 1) AND 0x3FFFFF = take_bit 22 (of_nat (512 * unat count - 1))" by (simp only: take_bit_eq_mask)
    then have "unat ((count * 512 - 1) AND 0x3FFFFF) = take_bit 22 (unat (of_nat (512 * unat count - 1) :: u32))"
      by (simp only: unsigned_take_bit_eq)
    also have "\<dots> = 512 * unat count - 1" using assms(5) by (simp add: unat_of_nat take_bit_nat_eq_self)
    finally show ?thesis using assms(4) by simp
  qed
  have h: "m' (pd + command_list) AND 0x1F = 5" "bit (m' (pd + command_list)) 6 = w"
    using command_header_byte [of "m (pd + 1024)"] by (simp_all add: command_list_def b)
  have "load m' (pd + command_list + 2) = (1 :: u16)" using ws by (simp add: command_list_def add.assoc)
  then show ?thesis
    using h bytes ucast_ucast32 [OF assms(2)] lba_bytes [OF assms(3)]
    unfolding m'_def [symmetric] decode_command_def Let_def t by (simp add: add.assoc b ws l c1 c2 bytes del: word_of_bytes.simps)
qed

section \<open>What a controller promises\<close>

text \<open>The rounds of the waiting loop in which the command is still running.\<close>

primrec busy_rounds :: "nat \<Rightarrow> u64 \<Rightarrow> ('d, 'h, 'z) board_scheme \<Rightarrow> ('d, 'h, 'z) board_scheme option" where
  "busy_rounds 0 p s = Some s"
| "busy_rounds (Suc n) p s =
     (let (ci, s1) = mmio_read32 (p + PxCI) s; (is, s2) = mmio_read32 (p + PxIS) s1
      in if ci AND 1 \<noteq> 0 \<and> is AND push_bit 30 1 = 0 then busy_rounds n p s2 else None)"

text \<open>The sectors and the memory after a request was served.\<close>

definition served :: "ahci_request \<Rightarrow> (u64 \<Rightarrow> bytes) \<Rightarrow> mem \<Rightarrow> (u64 \<Rightarrow> bytes) \<times> mem" where
  "served rq d m =
     (if rq_write rq then
        (fold (\<lambda>j d. d(rq_lba rq + of_nat j := take 512 (drop (512 * j) (mem_read m (rq_buffer rq) (512 * rq_count rq)))))
           [0..<rq_count rq] d, m)
      else (d, mem_copy_in m (rq_buffer rq) (concat (map (\<lambda>j. d (rq_lba rq + of_nat j)) [0..<rq_count rq]))))"

text \<open>
  A port with a disk of the sectors \<open>sect s\<close>, in the states \<open>ready\<close> between commands, with \<open>clb\<close> as
  its command list: it is not busy, memory can be changed under it, and a command in slot 0 that
  asks for whole sectors is served after a finite number of looks at it and reported done without
  an error.
\<close>

definition sata_port ::
  "u64 \<Rightarrow> u64 \<Rightarrow> (('d, 'h, 'z) board_scheme \<Rightarrow> bool) \<Rightarrow> (('d, 'h, 'z) board_scheme \<Rightarrow> u64 \<Rightarrow> bytes) \<Rightarrow> bool" where
  "sata_port p clb ready sect \<longleftrightarrow>
     (\<forall>s m. ready s \<longrightarrow> ready (set_mem m s) \<and> sect (set_mem m s) = sect s) \<and>
     (\<forall>s. ready s \<longrightarrow> (let s1 = mmio_write32 (p + PxIS) 0xFFFFFFFF s in ready s1 \<and> sect s1 = sect s \<and> slab_mem s1 = slab_mem s)) \<and>
     (\<forall>s. ready s \<longrightarrow> (\<exists>v s1. mmio_read32 (p + PxTFD) s = (v, s1) \<and> v AND 0x88 = 0 \<and> ready s1 \<and> sect s1 = sect s \<and>
        slab_mem s1 = slab_mem s)) \<and>
     (\<forall>s rq. ready s \<longrightarrow> decode_command (slab_mem s) clb = Some rq \<longrightarrow> rq_bytes rq = 512 * rq_count rq \<longrightarrow>
        (\<exists>n s1 ci s2 is s3. busy_rounds n p (mmio_write32 (p + PxCI) 1 s) = Some s1 \<and>
           mmio_read32 (p + PxCI) s1 = (ci, s2) \<and> ci AND 1 = 0 \<and> mmio_read32 (p + PxIS) s2 = (is, s3) \<and> is AND push_bit 30 1 = 0 \<and>
           ready s3 \<and> (sect s3, slab_mem s3) = served rq (sect s) (slab_mem s)))"

lemma sata_portD:
  assumes "sata_port p clb ready sect" "ready s"
  shows "ready (set_mem m s)" "sect (set_mem m s) = sect s"
    and "ready (mmio_write32 (p + PxIS) 0xFFFFFFFF s)" "sect (mmio_write32 (p + PxIS) 0xFFFFFFFF s) = sect s"
    and "slab_mem (mmio_write32 (p + PxIS) 0xFFFFFFFF s) = slab_mem s"
    and "\<exists>v s1. mmio_read32 (p + PxTFD) s = (v, s1) \<and> v AND 0x88 = 0 \<and> ready s1 \<and> sect s1 = sect s \<and> slab_mem s1 = slab_mem s"
    and "decode_command (slab_mem s) clb = Some rq \<Longrightarrow> rq_bytes rq = 512 * rq_count rq \<Longrightarrow>
      \<exists>n s1 ci s2 is s3. busy_rounds n p (mmio_write32 (p + PxCI) 1 s) = Some s1 \<and>
           mmio_read32 (p + PxCI) s1 = (ci, s2) \<and> ci AND 1 = 0 \<and> mmio_read32 (p + PxIS) s2 = (is, s3) \<and> is AND push_bit 30 1 = 0 \<and>
           ready s3 \<and> (sect s3, slab_mem s3) = served rq (sect s) (slab_mem s)"
  using assms unfolding sata_port_def Let_def by blast+

lemma wait_ci_done:
  assumes "mmio_read32 (p + PxCI) s1 = (ci, s2)" "ci AND 1 = 0"
  shows "busy_rounds n p s = Some s1 \<Longrightarrow> wait_ci p s = Some (True, s2)"
proof (induction n arbitrary: s)
  case 0
  then show ?case using assms by (simp add: wait_ci.simps)
next
  case (Suc n)
  obtain ci1 t1 is1 t2 where t: "mmio_read32 (p + PxCI) s = (ci1, t1)" "mmio_read32 (p + PxIS) t1 = (is1, t2)" by fastforce
  have c: "ci1 AND 1 \<noteq> 0" "is1 AND push_bit 30 1 = 0" "busy_rounds n p t2 = Some s1"
    using Suc.prems by (auto simp: t split: if_splits)
  show ?case using Suc.IH [OF c(3)] c by (subst wait_ci.simps) (simp add: t)
qed

lemma wait_tfd_idle: "mmio_read32 (p + PxTFD) s = (v, s1) \<Longrightarrow> v AND 0x88 = 0 \<Longrightarrow> 0 < n \<Longrightarrow> wait_tfd n p s = (True, s1)"
  by (cases n) simp_all

lemma ahci_transfer_served:
  fixes w :: bool
  assumes law: "sata_port (port pd) (pd_address pd + command_list) ready sect" and "ready s"
    and "unat (pd_address pd) + 3072 \<le> 2 ^ 32" "unat buffer < 2 ^ 32" "unat lba < 2 ^ 48" "1 \<le> unat count" "unat count \<le> 128"
  defines "m \<equiv> ahci_command (pd_address pd) lba count buffer w (slab_mem s)"
  shows "\<exists>s'. ahci_transfer pd lba count buffer w s = Some (0, s') \<and> ready s' \<and>
    (sect s', slab_mem s') = served \<lparr>rq_write = w, rq_lba = lba, rq_count = unat count, rq_buffer = buffer, rq_bytes = 512 * unat count\<rparr>
      (sect s) m"
proof -
  let ?p = "port pd" and ?rq = "\<lparr>rq_write = w, rq_lba = lba, rq_count = unat count, rq_buffer = buffer, rq_bytes = 512 * unat count\<rparr>"
  let ?s1 = "mmio_write32 (?p + PxIS) 0xFFFFFFFF s"
  let ?s2 = "set_mem m ?s1"
  note s1 = sata_portD(3-5) [OF law assms(2)]
  have s2: "ready ?s2" "sect ?s2 = sect s" "slab_mem ?s2 = m" using sata_portD(1,2) [OF law s1(1), of m] s1 by (simp_all add: set_mem_def)
  obtain v s3 where s3: "mmio_read32 (?p + PxTFD) ?s2 = (v, s3)" "v AND 0x88 = 0" "ready s3" "sect s3 = sect s" "slab_mem s3 = m"
    using sata_portD(6) [OF law s2(1)] s2 by auto
  have idle: "wait_tfd 100000 ?p ?s2 = (True, s3)" by (rule wait_tfd_idle [OF s3(1,2)]) simp
  have "decode_command (slab_mem s3) (pd_address pd + command_list) = Some ?rq"
    unfolding s3(5) m_def by (rule ahci_command_decodes) (use assms in auto)
  from sata_portD(7) [OF law s3(3) this] obtain n t1 ci t2 irq t3 where t:
    "busy_rounds n ?p (mmio_write32 (?p + PxCI) 1 s3) = Some t1" "mmio_read32 (?p + PxCI) t1 = (ci, t2)" "ci AND 1 = 0"
    "mmio_read32 (?p + PxIS) t2 = (irq, t3)" "irq AND push_bit 30 1 = 0" "ready t3" "(sect t3, slab_mem t3) = served ?rq (sect s3) m"
    unfolding s3(5) by auto
  have w: "wait_ci ?p (mmio_write32 (?p + PxCI) 1 s3) = Some (True, t2)" by (rule wait_ci_done [OF t(2,3,1)])
  have c: "\<not> (count = 0 \<or> 128 < count)" using assms(6,7) by (auto simp: word_less_nat_alt)
  have "ahci_transfer pd lba count buffer w s = Some (0, t3)"
    unfolding ahci_transfer_def Let_def s1(3) m_def [symmetric] idle using c t(4,5) w by simp
  then show ?thesis using t(6,7) s3(4) by auto
qed

text \<open>C38.
  What is written to a SATA disk is read back.  On a controller that keeps to the AHCI specification,
  writing up to 128 sectors and reading them into another buffer both succeed, and the second
  buffer then holds the bytes of the first; every other sector of the disk is as before.
\<close>

theorem ahci_write_read:
  assumes law: "sata_port (port pd) (pd_address pd + command_list) ready sect" and "ready s"
    and "unat (pd_address pd) + 3072 \<le> 2 ^ 32" "unat lba + 128 < 2 ^ 48" "1 \<le> unat count" "unat count \<le> 128"
    and src: "unat src + 512 * unat count \<le> 2 ^ 32"
    and apart: "{unat src ..< unat src + 512 * unat count} \<inter> {unat (pd_address pd) ..< unat (pd_address pd) + 3072} = {}"
    and dst: "unat dst < 2 ^ 32"
  shows "\<exists>s1 s2. ahci_write pd lba count src s = Some (0, s1) \<and> ahci_read pd lba count dst s1 = Some (0, s2) \<and>
    mem_read (slab_mem s2) dst (512 * unat count) = mem_read (slab_mem s) src (512 * unat count) \<and>
    (\<forall>l. unat l < unat lba \<or> unat lba + unat count \<le> unat l \<longrightarrow> sect s2 l = sect s l)"
proof -
  let ?n = "unat count" and ?data = "mem_read (slab_mem s) src (512 * unat count)"
  let ?f = "\<lambda>j. lba + of_nat j" and ?g = "\<lambda>j. take 512 (drop (512 * j) (mem_read (slab_mem s) src (512 * unat count)))"
  have lba: "unat lba < 2 ^ 48" and srcl: "unat src < 2 ^ 32" using assms by auto
  have u: "unat (?f j) = unat lba + j" if "j < ?n" for j using that assms(4,6) unat_offset [of lba 0 j] by simp
  then have inj: "inj_on ?f (set [0..<?n])" by (auto simp: inj_on_def) (metis add_left_imp_eq)
  have same: "mem_read (ahci_command (pd_address pd) lba count src True (slab_mem s)) src (512 * ?n) = ?data"
    by (rule changes_read [OF command_changes [OF assms(3)]]) (use apart src in \<open>auto simp: disjoint_iff\<close>)
  obtain s1 where s1: "ahci_write pd lba count src s = Some (0, s1)" "ready s1" "sect s1 = fold (\<lambda>j d. d(?f j := ?g j)) [0..<?n] (sect s)"
    using ahci_transfer_served [OF law assms(2,3) srcl lba assms(5,6), of True] by (auto simp: ahci_write_def served_def same)
  have at: "map (\<lambda>j. sect s1 (?f j)) [0..<?n] = map ?g [0..<?n]"
    unfolding s1(3) using inj by (intro map_cong refl fold_fun_upd_at) auto
  have cat: "concat (map ?g [0..<?n]) = ?data" by (rule concat_slices) simp
  obtain s2 where s2: "ahci_read pd lba count dst s1 = Some (0, s2)" "sect s2 = sect s1"
      "\<exists>m. slab_mem s2 = mem_copy_in m dst ?data"
    using ahci_transfer_served [OF law s1(2) assms(3) dst lba assms(5,6), of False] by (auto simp: ahci_read_def served_def at cat)
  have "mem_read (slab_mem s2) dst (512 * ?n) = ?data"
    using s2(3) mem_read_copy [of ?data] assms(6) by fastforce
  moreover have "sect s1 l = sect s l" if "unat l < unat lba \<or> unat lba + ?n \<le> unat l" for l
    unfolding s1(3) using that u by (intro fold_fun_upd_other) force
  ultimately show ?thesis using s1(1) s2(1,2) by auto
qed

section \<open>A controller with a disk in memory\<close>

definition demo_hba_write :: "u64 \<Rightarrow> u32 \<Rightarrow> (u64 \<Rightarrow> bytes) \<times> mem \<Rightarrow> (u64 \<Rightarrow> bytes) \<times> mem" where
  "demo_hba_write a v b =
     (if a = 0xFEBF1138 \<and> v = 1 then
        (case decode_command (snd b) 0x10400 of None \<Rightarrow> b | Some rq \<Rightarrow> served rq (fst b) (snd b))
      else b)"

definition demo_hba :: "(u64 \<Rightarrow> bytes) \<Rightarrow> mem \<Rightarrow> (unit, u64 \<Rightarrow> bytes) board" where
  "demo_hba d m = machine.extend (kernel.extend
     \<lparr>slab_vm = \<lparr>vm_mem = m, page_bump = 0x201000, cr3 = 0x1000\<rparr>, free_lists = [], heap_start = 0, ksched = sched_init power_on,
      kdev = vfs.extend (ps2.extend
        \<lparr>hw = d, inb_fn = (\<lambda>p h. (0x20, h)), outb_fn = (\<lambda>p v h. h), inw_fn = (\<lambda>p h. (0, h)), outw_fn = (\<lambda>p v h. h),
         inl_fn = (\<lambda>p h. (0, h)), outl_fn = (\<lambda>p v h. h), rdrand_fn = (\<lambda>h. (None, h)), rdseed_fn = (\<lambda>h. (None, h)),
         rdtsc_fn = (\<lambda>h. (0, h)), cpuid_fn = (\<lambda>_ _. (0, 0, 0, 0)), entropy_state = 0, has_rdrand = False, has_rdseed = False,
         mouse_bytes = [8, 1, 0], mouse_pos = 2\<rparr> (vfs.fields True True [] False))
        (console.fields 79 24 True (\<lambda>_. 0) 0 (\<lambda>_. 0) 0 0 0 0 0
           \<lparr>glyphs = [], glyph_count = 0, glyph_width = 8, glyph_height = 16, bytes_per_glyph = 16\<rparr>),
      root_volume = None, fds = [], last_errno = 0, user_brk_end = 0, msr = (\<lambda>_. 0), net_sent = None\<rparr>
     (machine.fields (gdt demo_machine) (gdt_ptr demo_machine) (kernel_tss demo_machine) (idt demo_machine) (idt_ptr demo_machine)
        (gdtr demo_machine) (idtr demo_machine) (task_register demo_machine)))
     (board.fields (\<lambda>a b. (0, b)) (\<lambda>a b. (0, b)) (\<lambda>a b. (0, b)) (\<lambda>a v b. b) (\<lambda>a v b. b) demo_hba_write (\<lambda>b. b))"

lemma demo_hba_simps:
  "slab_mem (demo_hba d m) = m" "set_mem m' (demo_hba d m) = demo_hba d m'" "hw (kdev (demo_hba d m)) = d"
  by (simp_all add: demo_hba_def set_mem_def machine.defs kernel.defs board.defs vfs.defs ps2.defs console.defs)

lemma demo_hba_bus: "bus_state (demo_hba d m) = (d, m)" "set_bus b (demo_hba d m) = demo_hba (fst b) (snd b)"
  by (simp_all add: bus_state_def demo_hba_simps set_bus_def)
    (simp add: demo_hba_def set_mem_def machine.defs kernel.defs board.defs vfs.defs ps2.defs console.defs)

lemma demo_hba_mmio:
  "mmio_read32 a (demo_hba d m) = (0, demo_hba d m)"
  "mmio_write32 a v (demo_hba d m) = demo_hba (fst (demo_hba_write a v (d, m))) (snd (demo_hba_write a v (d, m)))"
  unfolding mmio_read32_def mmio_write32_def demo_hba_bus
  by (simp_all add: demo_hba_def machine.defs kernel.defs board.defs demo_hba_bus [unfolded demo_hba_def machine.defs kernel.defs board.defs])

definition demo_hba_ready :: "(unit, u64 \<Rightarrow> bytes) board \<Rightarrow> bool" where
  "demo_hba_ready s \<longleftrightarrow> (\<exists>d m. s = demo_hba d m)"

lemma demo_hba_readyI: "demo_hba_ready (demo_hba d m)"
  by (auto simp: demo_hba_ready_def)

lemma demo_hba_readyE: "demo_hba_ready s \<Longrightarrow> (\<And>d m. s = demo_hba d m \<Longrightarrow> P) \<Longrightarrow> P"
  by (auto simp: demo_hba_ready_def)

lemma demo_hba_serves:
  assumes "decode_command m 0x10400 = Some rq"
  shows "\<exists>n s1 ci s2 is s3. busy_rounds n 0xFEBF1100 (mmio_write32 (0xFEBF1100 + PxCI) 1 (demo_hba d m)) = Some s1 \<and>
     mmio_read32 (0xFEBF1100 + PxCI) s1 = (ci, s2) \<and> ci AND 1 = 0 \<and> mmio_read32 (0xFEBF1100 + PxIS) s2 = (is, s3) \<and>
     is AND push_bit 30 1 = 0 \<and> demo_hba_ready s3 \<and> (hw (kdev s3), slab_mem s3) = served rq d m"
proof -
  have "mmio_write32 (0xFEBF1100 + PxCI) 1 (demo_hba d m) = demo_hba (fst (served rq d m)) (snd (served rq d m))"
    using assms by (simp add: demo_hba_mmio demo_hba_write_def PxCI_def)
  then show ?thesis by (intro exI [of _ 0]) (auto simp: demo_hba_mmio demo_hba_simps demo_hba_readyI)
qed

lemma demo_hba_law: "sata_port 0xFEBF1100 0x10400 demo_hba_ready (\<lambda>s. hw (kdev s))"
  unfolding sata_port_def Let_def
proof (intro conjI allI impI)
  fix s rq assume "demo_hba_ready s" "decode_command (slab_mem s) 0x10400 = Some rq" "rq_bytes rq = 512 * rq_count rq"
  then show "\<exists>n s1 ci s2 is s3. busy_rounds n 0xFEBF1100 (mmio_write32 (0xFEBF1100 + PxCI) 1 s) = Some s1 \<and>
     mmio_read32 (0xFEBF1100 + PxCI) s1 = (ci, s2) \<and> ci AND 1 = 0 \<and> mmio_read32 (0xFEBF1100 + PxIS) s2 = (is, s3) \<and>
     is AND push_bit 30 1 = 0 \<and> demo_hba_ready s3 \<and> (hw (kdev s3), slab_mem s3) = served rq (hw (kdev s)) (slab_mem s)"
    using demo_hba_serves by (auto elim!: demo_hba_readyE simp: demo_hba_simps)
qed (auto elim!: demo_hba_readyE simp: demo_hba_simps demo_hba_mmio demo_hba_write_def PxIS_def demo_hba_readyI)

definition demo_ahci :: AhciPortData where
  "demo_ahci = \<lparr>abar = 0xFEBF1000, port = 0xFEBF1100, port_index = 0, pd_address = 0x10000\<rparr>"

theorem ahci_write_read_witness:
  "\<exists>s1 s2. ahci_write demo_ahci 5 2 0x20000 (demo_hba (\<lambda>_. []) (\<lambda>a. ucast a)) = Some (0, s1) \<and>
     ahci_read demo_ahci 5 2 0x30000 s1 = Some (0, s2) \<and> mem_read (slab_mem s2) 0x30000 1024 = mem_read (\<lambda>a. ucast a) 0x20000 1024"
proof -
  have law: "sata_port (port demo_ahci) (pd_address demo_ahci + command_list) demo_hba_ready (\<lambda>s. hw (kdev s))"
    using demo_hba_law by (simp add: demo_ahci_def command_list_def)
  show ?thesis
    using ahci_write_read [OF law demo_hba_readyI, of 5 2 "0x20000" "0x30000" "\<lambda>_. []" "\<lambda>a. ucast a"] by (auto simp: demo_ahci_def demo_hba_simps)
qed

end
