(* ===== verification/Xhci.thy ===== *)
theory Xhci
  imports Board
begin

text \<open>
  \<^verbatim>\<open>src/src/drivers/usb/xhci.c\<close>: the USB host controller.

  The driver puts commands on a ring in memory, rings a doorbell and looks for the answer on a
  second ring.  Both rings have 256 entries of 16 bytes with a cycle bit; the controller acts on
  memory before every look of the driver.  The static variables are the record \<open>xhci\<close>.
\<close>

definition USBCMD_RS :: u32 where "USBCMD_RS = push_bit 0 1"
definition USBCMD_HCRST :: u32 where "USBCMD_HCRST = push_bit 1 1"
definition USBCMD_INTE :: u32 where "USBCMD_INTE = push_bit 2 1"
definition USBSTS_HCH :: u32 where "USBSTS_HCH = push_bit 11 1"
definition USBSTS_CNR :: u32 where "USBSTS_CNR = push_bit 12 1"
definition XHCI_EXT_PROTOCOL :: u8 where "XHCI_EXT_PROTOCOL = 2"
definition XHCI_TRB_TYPE_LINK :: u32 where "XHCI_TRB_TYPE_LINK = 6"
definition XHCI_TRB_TYPE_ENABLE_SLOT :: u32 where "XHCI_TRB_TYPE_ENABLE_SLOT = 9"
definition XHCI_TRB_TYPE_ADDRESS_DEVICE :: u32 where "XHCI_TRB_TYPE_ADDRESS_DEVICE = 11"
definition XHCI_TRB_TYPE_CMD_COMPLETION :: u32 where "XHCI_TRB_TYPE_CMD_COMPLETION = 33"
definition XHCI_TRB_CYCLE :: u32 where "XHCI_TRB_CYCLE = 1"
definition XHCI_TRB_IOC :: u32 where "XHCI_TRB_IOC = push_bit 5 1"
definition XHCI_CMD_RING_TRBS :: u32 where "XHCI_CMD_RING_TRBS = 256"
definition XHCI_EVENT_RING_TRBS :: u32 where "XHCI_EVENT_RING_TRBS = 256"
definition XHCI_MAX_SLOTS :: u32 where "XHCI_MAX_SLOTS = 64"
definition XHCI_PCI_CLASS_SERIAL :: u8 where "XHCI_PCI_CLASS_SERIAL = 0x0C"
definition XHCI_PCI_SUBCLASS_USB :: u8 where "XHCI_PCI_SUBCLASS_USB = 0x03"
definition XHCI_PCI_PROGIF_XHCI :: u8 where "XHCI_PCI_PROGIF_XHCI = 0x30"
definition sizeof_XhciTrb :: u32 where "sizeof_XhciTrb = 16"
definition sizeof_XhciErstEntry :: u32 where "sizeof_XhciErstEntry = 16"

text \<open>An entry of a ring, and the store of one at its address.\<close>

record XhciTrb =
  parameter :: u64
  status :: u32
  control :: u32

definition trb_load :: "mem \<Rightarrow> u64 \<Rightarrow> XhciTrb" where
  "trb_load m a = \<lparr>parameter = load m a, status = load m (a + 8), control = load m (a + 12)\<rparr>"

definition trb_store :: "mem \<Rightarrow> u64 \<Rightarrow> XhciTrb \<Rightarrow> mem" where
  "trb_store m a t = store (store (store m a (parameter t)) (a + 8) (status t)) (a + 12) (control t)"

record xhci =
  cmd_ring :: u64
  cmd_index :: u32
  cmd_cycle :: u32
  event_ring :: u64
  event_index :: u32
  event_cycle :: u32
  dcbaa :: u64

text \<open>The address of entry \<open>i\<close> of the ring at \<open>r\<close>.\<close>

definition trb_addr :: "u64 \<Rightarrow> u32 \<Rightarrow> u64" where
  "trb_addr r i = r + 16 * ucast i"

definition mmio_write64 :: "u64 \<Rightarrow> u64 \<Rightarrow> ('d, 'h, 'z) board_scheme \<Rightarrow> ('d, 'h, 'z) board_scheme" where
  "mmio_write64 r v s = mmio_write32 (r + 4) (ucast (drop_bit 32 v)) (mmio_write32 r (ucast v) s)"

definition trb_type :: "u32 \<Rightarrow> u32" where
  "trb_type c = drop_bit 10 c AND 0x3F"

section \<open>Memory for the controller\<close>

definition xhci_alloc_pages :: "u32 \<Rightarrow> ('d, 'h, 'z) board_scheme \<Rightarrow> u64 \<times> ('d, 'h, 'z) board_scheme" where
  "xhci_alloc_pages pages s =
     fold (\<lambda>_ (first, s). let (p, s1) = alloc_page s in (if first = 0 then p else first, s1)) [0..<unat pages] (0, s)"

definition xhci_page_count :: "u32 \<Rightarrow> u32" where
  "xhci_page_count bytes = ucast ((ucast bytes + 4096 - 1 :: u64) div 4096)"

definition xhci_zero :: "u64 \<Rightarrow> u32 \<Rightarrow> ('d, 'h, 'z) board_scheme \<Rightarrow> ('d, 'h, 'z) board_scheme" where
  "xhci_zero p bytes s = set_mem (mem_fill (slab_mem s) p 0 (unat bytes)) s"

definition xhci_ctx_write32 :: "u64 \<Rightarrow> u32 \<Rightarrow> u32 \<Rightarrow> ('d, 'h, 'z) board_scheme \<Rightarrow> ('d, 'h, 'z) board_scheme" where
  "xhci_ctx_write32 ctx offset v s = set_mem (store (slab_mem s) (ctx + ucast offset) v) s"

definition xhci_ctx_write64 :: "u64 \<Rightarrow> u32 \<Rightarrow> u64 \<Rightarrow> ('d, 'h, 'z) board_scheme \<Rightarrow> ('d, 'h, 'z) board_scheme" where
  "xhci_ctx_write64 ctx offset v s = set_mem (store (slab_mem s) (ctx + ucast offset) v) s"

section \<open>Reports\<close>

definition xhci_port_speed_name :: "u32 \<Rightarrow> string" where
  "xhci_port_speed_name portsc =
     (let spd = drop_bit 10 portsc AND 0xF
      in if spd = 1 then ''full'' else if spd = 2 then ''low'' else if spd = 3 then ''high''
         else if spd = 4 then ''super'' else if spd = 5 then ''super_plus'' else ''unknown'')"

definition print_int :: "u64 \<Rightarrow> ('d, 'h, 'z) board_scheme \<Rightarrow> ('d, 'h, 'z) board_scheme" where
  "print_int n = upd_dev (kprint_int n)"

text \<open>The dashes of the message are three bytes each.\<close>

definition print_protocol :: "u32 \<Rightarrow> u32 \<Rightarrow> ('d, 'h, 'z) board_scheme \<Rightarrow> ('d, 'h, 'z) board_scheme" where
  "print_protocol dw1 dw2 s =
     (let rev = (ucast (dw1 AND 0xFFFF) :: u16);
          major = (ucast (drop_bit 8 rev AND 0xFF) :: u8);
          minor = (ucast (rev AND 0xFF) :: u8);
          poff = (ucast (dw2 AND 0xFF) :: u8);
          pcnt = (ucast (drop_bit 8 dw2 AND 0xFF) :: u8);
          s1 = print ''.'' (print_int (ucast major) (print ''  xHCI protocol: USB '' s));
          s2 = print_int (ucast minor) (if minor < 10 then print ''0'' s1 else s1);
          s3 = upd_dev (kprint ([0x20, 0xE2, 0x80, 0x94] @ ascii '' host ports '')) s2;
          s4 = upd_dev (kprint [0xE2, 0x80, 0x93]) (print_int (ucast poff) s3)
      in print nl (print_int (ucast poff + ucast pcnt - 1) s4))"

partial_function (option) protocol_caps_loop ::
  "u64 \<Rightarrow> u32 \<Rightarrow> ('d, 'h, 'z) board_scheme \<Rightarrow> ('d, 'h, 'z) board_scheme option" where
  "protocol_caps_loop base off s =
     (let dw0p = base + ucast off;
          (dw0, s1) = mmio_read32 dw0p s;
          next = (ucast (drop_bit 8 dw0 AND 0xFF) :: u8);
          s4 = (if (ucast (dw0 AND 0xFF) :: u8) = XHCI_EXT_PROTOCOL then
                  let (dw1, s2) = mmio_read32 (dw0p + 4) s1; (dw2, s3) = mmio_read32 (dw0p + 8) s2
                  in print_protocol dw1 dw2 s3
                else s1)
      in if next = 0 then Some s4 else protocol_caps_loop base (off + ucast next * 4) s4)"

definition xhci_print_protocol_caps ::
  "u64 \<Rightarrow> u32 \<Rightarrow> ('d, 'h, 'z) board_scheme \<Rightarrow> ('d, 'h, 'z) board_scheme option" where
  "xhci_print_protocol_caps base hccparams s =
     (let xecp = drop_bit 16 hccparams AND 0xFFFF
      in if xecp = 0 then Some (print (''  xHCI: no extended capability list'' @ nl) s)
         else protocol_caps_loop base (xecp * 4) s)"

section \<open>Commands\<close>

text \<open>The looks at the event ring.  The mask of the addresses has 32 bits.\<close>

primrec event_loop ::
  "nat \<Rightarrow> u64 \<Rightarrow> u64 \<Rightarrow> xhci \<Rightarrow> ('d, 'h, 'z) board_scheme \<Rightarrow> int \<times> u32 \<times> xhci \<times> ('d, 'h, 'z) board_scheme" where
  "event_loop 0 ir expected x s = (-1, 0, x, s)"
| "event_loop (Suc n) ir expected x s =
     (let s1 = dma s; ev = trb_load (slab_mem s1) (trb_addr (event_ring x) (event_index x))
      in if control ev AND XHCI_TRB_CYCLE = event_cycle x \<and> trb_type (control ev) = XHCI_TRB_TYPE_CMD_COMPLETION then
           let cmd = parameter ev AND 0xFFFFFFF0;
               code = drop_bit 24 (status ev) AND 0xFF;
               slot = drop_bit 24 (control ev) AND 0xFF;
               x1 = x\<lparr>event_index := event_index x + 1\<rparr>;
               x2 = (if event_index x1 = XHCI_EVENT_RING_TRBS then x1\<lparr>event_index := 0, event_cycle := event_cycle x1 XOR 1\<rparr> else x1);
               s2 = mmio_write64 (ir + 0x18) (trb_addr (event_ring x2) (event_index x2)) s1
           in (if cmd = expected AND 0xFFFFFFF0 \<and> code = 1 then 0 else -1, slot, x2, s2)
         else event_loop n ir expected x s1)"

definition xhci_wait_cmd ::
  "u64 \<Rightarrow> u64 \<Rightarrow> u64 \<Rightarrow> xhci \<Rightarrow> ('d, 'h, 'z) board_scheme \<Rightarrow> int \<times> u32 \<times> xhci \<times> ('d, 'h, 'z) board_scheme" where
  "xhci_wait_cmd db ir expected x s = event_loop 4000000 ir expected x (mmio_write32 db 0 s)"

text \<open>Putting a command on the ring: the address of its entry, the variables and the memory after it.\<close>

definition cycle_bit :: "xhci \<Rightarrow> u32" where
  "cycle_bit x = (if cmd_cycle x \<noteq> 0 then XHCI_TRB_CYCLE else 0)"

definition xhci_put :: "u64 \<Rightarrow> u32 \<Rightarrow> u32 \<Rightarrow> xhci \<Rightarrow> mem \<Rightarrow> u64 \<times> xhci \<times> mem" where
  "xhci_put param st ctl x m =
     (let trb = trb_addr (cmd_ring x) (cmd_index x);
          m1 = trb_store m trb \<lparr>parameter = param, status = st, control = ctl OR cycle_bit x\<rparr>;
          x1 = x\<lparr>cmd_index := cmd_index x + 1\<rparr>
      in if cmd_index x1 = XHCI_CMD_RING_TRBS - 1 then
           (trb, x1\<lparr>cmd_index := 0, cmd_cycle := cmd_cycle x1 XOR 1\<rparr>,
            trb_store m1 (trb_addr (cmd_ring x1) (cmd_index x1))
              \<lparr>parameter = cmd_ring x1, status = 0, control = push_bit 10 XHCI_TRB_TYPE_LINK OR push_bit 1 1 OR cycle_bit x1\<rparr>)
         else (trb, x1, m1))"

definition xhci_cmd ::
  "u64 \<Rightarrow> u64 \<Rightarrow> u64 \<Rightarrow> u32 \<Rightarrow> u32 \<Rightarrow> xhci \<Rightarrow> ('d, 'h, 'z) board_scheme \<Rightarrow> int \<times> u32 \<times> xhci \<times> ('d, 'h, 'z) board_scheme" where
  "xhci_cmd db ir param st ctl x s =
     (let (expected, x1, m1) = xhci_put param st ctl x (slab_mem s)
      in xhci_wait_cmd db ir expected x1 (set_mem m1 s))"

section \<open>Devices\<close>

definition xhci_default_ep0_packet :: "u32 \<Rightarrow> u32" where
  "xhci_default_ep0_packet portsc =
     (let spd = drop_bit 10 portsc AND 0xF
      in if spd \<ge> 4 then 512 else if spd = 3 then 64 else if spd = 2 then 8 else 64)"

text \<open>The contexts for a device, given the three areas.\<close>

definition xhci_contexts ::
  "u64 \<Rightarrow> u64 \<Rightarrow> u64 \<Rightarrow> u32 \<Rightarrow> u32 \<Rightarrow> u32 \<Rightarrow> ('d, 'h, 'z) board_scheme \<Rightarrow> ('d, 'h, 'z) board_scheme" where
  "xhci_contexts input output ep0_ring ctx_size port_id portsc s =
     (let s1 = xhci_zero ep0_ring 4096 (xhci_zero output (ctx_size * 32) (xhci_zero input (ctx_size * 3) s));
          slot_ctx = input + ucast ctx_size;
          ep0_ctx = input + ucast (ctx_size * 2);
          s2 = xhci_ctx_write32 slot_ctx 0 0 (xhci_ctx_write32 input 4 0x3 s1);
          s3 = xhci_ctx_write32 slot_ctx 4 (push_bit 20 (drop_bit 10 portsc AND 0xF) OR push_bit 27 1) s2;
          s4 = xhci_ctx_write32 slot_ctx 8 (push_bit 16 port_id) s3;
          s5 = xhci_ctx_write32 ep0_ctx 8 0 (xhci_ctx_write64 ep0_ctx 0 (ep0_ring OR 1) s4)
      in xhci_ctx_write32 ep0_ctx 12 (push_bit 3 4 OR push_bit 16 (xhci_default_ep0_packet portsc)) s5)"

definition xhci_address_port ::
  "u64 \<Rightarrow> u64 \<Rightarrow> u32 \<Rightarrow> u32 \<Rightarrow> bool \<Rightarrow> xhci \<Rightarrow> ('d, 'h, 'z) board_scheme \<Rightarrow> int \<times> xhci \<times> ('d, 'h, 'z) board_scheme" where
  "xhci_address_port db ir port_id portsc context_size_64 x s =
     (let (r, slot_id, x1, s1) = xhci_cmd db ir 0 0 (push_bit 10 XHCI_TRB_TYPE_ENABLE_SLOT) x s
      in if r \<noteq> 0 \<or> slot_id = 0 \<or> slot_id \<ge> XHCI_MAX_SLOTS then (-1, x1, print (''    xHCI: Enable Slot failed'' @ nl) s1)
         else
           let ctx_size = (if context_size_64 then 64 else 32);
               (input, s2) = xhci_alloc_pages (xhci_page_count (ctx_size * 3)) s1;
               (output, s3) = xhci_alloc_pages (xhci_page_count (ctx_size * 32)) s2;
               (ep0_ring, s4) = xhci_alloc_pages 1 s3
           in if input = 0 \<or> output = 0 \<or> ep0_ring = 0 then (-1, x1, s4)
              else
                let s5 = xhci_contexts input output ep0_ring ctx_size port_id portsc s4;
                    s6 = set_mem (store (slab_mem s5) (dcbaa x1 + 8 * ucast slot_id) output) s5;
                    (r, slot_id, x2, s7) =
                      xhci_cmd db ir input 0 (push_bit 10 XHCI_TRB_TYPE_ADDRESS_DEVICE OR XHCI_TRB_IOC OR push_bit 24 slot_id) x1 s6
                in if r \<noteq> 0 then
                     (-1, x2, print nl (print_int (ucast port_id) (print ''    xHCI: Address Device failed on port '' s7)))
                   else
                     (0, x2, print nl (print_int (ucast slot_id) (print '' as slot ''
                       (print_int (ucast port_id) (print ''    xHCI: addressed device on port '' s7))))))"

section \<open>Setting up\<close>

text \<open>The scratchpad: an array of pages for the controller's own use.\<close>

definition xhci_scratchpad :: "u32 \<Rightarrow> u64 \<Rightarrow> ('d, 'h, 'z) board_scheme \<Rightarrow> ('d, 'h, 'z) board_scheme" where
  "xhci_scratchpad scratchpad_count dc s =
     (if scratchpad_count = 0 then s
      else
        let (scratch, s1) = xhci_alloc_pages (xhci_page_count (scratchpad_count * 8)) s;
            s2 = xhci_zero scratch (scratchpad_count * 8) s1;
            s3 = fold (\<lambda>i s. let (p, s') = alloc_page s in set_mem (store (slab_mem s') (scratch + 8 * of_nat i) p) s')
                   [0..<unat scratchpad_count] s2
        in set_mem (store (slab_mem s3) dc scratch) s3)"

definition xhci_init_rings ::
  "u64 \<Rightarrow> u64 \<Rightarrow> u64 \<Rightarrow> u32 \<Rightarrow> u32 \<Rightarrow> ('d, 'h, 'z) board_scheme \<Rightarrow> xhci \<times> ('d, 'h, 'z) board_scheme" where
  "xhci_init_rings base op rt hcsparams1 hcsparams2 s =
     (let max_slots = (ucast (hcsparams1 AND 0xFF) :: u8);
          scratchpad_count = (drop_bit 27 hcsparams2 AND 0x1F) OR push_bit 5 (drop_bit 21 hcsparams2 AND 0x1F);
          dcbaa_slots = (if ucast max_slots + 1 < XHCI_MAX_SLOTS then XHCI_MAX_SLOTS else ucast max_slots + 1);
          (dc, s1) = xhci_alloc_pages (xhci_page_count (dcbaa_slots * 8)) s;
          s2 = xhci_scratchpad scratchpad_count dc (xhci_zero dc (dcbaa_slots * 8) s1);
          (cr, s3) = xhci_alloc_pages (xhci_page_count (sizeof_XhciTrb * XHCI_CMD_RING_TRBS)) s2;
          (er, s4) = xhci_alloc_pages (xhci_page_count (sizeof_XhciTrb * XHCI_EVENT_RING_TRBS)) s3;
          (erst, s5) = xhci_alloc_pages 1 s4;
          s6 = xhci_zero erst sizeof_XhciErstEntry (xhci_zero er (sizeof_XhciTrb * XHCI_EVENT_RING_TRBS)
                 (xhci_zero cr (sizeof_XhciTrb * XHCI_CMD_RING_TRBS) s5));
          x = \<lparr>cmd_ring = cr, cmd_index = 0, cmd_cycle = 1, event_ring = er, event_index = 0, event_cycle = 1, dcbaa = dc\<rparr>;
          m1 = store (slab_mem s6) erst (ucast er :: u32);
          m2 = store m1 (erst + 4) (ucast (drop_bit 32 er) :: u32);
          s7 = set_mem (store m2 (erst + 8) XHCI_EVENT_RING_TRBS) s6;
          max = (if ucast max_slots > XHCI_MAX_SLOTS - 1 then XHCI_MAX_SLOTS - 1 else ucast max_slots);
          s8 = mmio_write64 (op + 0x18) (cr OR 1) (mmio_write64 (op + 0x30) dc (mmio_write32 (op + 0x38) max s7));
          (_, s9) = mmio_read32 (base + 0x14) s8;
          ir0 = rt + 0x20
      in (x, mmio_write64 (ir0 + 0x18) (trb_addr er 0) (mmio_write64 (ir0 + 0x10) erst (mmio_write32 (ir0 + 0x08) 1 s9))))"

text \<open>The two loops over the ports, whose counter has 8 bits.\<close>

definition portsc_addr :: "u64 \<Rightarrow> u8 \<Rightarrow> u64" where
  "portsc_addr op i = op + 0x400 + ucast ((ucast i - 1) * 16 :: u32)"

partial_function (option) ports_report_loop ::
  "u64 \<Rightarrow> u8 \<Rightarrow> u8 \<Rightarrow> ('d, 'h, 'z) board_scheme \<Rightarrow> ('d, 'h, 'z) board_scheme option" where
  "ports_report_loop op n_ports i s =
     (if \<not> i \<le> n_ports then Some s
      else
        let (sc, s1) = mmio_read32 (portsc_addr op i) s;
            s2 = print '': '' (print_int (ucast i) (print ''    Port '' s1));
            s3 = print '', link '' (print (if sc AND 1 \<noteq> 0 then ''device'' else ''empty'') s2)
        in ports_report_loop op n_ports (i + 1) (print nl (print (xhci_port_speed_name sc) s3)))"

definition xhci_ports_report :: "u64 \<Rightarrow> u8 \<Rightarrow> ('d, 'h, 'z) board_scheme \<Rightarrow> ('d, 'h, 'z) board_scheme option" where
  "xhci_ports_report op n_ports s = ports_report_loop op n_ports 1 (print (''  xHCI port status (after reset):'' @ nl) s)"

partial_function (option) address_ports ::
  "u64 \<Rightarrow> u64 \<Rightarrow> u64 \<Rightarrow> bool \<Rightarrow> u8 \<Rightarrow> u8 \<Rightarrow> xhci \<Rightarrow> ('d, 'h, 'z) board_scheme \<Rightarrow> (xhci \<times> ('d, 'h, 'z) board_scheme) option" where
  "address_ports op db ir context_size_64 n_ports i x s =
     (if \<not> i \<le> n_ports then Some (x, s)
      else
        let (sc, s1) = mmio_read32 (portsc_addr op i) s;
            (x2, s2) = (if sc AND 1 \<noteq> 0 then snd (xhci_address_port db ir (ucast i) sc context_size_64 x s1) else (x, s1))
        in address_ports op db ir context_size_64 n_ports (i + 1) x2 s2)"

definition mmio_test :: "u64 \<Rightarrow> (u32 \<Rightarrow> bool) \<Rightarrow> ('d, 'h, 'z) board_scheme \<Rightarrow> bool \<times> ('d, 'h, 'z) board_scheme" where
  "mmio_test a P s = (let (v, s') = mmio_read32 a s in (P v, s'))"

definition mmio_change :: "u64 \<Rightarrow> (u32 \<Rightarrow> u32) \<Rightarrow> ('d, 'h, 'z) board_scheme \<Rightarrow> ('d, 'h, 'z) board_scheme" where
  "mmio_change a f s = (let (v, s') = mmio_read32 a s in mmio_write32 a (f v) s')"

text \<open>Stopping and resetting the controller.\<close>

definition xhci_reset :: "u64 \<Rightarrow> ('d, 'h, 'z) board_scheme \<Rightarrow> ('d, 'h, 'z) board_scheme" where
  "xhci_reset op s =
     (let s1 = spin_until 1000000 (mmio_test (op + 4) (\<lambda>v. v AND USBSTS_HCH \<noteq> 0)) (mmio_change op (\<lambda>v. v AND NOT USBCMD_RS) s);
          s2 = spin_until 1000000 (mmio_test op (\<lambda>v. v AND USBCMD_HCRST = 0)) (mmio_change op (\<lambda>v. v OR USBCMD_HCRST) s1)
      in spin_until 1000000 (mmio_test (op + 4) (\<lambda>v. v AND USBSTS_CNR = 0)) s2)"

definition xhci_run :: "u64 \<Rightarrow> ('d, 'h, 'z) board_scheme \<Rightarrow> ('d, 'h, 'z) board_scheme" where
  "xhci_run op s =
     spin_until 1000000 (mmio_test (op + 4) (\<lambda>v. v AND USBSTS_HCH = 0))
       (mmio_change op (\<lambda>v. v OR USBCMD_RS OR USBCMD_INTE) (mmio_change (op + 4) (\<lambda>v. v) s))"

text \<open>The variables are as before when no controller was found.\<close>

definition xhci_init :: "xhci \<Rightarrow> ('d, 'h, 'z) board_scheme \<Rightarrow> (int \<times> xhci \<times> ('d, 'h, 'z) board_scheme) option" where
  "xhci_init x s =
     (let (found, s1) = on_dev (pci_find_class XHCI_PCI_CLASS_SERIAL XHCI_PCI_SUBCLASS_USB XHCI_PCI_PROGIF_XHCI) s in
      case found of
        None \<Rightarrow> Some (0, x, print (''xHCI: no PCI device found'' @ nl) s1)
      | Some addr \<Rightarrow>
          let (base, s2) = on_dev (pci_bar addr 0) (pci_enable addr (push_bit 1 1 OR push_bit 2 1) s1)
          in if base = 0 then Some (0, x, print (''xHCI: invalid MMIO BAR'' @ nl) s2)
             else
               let (caplen, s3) = mmio_read8 base s2;
                   (hcsp1, s4) = mmio_read32 (base + 4) s3;
                   (hcsp2, s5) = mmio_read32 (base + 8) s4;
                   (hccparams, s6) = mmio_read32 (base + 16) s5;
                   (dboff, s7) = mmio_read32 (base + 20) s6;
                   (rtsoff, s8) = mmio_read32 (base + 24) s7;
                   n_ports = (ucast (hcsp1 AND 0xFF) :: u8);
                   s9 = print '', '' (upd_dev (kprint_hex base) (print ''xHCI: controller at '' s8));
                   s10 = print ('' root port(s)'' @ nl) (print_int (ucast n_ports) s9)
               in (case xhci_print_protocol_caps base hccparams s10 of
                     None \<Rightarrow> None
                   | Some s11 \<Rightarrow>
                       let op = base + ucast caplen;
                           db = base + ucast (dboff AND NOT 3);
                           rt = base + ucast (rtsoff AND NOT 0x1F);
                           (x1, s12) = xhci_init_rings base op rt hcsp1 hcsp2 (xhci_reset op s11)
                       in (case xhci_ports_report op n_ports (xhci_run op s12) of
                             None \<Rightarrow> None
                           | Some s13 \<Rightarrow>
                               map_option (\<lambda>(x2, s14). (1, x2, s14))
                                 (address_ports op db (rt + 0x20) (hccparams AND push_bit 2 1 \<noteq> 0) n_ports 1 x1 s13))))"

section \<open>The command ring as a list\<close>

text \<open>
  The ring as the driver fills it, without addresses: the next slot, its cycle and the entries.
  Slot 255 is the link back to slot 0.
\<close>

type_synonym ring = "nat \<times> bool \<times> XhciTrb list"

definition with_cycle :: "bool \<Rightarrow> XhciTrb \<Rightarrow> XhciTrb" where
  "with_cycle c t = t\<lparr>control := control t OR of_bool c\<rparr>"

definition link_trb :: "u64 \<Rightarrow> bool \<Rightarrow> XhciTrb" where
  "link_trb r c = \<lparr>parameter = r, status = 0, control = push_bit 10 6 OR push_bit 1 1 OR of_bool c\<rparr>"

fun ring_put :: "u64 \<Rightarrow> XhciTrb \<Rightarrow> ring \<Rightarrow> ring" where
  "ring_put r t (i, c, R) =
     (if i + 1 = 255 then (0, \<not> c, R[i := with_cycle c t, 255 := link_trb r c]) else (i + 1, c, R[i := with_cycle c t]))"

definition trb_cycle :: "XhciTrb \<Rightarrow> bool" where
  "trb_cycle t \<longleftrightarrow> bit (control t) 0"

text \<open>The slots before the next one have its cycle, the others the opposite one.\<close>

fun ring_ok :: "ring \<Rightarrow> bool" where
  "ring_ok (i, c, R) \<longleftrightarrow> length R = 256 \<and> i < 255 \<and> (\<forall>j < 256. trb_cycle (R ! j) = (if j < i then c else \<not> c))"

text \<open>A command leaves the cycle bit to the driver and is not a link.\<close>

definition command_trb :: "XhciTrb \<Rightarrow> bool" where
  "command_trb t \<longleftrightarrow> \<not> bit (control t) 0 \<and> trb_type (control t) \<noteq> XHCI_TRB_TYPE_LINK"

lemma trb_cycle_with_cycle: "command_trb t \<Longrightarrow> trb_cycle (with_cycle c t) = c"
  by (simp add: trb_cycle_def with_cycle_def command_trb_def bit_simps)

lemma trb_cycle_link: "trb_cycle (link_trb r c) = c"
  by (cases c) (simp_all add: trb_cycle_def link_trb_def bit_simps)

lemma ring_ok_put: "ring_ok x \<Longrightarrow> command_trb t \<Longrightarrow> ring_ok (ring_put r t x)"
  by (cases x) (auto simp: nth_list_update trb_cycle_with_cycle trb_cycle_link)

lemma ring_put_slot: "ring_ok (i, c, R) \<Longrightarrow> fst (ring_put r t (i, c, R)) = Suc i mod 255"
  by auto

lemma ring_puts_frame:
  assumes "ring_ok x" "\<forall>t \<in> set ts. command_trb t" "j < 255" "\<And>k. k < length ts \<Longrightarrow> j \<noteq> (fst x + k) mod 255"
  shows "snd (snd (fold (ring_put r) ts x)) ! j = snd (snd x) ! j"
  using assms
proof (induction ts arbitrary: x)
  case (Cons t ts)
  obtain i c R where x: "x = (i, c, R)" by (cases x)
  have i: "i < 255" "length R = 256" using Cons.prems(1) by (simp_all add: x)
  have "j \<noteq> i" using Cons.prems(4) [of 0] i by (simp add: x)
  then have one: "snd (snd (ring_put r t x)) ! j = R ! j" using Cons.prems(3) by (simp add: x)
  have "j \<noteq> (fst (ring_put r t x) + k) mod 255" if "k < length ts" for k
    using Cons.prems(4) [of "Suc k"] that ring_put_slot [of i c R r t] Cons.prems(1) by (simp add: x mod_simps)
  with Cons.IH [of "ring_put r t x"] one Cons.prems show ?case by (auto simp: x intro: ring_ok_put simp del: ring_put.simps ring_ok.simps)
qed simp

lemma ring_puts_link:
  assumes "ring_ok x" "\<forall>t \<in> set ts. command_trb t" "fst x + length ts < 255"
  shows "snd (snd (fold (ring_put r) ts x)) ! 255 = snd (snd x) ! 255"
  using assms
proof (induction ts arbitrary: x)
  case (Cons t ts)
  obtain i c R where x: "x = (i, c, R)" by (cases x)
  have "ring_ok (ring_put r t x)" by (rule ring_ok_put) (use Cons.prems in auto)
  moreover have "ring_put r t x = (i + 1, c, R[i := with_cycle c t])" using Cons.prems(3) by (simp add: x)
  ultimately show ?case using Cons.IH [of "ring_put r t x"] Cons.prems by (simp add: x del: ring_put.simps)
qed simp

lemma ring_ok_puts: "ring_ok x \<Longrightarrow> \<forall>t \<in> set ts. command_trb t \<Longrightarrow> ring_ok (fold (ring_put r) ts x)"
  by (induction ts arbitrary: x) (simp_all add: ring_ok_put del: ring_put.simps ring_ok.simps)

section \<open>What the controller fetches\<close>

text \<open>
  The consumer of the xHCI specification holds an address and a cycle.  An entry with another cycle
  is not yet there; a link leads to the address it names and may toggle the cycle.
\<close>

definition trb_skip :: "mem \<Rightarrow> u64 \<times> bool \<Rightarrow> u64 \<times> bool" where
  "trb_skip m q =
     (let t = trb_load m (fst q)
      in if trb_cycle t = snd q \<and> trb_type (control t) = 6 then (parameter t AND NOT 0xF, snd q \<noteq> bit (control t) 1) else q)"

definition trb_fetch :: "mem \<Rightarrow> u64 \<times> bool \<Rightarrow> (XhciTrb \<times> u64 \<times> bool) option" where
  "trb_fetch m q =
     (let (a, c) = trb_skip m q; t = trb_load m a in if trb_cycle t = c then Some (t, a + 16, c) else None)"

text \<open>At most \<open>n\<close> entries.\<close>

primrec trb_fetches :: "nat \<Rightarrow> mem \<Rightarrow> u64 \<times> bool \<Rightarrow> XhciTrb list" where
  "trb_fetches 0 m q = []"
| "trb_fetches (Suc n) m q = (case trb_fetch m q of None \<Rightarrow> [] | Some (t, q') \<Rightarrow> t # trb_fetches n m q')"

text \<open>The same on the list.\<close>

definition trb_slot :: "u64 \<Rightarrow> nat \<Rightarrow> u64" where
  "trb_slot r i = r + of_nat (16 * i)"

definition ring_view :: "mem \<Rightarrow> u64 \<Rightarrow> XhciTrb list" where
  "ring_view m r = map (\<lambda>i. trb_load m (trb_slot r i)) [0..<256]"

lemma trb_slot_0 [simp]: "trb_slot r 0 = r"
  by (simp add: trb_slot_def)

lemma ring_view_nth: "i < 256 \<Longrightarrow> trb_load m (trb_slot r i) = ring_view m r ! i"
  by (simp add: ring_view_def)

lemma link_trb_type: "trb_type (control (link_trb r c)) = 6" "bit (control (link_trb r c)) 1" "parameter (link_trb r c) = r"
proof -
  show "trb_type (control (link_trb r c)) = 6" by (cases c) (simp_all add: trb_type_def link_trb_def)
  show "bit (control (link_trb r c)) 1" by (simp add: link_trb_def bit_simps)
  show "parameter (link_trb r c) = r" by (simp add: link_trb_def)
qed

lemma with_cycle_type: "trb_type (control (with_cycle c t)) = trb_type (control t)"
  by (rule bit_word_eqI) (auto simp: trb_type_def with_cycle_def bit_simps)

lemma fetch_command:
  assumes "i < 255" "ring_view m r ! i = with_cycle c t" "command_trb t"
  shows "trb_fetch m (trb_slot r i, c) = Some (with_cycle c t, trb_slot r (Suc i), c)"
proof -
  have "trb_load m (trb_slot r i) = with_cycle c t" using ring_view_nth [of i m r] assms by simp
  then show ?thesis using assms(3)
    by (simp add: trb_fetch_def trb_skip_def Let_def trb_cycle_with_cycle with_cycle_type command_trb_def XHCI_TRB_TYPE_LINK_def trb_slot_def)
qed

lemma fetch_empty:
  assumes "i < 256" "trb_cycle (ring_view m r ! i) \<noteq> c"
  shows "trb_fetch m (trb_slot r i, c) = None"
  using assms ring_view_nth [of i m r] by (simp add: trb_fetch_def trb_skip_def Let_def)

text \<open>Past slot 254 the controller is back at slot 0.\<close>

lemma fetch_link:
  assumes "ring_view m r ! 255 = link_trb r c" "r AND 0xF = 0" "trb_type (control (ring_view m r ! 0)) \<noteq> 6 \<or> trb_cycle (ring_view m r ! 0) = c"
  shows "trb_fetch m (trb_slot r 255, c) = trb_fetch m (trb_slot r 0, \<not> c)"
proof -
  have l: "trb_load m (trb_slot r 255) = link_trb r c" using ring_view_nth [of 255 m r] assms by simp
  have "r AND NOT 0xF = r" using bit.conj_disj_distrib [of r "0xF" "NOT 0xF"] assms(2) by simp
  then have "trb_skip m (trb_slot r 255, c) = (trb_slot r 0, \<not> c)"
    using link_trb_type(2) by (simp add: trb_skip_def Let_def l link_trb_type(1,3) trb_cycle_link)
  moreover have "trb_skip m (trb_slot r 0, \<not> c) = (trb_slot r 0, \<not> c)"
    using assms(3) ring_view_nth [of 0 m r] by (auto simp: trb_skip_def Let_def)
  ultimately show ?thesis by (simp add: trb_fetch_def)
qed

lemma fetch_after:
  assumes ok: "ring_ok x" "\<forall>t \<in> set (t # ts). command_trb t" "length ts \<le> 254" and x: "x = (i, c, R)"
    and view: "snd (snd (fold (ring_put r) ts (ring_put r t x))) = ring_view m r" and r: "r AND 0xF = 0"
  shows "trb_fetch m (trb_slot r (Suc i), c) = trb_fetch m (trb_slot r (fst (ring_put r t x)), fst (snd (ring_put r t x)))"
proof (cases "Suc i = 255")
  case True
  let ?y = "ring_put r t x"
  have y: "?y = (0, \<not> c, R[i := with_cycle c t, 255 := link_trb r c])" "length R = 256" using True ok(1) by (simp_all add: x)
  have oky: "ring_ok ?y" by (rule ring_ok_put) (use ok in auto)
  have link: "ring_view m r ! 255 = link_trb r c"
    using ring_puts_link [OF oky, of ts r] ok(2,3) y unfolding view by (simp del: ring_put.simps)
  have first: "trb_type (control (ring_view m r ! 0)) \<noteq> 6 \<or> trb_cycle (ring_view m r ! 0) = c"
  proof (cases ts)
    case Nil
    then have "ring_view m r ! 0 = snd (snd ?y) ! 0" using view by simp
    moreover have "\<forall>j < 256. trb_cycle (snd (snd ?y) ! j) = c" using oky unfolding y(1) by simp
    ultimately show ?thesis by (simp del: ring_put.simps)
  next
    case (Cons u us)
    have "ring_view m r ! 0 = snd (snd (ring_put r u ?y)) ! 0"
      unfolding view [symmetric] Cons fold_Cons comp_apply
    proof (rule ring_puts_frame)
      show "ring_ok (ring_put r u ?y)" by (rule ring_ok_put [OF oky]) (use ok(2) Cons in auto)
      show "0 \<noteq> (fst (ring_put r u ?y) + k) mod 255" if "k < length us" for k
        using that ok(3) Cons y by simp
    qed (use ok(2) Cons in auto)
    also have "\<dots> = with_cycle (\<not> c) u" using y by simp
    finally show ?thesis using ok(2) Cons by (simp add: with_cycle_type command_trb_def XHCI_TRB_TYPE_LINK_def)
  qed
  show ?thesis using fetch_link [OF link r first] True y(1) by (simp del: ring_put.simps)
next
  case False
  then show ?thesis by (simp add: x)
qed

text \<open>
  The cycle the driver gives each of a sequence of commands.
\<close>

primrec stamped :: "u64 \<Rightarrow> ring \<Rightarrow> XhciTrb list \<Rightarrow> XhciTrb list" where
  "stamped r x [] = []"
| "stamped r x (t # ts) = with_cycle (fst (snd x)) t # stamped r (ring_put r t x) ts"

lemma slot_apart: "i < 255 \<Longrightarrow> k < 254 \<Longrightarrow> i \<noteq> (Suc i + k) mod (255 :: nat)"
  by (cases "Suc i + k < 255") (auto simp: mod_if)

lemma fetches_puts:
  assumes "ring_ok x" "\<forall>t \<in> set ts. command_trb t" "length ts \<le> 255" "snd (snd (fold (ring_put r) ts x)) = ring_view m r" "r AND 0xF = 0"
  shows "trb_fetches (Suc (length ts)) m (trb_slot r (fst x), fst (snd x)) = stamped r x ts"
  using assms
proof (induction ts arbitrary: x)
  case Nil
  obtain i c R where x: "x = (i, c, R)" by (cases x)
  have "trb_fetch m (trb_slot r i, c) = None" by (rule fetch_empty) (use Nil in \<open>auto simp: x\<close>)
  then show ?case by (simp add: x)
next
  case (Cons t ts)
  obtain i c R where x: "x = (i, c, R)" by (cases x)
  let ?y = "ring_put r t x"
  have i: "i < 255" "length R = 256" using Cons.prems(1) by (simp_all add: x)
  have oky: "ring_ok ?y" by (rule ring_ok_put) (use Cons.prems in auto)
  have view: "snd (snd (fold (ring_put r) ts ?y)) = ring_view m r" using Cons.prems(4) by simp
  have "ring_view m r ! i = snd (snd ?y) ! i"
    unfolding view [symmetric]
  proof (rule ring_puts_frame [OF oky])
    fix k assume "k < length ts"
    moreover have "fst ?y = Suc i mod 255" unfolding x by (rule ring_put_slot) (use Cons.prems(1) in \<open>simp add: x\<close>)
    ultimately show "i \<noteq> (fst ?y + k) mod 255"
      using Cons.prems(3) i slot_apart [of i k] by (simp add: mod_simps)
  qed (use Cons.prems i in auto)
  also have "\<dots> = with_cycle c t" using i by (simp add: x)
  finally have f: "trb_fetch m (trb_slot r i, c) = Some (with_cycle c t, trb_slot r (Suc i), c)"
    by (intro fetch_command) (use Cons.prems(2) i in auto)
  have rest: "trb_fetch m (trb_slot r (Suc i), c) = trb_fetch m (trb_slot r (fst ?y), fst (snd ?y))"
    by (rule fetch_after [OF Cons.prems(1,2) _ x view Cons.prems(5)]) (use Cons.prems(3) in simp)
  have "trb_fetches (Suc (length ts)) m (trb_slot r (Suc i), c) = trb_fetches (Suc (length ts)) m (trb_slot r (fst ?y), fst (snd ?y))"
    using rest by simp
  also have "\<dots> = stamped r ?y ts" by (rule Cons.IH [OF oky _ _ view Cons.prems(5)]) (use Cons.prems in auto)
  finally show ?case using f by (simp add: x del: ring_put.simps)
qed

section \<open>The ring in memory\<close>

lemma load_store_offsets:
  assumes "p + LENGTH('b) div 8 \<le> q \<or> q + LENGTH('a) div 8 \<le> p" "p < 2 ^ 62" "q < 2 ^ 62" "LENGTH('a) div 8 < 2 ^ 62"
    and "LENGTH('b) div 8 < 2 ^ 62" "8 \<le> LENGTH('a)"
  shows "load (store m (r + of_nat p) (v :: 'b::len word)) (r + of_nat q) = (load m (r + of_nat q) :: 'a::len word)"
proof (rule load_store_apart)
  have "unat (r + of_nat q - (r + of_nat p) :: u64) = (if p \<le> q then q - p else 2 ^ 64 - (p - q))"
  proof (cases "p \<le> q")
    case True
    then have "r + of_nat q - (r + of_nat p) = (of_nat (q - p) :: u64)" by (simp add: of_nat_diff)
    then show ?thesis using True assms(3) by (simp add: unat_of_nat take_bit_nat_eq_self del: of_nat_diff)
  next
    case False
    then have "r + of_nat q - (r + of_nat p) = (- of_nat (p - q) :: u64)" by (simp add: of_nat_diff)
    also have "- of_nat (p - q) = (of_nat (2 ^ 64 - (p - q)) :: u64)" using assms(2) by (subst of_nat_diff) simp_all
    finally show ?thesis using False assms(2) by (simp add: unat_of_nat take_bit_nat_eq_self del: of_nat_diff)
  qed
  then show "LENGTH('b) div 8 \<le> unat (r + of_nat q - (r + of_nat p))"
    and "LENGTH('a) div 8 + unat (r + of_nat q - (r + of_nat p)) \<le> 2 ^ 64" using assms by (auto simp: Suc_le_eq div_greater_zero_iff)
qed

lemma trb_slot_parts: "trb_slot r i + 8 = r + of_nat (16 * i + 8)" "trb_slot r i + 12 = r + of_nat (16 * i + 12)"
  by (simp_all add: trb_slot_def)

lemma trb_load_store:
  assumes "i < 256" "j < 256"
  shows "trb_load (trb_store m (trb_slot r i) t) (trb_slot r j) = (if i = j then t else trb_load m (trb_slot r j))"
proof -
  consider "i = j" | "16 * i + 16 \<le> 16 * j" | "16 * j + 16 \<le> 16 * i" by linarith
  then show ?thesis
    unfolding trb_load_def trb_store_def trb_slot_parts unfolding trb_slot_def
    by cases (use assms in \<open>auto simp: load_store_offsets simp del: of_nat_mult of_nat_add\<close>)
qed

lemma ring_view_store: "i < 256 \<Longrightarrow> ring_view (trb_store m (trb_slot r i) t) r = (ring_view m r)[i := t]"
  by (rule nth_equalityI) (auto simp: ring_view_def trb_load_store nth_list_update)

definition ring_of :: "xhci \<times> mem \<Rightarrow> ring" where
  "ring_of q = (unat (cmd_index (fst q)), cmd_cycle (fst q) \<noteq> 0, ring_view (snd q) (cmd_ring (fst q)))"

definition put_trb :: "XhciTrb \<Rightarrow> xhci \<times> mem \<Rightarrow> xhci \<times> mem" where
  "put_trb t q = snd (xhci_put (parameter t) (status t) (control t) (fst q) (snd q))"

lemma trb_addr_slot: "trb_addr r i = trb_slot r (unat i)"
  by (simp add: trb_addr_def trb_slot_def)

lemma put_trb_refines:
  assumes "cmd_index (fst q) < 255" "cmd_cycle (fst q) \<le> 1"
  shows "ring_of (put_trb t q) = ring_put (cmd_ring (fst q)) t (ring_of q)"
    and "cmd_ring (fst (put_trb t q)) = cmd_ring (fst q)" "cmd_cycle (fst (put_trb t q)) \<le> 1"
proof -
  obtain x m where q: "q = (x, m)" by (cases q)
  have i: "unat (cmd_index x) < 255" using assms(1) by (simp add: q word_less_nat_alt)
  have i1: "unat (cmd_index x + 1) = Suc (unat (cmd_index x))" using i by (subst unat_word_ariths) simp
  have wrap: "cmd_index x + 1 = 255 \<longleftrightarrow> Suc (unat (cmd_index x)) = 255" by (simp add: word_unat_eq_iff i1)
  have "unat (cmd_cycle x) \<le> 1" using assms(2) by (simp add: q word_le_nat_alt)
  then have c: "cmd_cycle x = 0 \<or> cmd_cycle x = 1" by (metis le_Suc_eq le_zero_eq One_nat_def unat_1 unat_0 word_unat_eq_iff)
  have bit: "cycle_bit y = of_bool (cmd_cycle y \<noteq> 0)" for y by (simp add: cycle_bit_def XHCI_TRB_CYCLE_def)
  show "ring_of (put_trb t q) = ring_put (cmd_ring (fst q)) t (ring_of q)"
    using c i by (cases t) (auto simp: q put_trb_def xhci_put_def Let_def ring_of_def XHCI_CMD_RING_TRBS_def wrap i1 trb_addr_slot ring_view_store
        with_cycle_def link_trb_def XHCI_TRB_TYPE_LINK_def bit)
  show "cmd_ring (fst (put_trb t q)) = cmd_ring (fst q)" by (simp add: q put_trb_def xhci_put_def Let_def)
  show "cmd_cycle (fst (put_trb t q)) \<le> 1" using c by (auto simp: q put_trb_def xhci_put_def Let_def)
qed

lemma put_all_refines:
  assumes "ring_ok (ring_of q)" "cmd_cycle (fst q) \<le> 1" "\<forall>t \<in> set ts. command_trb t"
  shows "ring_of (fold put_trb ts q) = fold (ring_put (cmd_ring (fst q))) ts (ring_of q) \<and> cmd_ring (fst (fold put_trb ts q)) = cmd_ring (fst q)"
  using assms
proof (induction ts arbitrary: q)
  case (Cons t ts)
  have "cmd_index (fst q) < 255" using Cons.prems(1) by (simp add: ring_of_def word_less_nat_alt)
  note one = put_trb_refines [OF this Cons.prems(2), of t]
  have "ring_ok (ring_of (put_trb t q))" unfolding one(1) by (rule ring_ok_put) (use Cons.prems in auto)
  from Cons.IH [OF this one(3)] Cons.prems(3) show ?case by (simp add: one)
qed simp

lemma stamped_commands:
  "\<forall>t \<in> set ts. command_trb t \<Longrightarrow> map (\<lambda>t. t\<lparr>control := control t AND NOT XHCI_TRB_CYCLE\<rparr>) (stamped r x ts) = ts"
proof (induction ts arbitrary: x)
  case (Cons t ts)
  have "(control t OR of_bool c) AND NOT 1 = control t" for c
  proof (rule bit_word_eqI)
    fix n show "bit ((control t OR of_bool c) AND NOT 1) n = bit (control t) n" if "n < LENGTH(32)"
      using that Cons.prems by (cases n) (auto simp: bit_simps command_trb_def)
  qed
  then show ?case using Cons by (simp add: with_cycle_def XHCI_TRB_CYCLE_def)
qed simp

text \<open>C39.
  Commands reach the controller.  However many commands, up to 255, the driver puts on its ring, a
  controller that stands where the driver stood fetches exactly these commands in their order, over
  the link at the end of the ring if need be, and then finds the ring empty; the ring stays well formed.
\<close>

theorem xhci_commands_fetched:
  assumes "ring_ok (ring_of (x, m))" "cmd_cycle x \<le> 1" "cmd_ring x AND 0xF = 0" "\<forall>t \<in> set ts. command_trb t" "length ts \<le> 255"
  shows "map (\<lambda>t. t\<lparr>control := control t AND NOT XHCI_TRB_CYCLE\<rparr>)
      (trb_fetches (Suc (length ts)) (snd (fold put_trb ts (x, m))) (trb_addr (cmd_ring x) (cmd_index x), cmd_cycle x \<noteq> 0)) = ts
    \<and> ring_ok (ring_of (fold put_trb ts (x, m)))"
proof -
  let ?q = "fold put_trb ts (x, m)"
  have r: "ring_of ?q = fold (ring_put (cmd_ring x)) ts (ring_of (x, m))" "cmd_ring (fst ?q) = cmd_ring x"
    using put_all_refines [OF assms(1) _ assms(4)] assms(2) by simp_all
  have "snd (snd (fold (ring_put (cmd_ring x)) ts (ring_of (x, m)))) = ring_view (snd ?q) (cmd_ring x)"
    unfolding r(1) [symmetric] by (simp add: ring_of_def r(2))
  from fetches_puts [OF assms(1,4,5) this assms(3)]
  have "trb_fetches (Suc (length ts)) (snd ?q) (trb_addr (cmd_ring x) (cmd_index x), cmd_cycle x \<noteq> 0) = stamped (cmd_ring x) (ring_of (x, m)) ts"
    by (simp add: ring_of_def trb_addr_slot)
  then show ?thesis using stamped_commands [OF assms(4)] ring_ok_puts [OF assms(1,4)] by (simp add: r(1))
qed

text \<open>The ring that \<^verbatim>\<open>xhci_init_rings\<close> clears.\<close>

lemma cleared_ring:
  assumes "cmd_index x = 0" "cmd_cycle x = 1"
  shows "ring_ok (ring_of (x, mem_fill m (cmd_ring x) 0 4096))"
proof -
  have "load (mem_fill m r 0 4096) (trb_slot r j + 12) = (0 :: u32)" if "j < 256" for r j
  proof (rule load_fill_inside)
    have "trb_slot r j + 12 - r = of_nat (16 * j + 12)" by (simp add: trb_slot_def)
    then show "unat (trb_slot r j + 12 - r) + LENGTH(32) div 8 \<le> 4096"
      using that by (simp add: unat_of_nat take_bit_nat_eq_self del: of_nat_mult of_nat_add)
  qed simp
  then show ?thesis using assms by (simp add: ring_of_def ring_view_def trb_cycle_def trb_load_def)
qed

theorem xhci_commands_fetched_witness:
  "let x = \<lparr>cmd_ring = 0x300000, cmd_index = 0, cmd_cycle = 1, event_ring = 0, event_index = 0, event_cycle = 1, dcbaa = 0\<rparr>;
       ts = replicate 255 \<lparr>parameter = 0, status = 0, control = 0x2400\<rparr>;
       q = fold put_trb ts (x, mem_fill (\<lambda>_. 7) 0x300000 0 4096)
   in map (\<lambda>t. t\<lparr>control := control t AND NOT XHCI_TRB_CYCLE\<rparr>) (trb_fetches 256 (snd q) (0x300000, True)) = ts \<and> ring_ok (ring_of q)"
proof -
  let ?x = "\<lparr>cmd_ring = 0x300000, cmd_index = 0, cmd_cycle = 1, event_ring = 0, event_index = 0, event_cycle = 1, dcbaa = 0\<rparr> :: xhci"
  have ok: "ring_ok (ring_of (?x, mem_fill (\<lambda>_. 7) 0x300000 0 4096))" using cleared_ring [of ?x "\<lambda>_. 7"] by simp
  have "command_trb \<lparr>parameter = 0, status = 0, control = 0x2400\<rparr>" by code_simp
  then show ?thesis
    using xhci_commands_fetched [OF ok, of "replicate 255 \<lparr>parameter = 0, status = 0, control = 0x2400\<rparr>"]
    by (simp add: Let_def trb_addr_def del: trb_fetches.simps)
qed

text \<open>Both commands of the driver are of the kind the theorem is about.\<close>

lemma driver_commands:
  "command_trb \<lparr>parameter = p, status = 0, control = push_bit 10 XHCI_TRB_TYPE_ENABLE_SLOT\<rparr>"
  "command_trb \<lparr>parameter = p, status = 0, control = push_bit 10 XHCI_TRB_TYPE_ADDRESS_DEVICE OR XHCI_TRB_IOC OR push_bit 24 slot\<rparr>"
proof -
  have z: "take_bit 6 (drop_bit 10 (push_bit 24 slot :: u32)) = 0" by (rule bit_word_eqI) (auto simp: bit_simps)
  have "drop_bit 10 (0x2C20 OR push_bit 24 slot :: u32) AND 0x3F = take_bit 6 (drop_bit 10 (0x2C20 OR push_bit 24 slot))"
    by (simp add: take_bit_eq_mask mask_eq_exp_minus_1)
  also have "\<dots> = take_bit 6 (drop_bit 10 0x2C20)" by (simp only: drop_bit_or take_bit_or z or.right_neutral)
  also have "\<dots> = 11" by simp
  finally have "drop_bit 10 (0x2C20 OR push_bit 24 slot :: u32) AND 0x3F = 11" .
  then show "command_trb \<lparr>parameter = p, status = 0, control = push_bit 10 XHCI_TRB_TYPE_ADDRESS_DEVICE OR XHCI_TRB_IOC OR push_bit 24 slot\<rparr>"
    by (simp add: command_trb_def trb_type_def XHCI_TRB_TYPE_ADDRESS_DEVICE_def XHCI_TRB_TYPE_LINK_def XHCI_TRB_IOC_def bit_simps)
  show "command_trb \<lparr>parameter = p, status = 0, control = push_bit 10 XHCI_TRB_TYPE_ENABLE_SLOT\<rparr>" by code_simp
qed

section \<open>Events of other kinds\<close>

text \<open>
  The driver never removes an event other than a command completion.  Once such an event is at the
  head of the event ring, as after a port status change, and memory does not change any more, every
  command fails when the waiting loop has run out.
\<close>

lemma event_loop_blocked:
  assumes "dma s = s" "trb_load (slab_mem s) (trb_addr (event_ring x) (event_index x)) = ev"
    and "trb_type (control ev) \<noteq> XHCI_TRB_TYPE_CMD_COMPLETION"
  shows "event_loop n ir expected x s = (-1, 0, x, s)"
  using assms by (induction n) simp_all

end
