(* ===== verification/Fat12.thy ===== *)
theory Fat12
  imports Board
begin

text \<open>
  \<^verbatim>\<open>src/src/drivers/block/floppy.c\<close> and \<^verbatim>\<open>src/src/fs/fat12.c\<close>: floppy disks and the FAT12 volumes on them.

  The driver has the geometry of a disk but no controller behind it: it accepts addresses and reads
  nothing.  \<open>drives\<close> is its table \<^verbatim>\<open>floppy_drives\<close>, and \<open>None\<close> as the result of a read is -1.  The file
  system is modelled as it is written, on top of that driver, although none of its reads succeeds
  and what lies behind a successful read is never reached.  The parameter block of a volume stays in the buffer it was read
  into, at the address \<^verbatim>\<open>fat12_bpb\<close>.  In the operations on a volume the outer \<open>None\<close> is a run without a
  result: a division by 0, an access behind the end of a sector, or a loop that never ends.
\<close>

section \<open>The drive\<close>

record floppy_drive_t =
  present :: u8
  drive_type :: u8
  cylinders :: u32
  heads :: u32
  sectors_per_track :: u32

definition no_floppy :: floppy_drive_t where
  "no_floppy = \<lparr>present = 0, drive_type = 0, cylinders = 0, heads = 0, sectors_per_track = 0\<rparr>"

definition floppy_init :: "('d, 'h, 'z) board_scheme \<Rightarrow> floppy_drive_t list \<times> ('d, 'h, 'z) board_scheme" where
  "floppy_init s =
     (let s1 = print (''Initializing floppy driver...'' @ nl) s;
          drives = replicate 2 no_floppy;
          drives1 = drives[0 := \<lparr>present = 1, drive_type = 1, cylinders = 80, heads = 2, sectors_per_track = 18\<rparr>]
      in (drives1, print (''Floppy driver initialized'' @ nl) s1))"

definition floppy_sectors :: "floppy_drive_t \<Rightarrow> u32" where
  "floppy_sectors drv = heads drv * sectors_per_track drv"

text \<open>Cylinder, head and sector of a logical sector.\<close>

definition floppy_chs :: "floppy_drive_t \<Rightarrow> u32 \<Rightarrow> u32 \<times> u32 \<times> u32" where
  "floppy_chs drv lba =
     (let sectors_per_cylinder = floppy_sectors drv;
          temp = lba mod sectors_per_cylinder
      in (lba div sectors_per_cylinder, temp div sectors_per_track drv, temp mod sectors_per_track drv + 1))"

definition floppy_refuses :: "floppy_drive_t list \<Rightarrow> u8 \<Rightarrow> u32 \<Rightarrow> bool" where
  "floppy_refuses drives drive lba \<longleftrightarrow>
     drive \<ge> 2 \<or> present (drives ! unat drive) = 0 \<or>
     (let drv = drives ! unat drive in floppy_sectors drv = 0 \<or> lba \<ge> floppy_sectors drv * cylinders drv)"

text \<open>An accepted address is converted, the result is dropped, and nothing is read.\<close>

definition floppy_read :: "floppy_drive_t list \<Rightarrow> u8 \<Rightarrow> u32 \<Rightarrow> bytes option" where
  "floppy_read drives drive lba =
     (if floppy_refuses drives drive lba then None
      else let (cylinder, head, sector) = floppy_chs (drives ! unat drive) lba in None)"

definition floppy_write :: "floppy_drive_t list \<Rightarrow> u8 \<Rightarrow> u32 \<Rightarrow> bytes \<Rightarrow> int" where
  "floppy_write drives drive lba buffer = (if floppy_refuses drives drive lba then -1 else -1)"

definition floppy_get_drive :: "floppy_drive_t list \<Rightarrow> u8 \<Rightarrow> floppy_drive_t option" where
  "floppy_get_drive drives drive = (if drive \<ge> 2 then None else Some (drives ! unat drive))"

section \<open>The volume\<close>

definition FAT12_ATTR_DIRECTORY :: u8 where "FAT12_ATTR_DIRECTORY = 0x10"
definition FAT12_EOC_MARK :: u16 where "FAT12_EOC_MARK = 0x0FF8"

record fat12_bpb_t =
  b_bytes_per_sector :: u16
  b_sectors_per_cluster :: u8
  b_reserved_sectors :: u16
  b_num_fats :: u8
  b_root_entries :: u16
  b_sectors_per_fat_small :: u16

definition fat12_bpb_at :: "mem \<Rightarrow> u64 \<Rightarrow> fat12_bpb_t" where
  "fat12_bpb_at m p =
     \<lparr>b_bytes_per_sector = load m (p + 11), b_sectors_per_cluster = m (p + 13), b_reserved_sectors = load m (p + 14),
      b_num_fats = m (p + 16), b_root_entries = load m (p + 17), b_sectors_per_fat_small = load m (p + 22)\<rparr>"

text \<open>The fields of a directory entry the code uses.\<close>

record fat12_dirent_t =
  d_name :: bytes
  d_attributes :: u8
  d_first_cluster_low :: u16
  d_file_size :: u32

definition fat12_dirent :: "bytes \<Rightarrow> fat12_dirent_t" where
  "fat12_dirent raw =
     \<lparr>d_name = take 11 raw, d_attributes = raw ! 11, d_first_cluster_low = le16 raw 26, d_file_size = le32 raw 28\<rparr>"

definition fat12_root_dir_sectors :: "fat12_bpb_t \<Rightarrow> u16" where
  "fat12_root_dir_sectors b =
     ucast ((ucast (b_root_entries b) * 32 + ucast (b_bytes_per_sector b) - 1 :: u32) div ucast (b_bytes_per_sector b))"

definition fat12_root_lba :: "fat12_bpb_t \<Rightarrow> u32" where
  "fat12_root_lba b = ucast (b_reserved_sectors b) + ucast (b_num_fats b) * ucast (b_sectors_per_fat_small b)"

definition fat12_data_lba :: "fat12_bpb_t \<Rightarrow> u32" where
  "fat12_data_lba b = fat12_root_lba b + ucast (fat12_root_dir_sectors b)"

definition fat12_cluster_lba :: "fat12_bpb_t \<Rightarrow> u16 \<Rightarrow> u32" where
  "fat12_cluster_lba b cluster = fat12_data_lba b + (ucast cluster - 2) * ucast (b_sectors_per_cluster b)"

text \<open>The loop of \<^verbatim>\<open>fat12_make_name\<close>; \<open>out\<close> is the name so far, \<open>base\<close> and \<open>e\<close> the next places in it.\<close>

fun make_name_loop :: "bytes \<Rightarrow> nat \<Rightarrow> nat \<Rightarrow> bool \<Rightarrow> bytes \<Rightarrow> bytes option" where
  "make_name_loop [] base e in_ext out = (if base = 0 then None else Some out)"
| "make_name_loop (c # cs) base e in_ext out =
     (if c = 0x2F \<or> c = 0x5C then None
      else if c = 0x2E then (if in_ext then None else make_name_loop cs base e True out)
      else if \<not> in_ext then
        (if base \<ge> 8 then None else make_name_loop cs (base + 1) e in_ext (out[base := upper_ascii c]))
      else
        (if e \<ge> 11 then None else make_name_loop cs base (e + 1) in_ext (out[e := upper_ascii c])))"

definition fat12_make_name :: "bytes \<Rightarrow> bytes option" where
  "fat12_make_name path = make_name_loop (dropWhile (\<lambda>c. c = 0x2F \<or> c = 0x5C) path) 0 8 False (replicate 11 0x20)"

definition fat12_name_matches :: "bytes \<Rightarrow> bytes \<Rightarrow> bool" where
  "fat12_name_matches raw name \<longleftrightarrow>
     list_all (\<lambda>i. raw ! i = name ! i) [0..<8] \<and> list_all (\<lambda>i. raw ! (8 + i) = name ! (8 + i)) [0..<3]"

text \<open>A byte of a sector in the buffer of 512 bytes.\<close>

definition sector_byte :: "bytes \<Rightarrow> u32 \<Rightarrow> u8 option" where
  "sector_byte sector i = (if i < 512 then Some (sector ! unat i) else None)"

definition fat12_next_cluster :: "floppy_drive_t list \<Rightarrow> fat12_bpb_t \<Rightarrow> u16 \<Rightarrow> u16 option" where
  "fat12_next_cluster drives b cluster =
     (let bps = ucast (b_bytes_per_sector b) :: u32 in
      if bps = 0 then None
      else
        let fat_offset = ucast cluster + ucast cluster div 2;
            sector_lba = ucast (b_reserved_sectors b) + fat_offset div bps;
            offset = fat_offset mod bps
        in (case floppy_read drives 0 sector_lba of
              None \<Rightarrow> Some FAT12_EOC_MARK
            | Some sector \<Rightarrow>
                (let second = (if offset = bps - 1 then map_option (\<lambda>next_sector. Some (next_sector ! 0)) (floppy_read drives 0 (sector_lba + 1))
                               else Some (sector_byte sector (offset + 1)))
                 in (case second of
                       None \<Rightarrow> Some FAT12_EOC_MARK
                     | Some hi \<Rightarrow>
                         (case (sector_byte sector offset, hi) of
                            (Some lo, Some hi) \<Rightarrow>
                              let v = ucast lo OR push_bit 8 (ucast hi) :: u16
                              in Some (if cluster AND 1 \<noteq> 0 then drop_bit 4 v else v AND 0x0FFF)
                          | _ \<Rightarrow> None)))))"

text \<open>
  The entries of one sector of the root directory.  The first result says whether the search goes on;
  the second is the entry found.
\<close>

datatype scan = Next | Stop | Found fat12_dirent_t

fun scan_entries :: "bytes \<Rightarrow> bytes \<Rightarrow> nat list \<Rightarrow> scan option" where
  "scan_entries sector wanted [] = Some Next"
| "scan_entries sector wanted (off # offs) =
     (if off + 32 > 512 then None
      else
        let raw = take 32 (drop off sector)
        in if raw ! 0 = 0 then Some Stop
           else if raw ! 0 = 0xE5 \<or> raw ! 11 AND 0x0F = 0x0F then scan_entries sector wanted offs
           else if fat12_name_matches raw wanted then Some (Found (fat12_dirent raw))
           else scan_entries sector wanted offs)"

definition entry_offsets :: "u16 \<Rightarrow> nat list" where
  "entry_offsets bps = map (\<lambda>i. 32 * i) [0..<(unat bps + 31) div 32]"

fun scan_root :: "floppy_drive_t list \<Rightarrow> u16 \<Rightarrow> bytes \<Rightarrow> u32 list \<Rightarrow> fat12_dirent_t option option" where
  "scan_root drives bps wanted [] = Some None"
| "scan_root drives bps wanted (lba # lbas) =
     (case floppy_read drives 0 lba of
        None \<Rightarrow> Some None
      | Some sector \<Rightarrow>
          (case scan_entries sector wanted (entry_offsets bps) of
             None \<Rightarrow> None
           | Some Next \<Rightarrow> scan_root drives bps wanted lbas
           | Some Stop \<Rightarrow> Some None
           | Some (Found e) \<Rightarrow> Some (Some e)))"

definition fat12_find_root :: "floppy_drive_t list \<Rightarrow> u64 \<Rightarrow> mem \<Rightarrow> bytes \<Rightarrow> fat12_dirent_t option option" where
  "fat12_find_root drives p m path =
     (if p = 0 then Some None
      else
        case fat12_make_name path of
          None \<Rightarrow> Some None
        | Some wanted \<Rightarrow>
            let b = fat12_bpb_at m p in
            if b_bytes_per_sector b = 0 then None
            else scan_root drives (b_bytes_per_sector b) wanted
                   (map (\<lambda>s. fat12_root_lba b + of_nat s) [0..<unat (fat12_root_dir_sectors b)]))"

section \<open>Mounting and reading\<close>

text \<open>The result is the return value, the new \<^verbatim>\<open>fat12_bpb\<close> and the state.\<close>

definition fat12_init ::
  "vm_image \<Rightarrow> floppy_drive_t list \<Rightarrow> u64 \<Rightarrow> ('d, 'h, 'z) board_scheme \<Rightarrow> (int \<times> u64 \<times> ('d, 'h, 'z) board_scheme) option" where
  "fat12_init k drives p s =
     (case kalloc k 512 (print (''Initializing FAT12 filesystem...'' @ nl) s) of
        None \<Rightarrow> None
      | Some (s1, sector_buffer) \<Rightarrow>
          if sector_buffer = 0 then Some (-1, p, s1)
          else
            (case floppy_read drives 0 0 of
               None \<Rightarrow> Some (-1, p, kfree sector_buffer s1)
             | Some sector \<Rightarrow>
                 let s2 = set_mem (mem_copy_in (slab_mem s1) sector_buffer sector) s1
                 in if b_bytes_per_sector (fat12_bpb_at (slab_mem s2) sector_buffer) \<noteq> 512 then
                      Some (-1, sector_buffer, kfree sector_buffer s2)
                    else Some (0, sector_buffer, print (''FAT12 filesystem initialized'' @ nl) s2)))"

text \<open>The sectors of one cluster; the inner \<open>None\<close> is the return of -1, with the memory at that point.\<close>

function fat12_read_cluster ::
  "floppy_drive_t list \<Rightarrow> u64 \<Rightarrow> u32 \<Rightarrow> u64 \<Rightarrow> u32 \<Rightarrow> nat \<Rightarrow> u32 \<Rightarrow> mem \<Rightarrow> (u32 option \<times> mem) option" where
  "fat12_read_cluster drives p file_size buffer lba s copied m =
     (if \<not> (s < unat (b_sectors_per_cluster (fat12_bpb_at m p)) \<and> copied < file_size) then Some (Some copied, m)
      else
        case floppy_read drives 0 (lba + of_nat s) of
          None \<Rightarrow> Some (None, m)
        | Some sector \<Rightarrow>
            let bps = ucast (b_bytes_per_sector (fat12_bpb_at m p));
                left = file_size - copied;
                count = (if left < bps then left else bps)
            in if count > 512 then None
               else fat12_read_cluster drives p file_size buffer lba (s + 1) (copied + count)
                      (mem_copy_in m (buffer + ucast copied) (take (unat count) sector)))"
  by pat_completeness auto
termination
proof (relation "measure (\<lambda>(drives, p, file_size, buffer, lba, s, copied, m). 256 - s)", goal_cases)
  case (2 drives p file_size buffer lba s copied m)
  have "unat (b_sectors_per_cluster (fat12_bpb_at m p)) < 256" by (rule order_less_le_trans [OF unsigned_less]) simp
  then have "s < 256" using 2(1) by (meson order_less_trans not_not)
  then show ?case by (simp add: diff_less_mono2)
qed simp

text \<open>The clusters of the file.\<close>

partial_function (option) fat12_read_loop ::
  "floppy_drive_t list \<Rightarrow> u64 \<Rightarrow> u32 \<Rightarrow> u64 \<Rightarrow> u16 \<Rightarrow> u32 \<Rightarrow> mem \<Rightarrow> (u32 option \<times> mem) option" where
  "fat12_read_loop drives p file_size buffer cluster copied m =
     (if \<not> (cluster \<ge> 2 \<and> cluster < FAT12_EOC_MARK \<and> copied < file_size) then Some (Some copied, m)
      else
        if b_bytes_per_sector (fat12_bpb_at m p) = 0 then None
        else
          case fat12_read_cluster drives p file_size buffer (fat12_cluster_lba (fat12_bpb_at m p) cluster) 0 copied m of
            None \<Rightarrow> None
          | Some (None, m1) \<Rightarrow> Some (None, m1)
          | Some (Some copied1, m1) \<Rightarrow>
              (case fat12_next_cluster drives (fat12_bpb_at m1 p) cluster of
                 None \<Rightarrow> None
               | Some next \<Rightarrow> fat12_read_loop drives p file_size buffer next copied1 m1))"

text \<open>The return value, or \<open>None\<close> for -1, and the memory after it.\<close>

definition fat12_read ::
  "floppy_drive_t list \<Rightarrow> u64 \<Rightarrow> bytes \<Rightarrow> u64 \<Rightarrow> u32 \<Rightarrow> mem \<Rightarrow> (u32 option \<times> mem) option" where
  "fat12_read drives p path buffer len m =
     (if buffer = 0 then Some (None, m)
      else
        case fat12_find_root drives p m path of
          None \<Rightarrow> None
        | Some None \<Rightarrow> Some (None, m)
        | Some (Some file) \<Rightarrow>
            if d_attributes file AND FAT12_ATTR_DIRECTORY \<noteq> 0 \<or> len < d_file_size file then Some (None, m)
            else
              map_option (\<lambda>(r, m1). (if r = Some (d_file_size file) then r else None, m1))
                (fat12_read_loop drives p (d_file_size file) buffer (d_first_cluster_low file) 0 m))"

definition fat12_stat :: "floppy_drive_t list \<Rightarrow> u64 \<Rightarrow> mem \<Rightarrow> bytes \<Rightarrow> (u32 \<times> bool) option option" where
  "fat12_stat drives p m path =
     map_option (map_option (\<lambda>file. (d_file_size file, d_attributes file AND FAT12_ATTR_DIRECTORY \<noteq> 0))) (fat12_find_root drives p m path)"

declare fat12_read_cluster.simps [simp del]

section \<open>The driver as it is\<close>

text \<open>The conversion to cylinder, head and sector is right, but no read succeeds, so no volume is ever mounted.\<close>

lemma floppy_chs_inverse:
  assumes "floppy_chs drv lba = (cylinder, head, sector)" "unat (heads drv) * unat (sectors_per_track drv) < 2 ^ 32"
    and "0 < sectors_per_track drv" "0 < heads drv"
  shows "(unat cylinder * unat (heads drv) + unat head) * unat (sectors_per_track drv) + (unat sector - 1) = unat lba"
    and "head < heads drv" "1 \<le> sector" "unat sector \<le> unat (sectors_per_track drv)"
proof -
  let ?t = "unat (sectors_per_track drv)" and ?h = "unat (heads drv)"
  have t: "0 < ?t" "0 < ?h" using assms(3,4) by (simp_all add: word_less_nat_alt)
  have c: "unat (floppy_sectors drv) = ?h * ?t" using assms(2) by (simp add: floppy_sectors_def unat_word_ariths)
  have u: "unat cylinder = unat lba div (?h * ?t)" "unat head = unat lba mod (?h * ?t) div ?t"
    "sector = lba mod floppy_sectors drv mod sectors_per_track drv + 1"
    using assms(1) by (auto simp: floppy_chs_def Let_def unat_div unat_mod c)
  have m: "unat (lba mod floppy_sectors drv mod sectors_per_track drv) = unat lba mod (?h * ?t) mod ?t" by (simp add: unat_mod c)
  have lt: "unat lba mod (?h * ?t) mod ?t < ?t" using t by simp
  moreover have "?t < 2 ^ 32" by (rule order_less_le_trans [OF unsigned_less]) simp
  ultimately have s: "unat sector = Suc (unat lba mod (?h * ?t) mod ?t)" unfolding u(3) by (subst unat_word_ariths) (simp add: m)
  have "unat lba div (?h * ?t) * ?h * ?t + (unat lba mod (?h * ?t) div ?t * ?t + unat lba mod (?h * ?t) mod ?t) = unat lba"
    by (simp only: div_mult_mod_eq mult.assoc)
  then show "(unat cylinder * ?h + unat head) * ?t + (unat sector - 1) = unat lba"
    by (simp add: u(1,2) s add_mult_distrib)
  show "head < heads drv" using t by (simp add: word_less_nat_alt u(2) less_mult_imp_div_less)
  show "unat sector \<le> ?t" using s lt by simp
  show "1 \<le> sector" using s by (simp add: word_le_nat_alt)
qed

lemma floppy_read_fails: "floppy_read drives drive lba = None"
  by (simp add: floppy_read_def split: prod.split)

text \<open>So mounting always ends with -1, after giving its buffer back, and reading and looking up files
  of the volume, which stays unmounted, always fail and change nothing.\<close>

lemma fat12_never_mounts:
  "fat12_init k drives p s =
     map_option (\<lambda>(s1, buf). (-1, p, if buf = 0 then s1 else kfree buf s1))
       (kalloc k 512 (print (''Initializing FAT12 filesystem...'' @ nl) s))"
  "fat12_read drives 0 path buffer len m = Some (None, m)" "fat12_stat drives 0 m path = Some None"
  by (auto simp: fat12_init_def fat12_read_def fat12_stat_def fat12_find_root_def floppy_read_fails split: option.split)

end
