(* ===== verification/Iso9660.thy ===== *)
theory Iso9660
  imports Board
begin

text \<open>
  \<^verbatim>\<open>src/src/drivers/block/cdrom.c\<close> and \<^verbatim>\<open>src/src/fs/iso9660.c\<close>: compact discs and the ISO 9660 volumes on them.

  No drive is ever registered with the driver, and a read of one would fail as well.  \<open>drives\<close> is its
  table \<^verbatim>\<open>cdrom_drives\<close>, and \<open>None\<close> as the result of a read is -1.  The file system is modelled as it is
  written, on top of that driver, although none of its reads succeeds.  In the
  operations on a volume the outer \<open>None\<close> is a run without a result: an access behind the end of the
  sector, or a loop that never ends.
\<close>

section \<open>The drive\<close>

record cdrom_drive_t =
  cd_present :: u8
  cd_type :: u8
  cd_lba :: u32
  cd_sectors :: u32

definition cdrom_init :: "('d, 'h, 'z) board_scheme \<Rightarrow> cdrom_drive_t list \<times> ('d, 'h, 'z) board_scheme" where
  "cdrom_init s =
     (let s1 = print (''Initializing CD-ROM driver...'' @ nl) s
      in (replicate 4 \<lparr>cd_present = 0, cd_type = 0, cd_lba = 0, cd_sectors = 0\<rparr>, print (''CD-ROM driver initialized'' @ nl) s1))"

definition cdrom_read :: "cdrom_drive_t list \<Rightarrow> u8 \<Rightarrow> u32 \<Rightarrow> u32 \<Rightarrow> bytes option" where
  "cdrom_read drives drive lba n =
     (if drive \<ge> 4 \<or> cd_present (drives ! unat drive) = 0 then None
      else if n = 0 then Some []
      else None)"

definition cdrom_get_drive :: "cdrom_drive_t list \<Rightarrow> u8 \<Rightarrow> cdrom_drive_t option" where
  "cdrom_get_drive drives drive = (if drive \<ge> 4 then None else Some (drives ! unat drive))"

section \<open>Names\<close>

definition ISO9660_SECTOR_SIZE :: nat where "ISO9660_SECTOR_SIZE = 2048"

definition iso_le32 :: "bytes \<Rightarrow> nat \<Rightarrow> u32" where
  "iso_le32 p off =
     ucast (p ! off) OR push_bit 8 (ucast (p ! (off + 1))) OR push_bit 16 (ucast (p ! (off + 2))) OR push_bit 24 (ucast (p ! (off + 3)))"

definition iso_upper :: "u8 \<Rightarrow> u8" where
  "iso_upper c = (if c \<ge> 0x61 \<and> c \<le> 0x7A then c - 32 else c)"

text \<open>A name on the disc without trailing spaces, the version and a final dot.\<close>

definition iso_effective :: "bytes \<Rightarrow> bytes" where
  "iso_effective name =
     (let n1 = rev (dropWhile (\<lambda>c. c = 0x20) (rev name));
          n2 = (if length n1 > 2 \<and> n1 ! (length n1 - 2) = 0x3B \<and> n1 ! (length n1 - 1) = 0x31 then take (length n1 - 2) n1 else n1)
      in if length n2 > 0 \<and> n2 ! (length n2 - 1) = 0x2E then take (length n2 - 1) n2 else n2)"

definition iso_component_equal :: "bytes \<Rightarrow> bytes \<Rightarrow> bool" where
  "iso_component_equal path name \<longleftrightarrow>
     (let n = iso_effective name
      in length path = length n \<and> list_all (\<lambda>i. iso_upper (path ! i) = iso_upper (n ! i)) [0..<length path])"

definition iso_next_component :: "bytes \<Rightarrow> bytes \<times> bytes" where
  "iso_next_component path =
     (let p = dropWhile (\<lambda>c. c = 0x2F) path in (takeWhile (\<lambda>c. c \<noteq> 0x2F) p, dropWhile (\<lambda>c. c \<noteq> 0x2F) p))"

section \<open>Directories\<close>

text \<open>What the loop over the records of a sector ends with: a place to go on from, -1, or a record.\<close>

datatype iso_scan = Pos u32 | Bad | Hit u32 u32 bool

function iso_scan_sector :: "bytes \<Rightarrow> bytes \<Rightarrow> u32 \<Rightarrow> u32 \<Rightarrow> nat \<Rightarrow> u32 \<Rightarrow> iso_scan option" where
  "iso_scan_sector sector component dir_size sector_index sector_off pos =
     (if \<not> (sector_off < ISO9660_SECTOR_SIZE \<and> pos < dir_size) then Some (Pos pos)
      else
        let len = sector ! sector_off
        in if len = 0 then Some (Pos ((sector_index + 1) * of_nat ISO9660_SECTOR_SIZE))
           else if sector_off + unat len > ISO9660_SECTOR_SIZE \<or> len < 34 then Some Bad
           else
             let rec = drop sector_off sector;
                 name_len = rec ! 32;
                 rest = iso_scan_sector sector component dir_size sector_index (sector_off + unat len) (pos + ucast len)
             in if name_len > 1 \<or> (rec ! 33 \<noteq> 0 \<and> rec ! 33 \<noteq> 1) then
                  if sector_off + 33 + unat name_len > ISO9660_SECTOR_SIZE then None
                  else if iso_component_equal component (take (unat name_len) (drop 33 rec)) then
                    Some (Hit (iso_le32 rec 2) (iso_le32 rec 10) (rec ! 25 AND 0x02 \<noteq> 0))
                  else rest
                else rest)"
  by pat_completeness auto
termination
proof (relation "measure (\<lambda>(sector, component, dir_size, sector_index, sector_off, pos). ISO9660_SECTOR_SIZE - sector_off)", goal_cases)
  case (2 sector component dir_size sector_index sector_off pos len)
  then have "sector_off < ISO9660_SECTOR_SIZE" "0 < unat len" by (auto simp: unat_gt_0)
  then show ?case by simp
qed simp

partial_function (option) iso_dir_loop ::
  "cdrom_drive_t list \<Rightarrow> u32 \<Rightarrow> u32 \<Rightarrow> bytes \<Rightarrow> u32 \<Rightarrow> (u32 \<times> u32 \<times> bool) option option" where
  "iso_dir_loop drives dir_lba dir_size component pos =
     (if \<not> pos < dir_size then Some None
      else
        case cdrom_read drives 0 (dir_lba + pos div 2048) 1 of
          None \<Rightarrow> Some None
        | Some sector \<Rightarrow>
            (case iso_scan_sector sector component dir_size (pos div 2048) (unat (pos mod 2048)) pos of
               None \<Rightarrow> None
             | Some (Pos pos1) \<Rightarrow> iso_dir_loop drives dir_lba dir_size component pos1
             | Some Bad \<Rightarrow> Some None
             | Some (Hit l n d) \<Rightarrow> Some (Some (l, n, d))))"

lemma next_component_shorter:
  assumes "fst (iso_next_component path) \<noteq> []"
  shows "length (dropWhile P (snd (iso_next_component path))) < length path"
proof -
  define q where "q = dropWhile (\<lambda>c. c = (0x2F :: u8)) path"
  have "0 < length (takeWhile (\<lambda>c. c \<noteq> 0x2F) q)" using assms unfolding length_greater_0_conv by (simp add: iso_next_component_def Let_def q_def)
  moreover have "length (takeWhile (\<lambda>c. c \<noteq> 0x2F) q) + length (dropWhile (\<lambda>c. c \<noteq> 0x2F) q) = length q"
    by (metis length_append takeWhile_dropWhile_id)
  moreover have "length q \<le> length path" by (simp add: q_def length_dropWhile_le)
  ultimately have "length (dropWhile (\<lambda>c. c \<noteq> 0x2F) q) < length path"
    by linarith
  then show ?thesis using length_dropWhile_le [of P "dropWhile (\<lambda>c. c \<noteq> 0x2F) q"]
    by (simp add: iso_next_component_def Let_def q_def)
qed

function iso_find_in_dir :: "cdrom_drive_t list \<Rightarrow> u32 \<Rightarrow> u32 \<Rightarrow> bytes \<Rightarrow> (u32 \<times> u32 \<times> bool) option option" where
  "iso_find_in_dir drives dir_lba dir_size path =
     (if fst (iso_next_component path) = [] then Some (Some (dir_lba, dir_size, True))
      else
        case iso_dir_loop drives dir_lba dir_size (fst (iso_next_component path)) 0 of
          None \<Rightarrow> None
        | Some None \<Rightarrow> Some None
        | Some (Some (l, n, d)) \<Rightarrow>
            if dropWhile (\<lambda>c. c = 0x2F) (snd (iso_next_component path)) = [] then Some (Some (l, n, d))
            else if \<not> d then Some None
            else iso_find_in_dir drives l n (dropWhile (\<lambda>c. c = 0x2F) (snd (iso_next_component path))))"
  by pat_completeness auto
termination
  by (relation "measure (\<lambda>(drives, dir_lba, dir_size, path). length path)") (auto intro: next_component_shorter)

section \<open>Mounting and reading\<close>

record iso9660 =
  iso_pvd :: u64
  iso_root_lba :: u32
  iso_root_size :: u32

definition iso9660_init ::
  "vm_image \<Rightarrow> cdrom_drive_t list \<Rightarrow> iso9660 \<Rightarrow> ('d, 'h, 'z) board_scheme \<Rightarrow> (int \<times> iso9660 \<times> ('d, 'h, 'z) board_scheme) option" where
  "iso9660_init k drives v s =
     (case kalloc k (of_nat ISO9660_SECTOR_SIZE) (print (''Initializing ISO9660 filesystem...'' @ nl) s) of
        None \<Rightarrow> None
      | Some (s1, sector_buffer) \<Rightarrow>
          if sector_buffer = 0 then Some (-1, v, s1)
          else
            (case cdrom_read drives 0 16 1 of
               None \<Rightarrow> Some (-1, v, kfree sector_buffer s1)
             | Some sector \<Rightarrow>
                 let s2 = set_mem (mem_copy_in (slab_mem s1) sector_buffer sector) s1;
                     v1 = v\<lparr>iso_pvd := sector_buffer\<rparr>
                 in if take 6 sector \<noteq> 1 # ascii ''CD001'' then Some (-1, v1, kfree sector_buffer s2)
                    else Some (0, v1\<lparr>iso_root_lba := iso_le32 sector 158, iso_root_size := iso_le32 sector 166\<rparr>,
                      print (''ISO9660 filesystem initialized'' @ nl) s2)))"

text \<open>The loop over the sectors of a file; \<open>None\<close> is the return of -1.\<close>

function iso_read_loop :: "cdrom_drive_t list \<Rightarrow> u32 \<Rightarrow> u32 \<Rightarrow> u64 \<Rightarrow> u32 \<Rightarrow> mem \<Rightarrow> u32 option \<times> mem" where
  "iso_read_loop drives lba n buffer copied m =
     (if \<not> copied < n then (Some copied, m)
      else
        case cdrom_read drives 0 (lba + copied div 2048) 1 of
          None \<Rightarrow> (None, m)
        | Some sector \<Rightarrow>
            let left = n - copied;
                count = (if left < 2048 then left else 2048)
            in iso_read_loop drives lba n buffer (copied + count) (mem_copy_in m (buffer + ucast copied) (take (unat count) sector)))"
  by pat_completeness auto
termination
proof (relation "measure (\<lambda>(drives, lba, n, buffer, copied, m). unat (n - copied))", goal_cases)
  case (2 drives lba n buffer copied m)
  then have "copied < n" by simp
  then have p: "0 < unat (n - copied)" by (simp add: word_less_nat_alt unat_sub word_le_nat_alt)
  have "unat (n - copied - c) < unat (n - copied)" if "0 < unat c" "c \<le> n - copied" for c
    using that by (simp add: unat_sub word_le_nat_alt)
  then show ?case using 2 p by (auto simp: diff_diff_eq [symmetric] not_less)
qed simp

definition iso9660_read :: "cdrom_drive_t list \<Rightarrow> iso9660 \<Rightarrow> bytes \<Rightarrow> u64 \<Rightarrow> u32 \<Rightarrow> mem \<Rightarrow> (u32 option \<times> mem) option" where
  "iso9660_read drives v path buffer len m =
     (if iso_pvd v = 0 \<or> buffer = 0 then Some (None, m)
      else
        case iso_find_in_dir drives (iso_root_lba v) (iso_root_size v) path of
          None \<Rightarrow> None
        | Some None \<Rightarrow> Some (None, m)
        | Some (Some (lba, n, is_dir)) \<Rightarrow>
            if is_dir \<or> len < n then Some (None, m) else Some (iso_read_loop drives lba n buffer 0 m))"

definition iso9660_stat :: "cdrom_drive_t list \<Rightarrow> iso9660 \<Rightarrow> bytes \<Rightarrow> (u32 \<times> bool) option option" where
  "iso9660_stat drives v path =
     (if iso_pvd v = 0 then Some None
      else map_option (map_option snd) (iso_find_in_dir drives (iso_root_lba v) (iso_root_size v) path))"

declare iso_scan_sector.simps [simp del] iso_read_loop.simps [simp del] iso_find_in_dir.simps [simp del]

section \<open>What a directory holds\<close>

record iso_entry =
  e_name :: bytes
  e_lba :: u32
  e_size :: u32
  e_dir :: bool

text \<open>A record of a directory.\<close>

definition iso_record :: "bytes \<Rightarrow> iso_entry \<Rightarrow> bool" where
  "iso_record raw e \<longleftrightarrow>
     34 \<le> length raw \<and> length raw = unat (raw ! 0) \<and> e_name e \<noteq> [] \<and> unat (raw ! 32) = length (e_name e) \<and>
     33 + length (e_name e) \<le> length raw \<and> take (length (e_name e)) (drop 33 raw) = e_name e \<and>
     iso_le32 raw 2 = e_lba e \<and> iso_le32 raw 10 = e_size e \<and> (raw ! 25 AND 0x02 \<noteq> 0) = e_dir e"

text \<open>The records of the directory itself and of its parent have the names 0 and 1 and are passed over.\<close>

definition iso_matches :: "bytes \<Rightarrow> iso_entry \<Rightarrow> bool" where
  "iso_matches component e \<longleftrightarrow> e_name e \<noteq> [0] \<and> e_name e \<noteq> [1] \<and> iso_component_equal component (e_name e)"

section \<open>The search in a sector\<close>

text \<open>In a sector of records the search hits the first one with the wanted name, and otherwise goes on
  with the next sector.\<close>

lemma iso_le32_append: "k + 4 \<le> length raw \<Longrightarrow> iso_le32 (raw @ xs) k = iso_le32 raw k"
  by (simp add: iso_le32_def nth_append)

lemma record_name:
  assumes "iso_record raw e"
  shows "raw ! 32 > 1 \<or> (raw ! 33 \<noteq> 0 \<and> raw ! 33 \<noteq> 1) \<longleftrightarrow> e_name e \<noteq> [0] \<and> e_name e \<noteq> [1]"
proof -
  have n: "take (length (e_name e)) (drop 33 raw) = e_name e" "e_name e \<noteq> []" "unat (raw ! 32) = length (e_name e)" "34 \<le> length raw"
    using assms by (simp_all add: iso_record_def)
  have "drop 33 raw = raw ! 33 # drop 34 raw" using n(4) Cons_nth_drop_Suc [of 33 raw] by simp
  then have "hd (e_name e) = raw ! 33" using n(1,2) by (cases "e_name e") auto
  moreover have "raw ! 32 > 1 \<longleftrightarrow> length (e_name e) > 1" using n(3) by (simp add: word_less_nat_alt)
  ultimately show ?thesis using n(2) by (cases "e_name e") auto
qed

lemma sector_position:
  assumes "unat q < n" "unat dir_size = 2048 * n" "k \<le> 2048"
  shows "unat (q * 2048 + of_nat k :: u32) = 2048 * unat q + k" "q * 2048 + of_nat k < dir_size \<longleftrightarrow> k < 2048 \<or> Suc (unat q) < n"
proof -
  have "unat dir_size < 2 ^ 32" by (rule order_less_le_trans [OF unsigned_less]) simp
  then have lt: "2048 * unat q + k < 2 ^ 32" using assms by simp
  have "q * 2048 + of_nat k = (of_nat (2048 * unat q + k) :: u32)" by simp
  then show u: "unat (q * 2048 + of_nat k :: u32) = 2048 * unat q + k"
    using lt by (simp only: unat_of_nat take_bit_nat_eq_self) (simp add: take_bit_nat_eq_self)
  show "q * 2048 + of_nat k < dir_size \<longleftrightarrow> k < 2048 \<or> Suc (unat q) < n"
    unfolding word_less_nat_alt u assms(2) using assms(1,3) by auto
qed

lemma scan_sector_finds:
  assumes "list_all2 iso_record raws es" "length pre + length (concat raws) + k = 2048" "pos = q * 2048 + of_nat (length pre)"
    and "unat q < n" "unat dir_size = 2048 * n"
  shows "iso_scan_sector (pre @ concat raws @ replicate k 0) component dir_size q (length pre) pos =
    Some (case find (iso_matches component) es of Some e \<Rightarrow> Hit (e_lba e) (e_size e) (e_dir e) | None \<Rightarrow> Pos ((q + 1) * 2048))"
  using assms
proof (induction raws arbitrary: es pre pos)
  case Nil
  then have es: "es = []" and len: "length pre + k = 2048" by simp_all
  show ?case
  proof (cases "k = 0")
    case True
    then have "pos = (q + 1) * 2048" using len Nil.prems(3) by (simp add: algebra_simps)
    then show ?thesis using len True es by (subst iso_scan_sector.simps) (simp add: ISO9660_SECTOR_SIZE_def)
  next
    case False
    then have "length pre < 2048" using len by simp
    moreover have "pos < dir_size" using sector_position(2) [OF Nil.prems(4,5), of "length pre"] calculation Nil.prems(3) by simp
    moreover have "(pre @ replicate k 0) ! length pre = 0" using False by (simp add: nth_append)
    ultimately show ?thesis using es by (subst iso_scan_sector.simps) (simp add: ISO9660_SECTOR_SIZE_def Let_def)
  qed
next
  case (Cons raw raws)
  obtain e es' where es: "es = e # es'" "iso_record raw e" "list_all2 iso_record raws es'" using Cons.prems(1) by (auto simp: list_all2_Cons1)
  let ?tail = "concat raws @ replicate k 0"
  let ?sec = "pre @ (raw @ ?tail)"
  have r: "34 \<le> length raw" "length raw = unat (raw ! 0)" "unat (raw ! 32) = length (e_name e)" "33 + length (e_name e) \<le> length raw"
    "take (length (e_name e)) (drop 33 raw) = e_name e" "iso_le32 raw 2 = e_lba e" "iso_le32 raw 10 = e_size e" "(raw ! 25 AND 0x02 \<noteq> 0) = e_dir e"
    using es(2) by (simp_all add: iso_record_def)
  have len: "length pre + length raw \<le> 2048" using Cons.prems(2) by simp
  have pos: "pos < dir_size" using sector_position(2) [OF Cons.prems(4,5), of "length pre"] len r(1) Cons.prems(3) by simp
  have at: "?sec ! length pre = raw ! 0" "drop (length pre) ?sec = raw @ ?tail" using r(1) by (auto simp: nth_append)
  have rec: "(raw @ ?tail) ! 32 = raw ! 32" "(raw @ ?tail) ! 33 = raw ! 33" "(raw @ ?tail) ! 25 = raw ! 25"
    "iso_le32 (raw @ ?tail) 2 = e_lba e" "iso_le32 (raw @ ?tail) 10 = e_size e"
    using r by (simp_all add: nth_append iso_le32_append)
  have name: "take (unat (raw ! 32)) (drop 33 (raw @ ?tail)) = e_name e" using r by simp
  have ok: "raw ! 0 \<noteq> 0" "\<not> raw ! 0 < 34" using r(1,2) by (auto simp: word_less_nat_alt unat_eq_zero)
  have "pos + ucast (raw ! 0) = q * 2048 + of_nat (length (pre @ raw))"
    using Cons.prems(3) r(2) by simp
  from Cons.IH [OF es(3) _ this Cons.prems(4,5)] Cons.prems(2)
  have following: "iso_scan_sector ?sec component dir_size q (length pre + unat (raw ! 0)) (pos + ucast (raw ! 0)) =
    Some (case find (iso_matches component) es' of Some e \<Rightarrow> Hit (e_lba e) (e_size e) (e_dir e) | None \<Rightarrow> Pos ((q + 1) * 2048))"
    by (simp add: r(2))
  let ?rest = "iso_scan_sector ?sec component dir_size q (length pre + unat (raw ! 0)) (pos + ucast (raw ! 0))"
  have "iso_scan_sector ?sec component dir_size q (length pre) pos =
      (if raw ! 32 > 1 \<or> (raw ! 33 \<noteq> 0 \<and> raw ! 33 \<noteq> 1) then
         if iso_component_equal component (e_name e) then Some (Hit (e_lba e) (e_size e) (e_dir e)) else ?rest
       else ?rest)"
    using pos len r(1-5,8) ok
    by (subst iso_scan_sector.simps) (simp only: Let_def at rec name ISO9660_SECTOR_SIZE_def, simp)
  also have "\<dots> = (if iso_matches component e then Some (Hit (e_lba e) (e_size e) (e_dir e)) else ?rest)"
    unfolding record_name [OF es(2)] by (simp add: iso_matches_def)
  finally show ?case unfolding following by (simp add: es(1))
qed

section \<open>The driver as it is\<close>

text \<open>No drive is present, so no read succeeds and no volume is ever mounted.\<close>

lemma cdrom_read_fails: "n \<noteq> 0 \<Longrightarrow> cdrom_read drives drive lba n = None"
  by (simp add: cdrom_read_def)

lemma iso9660_never_mounts:
  "iso9660_init k drives v s =
     map_option (\<lambda>(s1, buf). (-1, v, if buf = 0 then s1 else kfree buf s1))
       (kalloc k 2048 (print (''Initializing ISO9660 filesystem...'' @ nl) s))"
  "iso_pvd v = 0 \<Longrightarrow> iso9660_read drives v path buffer len m = Some (None, m) \<and> iso9660_stat drives v path = Some None"
  by (auto simp: iso9660_init_def iso9660_read_def iso9660_stat_def cdrom_read_fails ISO9660_SECTOR_SIZE_def split: option.split)

end
