(* ===== verification/Boot.thy ===== *)
theory Boot
  imports Ahci Xhci Audio Syscall_Props
begin

text \<open>
  \<^verbatim>\<open>src/src/main.c\<close>, \<^verbatim>\<open>src/src/tests/storage_tests.c\<close> and the messages of \<^verbatim>\<open>src/src/storage.c\<close>: the boot, from
  the jump out of the boot loader to the first program.

  The boot runs on the whole machine.  The static variables of the drivers are collected in the
  record \<open>drivers\<close>.  What a disk holds is a parameter: the block device behind each drive the IDE and
  AHCI drivers find.  The result is \<open>Halted\<close> after a panic and \<open>Ring3\<close> when the first program is entered;
  None is a boot that waits for ever.

  The configuration is that of \<^verbatim>\<open>src/src/config.h\<close>: the floppy and CD-ROM drivers are not started, the
  write tests are compiled out, and \<^verbatim>\<open>initramfs_init\<close>, called after the pseudo devices, has an empty body.
\<close>

record drivers =
  usb :: xhci
  nics :: "net_device list"
  intel_nic :: e1000
  realtek_nic :: rtl8139
  ata_drives :: "(IdeDeviceData \<times> u64) list"
  sata_drives :: "AhciPortData list"

section \<open>The storage tests\<close>

text \<open>
  A test goes on with a state or ends in a panic; None is a walk through a directory that does not
  return.
\<close>

type_synonym 's tested = "('s + 's) option"

fun and_then :: "'s tested \<Rightarrow> ('s \<Rightarrow> 's tested) \<Rightarrow> 's tested" where
  "and_then None f = None"
| "and_then (Some (Inl s)) f = Some (Inl s)"
| "and_then (Some (Inr s)) f = f s"

definition expect :: "bool \<Rightarrow> string \<Rightarrow> ('d, 'h, 'z) board_scheme \<Rightarrow> ('d, 'h, 'z) board_scheme tested" where
  "expect condition message s = Some (if \<not> condition then Inl (fst (kpanic message s)) else Inr s)"

definition say :: "string \<Rightarrow> ('d, 'h, 'z) board_scheme \<Rightarrow> ('d, 'h, 'z) board_scheme tested" where
  "say t s = Some (Inr (print (t @ nl) s))"

definition expect_root_dir_fat32 :: "'d PeanutVolume \<Rightarrow> bytes \<Rightarrow> ('d, 'h, 'z) board_scheme \<Rightarrow> ('d, 'h, 'z) board_scheme tested" where
  "expect_root_dir_fat32 v name s =
     (case fat32_find_root (fat32 v) (pv_disk v) name of
        None \<Rightarrow> None
      | Some r \<Rightarrow>
          and_then (expect (r \<noteq> None) ''storage test: missing FHS directory'' s)
            (expect (Fat32DirEntry.attributes (the r) AND FAT32_ATTR_DIRECTORY \<noteq> 0) ''storage test: FHS entry is not a directory''))"

definition expect_root_dir_exfat :: "'d PeanutVolume \<Rightarrow> bytes \<Rightarrow> ('d, 'h, 'z) board_scheme \<Rightarrow> ('d, 'h, 'z) board_scheme tested" where
  "expect_root_dir_exfat v name s =
     (case exfat_find_root (exfat v) (pv_disk v) name of
        None \<Rightarrow> None
      | Some r \<Rightarrow>
          and_then (expect (r \<noteq> None) ''storage test: missing FHS directory'' s)
            (expect (ex_attributes (the r) AND EXFAT_ATTR_DIRECTORY \<noteq> 0) ''storage test: FHS entry is not a directory''))"

definition expect_root_dir_ext :: "'d PeanutVolume \<Rightarrow> bytes \<Rightarrow> ('d, 'h, 'z) board_scheme \<Rightarrow> ('d, 'h, 'z) board_scheme tested" where
  "expect_root_dir_ext v name s =
     (case extfs_dir_exists (ext v) (pv_disk v) (slash # take 14 name) of
        None \<Rightarrow> None
      | Some found \<Rightarrow> expect found ''storage test: missing FHS directory'' s)"

definition expect_dirs ::
  "(bytes \<Rightarrow> ('d, 'h, 'z) board_scheme \<Rightarrow> ('d, 'h, 'z) board_scheme tested) \<Rightarrow> ('d, 'h, 'z) board_scheme \<Rightarrow> ('d, 'h, 'z) board_scheme tested" where
  "expect_dirs check s = and_then (fold (\<lambda>name r. and_then r (check name)) fhs_dirs (Some (Inr s))) (say ''      FHS dirs ok'')"

text \<open>The partition of the root volume, and whether a sector has the mark of a boot record.\<close>

definition volume_part :: "'d PeanutVolume \<Rightarrow> Partition" where
  "volume_part v =
     (if fs_kind v = PEANUT_FS_EXFAT then ex_part (exfat v) else if fs_kind v = PEANUT_FS_EXT then ext_part (ext v) else fat_part (fat32 v))"

definition boot_mark :: "bytes \<Rightarrow> bool" where
  "boot_mark sector \<longleftrightarrow> sector ! 510 = 0x55 \<and> sector ! 511 = 0xAA"

definition test_partition :: "'d PeanutVolume \<Rightarrow> ('d, 'h, 'z) board_scheme \<Rightarrow> ('d, 'h, 'z) board_scheme tested" where
  "test_partition v s =
     (if fs_kind v = PEANUT_FS_FAT32 then
        and_then (and_then (expect (partition_is_fat32 (volume_part v)) ''storage test: mounted partition is not FAT32'' s)
          (say ''      MBR/FAT32 partition ok'')) (expect_dirs (expect_root_dir_fat32 v))
      else if fs_kind v = PEANUT_FS_EXFAT then
        and_then (and_then (expect (exfat_probe_boot (pv_disk v) (first_lba (volume_part v))) ''storage test: mounted volume is not exFAT'' s)
          (say ''      MBR/exFAT partition ok'')) (expect_dirs (expect_root_dir_exfat v))
      else
        and_then (and_then (expect (extfs_probe (pv_disk v) (first_lba (volume_part v))) ''storage test: mounted volume is not ext'' s)
          (say ''      MBR/ext partition ok'')) (expect_dirs (expect_root_dir_ext v)))"

definition test_both :: "'d BlockDevice list \<Rightarrow> 'd BlockDevice list \<Rightarrow> ('d, 'h, 'z) board_scheme \<Rightarrow> ('d, 'h, 'z) board_scheme tested" where
  "test_both ide ahci s =
     (if ide = [] \<or> ahci = [] then Some (Inr s)
      else
        let a = block_read (Some (ide ! 0)) 0 1; b = block_read (Some (ahci ! 0)) 0 1
        in and_then (and_then (and_then (and_then
             (expect (a \<noteq> None) ''storage test: IDE read with AHCI present failed'' s)
             (expect (b \<noteq> None) ''storage test: AHCI read with IDE present failed''))
             (expect (boot_mark (the a)) ''storage test: IDE MBR sig''))
             (expect (boot_mark (the b)) ''storage test: AHCI MBR sig''))
             (say ''      dual IDE+AHCI read ok''))"

definition test_zero :: "('d, 'h, 'z) board_scheme \<Rightarrow> ('d, 'h, 'z) board_scheme tested" where
  "test_zero s =
     (let (r, s1) = on_dev (\<lambda>d. vfs_pseudo_read d (ascii ''/dev/zero'') 8) s; zbuf = the r
      in and_then (and_then (and_then
           (expect (r \<noteq> None) ''storage test: /dev/zero'' s1)
           (expect (length zbuf = 8) ''storage test: /dev/zero len''))
           (expect (zbuf ! 0 = 0 \<and> zbuf ! 7 = 0) ''storage test: /dev/zero bytes''))
           (say ''      vfs /dev/zero ok''))"

definition storage_tests_run ::
  "'d BlockDevice list \<Rightarrow> 'd BlockDevice list \<Rightarrow> 'd PeanutVolume \<Rightarrow> ('d, 'h, 'z) board_scheme \<Rightarrow> ('d, 'h, 'z) board_scheme tested" where
  "storage_tests_run ide ahci v s =
     (let sector = block_read (pv_disk v) (first_lba (volume_part v)) 1
      in and_then (and_then (and_then (and_then (and_then (and_then (and_then
           (say ''    Storage tests:'' s)
           (expect (sector \<noteq> None) ''storage test: block read failed''))
           (expect (boot_mark (the sector)) ''storage test: boot sector signature missing''))
           (say ''      block read ok''))
           (expect (fst (partition_scan_mbr (pv_disk v) (of_nat PARTITION_MAX)) > 0) ''storage test: MBR scan failed''))
           (test_partition v)) (test_both ide ahci)) test_zero)"

section \<open>The boot\<close>

text \<open>Setting up the root volume: the disks behind the drives are given by \<open>ata\<close> and \<open>sata\<close>.\<close>

definition storage_boot ::
  "u64 \<Rightarrow> (IdeDeviceData \<times> u64 \<Rightarrow> 'd BlockDevice) \<Rightarrow> (AhciPortData \<Rightarrow> 'd BlockDevice) \<Rightarrow> 'd PeanutVolume \<Rightarrow> drivers \<Rightarrow>
   ('d, 'h, 'z) board_scheme \<Rightarrow> (drivers \<times> (('d, 'h, 'z) board_scheme + ('d, 'h, 'z) board_scheme)) option" where
  "storage_boot ahci_area ata sata blank dr s =
     (let (ides, s1) = on_dev ide_init (print (''Setting up filesystems on block devices...'' @ nl) s) in
      case ahci_init ahci_area s1 of
        None \<Rightarrow> None
      | Some (ahcis, s2) \<Rightarrow>
          let dr1 = dr\<lparr>ata_drives := ides, sata_drives := ahcis\<rparr>;
              s3 = print nl (print_int (of_nat (length ahcis)) (print ''SATA drives found: '' s2));
              s4 = print nl (print_int (of_nat (length ides)) (print ''IDE drives found: '' s3))
          in (case storage_init_required (map sata ahcis) (map ata ides) blank of
                None \<Rightarrow> None
              | Some (Panic message) \<Rightarrow> Some (dr1, Inl (fst (kpanic message s4)))
              | Some (Running v) \<Rightarrow>
                  map_option (Pair dr1)
                    (and_then (say ''FHS found... yes'' (s4\<lparr>root_volume := Some v\<rparr>)) (storage_tests_run (map ata ides) (map sata ahcis) v))))"

text \<open>The first half of \<^verbatim>\<open>kmain\<close>: the console, memory, the tables of the processor and the pseudo devices.\<close>

definition write_ports :: "port_log \<Rightarrow> ('d, 'h, 'z) board_scheme \<Rightarrow> ('d, 'h, 'z) board_scheme" where
  "write_ports log = upd_dev (fold (\<lambda>(p, v). hw_outb p v) log)"

definition boot_core :: "machine_image \<Rightarrow> bytes \<Rightarrow> u64 \<Rightarrow> ('d, 'h, 'z) board_scheme \<Rightarrow> ('d, 'h, 'z) board_scheme option" where
  "boot_core k psf multiboot_info s =
     (case fb_init_from_multiboot psf (slab_mem s) multiboot_info (kdev s) of
        None \<Rightarrow> None
      | Some d \<Rightarrow>
          let s1 = upd_dev kclear (s\<lparr>kdev := d\<rparr>);
              s2 = print (''KASLR enabled (link-time only for now)'' @ nl) (print (''Peanut Kernel is booting...'' @ nl) s1);
              s3 = s2\<lparr>slab_vm := vm_init (vm_image.truncate k) (slab_vm s2)\<rparr>;
              s4 = kalloc_init (vm_image.truncate k) (slab_init s3);
              s5 = idt_init k (tss_init k (gdt_init_for_user k s4));
              s6 = syscall_init (kernel_image.truncate k) s5;
              s7 = write_ports (pit_init_hz 100 []) (write_ports (pic_init []) s6);
              s8 = idt_set_handler 32 (irq_timer k) (s7\<lparr>ksched := sched_init (ksched s7)\<rparr>)
          in Some (upd_dev users_init (upd_dev vfs_mount_devtmpfs (upd_dev vfs_init s8))))"

text \<open>The display driver keeps two variables of its own.\<close>

definition boot_display :: "('d, 'h, 'z) board_scheme \<Rightarrow> ('d, 'h, 'z) board_scheme" where
  "boot_display = upd_dev (\<lambda>d. console.truncate (hdmi_init (console.extend d (display.fields False False))))"

definition boot_drivers :: "machine_image \<Rightarrow> drivers \<Rightarrow> ('d, 'h, 'z) board_scheme \<Rightarrow> (drivers \<times> ('d, 'h, 'z) board_scheme) option" where
  "boot_drivers k dr s =
     (case ps2_init (kdev s) of None \<Rightarrow> None | Some d \<Rightarrow>
      (case xhci_init (usb dr) (s\<lparr>kdev := d\<rparr>) of None \<Rightarrow> None | Some (_, x, s1) \<Rightarrow>
         let (devs, s2) = net_init (print (''Network stack enabled'' @ nl) (boot_display s1)) in
         (case e1000_init (vm_image.truncate k) devs (intel_nic dr) s2 of None \<Rightarrow> None | Some (devs1, e, s3) \<Rightarrow>
          (case rtl8139_init (vm_image.truncate k) devs1 (realtek_nic dr) s3 of None \<Rightarrow> None | Some (devs2, r, s4) \<Rightarrow>
             Some (dr\<lparr>usb := x, nics := devs2, intel_nic := e, realtek_nic := r\<rparr>,
                   hda_init (ac97_init (virtio_net_init (rtl8169_init s4))))))))"

text \<open>The attempts to start a first program.\<close>

fun start_init ::
  "machine_image \<Rightarrow> 'd PeanutVolume \<Rightarrow> (string \<times> bytes) list \<Rightarrow> ('d, 'h, 'z) board_scheme \<Rightarrow> (('d, 'h, 'z) board_scheme \<times> sysret) option" where
  "start_init k root [] s = Some (fst (kpanic ''[Peanut kernel - panic - No working init found!]'' s), Halted)"
| "start_init k root ((message, path) # rest) s =
     (case elf_load_and_run (elf_image.truncate k) root path (print message s) of
        None \<Rightarrow> None
      | Some (s1, ExecFail) \<Rightarrow> start_init k root rest s1
      | Some (s1, ExecPanic) \<Rightarrow> Some (s1, Halted)
      | Some (s1, EnterRing3 rip rsp) \<Rightarrow> Some (s1, Ring3 rip rsp))"

definition kmain ::
  "machine_image \<Rightarrow> u64 \<Rightarrow> (IdeDeviceData \<times> u64 \<Rightarrow> 'd BlockDevice) \<Rightarrow> (AhciPortData \<Rightarrow> 'd BlockDevice) \<Rightarrow> 'd PeanutVolume \<Rightarrow> drivers \<Rightarrow>
   bytes \<Rightarrow> u64 \<Rightarrow> ('d, 'h, 'z) board_scheme \<Rightarrow> (drivers \<times> ('d, 'h, 'z) board_scheme \<times> sysret) option" where
  "kmain k ahci_area ata sata blank dr psf multiboot_info s =
     (case boot_core k psf multiboot_info s of None \<Rightarrow> None | Some s1 \<Rightarrow>
      (case boot_drivers k dr s1 of None \<Rightarrow> None | Some (dr1, s2) \<Rightarrow>
       (case storage_boot ahci_area ata sata blank dr1 s2 of
          None \<Rightarrow> None
        | Some (dr2, Inl s3) \<Rightarrow> Some (dr2, s3, Halted)
        | Some (dr2, Inr s3) \<Rightarrow>
            (case root_volume s3 of
               None \<Rightarrow> Some (dr2, fst (kpanic ''[Peanut kernel - panic - No bootable FAT32 volume found!]'' s3), Halted)
             | Some root \<Rightarrow>
                 map_option (Pair dr2)
                   (start_init k root
                      [(''Loading init process...'' @ nl, ascii ''/sbin/init''), (''init not found, trying /INIT...'' @ nl, ascii ''/INIT''),
                       ('''', ascii ''/sbin/init'')] s3)))))"

section \<open>What a driver leaves alone\<close>

named_theorems port_frame \<open>operations that only go through ports\<close>
named_theorems drive_frame \<open>operations of drivers\<close>

text \<open>A relation between states that steps can be chained with, and the loops the drivers share.\<close>

locale state_frame =
  fixes R :: "'s \<Rightarrow> 's \<Rightarrow> bool"
  assumes frame_refl: "R s s" and frame_trans: "R s t \<Longrightarrow> R t u \<Longrightarrow> R s u"
begin

lemma frame_fold: "(\<And>x s. R s (f x s)) \<Longrightarrow> R s (fold f xs s)"
  by (induction xs arbitrary: s) (auto intro: frame_refl frame_trans)

lemma frame_spin: "(\<And>s. R s (snd (test s))) \<Longrightarrow> R s (spin_until n test s)"
proof (induction n arbitrary: s)
  case (Suc n)
  obtain hit t where t: "test s = (hit, t)" by fastforce
  have "R s t" using Suc.prems [of s] by (simp add: t)
  then show ?case using Suc.IH [OF Suc.prems, of t] by (auto simp: t intro: frame_trans)
qed (simp add: frame_refl)

lemma frame_search: "(\<And>x s. R s (snd (f x s))) \<Longrightarrow> R s (snd (search_each f xs s))"
proof (induction xs arbitrary: s)
  case (Cons x xs)
  obtain r t where t: "f x s = (r, t)" by fastforce
  have "R s t" using Cons.prems [of s x] by (simp add: t)
  then show ?case using Cons.IH [OF Cons.prems, of t] by (auto simp: t intro: frame_trans split: option.split)
qed (simp add: frame_refl)

lemma frame_chain: "(\<And>s. R s (f s)) \<Longrightarrow> R s0 s \<Longrightarrow> R s0 (f s)"
  using frame_trans by blast

end

text \<open>Port accesses change the hardware only.\<close>

definition port_only :: "('h, 'z) hardware_scheme \<Rightarrow> ('h, 'z) hardware_scheme \<Rightarrow> bool" where
  "port_only d d' \<longleftrightarrow> (\<exists>h. d' = d\<lparr>hw := h\<rparr>)"

lemma port_only_refl: "port_only d d"
  unfolding port_only_def by (rule exI [of _ "hw d"]) simp

interpretation ports: state_frame port_only
proof
  fix s t u :: "('a, 'b) hardware_scheme"
  show "port_only s s" by (rule port_only_refl)
  show "port_only s t \<Longrightarrow> port_only t u \<Longrightarrow> port_only s u" by (auto simp: port_only_def)
qed

lemma port_ops:
  "port_only d (hw_outb p v8 d)" "port_only d (outw p v16 d)" "port_only d (outl p v32 d)"
  "port_only d (snd (inb p d))" "port_only d (snd (inw p d))" "port_only d (snd (inl p d))"
  by (auto simp: port_only_def hw_outb_def outw_def outl_def inb_def inw_def inl_def split: prod.split)

lemmas port_chain [port_frame] = port_ops [THEN ports.frame_trans [rotated]]

lemma pci_ports [port_frame]:
  "port_only d0 d \<Longrightarrow> port_only d0 (snd (pci_read32 a off d))" "port_only d0 d \<Longrightarrow> port_only d0 (pci_write32 a off v d)"
  unfolding pci_read32_def pci_write32_def by (intro port_frame, assumption)+

lemma pci_functions_ports:
  assumes "\<And>a v s. port_only s (snd (test a v s))"
  shows "port_only d0 d \<Longrightarrow> port_only d0 (snd (pci_functions test bus slot fs d))"
proof (induction fs arbitrary: d)
  case (Cons f fs)
  have test: "port_only d0 s \<Longrightarrow> port_only d0 (snd (test a v s))" for a v s using assms ports.frame_trans by blast
  show ?case
    using Cons.prems by (auto simp: Let_def case_prod_beta intro!: Cons.IH port_frame test)
qed simp

lemma pci_search_ports:
  assumes "\<And>a v s. port_only s (snd (test a v s))"
  shows "port_only d (snd (pci_search test d))"
  unfolding pci_search_def
  by (rule ports.frame_search, rule ports.frame_search, rule pci_functions_ports [OF assms port_only_refl])

lemma pci_find_ports [port_frame]:
  "port_only d0 d \<Longrightarrow> port_only d0 (snd (pci_find_class c sc p d))"
  "port_only d0 d \<Longrightarrow> port_only d0 (snd (pci_find_class_any_prog_if c sc d))"
  "port_only d0 d \<Longrightarrow> port_only d0 (snd (pci_find_device vd dd d))"
  unfolding pci_find_class_def pci_find_class_any_prog_if_def pci_find_device_def
  by (erule ports.frame_trans, rule pci_search_ports, auto simp: Let_def case_prod_beta intro: port_frame port_only_refl)+

lemma pci_bar_ports [port_frame]: "port_only d0 d \<Longrightarrow> port_only d0 (snd (pci_bar a i d))"
  by (auto simp: pci_bar_def Let_def case_prod_beta intro!: port_frame)

lemma ide_wait_ports [port_frame]: "port_only d0 d \<Longrightarrow> port_only d0 (snd (ide_wait_loop n ide w d))"
  by (induction n arbitrary: d) (auto simp: Let_def case_prod_beta intro!: port_frame)

lemma insw_ports [port_frame]: "port_only d0 d \<Longrightarrow> port_only d0 (snd (insw n p d))"
  by (induction n arbitrary: d) (auto simp: Let_def case_prod_beta intro!: port_frame)

lemma ide_identify_ports [port_frame]: "port_only d0 d \<Longrightarrow> port_only d0 (snd (ide_identify ide d))"
  unfolding ide_identify_def ide_wait_def ide_delay_def by (auto simp: Let_def case_prod_beta intro!: port_frame)

lemma ide_probe_ports: "port_only d0 d \<Longrightarrow> port_only d0 (snd (ide_probe ps found d))"
  by (induction ps arbitrary: found d) (auto simp: Let_def case_prod_beta intro!: port_frame split: option.split)

lemma ide_init_ports [port_frame]: "port_only d0 d \<Longrightarrow> port_only d0 (snd (ide_init d))"
  unfolding ide_init_def by (rule ide_probe_ports)

lemma ps2_ready_ports [port_frame]: "port_only d0 d \<Longrightarrow> port_only d0 (snd (ps2_data_ready d))"
  unfolding ps2_data_ready_def by (auto simp: Let_def case_prod_beta intro!: port_frame)

lemma ps2_drain_ports: "ps2_drain d = Some d' \<Longrightarrow> port_only d d'"
proof (rule ps2_drain.raw_induct [rotated, where P = port_only])
  fix f :: "('a, 'b) hardware_scheme \<Rightarrow> ('a, 'b) hardware_scheme option" and s s'
  assume IH: "\<And>x y. f x = Some y \<Longrightarrow> port_only x y"
    and run: "(let (ready, s1) = ps2_data_ready s in if ready then f (snd (inb PS2_DATA_PORT s1)) else Some s1) = Some s'"
  have r: "port_only s (snd (ps2_data_ready s))" by (rule port_frame, rule port_only_refl)
  then have "port_only s (snd (inb PS2_DATA_PORT (snd (ps2_data_ready s))))" by (rule port_frame)
  then show "port_only s s'" using run IH [of "snd (inb PS2_DATA_PORT (snd (ps2_data_ready s)))" s'] r
    by (auto simp: case_prod_beta split: if_splits intro: ports.frame_trans)
qed

lemma ps2_wait_input_ports [port_frame]: "port_only d0 d \<Longrightarrow> port_only d0 (wait_input_clear n d)"
  by (induction n arbitrary: d) (auto simp: Let_def case_prod_beta intro!: port_frame)

lemma ps2_wait_data_ports [port_frame]: "port_only d0 d \<Longrightarrow> port_only d0 (wait_data n d)"
  by (induction n arbitrary: d) (auto simp: Let_def case_prod_beta intro!: port_frame)

lemma ps2_init_ports: "ps2_init d = Some d' \<Longrightarrow> port_only d d'"
  unfolding ps2_init_def ps2_wait_input_clear_def
  by (auto simp: Let_def case_prod_beta intro!: port_frame dest!: ps2_drain_ports split: option.splits if_splits)

section \<open>The kernel under the drivers\<close>

text \<open>
  A driver may change memory, the heap and the devices.  It leaves the processes, the open files,
  the break, the tables of the processor and the rest of the kernel alone and keeps the cursor on
  the screen.
\<close>

definition drives :: "('d, 'h, 'z) board_scheme \<Rightarrow> ('d, 'h, 'z) board_scheme \<Rightarrow> bool" where
  "drives s s' \<longleftrightarrow>
     ksched s' = ksched s \<and> root_volume s' = root_volume s \<and> fds s' = fds s \<and> last_errno s' = last_errno s \<and>
     user_brk_end s' = user_brk_end s \<and> msr s' = msr s \<and> net_sent s' = net_sent s \<and> kernel.more s' = kernel.more s \<and>
     (cursor_ok (kdev s) \<longrightarrow> cursor_ok (kdev s'))"

interpretation drv: state_frame drives
  by unfold_locales (auto simp: drives_def)

lemmas drives_trans = drv.frame_trans [rotated]

lemma drives_refl [drive_frame]: "drives s s"
  by (rule drv.frame_refl)

lemma drives_heap: "kheap.more s' = kheap.more s \<Longrightarrow> drives s s'"
  by (cases s; cases s') (simp add: drives_def)

lemma drives_dev: "(cursor_ok (kdev s) \<Longrightarrow> cursor_ok d) \<Longrightarrow> drives s (s\<lparr>kdev := d\<rparr>)"
  by (simp add: drives_def)

lemma port_only_cursor: "port_only d d' \<Longrightarrow> cursor_ok d' = cursor_ok d"
  by (auto simp: port_only_def cursor_ok_def)

lemma drives_memory:
  "drives s (set_mem m s)" "drives s (kfree p s)" "drives s (snd (alloc_page s))" "drives s (set_bus b s)"
proof -
  show "drives s (set_mem m s)" "drives s (kfree p s)" by (rule drives_heap, simp)+
  show "drives s (snd (alloc_page s))" by (rule drives_heap) (simp add: alloc_page_def case_prod_beta Let_def)
  show "drives s (set_bus b s)"
    unfolding set_bus_def by (rule drv.frame_trans [OF drives_dev drives_heap]) (simp_all add: cursor_ok_def)
qed

lemma drives_mmio:
  "drives s (snd (mmio_read8 a s))" "drives s (snd (mmio_read16 a s))" "drives s (snd (mmio_read32 a s))"
  "drives s (mmio_write8 a v8 s)" "drives s (mmio_write16 a v16 s)" "drives s (mmio_write32 a v32 s)" "drives s (dma s)"
  by (auto simp: mmio_read8_def mmio_read16_def mmio_read32_def mmio_write8_def mmio_write16_def mmio_write32_def dma_def
      Let_def case_prod_beta intro: drives_memory)

lemma drives_on_dev: "(\<And>d. port_only d (snd (f d))) \<Longrightarrow> drives s (snd (on_dev f s))"
  using drives_dev [of s "snd (f (kdev s))"] port_only_cursor [of "kdev s" "snd (f (kdev s))"]
  by (simp add: on_dev_def Let_def case_prod_beta)

lemma drives_upd_dev: "(\<And>d. cursor_ok d \<Longrightarrow> cursor_ok (f d)) \<Longrightarrow> drives s (upd_dev f s)"
  unfolding upd_dev_def by (rule drives_dev)

lemma drives_upd_port: "(\<And>d. port_only d (f d)) \<Longrightarrow> drives s (upd_dev f s)"
  by (rule drives_upd_dev) (use port_only_cursor in blast)

lemma kprint_hex_cursor: "cursor_ok d \<Longrightarrow> cursor_ok (kprint_hex n d)"
  unfolding kprint_hex_def by (rule fold_invariant [where Q = "\<lambda>_. True"]) (auto simp: kprint_cursor kputc_frame)

lemma drives_print: "drives s (print t s)" "drives s (print_int n s)" "drives s (upd_dev (kprint bs) s)" "drives s (upd_dev (kprint_hex n) s)"
  unfolding print_def print_int_def by (rule drives_upd_dev, simp add: kprint_cursor kprint_int_cursor kprint_hex_cursor)+

lemma drives_pci_enable: "drives s (pci_enable a bits s)"
  unfolding pci_enable_def Let_def case_prod_beta
  by (rule drv.frame_trans [OF drives_on_dev drives_upd_port]) (intro port_frame port_only_refl)+

lemmas drives_ops [drive_frame] =
  drives_memory [THEN drives_trans] drives_mmio [THEN drives_trans] drives_print [THEN drives_trans] drives_pci_enable [THEN drives_trans]

lemma drives_dev_ops [drive_frame]:
  "drives s0 s \<Longrightarrow> (\<And>d. port_only d (snd (f d))) \<Longrightarrow> drives s0 (snd (on_dev f s))"
  "drives s0 s \<Longrightarrow> (\<And>d. port_only d (g d)) \<Longrightarrow> drives s0 (upd_dev g s)"
  using drives_trans [OF drives_on_dev] drives_trans [OF drives_upd_port] by blast+

lemma drives_kalloc: "kalloc k n s = Some (s', p) \<Longrightarrow> drives s0 s \<Longrightarrow> drives s0 s'"
  using drives_trans [OF drives_heap [OF kalloc_more]] by blast

lemma drives_spin [drive_frame]: "drives s0 s \<Longrightarrow> (\<And>s. drives s (snd (test s))) \<Longrightarrow> drives s0 (spin_until n test s)"
  using drives_trans [OF drv.frame_spin] by blast

lemma drives_fold [drive_frame]: "drives s0 s \<Longrightarrow> (\<And>x s. drives s (f x s)) \<Longrightarrow> drives s0 (fold f xs s)"
  using drives_trans [OF drv.frame_fold] by blast

lemma drives_find [drive_frame]: "drives s0 s \<Longrightarrow> drives s0 (snd (find_devices v ids s))"
  unfolding find_devices_def
  by (erule drives_trans [rotated], rule drv.frame_search) (intro drive_frame port_frame port_only_refl)

text \<open>Steps through the local names of a driver.\<close>

lemma drives_let [drive_frame]:
  "drives s0 s \<Longrightarrow> (\<And>t. drives s0 t \<Longrightarrow> drives s0 (f t)) \<Longrightarrow> drives s0 (Let s f)"
  "drives s0 s \<Longrightarrow> (\<And>t. drives s0 t \<Longrightarrow> drives s0 (snd (g t))) \<Longrightarrow> drives s0 (snd (Let s g))"
  "drives s0 s \<Longrightarrow> (\<And>t. drives s0 t \<Longrightarrow> drives s0 (snd (snd (h t)))) \<Longrightarrow> drives s0 (snd (snd (Let s h)))"
  by (simp_all add: Let_def)

lemma drives_pair [drive_frame]:
  "drives s0 (snd p) \<Longrightarrow> (\<And>v t. drives s0 t \<Longrightarrow> drives s0 (f v t)) \<Longrightarrow> drives s0 (Let p (case_prod f))"
  "drives s0 (snd p) \<Longrightarrow> (\<And>v t. drives s0 t \<Longrightarrow> drives s0 (snd (g v t))) \<Longrightarrow> drives s0 (snd (Let p (case_prod g)))"
  "drives s0 (snd p) \<Longrightarrow> (\<And>v t. drives s0 t \<Longrightarrow> drives s0 (snd (snd (h v t)))) \<Longrightarrow> drives s0 (snd (snd (Let p (case_prod h))))"
  by (cases p; simp add: Let_def)+

lemma drives_value [drive_frame]:
  fixes v :: "'w::len word" and m :: mem and x0 :: xhci and nd :: net_device
  shows "(\<And>x. drives s0 (f1 x)) \<Longrightarrow> drives s0 (Let v f1)" "(\<And>x. drives s0 (snd (f2 x))) \<Longrightarrow> drives s0 (snd (Let v f2))"
    "(\<And>x. drives s0 (snd (snd (f3 x)))) \<Longrightarrow> drives s0 (snd (snd (Let v f3)))"
    "(\<And>x. drives s0 (g1 x)) \<Longrightarrow> drives s0 (Let m g1)" "(\<And>x. drives s0 (snd (g2 x))) \<Longrightarrow> drives s0 (snd (Let m g2))"
    "(\<And>x. drives s0 (snd (h1 x))) \<Longrightarrow> drives s0 (snd (Let x0 h1))"
    "(\<And>x. drives s0 (snd (snd (h2 x)))) \<Longrightarrow> drives s0 (snd (snd (Let m h2)))"
    "(\<And>x. drives s0 (snd (snd (h3 x)))) \<Longrightarrow> drives s0 (snd (snd (Let nd h3)))"
  by (simp_all add: Let_def)

lemma drives_branch [drive_frame]:
  "drives s0 a \<Longrightarrow> drives s0 b \<Longrightarrow> drives s0 (if c then a else b)"
  "drives s0 (snd p) \<Longrightarrow> drives s0 (snd q) \<Longrightarrow> drives s0 (snd (if c then p else q))"
  "drives s0 (snd (snd u)) \<Longrightarrow> drives s0 (snd (snd v)) \<Longrightarrow> drives s0 (snd (snd (if c then u else v)))"
  by simp_all

lemma drives_snd [drive_frame]: "drives s0 s \<Longrightarrow> drives s0 (snd (v, s))" "drives s0 s \<Longrightarrow> drives s0 (snd (snd (u, v, s)))"
  by simp_all

lemma drives_split [drive_frame]: "(\<And>a b. drives s0 (f a b s)) \<Longrightarrow> drives s0 (case_prod f p s)"
  by (cases p) simp

lemma drives_answer [drive_frame]:
  "drives s0 (snd (snd (snd p))) \<Longrightarrow> (\<And>a b c t. drives s0 t \<Longrightarrow> drives s0 (snd (snd (h a b c t)))) \<Longrightarrow>
     drives s0 (snd (snd (let (a, b, c, t) = p in h a b c t)))"
  by (cases p) simp

lemma drives_fold_pair [drive_frame]: "drives s0 s \<Longrightarrow> (\<And>x v s. drives s (snd (f x (v, s)))) \<Longrightarrow> drives s0 (snd (fold f xs (v, s)))"
proof (induction xs arbitrary: v s)
  case (Cons x xs)
  obtain w t where t: "f x (v, s) = (w, t)" by fastforce
  then have "drives s t" using Cons.prems(2) [of s x v] by simp
  then show ?case using Cons.IH [of t w] Cons.prems t by (simp add: drv.frame_trans [OF Cons.prems(1)])
qed simp

text \<open>The same for steps that may not return.\<close>

lemma drives_opt [drive_frame]:
  "pred_option (\<lambda>r. drives s0 (g r)) None"
  "drives s0 (g x) \<Longrightarrow> pred_option (\<lambda>r. drives s0 (g r)) (Some x)"
  "pred_option (drives s0) y \<Longrightarrow> (\<And>t. drives s0 t \<Longrightarrow> drives s0 (g (f t))) \<Longrightarrow> pred_option (\<lambda>r. drives s0 (g r)) (map_option f y)"
  "pred_option (\<lambda>r. drives s0 (snd r)) y2 \<Longrightarrow> (\<And>v t. drives s0 t \<Longrightarrow> drives s0 (g (f2 v t))) \<Longrightarrow>
     pred_option (\<lambda>r. drives s0 (g r)) (map_option (case_prod f2) y2)"
  "pred_option (\<lambda>r. drives s0 (g r)) a \<Longrightarrow> pred_option (\<lambda>r. drives s0 (g r)) b \<Longrightarrow> pred_option (\<lambda>r. drives s0 (g r)) (if c then a else b)"
  by (auto simp: pred_option_def)

lemma drives_opt_let [drive_frame]:
  fixes v :: "'w::len word" and m :: mem and d :: e1000
  shows "drives s0 s \<Longrightarrow> (\<And>t. drives s0 t \<Longrightarrow> pred_option (\<lambda>r. drives s0 (g r)) (f t)) \<Longrightarrow> pred_option (\<lambda>r. drives s0 (g r)) (Let s f)"
    "drives s0 (snd p) \<Longrightarrow> (\<And>v t. drives s0 t \<Longrightarrow> pred_option (\<lambda>r. drives s0 (g r)) (h v t)) \<Longrightarrow>
       pred_option (\<lambda>r. drives s0 (g r)) (Let p (case_prod h))"
    "(\<And>x. pred_option (\<lambda>r. drives s0 (g r)) (f1 x)) \<Longrightarrow> pred_option (\<lambda>r. drives s0 (g r)) (Let v f1)"
    "(\<And>x. pred_option (\<lambda>r. drives s0 (g r)) (f2 x)) \<Longrightarrow> pred_option (\<lambda>r. drives s0 (g r)) (Let m f2)"
    "(\<And>x. pred_option (\<lambda>r. drives s0 (g r)) (f3 x)) \<Longrightarrow> pred_option (\<lambda>r. drives s0 (g r)) (Let d f3)"
  by (cases p; simp add: Let_def)+

lemma drives_opt_case [drive_frame]:
  fixes found :: "PciAddress option"
  shows "pred_option (drives s0) y \<Longrightarrow> (\<And>t. drives s0 t \<Longrightarrow> pred_option (\<lambda>r. drives s0 (g r)) (f t)) \<Longrightarrow>
     pred_option (\<lambda>r. drives s0 (g r)) (case y of None \<Rightarrow> None | Some t \<Rightarrow> f t)"
  "pred_option (\<lambda>r. drives s0 (snd r)) y2 \<Longrightarrow> (\<And>v t. drives s0 t \<Longrightarrow> pred_option (\<lambda>r. drives s0 (g r)) (f2 v t)) \<Longrightarrow>
     pred_option (\<lambda>r. drives s0 (g r)) (case y2 of None \<Rightarrow> None | Some (v, t) \<Rightarrow> f2 v t)"
  "pred_option (\<lambda>r. drives s0 (snd (snd r))) y3 \<Longrightarrow> (\<And>u v t. drives s0 t \<Longrightarrow> pred_option (\<lambda>r. drives s0 (g r)) (f3 u v t)) \<Longrightarrow>
     pred_option (\<lambda>r. drives s0 (g r)) (case y3 of None \<Rightarrow> None | Some (u, v, t) \<Rightarrow> f3 u v t)"
  "pred_option (\<lambda>r. drives s0 (g r)) a \<Longrightarrow> (\<And>x. pred_option (\<lambda>r. drives s0 (g r)) (f4 x)) \<Longrightarrow>
     pred_option (\<lambda>r. drives s0 (g r)) (case found of None \<Rightarrow> a | Some x \<Rightarrow> f4 x)"
  by (auto simp: pred_option_def split: option.split)

lemma drives_case [drive_frame]:
  fixes found :: "PciAddress option"
  shows "drives s0 a \<Longrightarrow> (\<And>x. drives s0 (f x)) \<Longrightarrow> drives s0 (case found of None \<Rightarrow> a | Some x \<Rightarrow> f x)"
  by (simp split: option.split)

lemma stop_port_drives [drive_frame]: "drives s0 s \<Longrightarrow> drives s0 (stop_port p s)"
  unfolding stop_port_def by (safe intro!: drive_frame)

lemma mmio_test_drives [drive_frame]: "drives s0 s \<Longrightarrow> drives s0 (snd (mmio_test a P s))" "drives s0 s \<Longrightarrow> drives s0 (mmio_change a f s)"
  unfolding mmio_test_def mmio_change_def by (safe intro!: drive_frame)

lemma xhci_reset_drives [drive_frame]: "drives s0 s \<Longrightarrow> drives s0 (xhci_reset a s)" "drives s0 s \<Longrightarrow> drives s0 (xhci_run a s)"
  unfolding xhci_reset_def xhci_run_def by (safe intro!: drive_frame)

lemma xhci_alloc_drives [drive_frame]: "drives s0 s \<Longrightarrow> drives s0 (snd (xhci_alloc_pages n s))"
  unfolding xhci_alloc_pages_def by (rule drives_fold_pair) (auto simp: Let_def case_prod_beta intro!: drive_frame)

lemma xhci_small_drives [drive_frame]:
  "drives s0 s \<Longrightarrow> drives s0 (xhci_zero p n s)" "drives s0 s \<Longrightarrow> drives s0 (xhci_ctx_write32 c i v s)"
  "drives s0 s \<Longrightarrow> drives s0 (xhci_ctx_write64 c i w s)" "drives s0 s \<Longrightarrow> drives s0 (mmio_write64 r w s)"
  unfolding xhci_zero_def xhci_ctx_write32_def xhci_ctx_write64_def mmio_write64_def by (safe intro!: drive_frame)

lemma xhci_contexts_drives [drive_frame]: "drives s0 s \<Longrightarrow> drives s0 (xhci_contexts i out ep n p psc s)"
  unfolding xhci_contexts_def by (safe intro!: drive_frame)

lemma xhci_scratchpad_drives [drive_frame]: "drives s0 s \<Longrightarrow> drives s0 (xhci_scratchpad n dc s)"
  unfolding xhci_scratchpad_def by (safe intro!: drive_frame)

lemma xhci_init_rings_drives [drive_frame]: "drives s0 s \<Longrightarrow> drives s0 (snd (xhci_init_rings b a r p1 p2 s))"
  unfolding xhci_init_rings_def by (safe intro!: drive_frame)

lemma event_loop_drives [drive_frame]: "drives s0 s \<Longrightarrow> drives s0 (snd (snd (snd (event_loop n ir e x s))))"
  by (induction n arbitrary: x s) (simp_all add: Let_def drive_frame)

lemma xhci_cmd_drives [drive_frame]: "drives s0 s \<Longrightarrow> drives s0 (snd (snd (snd (xhci_cmd db ir p st c x s))))"
  unfolding xhci_cmd_def xhci_wait_cmd_def by (auto simp: case_prod_beta intro!: drive_frame)

lemma print_protocol_drives [drive_frame]: "drives s0 s \<Longrightarrow> drives s0 (print_protocol w1 w2 s)"
  unfolding print_protocol_def by (safe intro!: drive_frame)

lemma address_port_drives [drive_frame]: "drives s0 s \<Longrightarrow> drives s0 (snd (snd (xhci_address_port db ir i sc c x s)))"
  unfolding xhci_address_port_def by (safe intro!: drive_frame)

text \<open>The loops that may not end.\<close>

lemma drives_loop: "(\<And>s'. f s = Some s' \<Longrightarrow> drives s (g s')) \<Longrightarrow> drives s0 s \<Longrightarrow> pred_option (\<lambda>r. drives s0 (g r)) (f s)"
  by (auto simp: pred_option_def intro: drives_trans)

lemma wait_not_running_drives [drive_frame]: "drives s0 s \<Longrightarrow> pred_option (drives s0) (wait_not_running p s)"
proof (rule drives_loop, erule wait_not_running.raw_induct [rotated, where P = "\<lambda>_ s s'. drives s s'"], goal_cases)
  case (1 s' f p s t)
  then show ?case by (auto simp: Let_def case_prod_beta dest!: 1(2) elim!: drives_trans intro!: drive_frame split: if_splits)
qed

lemma protocol_caps_drives [drive_frame]: "drives s0 s \<Longrightarrow> pred_option (drives s0) (protocol_caps_loop b n s)"
proof (rule drives_loop, erule protocol_caps_loop.raw_induct [rotated, where P = "\<lambda>_ _ s s'. drives s s'"], goal_cases)
  case (1 s' f b n s t)
  then show ?case by (auto simp: Let_def case_prod_beta dest!: 1(2) elim!: drives_trans intro!: drive_frame split: if_splits)
qed

lemma ports_report_drives [drive_frame]: "drives s0 s \<Longrightarrow> pred_option (drives s0) (ports_report_loop a n i s)"
proof (rule drives_loop, erule ports_report_loop.raw_induct [rotated, where P = "\<lambda>_ _ _ s s'. drives s s'"], goal_cases)
  case (1 s' f a n i s t)
  then show ?case by (auto simp: Let_def case_prod_beta dest!: 1(2) elim!: drives_trans intro!: drive_frame split: if_splits)
qed

lemma address_ports_drives [drive_frame]: "drives s0 s \<Longrightarrow> pred_option (\<lambda>r. drives s0 (snd r)) (address_ports a db ir c n i x s)"
proof (rule drives_loop [where g = snd],
    rule address_ports.raw_induct [rotated, where P = "\<lambda>_ _ _ _ _ _ _ s r. drives s (snd r)", of "(((((((a, db), ir), c), n), i), x), s)", unfolded prod.case],
    assumption, goal_cases)
  case (1 r f a db ir c n i x s t)
  obtain sc s1 where r: "mmio_read32 (portsc_addr a i) s = (sc, s1)" by fastforce
  obtain x2 s2 where q: "(if sc AND 1 \<noteq> 0 then snd (xhci_address_port db ir (ucast i) sc c x s1) else (x, s1)) = (x2, s2)"
    by (rule prod.exhaust)
  have "drives s s1" using drives_mmio(3) [of s "portsc_addr a i"] by (simp add: r)
  moreover have "drives s1 s2" using address_port_drives [OF drives_refl, of s1 db ir "ucast i" sc c x] q
    by (auto simp: drives_refl split: if_splits)
  ultimately have "drives s s2" by (rule drv.frame_trans)
  moreover have "drives s2 (snd t)" if "i \<le> n"
    using 1(4) that by (simp only: r q Let_def prod.case if_True if_False simp_thms) (rule 1(3))
  moreover have "t = (x, s)" if "\<not> i \<le> n"
    using 1(4) that by simp
  ultimately show ?case using drives_refl [of s] drv.frame_trans [of s s2 "snd t"] by (cases "i \<le> n") simp_all
qed

text \<open>The drivers.\<close>

lemma start_port_drives [drive_frame]: "drives s0 s \<Longrightarrow> pred_option (drives s0) (start_port p s)"
  unfolding start_port_def by (safe intro!: drive_frame)

lemma ahci_setup_drives [drive_frame]: "drives s0 s \<Longrightarrow> pred_option (drives s0) (ahci_setup_port p pd s)"
  unfolding ahci_setup_port_def by (safe intro!: drive_frame)

lemma port_is_sata_drives [drive_frame]: "drives s0 s \<Longrightarrow> drives s0 (snd (port_is_sata p s))"
  unfolding port_is_sata_def by (safe intro!: drive_frame)

lemma ahci_ports_drives [drive_frame]: "drives s0 s \<Longrightarrow> pred_option (\<lambda>r. drives s0 (snd r)) (ahci_ports b ab m ps found s)"
  by (induction ps arbitrary: found s) (simp_all only: ahci_ports.simps, safe intro!: drive_frame)

lemma ahci_init_drives [drive_frame]: "drives s0 s \<Longrightarrow> pred_option (\<lambda>r. drives s0 (snd r)) (ahci_init b s)"
  unfolding ahci_init_def by (safe intro!: drive_frame port_frame port_only_refl)

lemma xhci_init_drives [drive_frame]: "drives s0 s \<Longrightarrow> pred_option (\<lambda>r. drives s0 (snd (snd r))) (xhci_init x s)"
  unfolding xhci_init_def xhci_print_protocol_caps_def xhci_ports_report_def by (safe intro!: drive_frame port_frame port_only_refl)


lemma e1000_reg_drives [drive_frame]: "drives s0 s \<Longrightarrow> drives s0 (snd (e1000_read_reg d r s))" "drives s0 s \<Longrightarrow> drives s0 (e1000_write_reg d r v s)"
  unfolding e1000_read_reg_def e1000_write_reg_def by (safe intro!: drive_frame)

lemma net_register_drives [drive_frame]: "drives s0 s \<Longrightarrow> drives s0 (snd (net_register_device dev devs s))"
  unfolding net_register_device_def by (safe intro!: drive_frame)

lemma e1000_start_drives [drive_frame]: "drives s0 s \<Longrightarrow> drives s0 (snd (snd (e1000_start d devs s)))"
  unfolding e1000_start_def by (safe intro!: drive_frame)

lemma kalloc_drives [drive_frame]: "drives s0 s \<Longrightarrow> pred_option (\<lambda>r. drives s0 (fst r)) (kalloc k n s)"
  by (auto simp: pred_option_def intro: drives_kalloc)

lemma e1000_alloc_drives [drive_frame]: "drives s0 s \<Longrightarrow> pred_option (\<lambda>r. drives s0 (snd r)) (e1000_alloc k d s)"
  unfolding e1000_alloc_def by (auto dest!: drives_kalloc simp: pred_option_def split: option.splits)

lemma e1000_init_drives [drive_frame]: "drives s0 s \<Longrightarrow> pred_option (\<lambda>r. drives s0 (snd (snd r))) (e1000_init k devs d s)"
  unfolding e1000_init_def e1000_find_def by (safe intro!: drive_frame port_frame port_only_refl)

lemma rtl8139_init_drives [drive_frame]:
  assumes "drives s0 s"
  shows "pred_option (\<lambda>r. drives s0 (snd (snd r))) (rtl8139_init k devs r s)"
proof -
  obtain found s1 where f: "on_dev (pci_find_device RTL8139_VENDOR RTL8139_DEVICE) s = (found, s1)" by fastforce
  have "drives s0 (snd (on_dev (pci_find_device RTL8139_VENDOR RTL8139_DEVICE) s))"
    using assms by (safe intro!: drive_frame port_frame port_only_refl)
  then have s1: "drives s0 s1" by (simp add: f)
  show ?thesis
  proof (cases found)
    case (Some addr)
    obtain bar s2 where b: "on_dev (pci_bar addr 0) s1 = (bar, s2)" by fastforce
    have "drives s0 (snd (on_dev (pci_bar addr 0) s1))" using s1 by (safe intro!: drive_frame port_frame port_only_refl)
    moreover have "bar AND 1 = 0" using b bar_no_io_bit [of addr 0 "kdev s1"] by (auto simp: on_dev_def Let_def split: prod.splits)
    ultimately show ?thesis by (simp add: rtl8139_init_def f Some b drive_frame)
  qed (simp add: rtl8139_init_def f s1 drive_frame)
qed

lemma reported_drives [drive_frame]:
  "drives s0 s \<Longrightarrow> drives s0 (rtl8169_init s)" "drives s0 s \<Longrightarrow> drives s0 (virtio_net_init s)"
  unfolding rtl8169_init_def virtio_net_init_def by (safe intro!: drive_frame)

lemma ac97_find_drives [drive_frame]: "drives s0 s \<Longrightarrow> drives s0 (snd (ac97_find s))"
  unfolding ac97_find_def by (auto simp: Let_def case_prod_beta split: option.split intro!: drive_frame port_frame port_only_refl)

lemma ac97_init_drives [drive_frame]: "drives s0 s \<Longrightarrow> drives s0 (ac97_init s)"
  unfolding ac97_init_def by (safe intro!: drive_frame port_frame port_only_refl)

lemma hda_reg_drives [drive_frame]:
  "drives s0 s \<Longrightarrow> drives s0 (snd (hda_read16 b r s))" "drives s0 s \<Longrightarrow> drives s0 (snd (hda_read32 b r s))"
  "drives s0 s \<Longrightarrow> drives s0 (hda_write8 b r v8 s)" "drives s0 s \<Longrightarrow> drives s0 (hda_write16 b r v16 s)"
  "drives s0 s \<Longrightarrow> drives s0 (hda_write32 b r v32 s)"
  unfolding hda_read16_def hda_read32_def hda_write8_def hda_write16_def hda_write32_def by (safe intro!: drive_frame)

lemma hda_parts_drives [drive_frame]: "drives s0 s \<Longrightarrow> drives s0 (hda_reset b s)" "drives s0 s \<Longrightarrow> drives s0 (hda_rings b c r s)"
  unfolding hda_reset_def hda_rings_def by (safe intro!: drive_frame)

lemma hda_init_drives [drive_frame]: "drives s0 s \<Longrightarrow> drives s0 (hda_init s)"
  unfolding hda_init_def by (safe intro!: drive_frame port_frame port_only_refl)

end
