(* ===== verification/Boot_Props.thy ===== *)
theory Boot_Props
  imports Boot Elf Tables
begin

text \<open>
  The boot as a whole: what the state is when the first program is entered, and a run of
  \<^verbatim>\<open>kmain\<close> from a machine at power-on to the first program.
\<close>

section \<open>The parts of the boot\<close>

lemma read_id_ports [port_frame]: "port_only d0 d \<Longrightarrow> port_only d0 (snd (read_id found d))"
  unfolding read_id_def by (auto simp: Let_def case_prod_beta split: option.split intro!: port_frame)

lemma port_only_console: "port_only d d' \<Longrightarrow> cursor_x d' = cursor_x d \<and> cursor_y d' = cursor_y d"
  by (auto simp: port_only_def)

lemma hdmi_init_cursor:
  assumes "cursor_ok d"
  shows "cursor_ok (hdmi_init d)"
proof -
  obtain d1 s1 where f1: "pci_find_class_any_prog_if 0x03 0x00 d = (d1, s1)" by fastforce
  obtain d2 s2 where f2: "(case d1 of Some a \<Rightarrow> (Some a, s1) | None \<Rightarrow> pci_find_class_any_prog_if 0x03 0x80 s1) = (d2, s2)" by (rule prod.exhaust)
  obtain r3 s3 where f3: "read_id d2 s2 = (r3, s3)" by fastforce
  obtain a1 s4 where f4: "pci_find_class_any_prog_if 0x04 0x03 s3 = (a1, s4)" by fastforce
  obtain r5 s5 where f5: "read_id a1 s4 = (r5, s5)" by fastforce
  have "port_only d s1" using pci_find_ports(2) [OF port_only_refl [of d], where c = 3 and sc = 0] by (simp add: f1)
  moreover have "port_only s1 s2"
    using f2 pci_find_ports(2) [OF port_only_refl [of s1], where c = 3 and sc = "0x80"] by (auto simp: port_only_refl split: option.splits)
  moreover have "port_only s2 s3" using read_id_ports [OF port_only_refl [of s2], where found = d2] by (simp add: f3)
  moreover have "port_only s3 s4" using pci_find_ports(2) [OF port_only_refl [of s3], where c = 4 and sc = 3] by (simp add: f4)
  moreover have "port_only s4 s5" using read_id_ports [OF port_only_refl [of s4], where found = a1] by (simp add: f5)
  ultimately have "cursor_ok s5" using assms by (simp add: port_only_cursor)
  then have "cursor_ok (s5\<lparr>hdmi_status := a, display_found := b, audio_found := c\<rparr>)" for a b c by (simp add: cursor_ok_def)
  then show ?thesis unfolding hdmi_init_def f1 f2 f3 f4 f5 Let_def prod.case by (simp add: kprint_cursor)
qed

lemma boot_display_drives [drive_frame]: "drives s0 s \<Longrightarrow> drives s0 (boot_display s)"
  unfolding boot_display_def
proof (erule drives_trans [rotated], rule drives_upd_dev)
  fix d :: "'b console"
  assume "cursor_ok d"
  then have "cursor_ok (console.extend d (display.fields False False))" by (simp add: cursor_ok_def console.defs)
  then have "cursor_ok (hdmi_init (console.extend d (display.fields False False)))" by (rule hdmi_init_cursor)
  then show "cursor_ok (console.truncate (hdmi_init (console.extend d (display.fields False False))))"
    by (simp add: cursor_ok_def console.defs)
qed

lemma net_init_drives [drive_frame]: "drives s0 s \<Longrightarrow> drives s0 (snd (net_init s))"
  unfolding net_init_def by (safe intro!: drive_frame)

lemma boot_drivers_drives: "pred_option (\<lambda>r. drives s (snd r)) (boot_drivers k dr s)"
proof (cases "ps2_init (kdev s)")
  case (Some d)
  then have "drives s (s\<lparr>kdev := d\<rparr>)" using ps2_init_ports port_only_cursor by (intro drives_dev) blast
  then show ?thesis unfolding boot_drivers_def Some option.case by (safe intro!: drive_frame)
qed (simp add: boot_drivers_def)

text \<open>The tests and the messages of the storage set-up.\<close>

definition passed :: "('d, 'h, 'z) board_scheme \<Rightarrow> ('d, 'h, 'z) board_scheme tested \<Rightarrow> bool" where
  "passed s r \<longleftrightarrow> (\<forall>s'. r = Some (Inr s') \<longrightarrow> drives s s')"

lemma passedI: "(\<And>s'. r = Some (Inr s') \<Longrightarrow> drives s s') \<Longrightarrow> passed s r"
  by (simp add: passed_def)

lemma passed_then: "passed s r \<Longrightarrow> (\<And>t. passed t (f t)) \<Longrightarrow> passed s (and_then r f)"
  unfolding passed_def by (cases "(r, f)" rule: and_then.cases) (auto intro: drv.frame_trans)

lemma passed_steps: "passed s (expect c t s)" "passed s (say t s)"
  by (auto simp: passed_def expect_def say_def intro!: drive_frame)

lemma passed_dir: "passed s (expect_root_dir_fat32 v n s)" "passed s (expect_root_dir_exfat v n s)" "passed s (expect_root_dir_ext v n s)"
  unfolding expect_root_dir_fat32_def expect_root_dir_exfat_def expect_root_dir_ext_def
  by (auto split: option.split intro!: passed_then passed_steps) (simp add: passed_def)+

lemma passed_fold:
  assumes "\<And>n s. passed s (check n s)"
  shows "passed s r \<Longrightarrow> passed s (fold (\<lambda>n r. and_then r (check n)) ns r)"
  by (induction ns arbitrary: r) (auto intro: passed_then assms)

lemma passed_dirs: "(\<And>n s. passed s (check n s)) \<Longrightarrow> passed s (expect_dirs check s)"
  unfolding expect_dirs_def by (intro passed_then passed_fold passed_steps) (auto simp: passed_def drives_refl)

lemma passed_partition: "passed s (test_partition v s)"
  unfolding test_partition_def by (auto intro!: passed_then passed_steps passed_dirs passed_dir)

lemma passed_both: "passed s (test_both ide ahci s)"
  unfolding test_both_def Let_def by (auto intro!: passed_then passed_steps) (simp_all add: passed_def drives_refl)

lemma on_dev_drives: "(cursor_ok (kdev s) \<Longrightarrow> cursor_ok (snd (f (kdev s)))) \<Longrightarrow> drives s (snd (on_dev f s))"
  unfolding on_dev_def by (auto simp: Let_def case_prod_beta intro: drives_dev)

lemma vfs_read_cursor: "cursor_ok d \<Longrightarrow> cursor_ok (snd (vfs_pseudo_read d path n))"
  by (simp add: vfs_pseudo_read_def vfs_pread_cursor)

lemma passed_zero: "passed s (test_zero s)"
proof (rule passedI)
  fix s'
  assume t: "test_zero s = Some (Inr s')"
  obtain r s1 where r: "on_dev (\<lambda>d. vfs_pseudo_read d (ascii ''/dev/zero'') 8) s = (r, s1)" by fastforce
  have "drives s s1" using on_dev_drives [of s "\<lambda>d. vfs_pseudo_read d (ascii ''/dev/zero'') 8"] vfs_read_cursor [of "kdev s"] by (simp add: r)
  moreover have "passed s1 (test_zero s)"
    unfolding test_zero_def r Let_def prod.case by (intro passed_then passed_steps)
  ultimately show "drives s s'" using t drv.frame_trans by (auto simp: passed_def)
qed

lemma passed_tests: "passed s (storage_tests_run ide ahci v s)"
  unfolding storage_tests_run_def Let_def by (intro passed_then passed_steps passed_partition passed_both passed_zero)

lemma storage_boot_passed:
  assumes "storage_boot area ata sata blank dr s = Some (dr', Inr s')"
  shows "\<exists>v. validate_fhs v = Some True \<and> drives (s\<lparr>root_volume := Some v\<rparr>) s'"
proof -
  define start where "start = ''Setting up filesystems on block devices...'' @ nl"
  note boot = assms [unfolded storage_boot_def, folded start_def]
  obtain ides s1 where i: "on_dev ide_init (print start s) = (ides, s1)" by fastforce
  have s1: "drives s s1"
    using drives_dev_ops(1) [OF drives_print(1) ide_init_ports [OF port_only_refl], of s start] by (simp add: i)
  obtain ahcis s2 where a: "ahci_init area s1 = Some (ahcis, s2)"
    using boot by (auto simp: i split: option.splits)
  have s2: "drives s s2" using ahci_init_drives [OF s1, of area] by (simp add: a)
  let ?s4 = "print nl (print_int (of_nat (length ides)) (print ''IDE drives found: ''
    (print nl (print_int (of_nat (length ahcis)) (print ''SATA drives found: '' s2)))))"
  have s4: "drives s ?s4" using s2 by (intro drive_frame)
  obtain v where v: "storage_init_required (map sata ahcis) (map ata ides) blank = Some (Running v)"
    and t: "and_then (say ''FHS found... yes'' (?s4\<lparr>root_volume := Some v\<rparr>)) (storage_tests_run (map ata ides) (map sata ahcis) v) = Some (Inr s')"
    using boot by (auto simp: i a Let_def split: option.splits boot.splits)
  have "passed (?s4\<lparr>root_volume := Some v\<rparr>)
      (and_then (say ''FHS found... yes'' (?s4\<lparr>root_volume := Some v\<rparr>)) (storage_tests_run (map ata ides) (map sata ahcis) v))"
    by (intro passed_then passed_steps passed_tests)
  then have "drives (?s4\<lparr>root_volume := Some v\<rparr>) s'" using t by (simp add: passed_def)
  moreover have "drives (s\<lparr>root_volume := Some v\<rparr>) (?s4\<lparr>root_volume := Some v\<rparr>)" using s4 by (simp add: drives_def)
  moreover have "validate_fhs v = Some True" using v by (auto simp: storage_init_required_def split: option.splits if_splits)
  ultimately show ?thesis using drv.frame_trans by blast
qed

text \<open>A program that is loaded becomes a process; a failed attempt leaves the processes alone.\<close>

definition enters :: "sched \<Rightarrow> u64 \<Rightarrow> u64 \<Rightarrow> sched" where
  "enters t rip rsp = sched_mark_user_live (sched_arm_user_preempt (snd (sched_create_user t rip rsp)))"

fun exec_sched :: "sched \<Rightarrow> sched \<Rightarrow> exec_result \<Rightarrow> bool" where
  "exec_sched t t' (EnterRing3 rip rsp) \<longleftrightarrow> t' = enters t rip rsp"
| "exec_sched t t' ExecFail \<longleftrightarrow> t' = t"
| "exec_sched t t' ExecPanic \<longleftrightarrow> True"

lemma jump_sched: "exec_sched (ksched s) (ksched (fst (jump_to_ring3 stack e a0 a1 s))) (snd (jump_to_ring3 stack e a0 a1 s))"
  by (auto simp: jump_to_ring3_def Let_def enters_def set_mem_def split: prod.split)

lemma heap_sched: "kheap.more s' = kheap.more s \<Longrightarrow> ksched s' = ksched s"
  by (cases s; cases s') simp

lemma ksched_mem [simp]: "ksched (kfree b s) = ksched s" "ksched (set_mem m s) = ksched s"
  by (rule heap_sched, simp)+

lemma elf_sched:
  assumes "elf_load_and_run_inner k vol path a0 a1 s = Some y"
  shows "exec_sched (ksched s) (ksched (fst y)) (snd y)"
  using assms
proof (rule elf_load_and_run_inner.raw_induct [rotated, where P = "\<lambda>k vol path a0 a1 s y. exec_sched (ksched s) (ksched (fst y)) (snd y)"], goal_cases)
  case (1 f k vol path a0 a1 s y)
  have j: "exec_sched (ksched s) (ksched (fst (jump_to_ring3 stack e a0 a1 t))) (snd (jump_to_ring3 stack e a0 a1 t))"
    if "ksched t = ksched s" for stack e t
    using jump_sched [of t stack e a0 a1] that by simp
  show ?case using 1(2)
    by (auto simp: Let_def j dest!: kalloc_more heap_sched 1(1) split: option.splits if_splits)
qed


lemma start_init_sched:
  "start_init k root ps s = Some (s', Ring3 rip rsp) \<Longrightarrow>
   \<exists>t. drives s t \<and> loads t s' \<and> ksched s' = enters (ksched t) rip rsp"
proof (induction ps arbitrary: s)
  case (Cons mp ps)
  obtain m path where mp: "mp = (m, path)" by fastforce
  obtain s1 r where e: "elf_load_and_run (elf_image.truncate k) root path (print m s) = Some (s1, r)"
    using Cons.prems by (auto simp: mp split: option.splits)
  note e' = e [unfolded elf_load_and_run_def]
  have l: "loads (print m s) s1" "exec_sched (ksched (print m s)) (ksched s1) r" using elf_loads [OF e'] elf_sched [OF e'] by simp_all
  have p: "drives s (print m s)" by (rule drives_print)
  consider "r = ExecFail" | "r = EnterRing3 rip rsp" "s1 = s'" using Cons.prems by (auto simp: mp e split: exec_result.splits)
  then show ?case
  proof cases
    case 1
    then have "ksched s1 = ksched (print m s)" using l(2) by simp
    then have "drives (print m s) s1" using l(1)
      by (cases "print m s"; cases s1) (auto simp: loads_def drives_def)
    then have "drives s s1" by (rule drv.frame_trans [OF p])
    moreover have "start_init k root ps s1 = Some (s', Ring3 rip rsp)" using Cons.prems by (simp add: mp e 1)
    ultimately show ?thesis using Cons.IH drv.frame_trans by blast
  next
    case 2
    then show ?thesis using l p by auto
  qed
qed simp

text \<open>The state after the first half of the boot.\<close>

lemma write_ports_drives [drive_frame]: "drives s0 s \<Longrightarrow> drives s0 (write_ports log s)"
  unfolding write_ports_def
  by (erule drives_dev_ops(2)) (rule ports.frame_fold, auto intro: port_ops)

lemma boot_heap_drives [drive_frame]:
  "drives s0 s \<Longrightarrow> drives s0 (s\<lparr>slab_vm := v\<rparr>)" "drives s0 s \<Longrightarrow> drives s0 (slab_init s)" "drives s0 s \<Longrightarrow> drives s0 (kalloc_init i s)"
  by (erule drives_trans [rotated], rule drives_heap, simp add: slab_init_def kalloc_init_def Let_def)+

lemma pseudo_drives [drive_frame]:
  "drives s0 s \<Longrightarrow> drives s0 (upd_dev vfs_init s)" "drives s0 s \<Longrightarrow> drives s0 (upd_dev vfs_mount_devtmpfs s)"
  "drives s0 s \<Longrightarrow> drives s0 (upd_dev users_init s)"
proof -
  have c: "cursor_ok (d\<lparr>multi_user_enabled := b\<rparr>) = cursor_ok d" for b and d :: "'b console" by (simp add: cursor_ok_def)
  have "cursor_ok (users_init d)" if "cursor_ok d" for d :: "'b console"
    using that vfs_read_cursor [of "d\<lparr>multi_user_enabled := False\<rparr>" "ascii ''/etc/passwd''" 255]
    by (auto simp: users_init_def c Let_def split: prod.splits option.splits)
  moreover have "cursor_ok (vfs_init d)" "cursor_ok (vfs_mount_devtmpfs d)" if "cursor_ok d" for d :: "'b console"
    using that by (auto simp: vfs_init_def entropy_init_def entropy_mix_def rdtsc_def vfs_mount_devtmpfs_def devtmpfs_mount_def cursor_ok_def
        Let_def split: prod.splits)
  ultimately show "drives s0 s \<Longrightarrow> drives s0 (upd_dev vfs_init s)" "drives s0 s \<Longrightarrow> drives s0 (upd_dev vfs_mount_devtmpfs s)"
    "drives s0 s \<Longrightarrow> drives s0 (upd_dev users_init s)" by (blast intro: drives_trans drives_upd_dev)+
qed

text \<open>The tables of the processor are apart from the rest of the kernel.\<close>

lemma idt_init_kernel:
  "\<exists>x p. idt_init k s = s\<lparr>idt := x, idt_ptr := p, idtr := p\<rparr>"
proof -
  have "\<exists>x. fold (\<lambda>vector. idt_set_gate (of_nat vector) h) vs s = s\<lparr>idt := x\<rparr>" for h vs and s :: "('a, 'b, 'c) machine_scheme"
  proof (induction vs arbitrary: s)
    case (Cons v vs)
    obtain x where "fold (\<lambda>vector. idt_set_gate (of_nat vector) h) vs (idt_set_gate (of_nat v) h s) = (idt_set_gate (of_nat v) h s)\<lparr>idt := x\<rparr>"
      using Cons by blast
    moreover have "(idt_set_gate (of_nat v) h s)\<lparr>idt := x\<rparr> = s\<lparr>idt := x\<rparr>" by (simp add: idt_set_gate_def)
    ultimately show ?case by auto
  next
    case Nil
    show ?case by (rule exI [of _ "idt s"]) (cases s; simp)
  qed
  then obtain x where "fold (\<lambda>vector. idt_set_gate (of_nat vector) (interrupt_default_entry k)) [0..<IDT_ENTRIES] s = s\<lparr>idt := x\<rparr>"
    by blast
  then show ?thesis by (auto simp: idt_init_def Let_def idt_set_gate_def)
qed

lemma drives_idt: "drives s t \<Longrightarrow> idt t = idt s"
  by (cases s; cases t) (simp add: drives_def)

lemma drives_gates: "drives s t \<Longrightarrow> gates t f = gates s f"
  by (simp add: gates_def drives_idt)

definition tables_set :: "machine_image \<Rightarrow> ('d, 'h, 'z) board_scheme \<Rightarrow> ('d, 'h, 'z) board_scheme \<Rightarrow> bool" where
  "tables_set k s s' \<longleftrightarrow> cursor_ok (kdev s') \<and> fds s' = fds s \<and> user_brk_end s' = user_brk_arena k \<and>
     msr s' MSR_LSTAR = syscall_entry k \<and> gates s' (handler_of k [])"

lemma boot_tables_set:
  assumes "drives s s'" "cursor_ok (kdev s)" "length (idt s) = IDT_ENTRIES"
  shows "tables_set k s (syscall_init (kernel_image.truncate k) (idt_init k (tss_init k (gdt_init_for_user k s'))))"
proof -
  let ?t = "tss_init k (gdt_init_for_user k s')"
  obtain x p where i: "idt_init k ?t = ?t\<lparr>idt := x, idt_ptr := p, idtr := p\<rparr>" using idt_init_kernel by blast
  have "idt s' = idt s" using assms(1) by (rule drives_idt)
  then have "gates (idt_init k ?t) (handler_of k [])"
    using assms(3) by (intro idt_init_gates) (simp add: tss_init_def gdt_set_tss_def gdt_init_for_user_def Let_def IDT_ENTRIES_def)
  then have "gates (syscall_init (kernel_image.truncate k) (idt_init k ?t)) (handler_of k [])"
    by (simp add: gates_def syscall_init_def wrmsr_def Let_def)
  moreover have "kdev ?t = kdev s'" "fds ?t = fds s'"
    by (simp_all add: tss_init_def gdt_set_tss_def gdt_init_for_user_def Let_def)
  ultimately show ?thesis using assms(1,2)
    by (simp add: tables_set_def i syscall_init_def wrmsr_def Let_def drives_def kernel_image.defs MSR_LSTAR_def MSR_SFMASK_def)
qed

lemma tables_set_drives: "tables_set k s t \<Longrightarrow> drives t t' \<Longrightarrow> tables_set k s t'"
  using drives_gates [of t t'] by (auto simp: tables_set_def drives_def)

lemma boot_core_state:
  assumes "boot_core k psf mbi s = Some s'" "length (idt s) = IDT_ENTRIES"
  shows "cursor_ok (kdev s')" "fds s' = fds s" "user_brk_end s' = user_brk_arena k" "msr s' MSR_LSTAR = syscall_entry k"
    "\<exists>t. ksched s' = sched_init t" "gates s' (handler_of k [(32, irq_timer k)])"
proof -
  obtain d where d: "fb_init_from_multiboot psf (slab_mem s) mbi (kdev s) = Some d"
    using assms(1) by (auto simp: boot_core_def split: option.splits)
  define s1 s2 s3 s4 s6 s7 where "s1 = upd_dev kclear (s\<lparr>kdev := d\<rparr>)"
    and "s2 = print (''KASLR enabled (link-time only for now)'' @ nl) (print (''Peanut Kernel is booting...'' @ nl) s1)"
    and "s3 = s2\<lparr>slab_vm := vm_init (vm_image.truncate k) (slab_vm s2)\<rparr>"
    and "s4 = kalloc_init (vm_image.truncate k) (slab_init s3)"
    and "s6 = syscall_init (kernel_image.truncate k) (idt_init k (tss_init k (gdt_init_for_user k s4)))"
    and "s7 = write_ports (pit_init_hz 100 []) (write_ports (pic_init []) s6)"
  have s1: "cursor_ok (kdev s1)" "fds s1 = fds s" "idt s1 = idt s"
    by (simp_all add: s1_def upd_dev_def kclear_frame)
  have "drives s1 s4" unfolding s4_def s3_def s2_def by (intro drive_frame)
  then have "tables_set k s1 s6" unfolding s6_def using s1 assms(2) by (intro boot_tables_set) simp_all
  moreover have "drives s6 s7" unfolding s7_def by (intro drive_frame)
  ultimately have t: "tables_set k s1 s7" by (rule tables_set_drives)
  define s8 where "s8 = idt_set_handler 32 (irq_timer k) (s7\<lparr>ksched := sched_init (ksched s7)\<rparr>)"
  have s': "s' = upd_dev users_init (upd_dev vfs_mount_devtmpfs (upd_dev vfs_init s8))"
    using assms(1) by (simp only: boot_core_def d option.case Let_def s1_def s2_def s3_def s4_def s6_def s7_def s8_def option.inject)
  have d8: "drives s8 s'" unfolding s' by (intro drive_frame)
  have "gates (s7\<lparr>ksched := sched_init (ksched s7)\<rparr>) (handler_of k [])" using t by (simp add: tables_set_def gates_def)
  from gates_set [OF this, of 32 "irq_timer k"] have "gates s8 (handler_of k [(32, irq_timer k)])"
    using handler_of_snoc [of k "[]" 32 "irq_timer k"] by (simp add: s8_def idt_set_handler_def)
  then show "gates s' (handler_of k [(32, irq_timer k)])" using d8 by (simp add: drives_gates)
  have "kdev s8 = kdev s7" "fds s8 = fds s7" "user_brk_end s8 = user_brk_end s7" "msr s8 = msr s7" "ksched s8 = sched_init (ksched s7)"
    by (simp_all add: s8_def idt_set_handler_def idt_set_gate_def)
  then show "cursor_ok (kdev s')" "fds s' = fds s" "user_brk_end s' = user_brk_arena k" "msr s' MSR_LSTAR = syscall_entry k"
    "\<exists>t. ksched s' = sched_init t"
    using t d8 s1(2) by (auto simp: tables_set_def drives_def)
qed

section \<open>The first program\<close>

lemma first_process:
  "current_proc (enters (sched_init t) rip rsp) = 0" "user_preempt_armed (enters (sched_init t) rip rsp)"
  "pid (procs (enters (sched_init t) rip rsp) ! 0) = 1" "pstate (procs (enters (sched_init t) rip rsp) ! 0) = PROC_RUNNABLE"
  "frame (procs (enters (sched_init t) rip rsp) ! 0) = user_frame rip 0x202 rsp"
proof -
  have n: "Suc (PROC_MAX - 1) = PROC_MAX" "0 < PROC_MAX" by (simp_all add: PROC_MAX_def)
  have "replicate PROC_MAX unused_process = unused_process # replicate (PROC_MAX - 1) unused_process"
    using replicate_Suc [of "PROC_MAX - 1" unused_process] by (simp only: n)
  then have "alloc_proc (sched_init t) = 0" by (simp add: alloc_proc_def sched_init_def unused_process_def)
  then show "current_proc (enters (sched_init t) rip rsp) = 0" "user_preempt_armed (enters (sched_init t) rip rsp)"
    "pid (procs (enters (sched_init t) rip rsp) ! 0) = 1" "pstate (procs (enters (sched_init t) rip rsp) ! 0) = PROC_RUNNABLE"
    "frame (procs (enters (sched_init t) rip rsp) ! 0) = user_frame rip 0x202 rsp"
    by (simp_all add: enters_def sched_init_def sched_create_user_def new_user_process_def
        sched_mark_user_live_def sched_arm_user_preempt_def Let_def n)
qed

lemma drives_kernel_ok: "drives s t \<Longrightarrow> kernel_ok k s \<Longrightarrow> kernel_ok k t"
  by (simp add: drives_def kernel_ok_def)

lemma fresh_kernel_ok:
  assumes "cursor_ok (kdev t)" "fds t = fds s" "user_brk_end t = user_brk_arena k"
    and "user_brk_arena k \<le> user_brk_arena k + USER_BRK_ARENA_BYTES" "fds s = replicate FD_MAX zero_fd" "ksched t = sched_init u"
  shows "kernel_ok (kernel_image.truncate k) t"
proof -
  have "fd_ok zero_fd" by (simp add: fd_ok_def zero_fd_def)
  then show ?thesis using assms sched_init_inv [of u] by (simp add: kernel_ok_def kernel_image.defs)
qed


section \<open>A disk to boot from\<close>

text \<open>An exFAT partition with the four required directories and a program \<^verbatim>\<open>init\<close> in the root directory.\<close>

definition demo_mbr :: bytes where
  "demo_mbr = replicate 450 0 @ [7, 0, 0, 0, 1, 0, 0, 0, 64, 0, 0, 0] @ replicate 48 0 @ [0x55, 0xAA]"

definition demo_boot_sector :: bytes where
  "demo_boot_sector = take 109 demo_exfat_boot @ [1] @ drop 110 demo_exfat_boot"

definition demo_init_entry :: bytes where
  "demo_init_entry = [0x85, 2, 0, 0, 0x20] @ replicate 27 0 @ [0xC0, 0, 0, 4] @ replicate 16 0 @ [3, 0, 0, 0, 0, 4] @
     replicate 6 0 @ [0xC1, 0] @ concat (map (\<lambda>c. [c, 0]) (ascii ''init'')) @ replicate 22 0"

definition demo_init_program :: bytes where
  "demo_init_program = [0x7F, 0x45, 0x4C, 0x46] @ replicate 22 0 @ [0x40] @ replicate 997 0"

definition demo_boot_disk :: "u64 \<Rightarrow> bytes" where
  "demo_boot_disk l =
     (if l = 0 then demo_mbr else if l = 1 then demo_boot_sector else if l = 2 then replicate 512 0xFF
      else if l = 3 then concat (map demo_dir [''boot'', ''bin'', ''usr'', ''lib'']) @ demo_init_entry @ replicate 32 0
      else if l = 5 then take 512 demo_init_program else replicate 512 0)"

definition demo_part :: Partition where
  "demo_part = \<lparr>part_type = 7, first_lba = 1, part_sectors = 64\<rparr>"

definition demo_boot_volume :: "(u64 \<Rightarrow> bytes) PeanutVolume" where
  "demo_boot_volume = demo_no_volume\<lparr>fs_kind := PEANUT_FS_EXFAT, pv_disk := Some (ram_disk demo_boot_disk),
     exfat := \<lparr>ex_part = demo_part, ex_fat_start_lba = 2, cluster_heap_lba = 3, ex_root_cluster = 2, cluster_count = 4, ex_sectors_per_cluster = 2\<rparr>\<rparr>"

abbreviation boot_disk where "boot_disk \<equiv> ram_disk demo_boot_disk"

lemma demo_lengths: "length demo_mbr = 512" "length demo_boot_sector = 512" "length demo_init_program = 1024"
  by code_simp+

lemma demo_partitions: "disk_partitions boot_disk = [demo_part]"
  by code_simp

lemma demo_exfat_mount: "exfat_mount (Some boot_disk) demo_part = Some (exfat demo_boot_volume)"
  by code_simp

lemma demo_probe: "exfat_probe_boot (Some boot_disk) 1"
  by code_simp

lemma demo_fhs: "validate_fhs demo_boot_volume = Some True"
  by code_simp

lemma demo_no_sbin: "elf_file_size demo_boot_volume (ascii ''/sbin/init'') = Some None"
  by code_simp

lemma demo_init_size: "elf_file_size demo_boot_volume (ascii ''/INIT'') = Some (Some 1024)"
  by code_simp

lemma demo_init_read: "elf_read_file demo_boot_volume (ascii ''/INIT'') 1024 = Some (Some demo_init_program)"
  by code_simp

section \<open>A run of the boot\<close>

text \<open>
  A machine whose devices keep no state: there is nothing on the PCI bus, the keyboard controller
  is idle and every position of the IDE channels has a drive.
\<close>

definition idle :: "unit console \<Rightarrow> bool" where
  "idle d \<longleftrightarrow> inl_fn d = (\<lambda>p h. (0xFFFFFFFF, h)) \<and> inb_fn d = (\<lambda>p h. (if p = PS2_STATUS_PORT then 0 else ATA_SR_DRQ, h)) \<and>
     inw_fn d = (\<lambda>p h. (0, h)) \<and> dev_state_mounted d \<and> dev_mounted d"

lemma hw_unit [simp]: "d\<lparr>hw := h\<rparr> = (d :: (unit, 'z) hardware_scheme)"
  by (cases d) simp

lemma ports_unit [simp]:
  fixes d :: "(unit, 'z) hardware_scheme"
  shows "hw_outb p v8 d = d" "outw p v16 d = d" "outl p v32 d = d"
    "inb p d = (fst (inb_fn d p ()), d)" "inw p d = (fst (inw_fn d p ()), d)" "inl p d = (fst (inl_fn d p ()), d)"
  by (simp_all add: hw_outb_def outw_def outl_def inb_def inw_def inl_def case_prod_beta Let_def)

lemma search_none: "(\<And>x. f x s = (None, s)) \<Longrightarrow> search_each f xs s = (None, s)"
  by (induction xs) simp_all

lemma pci_search_none:
  fixes d :: "(unit, 'z) hardware_scheme"
  assumes "inl_fn d = (\<lambda>p h. (0xFFFFFFFF, h))"
  shows "pci_search test d = (None, d)"
proof -
  have "(map of_nat [0..<8] :: u8 list) = 0 # map of_nat [1..<8]" by (simp add: upt_rec)
  then have "pci_functions test b sl (map of_nat [0..<8]) d = (None, d)" for b sl
    by (simp add: pci_read32_def assms Let_def)
  then show ?thesis unfolding pci_search_def by (intro search_none)
qed

lemma pci_find_none:
  fixes d :: "(unit, 'z) hardware_scheme"
  assumes "inl_fn d = (\<lambda>p h. (0xFFFFFFFF, h))"
  shows "pci_find_class c sc p d = (None, d)" "pci_find_class_any_prog_if c sc d = (None, d)" "pci_find_device vd dd d = (None, d)"
  by (simp_all add: pci_find_class_def pci_find_class_any_prog_if_def pci_find_device_def pci_search_none [OF assms])

lemma ps2_init_idle: "idle d \<Longrightarrow> ps2_init d = Some d"
proof -
  assume i: "idle d"
  then have r: "ps2_data_ready d = (False, d)" by (simp add: ps2_data_ready_def idle_def)
  have "wait_data n d = d" for n by (induction n) (simp_all add: r)
  moreover have "wait_input_clear n d = d" for n using i by (induction n) (simp_all add: idle_def)
  moreover have "ps2_drain d = Some d" by (subst ps2_drain.simps) (simp add: r)
  ultimately show ?thesis by (simp add: ps2_init_def ps2_wait_input_clear_def r Let_def)
qed

lemma ide_identify_idle:
  assumes "idle d" "ide \<in> set (map (\<lambda>(io, ctrl, sl). \<lparr>io_base = io, ctrl_base = ctrl, slave = sl\<rparr>)
       [(0x1F0, 0x3F6, 0), (0x1F0, 0x3F6, 1), (0x170, 0x376, 0), (0x170, 0x376, 1)])"
  shows "\<exists>ws. ide_identify ide d = (Some ws, d)"
proof -
  have "insw n p d = (replicate n 0, d)" for n p using assms(1) by (induction n) (simp_all add: idle_def Let_def)
  moreover have "inb (io_base ide + ATA_REG_STATUS) d = (ATA_SR_DRQ, d)"
    using assms by (auto simp: idle_def ATA_REG_STATUS_def PS2_STATUS_PORT_def)
  moreover have "ide_wait_loop (Suc n) ide True d = (0, d)" for n
    using calculation(2) by (simp add: ATA_SR_DRQ_def ATA_SR_ERR_def ATA_SR_BSY_def)
  then have "ide_wait ide True d = (0, d)" unfolding ide_wait_def by (metis Suc_pred' zero_less_numeral)
  ultimately show ?thesis by (simp add: ide_identify_def ide_delay_def Let_def ATA_SR_DRQ_def del: insw.simps)
qed

lemma ide_probe_idle:
  "\<forall>ide \<in> set ps. \<exists>ws. ide_identify ide d = (Some ws, d) \<Longrightarrow> \<exists>r. ide_probe ps found d = (r, d) \<and> (found \<noteq> [] \<or> ps \<noteq> [] \<longrightarrow> r \<noteq> [])"
proof (induction ps arbitrary: found)
  case (Cons p ps)
  obtain ws where ws: "ide_identify p d = (Some ws, d)" using Cons.prems by auto
  define found' where "found' = found @ [(p, ucast (push_bit 16 (ucast (ws ! 61)) OR ucast (ws ! 60) :: u32))]"
  obtain r where "ide_probe ps found' d = (r, d)" "r \<noteq> []" using Cons.IH [of found'] Cons.prems by (auto simp: found'_def)
  then show ?case by (auto simp: ws found'_def IDE_MAX_DEVICES_def)
qed simp

lemma ide_init_idle: "idle d \<Longrightarrow> \<exists>ides. ide_init d = (ides, d) \<and> ides \<noteq> []"
proof -
  let ?ps = "map (\<lambda>(io, ctrl, sl). \<lparr>io_base = io, ctrl_base = ctrl, slave = sl\<rparr>)
       [(0x1F0, 0x3F6, 0), (0x1F0, 0x3F6, 1), (0x170, 0x376, 0), (0x170, 0x376, 1)] :: IdeDeviceData list"
  assume "idle d"
  then have "\<forall>ide \<in> set ?ps. \<exists>ws. ide_identify ide d = (Some ws, d)" using ide_identify_idle by blast
  moreover have "?ps \<noteq> []" by simp
  ultimately show ?thesis unfolding ide_init_def using ide_probe_idle [of ?ps d "[]"] by blast
qed

text \<open>Printing leaves the devices as they are.\<close>

lemma kputc_idle: "idle d \<Longrightarrow> idle (kputc c d)"
proof -
  have p: "inl_fn (serial_putc c s) = inl_fn s" "inb_fn (serial_putc c s) = inb_fn s" "inw_fn (serial_putc c s) = inw_fn s"
    "dev_state_mounted (serial_putc c s) = dev_state_mounted s" "dev_mounted (serial_putc c s) = dev_mounted s"
    for c and s :: "('a, 'b) console_scheme" using serial_putc_hw [of c s] by auto
  have "inl_fn (kputc c d) = inl_fn d" "inb_fn (kputc c d) = inb_fn d" "inw_fn (kputc c d) = inw_fn d"
    "dev_state_mounted (kputc c d) = dev_state_mounted d" "dev_mounted (kputc c d) = dev_mounted d"
    by (simp_all add: kputc_def fb_putc_def scroll_if_needed_def draw_glyph_def kclear_def fb_clear_def Let_def p)
  then show "idle d \<Longrightarrow> idle (kputc c d)" by (simp add: idle_def)
qed

lemma kprint_idle: "idle d \<Longrightarrow> idle (kprint t d)"
  unfolding kprint_def by (induction t arbitrary: d) (simp_all add: kputc_idle)

lemma kprint_int_idle: "idle d \<Longrightarrow> idle (kprint_int n d)"
  unfolding kprint_int_def using kprint_idle [unfolded kprint_def] by (auto simp: kputc_idle)

text \<open>Such a machine changes its console only.\<close>

definition prints :: "('d, unit, 'z) board_scheme \<Rightarrow> ('d, unit, 'z) board_scheme \<Rightarrow> bool" where
  "prints s s' \<longleftrightarrow> (idle (kdev s) \<longrightarrow> (\<exists>d. s' = s\<lparr>kdev := d\<rparr> \<and> idle d))"

lemma kdev_same [simp]: "s\<lparr>kdev := kdev s\<rparr> = s"
  by (cases s) simp

interpretation con: state_frame prints
proof
  fix s t u :: "('a, unit, 'b) board_scheme"
  show "prints s s" unfolding prints_def by (metis kdev_same)
  show "prints s t \<Longrightarrow> prints t u \<Longrightarrow> prints s u" by (auto simp: prints_def)
qed

lemmas prints_trans = con.frame_trans [rotated]

lemma prints_dev: "(idle (kdev s) \<Longrightarrow> idle (f (kdev s))) \<Longrightarrow> prints s (upd_dev f s)"
  by (auto simp: prints_def upd_dev_def)

lemma prints_print: "prints s (print t s)" "prints s (print_int n s)"
  unfolding print_def print_int_def by (rule prints_dev, simp add: kprint_idle kprint_int_idle)+

lemma prints_idle: "prints s s' \<Longrightarrow> idle (kdev s) \<Longrightarrow> idle (kdev s')"
  by (auto simp: prints_def)

lemma find_none:
  assumes "idle (kdev s)"
  shows "on_dev (pci_find_class c sc p) s = (None, s)" "on_dev (pci_find_device v i) s = (None, s)" "find_devices v ids s = (None, s)"
proof -
  have l: "inl_fn (kdev s) = (\<lambda>p h. (0xFFFFFFFF, h))" using assms by (simp add: idle_def)
  show "on_dev (pci_find_class c sc p) s = (None, s)" "on_dev (pci_find_device v i) s = (None, s)" for v i
    by (simp_all add: on_dev_def pci_find_none [OF l])
  then show "find_devices v ids s = (None, s)" unfolding find_devices_def by (intro search_none)
qed

lemma prints_display: "prints s (boot_display s)"
  unfolding boot_display_def
proof (rule prints_dev)
  assume i: "idle (kdev s)"
  let ?d = "console.extend (kdev s) (display.fields False False)"
  have l: "inl_fn ?d = (\<lambda>p h. (0xFFFFFFFF, h))" using i by (simp add: idle_def console.defs)
  have "hdmi_init ?d = ?d\<lparr>hdmi_status := set_status None None, display_found := False, audio_found := False\<rparr>"
    by (simp add: hdmi_init_def pci_find_none [OF l] read_id_def Let_def)
  then show "idle (console.truncate (hdmi_init ?d))" using i by (simp add: idle_def console.defs)
qed

text \<open>The drivers find nothing.\<close>

lemma boot_drivers_idle:
  assumes "idle (kdev s)"
  shows "\<exists>dr' s'. boot_drivers k dr s = Some (dr', s') \<and> prints s s'"
proof -
  define s1 where "s1 = print (''xHCI: no PCI device found'' @ nl) s"
  define s2 where "s2 = print (''Network stack initialized'' @ nl) (print (''Network stack enabled'' @ nl) (boot_display s1))"
  define s3 where "s3 = print (''E1000: no supported PCI device found'' @ nl) s2"
  define s4 where "s4 = print (''RTL8139: no PCI device found'' @ nl) s3"
  define s5 where "s5 = print (''RTL8169: no PCI device found'' @ nl) s4"
  define s6 where "s6 = print (''virtio-net: no PCI device found'' @ nl) s5"
  define s7 where "s7 = print (''AC97: no PCI audio device found'' @ nl) s6"
  define s8 where "s8 = print (''HDA: no PCI audio device found'' @ nl) s7"
  have p: "prints s s1" "prints s1 s2" "prints s2 s3" "prints s3 s4" "prints s4 s5" "prints s5 s6" "prints s6 s7" "prints s7 s8"
    unfolding s1_def s2_def s3_def s4_def s5_def s6_def s7_def s8_def
    by (rule prints_print prints_trans [OF prints_print(1) prints_trans [OF prints_print(1) prints_display]])+
  have i: "idle (kdev s1)" "idle (kdev s2)" "idle (kdev s3)" "idle (kdev s4)" "idle (kdev s5)" "idle (kdev s6)" "idle (kdev s7)"
    using assms p prints_idle by blast+
  have "xhci_init (usb dr) s = Some (0, usb dr, s1)" unfolding xhci_init_def s1_def by (simp only: find_none(1) [OF assms] Let_def prod.case option.case)
  moreover have "net_init (print (''Network stack enabled'' @ nl) (boot_display s1)) = ([], s2)" unfolding net_init_def s2_def ..
  moreover have "e1000_init (vm_image.truncate k) [] (intel_nic dr) s2 = Some ([], intel_nic dr, s3)"
    unfolding e1000_init_def e1000_find_def s3_def by (simp only: find_none(3) [OF i(2)] Let_def prod.case option.case)
  moreover have "rtl8139_init (vm_image.truncate k) [] (realtek_nic dr) s3 = Some ([], realtek_nic dr, s4)"
    unfolding rtl8139_init_def s4_def by (simp only: find_none(2) [OF i(3)] Let_def prod.case option.case)
  moreover have "rtl8169_init s4 = s5" "virtio_net_init s5 = s6"
    unfolding rtl8169_init_def virtio_net_init_def s5_def s6_def
    by (simp_all only: find_none(3) [OF i(4)] find_none(3) [OF i(5) [unfolded s5_def]] Let_def prod.case simp_thms if_False)
  moreover have "ac97_init s6 = s7" "hda_init s7 = s8"
    unfolding ac97_init_def ac97_find_def hda_init_def s7_def s8_def
    by (simp_all only: find_none [OF i(6)] find_none(1) [OF i(7) [unfolded s7_def]] Let_def prod.case option.case)
  ultimately have "\<exists>dr'. boot_drivers k dr s = Some (dr', s8)"
    unfolding boot_drivers_def by (simp add: ps2_init_idle [OF assms])
  moreover have "prints s s4" by (rule con.frame_trans [OF con.frame_trans [OF con.frame_trans [OF p(1,2)] p(3)] p(4)])
  moreover have "prints s4 s8" by (rule con.frame_trans [OF con.frame_trans [OF con.frame_trans [OF p(5,6)] p(7)] p(8)])
  ultimately show ?thesis using con.frame_trans [of s s4 s8] by blast
qed

lemma load_copied:
  fixes a :: u64
  assumes "k + LENGTH('a) div 8 \<le> length bs" "length bs < 2 ^ 64"
  shows "load (mem_copy_in m a bs) (a + of_nat k) = (word_of_bytes (take (LENGTH('a) div 8) (drop k bs)) :: 'a::len word)"
  unfolding load_def
proof (intro arg_cong [of _ _ word_of_bytes] nth_equalityI)
  fix i assume "i < length (map (\<lambda>i. mem_copy_in m a bs (a + of_nat k + of_nat i)) [0..<LENGTH('a) div 8])"
  then have i: "i < LENGTH('a) div 8" by simp
  then have "unat (a + of_nat k + of_nat i - a) = k + i" using assms by (simp add: unat_of_nat flip: of_nat_add)
  then show "map (\<lambda>i. mem_copy_in m a bs (a + of_nat k + of_nat i)) [0..<LENGTH('a) div 8] ! i = take (LENGTH('a) div 8) (drop k bs) ! i"
    using i assms by (simp add: mem_copy_in_apply)
qed (use assms in simp)

lemma create_first: "\<not> fst (sched_create_user (sched_init t) rip rsp) < 0"
proof -
  have n: "Suc (PROC_MAX - 1) = PROC_MAX" by (simp add: PROC_MAX_def)
  have "replicate PROC_MAX unused_process = unused_process # replicate (PROC_MAX - 1) unused_process"
    using replicate_Suc [of "PROC_MAX - 1" unused_process] by (simp only: n)
  then have "alloc_proc (sched_init t) = 0" by (simp add: alloc_proc_def sched_init_def unused_process_def)
  then show ?thesis by (simp add: sched_create_user_def new_user_process_def sched_init_def Let_def)
qed

text \<open>A file with the header of an ELF program without segments is entered.\<close>

lemma elf_enters:
  assumes f: "elf_file_size vol path = Some (Some n)" "n \<noteq> 0" "\<not> 16777216 < n" "elf_read_file vol path (ucast n) = Some (Some data)"
    and k: "kalloc (vm_image.truncate k) n s = Some (s1, buf)" "buf \<noteq> 0"
    and d: "length data = unat n" "64 \<le> length data" "take 4 data = [0x7F, 0x45, 0x4C, 0x46]" "take 2 (drop 56 data) = [0, 0]"
    and t: "ksched s = sched_init t"
  shows "\<exists>s' rip rsp. elf_load_and_run k vol path s = Some (s', EnterRing3 rip rsp)"
proof -
  have l: "length data < 2 ^ 64" using d(1) unat_u64 [of n] by simp
  define s2 where "s2 = set_mem (mem_copy_in (slab_mem s1) buf data) s1"
  have m: "slab_mem s2 = mem_copy_in (slab_mem s1) buf data" by (simp add: s2_def set_mem_def)
  have e: "e_ident (elf_header (slab_mem s2) buf) = ELF_MAGIC"
    using load_copied [where 'a = 32, of 0 data "slab_mem s1" buf] d(2,3) l unfolding m
    by (simp add: elf_header_def ELF_MAGIC_def)
  have z: "e_phnum (elf_header (slab_mem s2) buf) = 0"
    using load_copied [where 'a = 16, of 56 data "slab_mem s1" buf] d(2,4) l unfolding m by (simp add: elf_header_def)
  have i: "find_interp (slab_mem s2) buf p = None" for p by (simp add: find_interp_def z)
  have g: "load_segments buf p 0 (slab_mem s2) = slab_mem s2" for p by (subst load_segments.simps) (simp add: z)
  have "take 4 data ! 0 = data ! 0" by simp
  then have h: "data ! 0 \<noteq> 0x23" by (simp add: d(3))
  have "set_mem (slab_mem s2) s2 = s2" by (cases s2; cases "slab_vm s2") (simp add: set_mem_def)
  then have "elf_load_and_run k vol path s = Some (jump_to_ring3 (test_user_stack k) (e_entry (elf_header (slab_mem s2) buf)) path None (kfree buf s2))"
    unfolding elf_load_and_run_def
    using f(2,3) h e i g k(2)
    by (subst elf_load_and_run_inner.simps) (simp add: f(1,4) k(1) d(1) s2_def [symmetric] Let_def)
  moreover have "ksched (kfree buf s2) = sched_init t" using t heap_sched [OF kalloc_more [OF k(1)]] by (simp add: s2_def)
  ultimately show ?thesis using create_first [of t] by (auto simp: jump_to_ring3_def Let_def case_prod_beta)
qed


section \<open>The machine of the run\<close>

definition demo_pc_console :: "unit console" where
  "demo_pc_console = demo_console\<lparr>inl_fn := (\<lambda>p h. (0xFFFFFFFF, h)), inw_fn := (\<lambda>p h. (0, h)),
     inb_fn := (\<lambda>p h. (if p = PS2_STATUS_PORT then 0 else ATA_SR_DRQ, h))\<rparr>"

definition demo_pc :: "((u64 \<Rightarrow> bytes), unit) board" where
  "demo_pc = demo_board\<lparr>kdev := demo_pc_console, heap_start := 0\<rparr>"

lemma devices_idle:
  assumes "idle d"
  shows "idle (kclear d)" "idle (vfs_init d)" "idle (vfs_mount_devtmpfs d)" "idle (users_init d)"
proof -
  show "idle (kclear d)" using assms by (simp add: kclear_def fb_clear_def Let_def idle_def)
  show "idle (vfs_init d)" using assms
    by (simp add: vfs_init_def entropy_init_def entropy_mix_def rdtsc_def idle_def Let_def split: prod.split)
  show "idle (vfs_mount_devtmpfs d)" using assms by (simp add: vfs_mount_devtmpfs_def devtmpfs_mount_def idle_def)
  have n: "\<not> devtmpfs_is_path s (ascii ''/etc/passwd'')" for s :: "unit console" by (simp add: devtmpfs_is_path_def ascii_def)
  show "idle (users_init d)" using assms
    by (simp add: n users_init_def vfs_pseudo_read_def vfs_pseudo_pread_def Let_def idle_def split: prod.split option.split)
qed

lemma prints_write_ports: "prints s (write_ports log s)"
  unfolding write_ports_def
proof (rule prints_dev)
  assume "idle (kdev s)"
  moreover have "fold (\<lambda>(p, v). hw_outb p v) log d = d" for d :: "unit console" by (induction log) auto
  ultimately show "idle (fold (\<lambda>(p, v). hw_outb p v) log (kdev s))" by simp
qed

lemma boot_core_idle:
  assumes i: "idle (kdev s)" and h: "heap_start s = 0" and e: "0 < unat (kernel_end k)" "unat (kernel_end k) + 64 \<le> 2 ^ 64"
  shows "\<exists>s'. boot_core k psf 0 s = Some s' \<and> idle (kdev s') \<and> heap_ok [] s' \<and> unat (heap_start s') = round16 (unat (kernel_end k))"
proof -
  define s1 s2 s3 s4 s5 where "s1 = upd_dev kclear s"
    and "s2 = print (''KASLR enabled (link-time only for now)'' @ nl) (print (''Peanut Kernel is booting...'' @ nl) s1)"
    and "s3 = s2\<lparr>slab_vm := vm_init (vm_image.truncate k) (slab_vm s2)\<rparr>"
    and "s4 = kalloc_init (vm_image.truncate k) (slab_init s3)"
    and "s5 = tss_init k (gdt_init_for_user k s4)"
  obtain x p where t: "idt_init k s5 = s5\<lparr>idt := x, idt_ptr := p, idtr := p\<rparr>" using idt_init_kernel by blast
  define s6 s7 s8 s9 where "s6 = syscall_init (kernel_image.truncate k) (idt_init k s5)"
    and "s7 = write_ports (pit_init_hz 100 []) (write_ports (pic_init []) s6)"
    and "s8 = idt_set_handler 32 (irq_timer k) (s7\<lparr>ksched := sched_init (ksched s7)\<rparr>)"
    and "s9 = upd_dev users_init (upd_dev vfs_mount_devtmpfs (upd_dev vfs_init s8))"
  have b: "boot_core k psf 0 s = Some s9"
    by (simp only: boot_core_def fb_init_from_multiboot_def simp_thms if_True option.case Let_def kdev_same
        s1_def s2_def s3_def s4_def s5_def s6_def s7_def s8_def s9_def)
  have p2: "prints s s2" unfolding s2_def s1_def
    by (rule prints_trans [OF prints_print(1) prints_trans [OF prints_print(1) prints_dev]]) (rule devices_idle)
  then have k2: "idle (kdev s2)" "heap_start s2 = 0" using i h by (auto simp: prints_def)
  have "kdev s6 = kdev s5" "slab_vm s6 = slab_vm s5" "heap_start s6 = heap_start s5"
    by (simp_all add: s6_def t syscall_init_def wrmsr_def Let_def)
  moreover have "kdev s5 = kdev s4" "slab_vm s5 = slab_vm s4" "heap_start s5 = heap_start s4"
    by (simp_all add: s5_def tss_init_def gdt_set_tss_def gdt_init_for_user_def Let_def)
  moreover have "kdev s4 = kdev s2" by (simp add: s4_def slab_init_def kalloc_init_def s3_def set_mem_def Let_def)
  moreover have "prints s6 s7" unfolding s7_def by (rule prints_trans [OF prints_write_ports prints_write_ports])
  ultimately have k7: "idle (kdev s7)" "slab_vm s7 = slab_vm s4" "heap_start s7 = heap_start s4" using k2(1) by (auto simp: prints_def)
  then have "idle (kdev s9)" "slab_vm s9 = slab_vm s4" "heap_start s9 = heap_start s4"
    by (simp_all add: s9_def upd_dev_def s8_def idt_set_handler_def idt_set_gate_def devices_idle)
  moreover have "heap_start (slab_init s3) = 0" by (simp add: slab_init_def s3_def k2)
  note kalloc_init_ok(1,2) [OF this, of "vm_image.truncate k"]
  then have "heap_ok [] s4" "unat (heap_start s4) = round16 (unat (kernel_end k))" using e by (simp_all add: s4_def vm_image.defs)
  ultimately show ?thesis using b by (simp add: heap_ok_def)
qed

section \<open>The root volume of the run\<close>

lemma demo_boot_mark: "map_option boot_mark (block_read (Some boot_disk) 1 1) = Some True"
  by code_simp

lemma demo_scan: "0 < fst (partition_scan_mbr (Some boot_disk) (of_nat PARTITION_MAX))"
  by code_simp

lemma demo_mount: "mount_first_fs boot_disk demo_no_volume = Some demo_boot_volume"
proof -
  have n: "\<not> partition_is_fat demo_part" "first_lba demo_part = 1"
    by (simp_all add: demo_part_def partition_is_fat_def partition_is_fat32_def)
  have v: "demo_no_volume\<lparr>fs_kind := PEANUT_FS_EXFAT, pv_disk := Some boot_disk, exfat := exfat demo_boot_volume\<rparr> = demo_boot_volume"
    by (simp add: demo_boot_volume_def)
  show ?thesis unfolding mount_first_fs_def Let_def demo_partitions using demo_probe by (simp add: n demo_exfat_mount v)
qed

definition goes :: "('d, unit, 'z) board_scheme \<Rightarrow> ('d, unit, 'z) board_scheme tested \<Rightarrow> bool" where
  "goes s r \<longleftrightarrow> (idle (kdev s) \<longrightarrow> (\<exists>s'. r = Some (Inr s') \<and> prints s s'))"

lemma goes_then:
  assumes "goes s r" "\<And>t. goes t (f t)"
  shows "goes s (and_then r f)"
proof -
  have "\<exists>s'. and_then r f = Some (Inr s') \<and> prints s s'" if i: "idle (kdev s)"
  proof -
    obtain t where t: "r = Some (Inr t)" "prints s t" using assms(1) i by (auto simp: goes_def)
    then obtain u where "f t = Some (Inr u)" "prints t u" using assms(2) [of t] prints_idle [OF t(2) i] by (auto simp: goes_def)
    then show ?thesis using t con.frame_trans [of s t u] by auto
  qed
  then show ?thesis by (simp add: goes_def)
qed

lemma goes_steps: "c \<Longrightarrow> goes s (expect c t s)" "goes s (say t s)"
  by (simp_all add: goes_def expect_def say_def con.frame_refl prints_print)

lemma goes_dir: "exfat_dir_exists (exfat v) (pv_disk v) n = Some True \<Longrightarrow> goes s (expect_root_dir_exfat v n s)"
  by (auto simp: exfat_dir_exists_def expect_root_dir_exfat_def split: option.splits intro!: goes_then goes_steps)

lemma goes_fold: "\<forall>n \<in> set ns. \<forall>s. goes s (check n s) \<Longrightarrow> goes s r \<Longrightarrow> goes s (fold (\<lambda>n r. and_then r (check n)) ns r)"
  by (induction ns arbitrary: r) (auto intro: goes_then)

lemma demo_volume_fields:
  "fs_kind demo_boot_volume = PEANUT_FS_EXFAT" "pv_disk demo_boot_volume = Some boot_disk" "volume_part demo_boot_volume = demo_part"
  "first_lba demo_part = 1"
  by (simp_all add: demo_boot_volume_def volume_part_def demo_part_def)

lemma goes_partition: "goes s (test_partition demo_boot_volume s)"
proof -
  have "\<forall>n \<in> set fhs_dirs. exfat_dir_exists (exfat demo_boot_volume) (Some boot_disk) n = Some True"
    using demo_fhs by (simp add: validate_fhs_def demo_volume_fields all_exist_True)
  then have "\<forall>n \<in> set fhs_dirs. \<forall>s. goes s (expect_root_dir_exfat demo_boot_volume n s)" by (simp add: goes_dir demo_volume_fields)
  then have "goes s (expect_dirs (expect_root_dir_exfat demo_boot_volume) s)" for s
    unfolding expect_dirs_def by (intro goes_then goes_fold goes_steps) (auto simp: goes_def con.frame_refl)
  then have "goes s (and_then (and_then (expect (exfat_probe_boot (Some boot_disk) 1) ''storage test: mounted volume is not exFAT'' s)
      (say ''      MBR/exFAT partition ok'')) (expect_dirs (expect_root_dir_exfat demo_boot_volume)))"
    by (intro goes_then goes_steps demo_probe)
  moreover have "PEANUT_FS_EXFAT \<noteq> PEANUT_FS_FAT32" by (simp add: fs_kinds)
  ultimately show ?thesis unfolding test_partition_def demo_volume_fields by (simp only: if_False if_True refl simp_thms)
qed

lemma goes_zero: "goes s (test_zero s)"
proof -
  have r: "on_dev (\<lambda>d. vfs_pseudo_read d (ascii ''/dev/zero'') 8) s = (Some (replicate 8 0), s)" if "idle (kdev s)"
  proof -
    have "dev_prefix (ascii ''/dev/zero'') (ascii ''/dev'')" "streq (ascii ''/dev/zero'') (ascii ''/dev/zero'')"
      "\<not> streq (ascii ''/dev/zero'') (ascii ''/dev'')" by code_simp+
    then show ?thesis using that
      by (simp add: on_dev_def vfs_pseudo_read_def vfs_pseudo_pread_def devtmpfs_is_path_def devtmpfs_pread_def idle_def)
  qed
  have "goes s (and_then (and_then (and_then
        (expect (Some (replicate 8 (0 :: u8)) \<noteq> None) ''storage test: /dev/zero'' s)
        (expect (length (replicate 8 (0 :: u8)) = 8) ''storage test: /dev/zero len''))
        (expect (replicate 8 (0 :: u8) ! 0 = 0 \<and> replicate 8 (0 :: u8) ! 7 = 0) ''storage test: /dev/zero bytes''))
        (say ''      vfs /dev/zero ok''))"
    by (intro goes_then goes_steps) simp_all
  then show ?thesis
  proof (cases "idle (kdev s)")
    case True
    show ?thesis unfolding test_zero_def r [OF True] Let_def prod.case option.sel by fact
  qed (simp add: goes_def)
qed

lemma goes_both: "goes s (test_both ide [] s)"
  by (simp add: test_both_def goes_def con.frame_refl)

lemma goes_tests: "goes s (storage_tests_run ide [] demo_boot_volume s)"
proof -
  obtain sec where sec: "block_read (Some boot_disk) 1 1 = Some sec" "boot_mark sec" using demo_boot_mark by auto
  have "goes s (and_then (and_then (and_then (and_then (and_then (and_then (and_then
        (say ''    Storage tests:'' s)
        (expect (Some sec \<noteq> None) ''storage test: block read failed''))
        (expect (boot_mark (the (Some sec))) ''storage test: boot sector signature missing''))
        (say ''      block read ok''))
        (expect (fst (partition_scan_mbr (Some boot_disk) (of_nat PARTITION_MAX)) > 0) ''storage test: MBR scan failed''))
        (test_partition demo_boot_volume)) (test_both ide [])) test_zero)"
    by (intro goes_then goes_steps goes_partition goes_both goes_zero) (simp_all add: sec demo_scan del: of_nat_numeral)
  then show ?thesis unfolding storage_tests_run_def demo_volume_fields sec Let_def .
qed

lemma demo_required: "ds \<noteq> [] \<Longrightarrow> storage_init_required [] (map (\<lambda>_. boot_disk) ds) demo_no_volume = Some (Running demo_boot_volume)"
  by (cases ds) (simp_all add: storage_init_required_def demo_mount demo_fhs)

lemma storage_boot_idle:
  assumes i: "idle (kdev s)"
  shows "\<exists>dr' s' d. storage_boot area (\<lambda>_. boot_disk) sata demo_no_volume dr s = Some (dr', Inr s') \<and>
    s' = s\<lparr>kdev := d, root_volume := Some demo_boot_volume\<rparr> \<and> idle d"
proof -
  define s0 where "s0 = print (''Setting up filesystems on block devices...'' @ nl) s"
  have p0: "prints s s0" unfolding s0_def by (rule prints_print)
  have i0: "idle (kdev s0)" by (rule prints_idle [OF p0 i])
  obtain ides where ide: "ide_init (kdev s0) = (ides, kdev s0)" "ides \<noteq> []" using ide_init_idle [OF i0] by blast
  have on: "on_dev ide_init s0 = (ides, s0)" by (simp add: on_dev_def ide)
  have ahci: "ahci_init area s0 = Some ([], s0)" unfolding ahci_init_def by (simp add: find_none [OF i0])
  define s4 where "s4 = print nl (print_int (of_nat (length ides)) (print ''IDE drives found: '' (print nl (print_int 0 (print ''SATA drives found: '' s0)))))"
  have p4: "prints s s4" unfolding s4_def
    by (rule prints_trans [OF prints_print(1) prints_trans [OF prints_print(2) prints_trans [OF prints_print(1)
        prints_trans [OF prints_print(1) prints_trans [OF prints_print(2) prints_trans [OF prints_print(1) p0]]]]]])
  obtain d4 where d4: "s4 = s\<lparr>kdev := d4\<rparr>" "idle d4" using p4 i by (auto simp: prints_def)
  let ?t = "s4\<lparr>root_volume := Some demo_boot_volume\<rparr>"
  have "goes ?t (and_then (say ''FHS found... yes'' ?t) (storage_tests_run (map (\<lambda>_. boot_disk) ides) [] demo_boot_volume))"
    by (intro goes_then goes_steps goes_tests)
  then obtain s' where s': "and_then (say ''FHS found... yes'' ?t) (storage_tests_run (map (\<lambda>_. boot_disk) ides) [] demo_boot_volume) = Some (Inr s')"
    "prints ?t s'" using d4 by (auto simp: goes_def)
  then obtain d where d: "s' = ?t\<lparr>kdev := d\<rparr>" "idle d" using d4 by (auto simp: prints_def)
  have "storage_boot area (\<lambda>_. boot_disk) sata demo_no_volume dr s = Some (dr\<lparr>ata_drives := ides, sata_drives := []\<rparr>, Inr s')"
    unfolding storage_boot_def s0_def [symmetric] on prod.case Let_def ahci option.case list.map
    using s'(1) by (simp add: demo_required [OF ide(2)] s4_def [symmetric])
  then show ?thesis using d d4 by (intro exI conjI) simp_all
qed

section \<open>The first program\<close>

lemma replicate_2: "replicate 2 x = [x, x]"
  by (simp add: numeral_2_eq_2)

lemma start_init_idle:
  assumes s: "heap_ok [] s" "unat (heap_start s) + 2048 \<le> 2 ^ 64" "ksched s = sched_init t"
  shows "\<exists>s' rip rsp. start_init k demo_boot_volume ((m1, ascii ''/sbin/init'') # (m2, ascii ''/INIT'') # rest) s = Some (s', Ring3 rip rsp)"
proof -
  define s1 where "s1 = print m2 (print m1 s)"
  have k: "heap_start s1 = heap_start s" "slab_vm s1 = slab_vm s" "ksched s1 = ksched s" by (simp_all add: s1_def print_def upd_dev_def)
  then have h: "heap_ok [] s1" using s(1) by (simp add: heap_ok_def)
  have "elf_load_and_run (elf_image.truncate k) demo_boot_volume (ascii ''/sbin/init'') (print m1 s) = Some (print m1 s, ExecFail)"
    unfolding elf_load_and_run_def by (subst elf_load_and_run_inner.simps) (simp add: demo_no_sbin)
  moreover have "\<exists>s' rip rsp. elf_load_and_run (elf_image.truncate k) demo_boot_volume (ascii ''/INIT'') s1 = Some (s', EnterRing3 rip rsp)"
  proof -
    obtain s2 where a: "kalloc (vm_image.truncate (elf_image.truncate k)) 1024 s1 = Some (s2, of_nat (unat (heap_start s1)) + 24)"
      using kalloc_first_fit [OF h, of 1024 "[(1024, False)]" 0] s(2) k(1) by (auto simp: first_fit_def round16_def block_addr_def)
    have "unat (heap_start s1 + 24) = unat (heap_start s1) + 24" using s(2) k(1) by (subst unat_word_ariths) simp
    then have "heap_start s1 + 24 \<noteq> 0" by (metis add_is_0 unsigned_0 zero_neq_numeral)
    then have nz: "of_nat (unat (heap_start s1)) + 24 \<noteq> (0 :: u64)" by simp
    have f: "elf_read_file demo_boot_volume (ascii ''/INIT'') (ucast (1024 :: u64)) = Some (Some demo_init_program)" using demo_init_read by simp
    have d: "length demo_init_program = unat (1024 :: u64)" "64 \<le> length demo_init_program"
      "take 4 demo_init_program = [0x7F, 0x45, 0x4C, 0x46]" "take 2 (drop 56 demo_init_program) = [0, 0]"
      using demo_lengths(3) by (simp_all add: demo_init_program_def replicate_2)
    show ?thesis by (rule elf_enters [OF demo_init_size _ _ f a nz d]) (simp_all add: k(3) s(3))
  qed
  ultimately show ?thesis by (auto simp: s1_def)
qed

lemma kmain_idle:
  assumes i: "idle (kdev s)" "heap_start s = 0" "0 < unat (kernel_end k)" "unat (kernel_end k) + 4096 \<le> 2 ^ 64" "length (idt s) = IDT_ENTRIES"
  shows "\<exists>dr' s' rip rsp. kmain k area (\<lambda>_. boot_disk) sata demo_no_volume dr psf 0 s = Some (dr', s', Ring3 rip rsp)"
proof -
  obtain s1 where c: "boot_core k psf 0 s = Some s1" "idle (kdev s1)" "heap_ok [] s1" "unat (heap_start s1) = round16 (unat (kernel_end k))"
    using boot_core_idle [OF i(1,2), of k psf] i(3,4) by auto
  obtain dr1 s2 where b: "boot_drivers k dr s1 = Some (dr1, s2)" "prints s1 s2" using boot_drivers_idle [OF c(2)] by blast
  obtain d2 where d2: "s2 = s1\<lparr>kdev := d2\<rparr>" "idle d2" using b(2) c(2) by (auto simp: prints_def)
  obtain dr2 s3 d3 where st: "storage_boot area (\<lambda>_. boot_disk) sata demo_no_volume dr1 s2 = Some (dr2, Inr s3)"
    "s3 = s2\<lparr>kdev := d3, root_volume := Some demo_boot_volume\<rparr>" using storage_boot_idle [of s2 area sata dr1] d2 by auto
  obtain t where t: "ksched s1 = sched_init t" using boot_core_state(5) [OF c(1) i(5)] by blast
  have "round16 (unat (kernel_end k)) \<le> unat (kernel_end k) + 15" by (simp add: round16_def)
  then have h: "heap_ok [] s3" "unat (heap_start s3) + 2048 \<le> 2 ^ 64" "ksched s3 = sched_init t"
    using c(3,4) i(4) t by (simp_all add: st(2) d2(1) heap_ok_def)
  define m1 m2 where "m1 = ''Loading init process...'' @ nl" and "m2 = ''init not found, trying /INIT...'' @ nl"
  obtain s' rip rsp where "start_init k demo_boot_volume [(m1, ascii ''/sbin/init''), (m2, ascii ''/INIT''), ([], ascii ''/sbin/init'')] s3 = Some (s', Ring3 rip rsp)"
    using start_init_idle [OF h] by blast
  then have "kmain k area (\<lambda>_. boot_disk) sata demo_no_volume dr psf 0 s = Some (dr2, s', Ring3 rip rsp)"
    unfolding kmain_def c(1) b(1) option.case prod.case st(1) sum.case m1_def m2_def by (simp add: st(2) del: start_init.simps)
  then show ?thesis by blast
qed

definition demo_drivers :: drivers where
  "demo_drivers =
     (let dev = \<lparr>dev_name = [], dev_mac = [], dev_ip = 0, dev_driver = Nic_e1000\<rparr>
      in \<lparr>usb = \<lparr>cmd_ring = 0, cmd_index = 0, cmd_cycle = 0, event_ring = 0, event_index = 0, event_cycle = 0, dcbaa = 0\<rparr>, nics = [],
          intel_nic = \<lparr>e1000_mmio = 0, tx_descs = 0, rx_descs = 0, rx_buffers = 0, tx_buffers = 0, e1000_dev = dev, tx_index = 0\<rparr>,
          realtek_nic = \<lparr>rtl_io = 0, rtl_rx_buf = 0, rtl_tx_buf = [0, 0, 0, 0], rtl_tx_cur = 0, rtl_rx_cur = 0, rtl_dev = dev\<rparr>,
          ata_drives = [], sata_drives = []\<rparr>)"


end
