(* ===== verification/Spec2Isabelle.thy ===== *)
theory Spec2Isabelle
  imports Sched Kalloc Fat32_Props Extfs_Props Exfat Elf Ide Pci Initramfs Net_Props Audio Ahci Xhci Fat12 Iso9660 Boot_Props
begin

text \<open>
  \<^bold>\<open>A verification development for the Peanut kernel.\<close>

  Peanut is a small x86-64 kernel in C.  \<^verbatim>\<open>kmain\<close> (\<^verbatim>\<open>src/src/main.c\<close>) sets up the console, memory, the
  segment and interrupt tables, the scheduler and the drivers, mounts a root volume and starts a
  first program; from then on the kernel runs when a program makes a system call or the timer
  interrupts.  Paths below are relative to \<^verbatim>\<open>src/src\<close>.

  \<^bold>\<open>How the program is modelled.\<close>  Every C function is one HOL function on the part of the state it
  uses, with the same guards, order of effects and early returns.  Integers keep their width
  (\<open>u8\<close> to \<open>u64\<close> are words; \<^verbatim>\<open>int\<close> is \<open>int\<close> where no overflow is possible, which the properties
  show or a finding denies).  Pointers are addresses of one byte memory \<open>mem = u64 \<Rightarrow> u8\<close>, so that
  aliasing between page tables, heap headers, user buffers and device rings is real; structures in
  it are read and written at their C offsets.  C strings are byte lists without the final 0.
  Static variables are fields of records that grow with the layers, \<open>vm\<close>, \<open>slab\<close>, \<open>kheap\<close>, \<open>kproc\<close>,
  \<open>kernel\<close>, \<open>machine\<close>, \<open>board\<close> for the core and \<open>hardware\<close>, \<open>entropy\<close>, \<open>ps2\<close>, \<open>vfs\<close>, \<open>console\<close>, \<open>display\<close>
  for the devices; a function of one layer runs unchanged on the states of those above.  Failure is
  a value: \<open>None\<close>, a \<open>-1\<close>, or a constructor such as \<open>Halted\<close>.  The hardware is a parameter: the
  functions behind \<^verbatim>\<open>in\<close>, \<^verbatim>\<open>out\<close>, \<^verbatim>\<open>rdrand\<close>, \<^verbatim>\<open>cpuid\<close> and the register accesses of \<open>board\<close> are fields
  of the state, arbitrary unless a theorem names a law.

  \<^bold>\<open>Loops, bounds and fuel.\<close>  A loop over an index or a list is structural recursion.  A loop that is
  bounded by the data has a termination proof.  A loop the code does not bound, waiting for a
  device or following links on a disk or in memory, is a \<open>partial_function\<close> in the option monad:
  \<open>None\<close> is a run that never ends.  No definition carries fuel.  Where a function can also fail the
  outer option is the loop and the inner one the failure.  The counts of the waiting loops, 100000
  in most drivers, are those of the code.

  \<^bold>\<open>Foundation.\<close>  \<open>Prelude\<close>: words, lists, options and the collections \<open>kernel_defs\<close>, \<open>frame_simps\<close>.
  \<open>Memory\<close>: loads, stores, fills and copies, and \<open>changes m m' A\<close>, which says that a computation
  changed memory only at addresses in \<open>A\<close>; most safety properties are stated with it.

  \<^bold>\<open>Processor and processes.\<close>
  \<^item> \<open>Pic\<close>: \<^verbatim>\<open>cpu/pic.c\<close>, \<^verbatim>\<open>cpu/pit.c\<close>.
  \<^item> \<open>Sched\<close>: \<^verbatim>\<open>cpu/sched.c\<close>, the process table, both choosers, fork, kill, the timer.  An invariant
    over all runs, the child's frame, and properties of histories of scheduler events (\<open>sched_run\<close>):
    the round robin is fair while no process signals itself and starves the others when one does,
    a context is restored as saved, a dead process is never dispatched.  The locale
    \<open>process_table\<close> is what the other layers rely on.
  \<^item> \<open>Tables\<close>: \<^verbatim>\<open>cpu/gdt.c\<close>, \<^verbatim>\<open>cpu/idt.c\<close>.  Selectors name the descriptors they mean, gates lead to the
    handlers installed last.
  \<^item> \<open>Syscall\<close>, \<open>Syscall_Props\<close>: \<^verbatim>\<open>cpu/syscall.c\<close>, \<^verbatim>\<open>abi.h\<close>, \<^verbatim>\<open>freelib/kpanic.c\<close>.  The whole handler; runs
    of calls and timer interrupts are the inductive predicate \<open>kernel_run\<close>, on which the invariant
    \<open>kernel_ok\<close> is proved; opening and reading a file delivers what the volume holds.
  \<^item> \<open>Elf\<close>: \<^verbatim>\<open>programs/elf.c\<close>, \<^verbatim>\<open>programs/elf.h\<close>.  The loader, scripts and dynamic linkers included, and
    the first user stack.

  \<^bold>\<open>Memory.\<close>
  \<^item> \<open>Vm\<close>: \<^verbatim>\<open>mm/vm.c\<close>.  Page tables in memory against a page walk: mapping and translating round-trip,
    other translations stay, the identity map of the boot.
  \<^item> \<open>Slab\<close>: \<^verbatim>\<open>freelib/slab.c\<close>, over the locale \<open>page_source\<close>, which \<open>Vm\<close> interprets; the contract
    \<open>block_allocator\<close>: live blocks are disjoint and survive other calls.
  \<^item> \<open>Kalloc\<close>: \<^verbatim>\<open>freelib/kalloc.c\<close>.  The header chain refines a first-fit allocator on lists.

  \<^bold>\<open>Disks and file systems.\<close>
  \<^item> \<open>Block\<close>, \<open>Partition\<close>: \<^verbatim>\<open>drivers/block/block.c\<close>, \<^verbatim>\<open>fs/partition.c\<close>.
  \<^item> \<open>Ide\<close>: \<^verbatim>\<open>drivers/block/ide.c\<close> on ports; \<open>Ahci\<close>: \<^verbatim>\<open>drivers/block/ahci.c\<close> on registers and memory.  What
    is written to a drive that keeps its specification is read back; for \<open>Ide\<close> the specification is that
    of the ATA task file registers (\<open>ata_drive\<close>), with the drive and address taken from what was
    written to them.
  \<^item> \<open>Fat32\<close>, \<open>Fat32_Data\<close>, \<open>Fat32_Props\<close>: \<^verbatim>\<open>fs/fat32.c\<close>, FAT12, FAT16 and FAT32.  A written file reads
    back, other files stay, listing returns unless the chain loops.
  \<^item> \<open>Extfs\<close>, \<open>Extfs_Props\<close>: \<^verbatim>\<open>fs/extfs.c\<close>.  Byte reads and writes refine an array, the block map of an
    inode is the tree it stands for, what a write changes of a file and omits, for every block map.
  \<^item> \<open>Exfat\<close>: \<^verbatim>\<open>fs/exfat.c\<close>.
  \<^item> \<open>Initramfs\<close>: \<^verbatim>\<open>fs/initramfs.c\<close>.  The parser reads its fields at offsets that are not those of the
    archive format it names: no file of a well-formed archive is found.
  \<^item> \<open>Storage\<close>: \<^verbatim>\<open>storage.c\<close>, the choice of the root volume: exactly when a volume becomes the root.
  \<^item> \<open>Fat12\<close>: \<^verbatim>\<open>fs/fat12.c\<close> on \<^verbatim>\<open>drivers/block/floppy.c\<close>; \<open>Iso9660\<close>: \<^verbatim>\<open>fs/iso9660.c\<close> on
    \<^verbatim>\<open>drivers/block/cdrom.c\<close>.  The configured kernel contains neither, and both drivers fail every read; the
    lemmas show that nothing mounts.

  \<^bold>\<open>Devices.\<close>
  \<^item> \<open>Devices\<close>: \<^verbatim>\<open>drivers/entropy.c\<close>, \<^verbatim>\<open>drivers/input/ps2.c\<close>.
  \<^item> \<open>Vfs\<close>: \<^verbatim>\<open>fs/vfs.c\<close>, \<^verbatim>\<open>fs/devtmpfs.c\<close>, \<^verbatim>\<open>users.c\<close>.
  \<^item> \<open>Console\<close>: \<^verbatim>\<open>freelib/kstdio.c\<close>, \<^verbatim>\<open>drivers/video/fb.c\<close>, \<^verbatim>\<open>drivers/video/psf_font.c\<close>.  Printing stays on
    the screen, numbers print as their decimals.
  \<^item> \<open>Pci\<close>: \<^verbatim>\<open>drivers/bus/pci.c\<close>, \<^verbatim>\<open>drivers/video/hdmi.c\<close>.
  \<^item> \<open>Board\<close>: memory-mapped registers and direct memory access, used by the drivers below.
  \<^item> \<open>Net\<close>, \<open>Net_Props\<close>: \<^verbatim>\<open>drivers/net\<close>.  \<open>Audio\<close>: \<^verbatim>\<open>drivers/audio\<close>.
  \<^item> \<open>Xhci\<close>: \<^verbatim>\<open>drivers/usb/xhci.c\<close>.  The commands put on the ring are those a controller fetches.

  \<^bold>\<open>The boot.\<close>  \<open>Boot\<close>: \<^verbatim>\<open>main.c\<close>, \<^verbatim>\<open>tests/storage_tests.c\<close> and the messages of \<^verbatim>\<open>storage.c\<close>; the locale
  \<open>state_frame\<close> carries what every driver leaves alone through its loops.  \<open>Boot_Props\<close>: the state in
  which the first program is entered, which satisfies the invariant of \<open>Syscall_Props\<close>, and a complete
  run on a machine with one exFAT disk.  The contents of the disks are parameters of the boot, one
  block device for each drive the disk drivers find.

  \<^bold>\<open>Not modelled.\<close>  The assembly files \<^verbatim>\<open>boot/*.asm\<close>, \<^verbatim>\<open>cpu/*.asm\<close> (entry stubs, the context switch, the
  boot page tables): they are code below the C abstract machine; what the C code relies on, the saved
  frame and the addresses of the stubs, appears as \<open>saved_frame\<close> arguments and fields of the images.
  \<^verbatim>\<open>programs/init_sample.c\<close> is a user program.  The write tests of \<^verbatim>\<open>tests/storage_tests.c\<close> are not
  configured.  \<^verbatim>\<open>cpu/spinlock.h\<close>: the kernel runs on one processor with interrupts off inside
  the handlers, the locks are always free; the model has no second processor to contend for them.
\<close>

end
